(* ===== verification/Prelude.thy ===== *)
theory Prelude
  imports Main "HOL-Library.Word"
begin

section \<open>Shared vocabulary of the development\<close>

text \<open>
  What every component uses: the machine integers of the C++ sources, the ways an operation can
  fail, and the ordered containers of the standard library (\<open>std::set\<close> as a sorted list under a
  comparator) with their laws, and the runs of a system of guarded actions.
\<close>

unbundle bit_operations_syntax

subsection \<open>Machine types\<close>

type_synonym u8 = "8 word"
type_synonym u16 = "16 word"
type_synonym u32 = "32 word"
type_synonym u64 = "64 word"

text \<open>
  A pointer value. \<open>0\<close> is \<open>nullptr\<close>; the addresses \<open>operator new\<close> hands out are arguments
  of the operations that allocate.
\<close>

type_synonym ptr = nat

abbreviation (input) nullptr :: ptr where
  "nullptr \<equiv> 0"

lemma word_diff_mono:
  fixes a b c :: "'a::len word"
  assumes "c \<le> a" "a \<le> b"
  shows "a - c \<le> b - c"
  using assms order_trans [OF assms] by (simp add: word_le_nat_alt unat_sub diff_le_mono)

lemma unat_ucast_widen:
  assumes "LENGTH('a::len) \<le> LENGTH('b::len)"
  shows "unat (ucast (x :: 'a word) :: 'b word) = unat x"
proof -
  have "unat x < 2 ^ LENGTH('b)"
    by (rule order_less_le_trans [OF unsigned_less power_increasing [OF assms]]) simp
  then show ?thesis by (simp add: unsigned_ucast_eq take_bit_nat_eq_self)
qed

lemma unat_u8: "unat (x :: u8) < 256"
proof -
  have "unat x < 2 ^ LENGTH(8)" by (rule unsigned_less)
  then show ?thesis by simp
qed

lemma unat_of_nat_small: "n < 2 ^ LENGTH('a) \<Longrightarrow> unat (of_nat n :: 'a::len word) = n"
  by (simp add: unsigned_of_nat take_bit_nat_eq_self)

text \<open>Integer division truncates in C++.\<close>

definition c_div :: "int \<Rightarrow> int \<Rightarrow> int" where
  "c_div a b = sgn a * sgn b * (\<bar>a\<bar> div \<bar>b\<bar>)"

lemma c_div_nonneg: "0 \<le> a \<Longrightarrow> 0 < b \<Longrightarrow> c_div a b = a div b"
  by (auto simp: c_div_def sgn_if)

lemma dvd_next_le:
  fixes d :: nat
  assumes "d dvd a" "d dvd b" "a < b"
  shows "a + d \<le> b"
  using dvd_imp_le [of d "b - a"] assms by (simp add: dvd_diff_nat)

lemma unat_mask_word: "unat (mask n :: 'a::len word) = 2 ^ min LENGTH('a) n - 1"
proof -
  have "unat (mask n :: 'a word) = unat (of_nat (mask n) :: 'a word)"
    by (simp only: of_nat_mask_eq)
  also have "\<dots> = mask (min LENGTH('a) n)"
    by (simp only: unsigned_of_nat take_bit_of_mask of_nat_id)
  finally show ?thesis by (simp add: mask_eq_exp_minus_1)
qed

text \<open>A loop that rewrites the elements of an index range in place.\<close>

lemma length_fold_update [simp]: "length (fold (\<lambda>i t. t[i := f (t ! i)]) is t) = length t"
  by (induction "is" arbitrary: t) auto

lemma nth_fold_update:
  assumes "n \<le> length t" "j < length t"
  shows "fold (\<lambda>i t. t[i := f (t ! i)]) [k..<n] t ! j = (if k \<le> j \<and> j < n then f (t ! j) else t ! j)"
  using assms
proof (induction n)
  case (Suc n)
  then show ?case by (cases "k \<le> n") (auto simp: nth_list_update)
qed simp

text \<open>The number of elements with a property, when one element is replaced.\<close>

definition count_if :: "('a \<Rightarrow> bool) \<Rightarrow> 'a list \<Rightarrow> nat" where
  "count_if P xs = length (filter P xs)"

lemma count_if_update:
  assumes "i < length xs"
  shows "count_if P (xs[i := x]) + (if P (xs ! i) then 1 else 0) = count_if P xs + (if P x then 1 else 0)"
  using assms unfolding count_if_def
proof (induction xs arbitrary: i)
  case (Cons a xs)
  then show ?case by (cases i) (auto split: if_splits)
qed simp

lemma count_if_le: "count_if P xs \<le> length xs"
  by (simp add: count_if_def)

lemma count_if_pos: "x \<in> set xs \<Longrightarrow> P x \<Longrightarrow> 0 < count_if P xs"
  by (auto simp: count_if_def filter_empty_conv)

lemma count_if_zero: "count_if P xs = 0 \<longleftrightarrow> (\<forall>x \<in> set xs. \<not> P x)"
  by (auto simp: count_if_def filter_empty_conv)

lemma of_nat_count:
  assumes "i < length xs"
  shows "(of_nat (count_if P (xs[i := x])) :: 'a::len word) =
    of_nat (count_if P xs) + (if P x then 1 else 0) - (if P (xs ! i) then 1 else 0)"
proof -
  have "(of_nat (count_if P (xs[i := x]) + (if P (xs ! i) then 1 else 0)) :: 'a word) =
      of_nat (count_if P xs + (if P x then 1 else 0))"
    by (simp only: count_if_update [OF assms])
  then show ?thesis by (auto simp: algebra_simps split: if_splits)
qed

subsection \<open>Failures\<close>

text \<open>
  \<open>Assertion\<close>: a \<open>QLC_ASSERT\<close> that fails, which logs and aborts the process.
  \<open>Undefined\<close>: an operation the C++ standard gives no meaning to (a null or end iterator
  dereferenced, an index outside a container, an oversized shift).
  \<open>Logic_error\<close>, \<open>Invalid_argument\<close>, \<open>Std_exception\<close>: an exception that leaves the
  operation.
\<close>

datatype error =
    Assertion string
  | Undefined string
  | Logic_error string
  | Invalid_argument string
  | Std_exception string

type_synonym 'a res = "error + 'a"

definition rbind :: "'a res \<Rightarrow> ('a \<Rightarrow> 'b res) \<Rightarrow> 'b res" where
  "rbind r f = (case r of Inl e \<Rightarrow> Inl e | Inr a \<Rightarrow> f a)"

definition qlc_assert :: "bool \<Rightarrow> string \<Rightarrow> 'a res \<Rightarrow> 'a res" where
  "qlc_assert b msg k = (if b then k else Inl (Assertion msg))"

lemma rbind_simps [simp]:
  "rbind (Inl e) f = Inl e"
  "rbind (Inr a) f = f a"
  by (simp_all add: rbind_def)

lemma rbind_eq_Inr [simp]: "rbind r f = Inr b \<longleftrightarrow> (\<exists>a. r = Inr a \<and> f a = Inr b)"
  by (cases r) auto

lemma qlc_assert_True [simp]: "qlc_assert True msg k = k"
  by (simp add: qlc_assert_def)

lemma qlc_assert_False [simp]: "qlc_assert False msg k = Inl (Assertion msg)"
  by (simp add: qlc_assert_def)

lemma qlc_assert_eq_Inr [simp]: "qlc_assert b msg k = Inr a \<longleftrightarrow> b \<and> k = Inr a"
  by (simp add: qlc_assert_def)

subsection \<open>Ordered containers\<close>

text \<open>
  \<open>std::set\<close> with a comparator is the list of its elements in iteration order. Insertion keeps
  the element already there when the comparator finds an equivalent one; \<open>find\<close> gives the
  position of the equivalent element and \<open>None\<close> for \<open>end()\<close>; \<open>lower_bound\<close> gives the
  position of the first element that is not less than the key.
\<close>

fun oset_insert :: "('a \<Rightarrow> 'a \<Rightarrow> bool) \<Rightarrow> 'a \<Rightarrow> 'a list \<Rightarrow> 'a list" where
  "oset_insert lt x [] = [x]"
| "oset_insert lt x (y # ys) =
     (if lt x y then x # y # ys
      else if lt y x then y # oset_insert lt x ys
      else y # ys)"

fun oset_find :: "('a \<Rightarrow> 'a \<Rightarrow> bool) \<Rightarrow> 'a \<Rightarrow> 'a list \<Rightarrow> nat option" where
  "oset_find lt x [] = None"
| "oset_find lt x (y # ys) =
     (if lt y x then map_option Suc (oset_find lt x ys)
      else if lt x y then None
      else Some 0)"

fun oset_lower_bound :: "('a \<Rightarrow> 'a \<Rightarrow> bool) \<Rightarrow> 'a \<Rightarrow> 'a list \<Rightarrow> nat" where
  "oset_lower_bound lt x [] = 0"
| "oset_lower_bound lt x (y # ys) = (if lt y x then Suc (oset_lower_bound lt x ys) else 0)"

definition erase_at :: "nat \<Rightarrow> 'a list \<Rightarrow> 'a list" where
  "erase_at i xs = take i xs @ drop (Suc i) xs"

lemma oset_lower_bound_takeWhile:
  "oset_lower_bound lt x xs = length (takeWhile (\<lambda>y. lt y x) xs)"
  by (induction xs) auto

lemma take_oset_lower_bound:
  "take (oset_lower_bound lt x xs) xs = takeWhile (\<lambda>y. lt y x) xs"
  by (induction xs) auto

lemma erase_at_simps [simp]:
  "erase_at 0 (x # xs) = xs"
  "erase_at (Suc i) (x # xs) = x # erase_at i xs"
  "erase_at i [] = []"
  by (simp_all add: erase_at_def)

lemma set_erase_at_subset: "set (erase_at i xs) \<subseteq> set xs"
  by (auto simp: erase_at_def dest: in_set_takeD in_set_dropD)

lemma sorted_wrt_remove1: "sorted_wrt P xs \<Longrightarrow> sorted_wrt P (remove1 x xs)"
  by (induction xs) (auto dest: set_remove1_subset [THEN subsetD])

lemma oset_find_less: "oset_find lt x xs = Some i \<Longrightarrow> i < length xs"
  by (induction xs arbitrary: i) (auto split: if_splits)

lemma oset_insert_nonempty [simp]: "oset_insert lt x xs \<noteq> []"
  by (cases xs) auto

lemma oset_insert_subset: "set (oset_insert lt x xs) \<subseteq> insert x (set xs)"
  by (induction xs) auto

lemma oset_insert_cong:
  assumes "\<And>y. y \<in> set xs \<Longrightarrow> lt x y = lt' x y \<and> lt y x = lt' y x"
  shows "oset_insert lt x xs = oset_insert lt' x xs"
  using assms by (induction xs) auto

text \<open>
  On a sequence sorted by a key, the elements up to a cut point \<open>v\<close>: first those before a
  position that separates the keys below \<open>v\<close> from the others, then the run of keys equal to it.
\<close>

lemma takeWhile_cut:
  fixes f :: "'a \<Rightarrow> 'b::linorder"
  assumes "sorted (map f ts)"
    and "\<And>y. y \<in> set ts \<Longrightarrow> P y \<Longrightarrow> f y \<le> v" "\<And>y. y \<in> set ts \<Longrightarrow> \<not> P y \<Longrightarrow> v \<le> f y"
  shows "takeWhile P ts @ takeWhile (\<lambda>y. f y = v) (dropWhile P ts) = takeWhile (\<lambda>y. f y \<le> v) ts"
  using assms
proof (induction ts)
  case (Cons y ys)
  show ?case
  proof (cases "P y")
    case True
    with Cons show ?thesis by simp
  next
    case False
    with Cons.prems have "v \<le> f z" if "z \<in> set (y # ys)" for z
      using that by (auto dest: order_trans)
    then have "takeWhile (\<lambda>y. f y = v) (y # ys) = takeWhile (\<lambda>y. f y \<le> v) (y # ys)"
      by (intro takeWhile_cong) force+
    with False show ?thesis by simp
  qed
qed simp

lemma takeWhile_le_filter:
  fixes f :: "'a \<Rightarrow> 'b::linorder"
  assumes "sorted (map f ts)"
  shows "takeWhile (\<lambda>y. f y \<le> v) ts = filter (\<lambda>y. f y \<le> v) ts"
    and "dropWhile (\<lambda>y. f y \<le> v) ts = filter (\<lambda>y. v < f y) ts"
proof -
  have "takeWhile (\<lambda>y. f y \<le> v) ts = filter (\<lambda>y. f y \<le> v) ts \<and>
      dropWhile (\<lambda>y. f y \<le> v) ts = filter (\<lambda>y. v < f y) ts"
    using assms
  proof (induction ts)
    case (Cons y ys)
    show ?case
    proof (cases "f y \<le> v")
      case False
      with Cons.prems have "v < f z" if "z \<in> set (y # ys)" for z
        using that by force
      then have "filter (\<lambda>y. f y \<le> v) (y # ys) = []" "filter (\<lambda>y. v < f y) (y # ys) = y # ys"
        by (auto simp: filter_empty_conv filter_id_conv not_le)
      with False show ?thesis by simp
    qed (use Cons in auto)
  qed simp
  then show "takeWhile (\<lambda>y. f y \<le> v) ts = filter (\<lambda>y. f y \<le> v) ts"
    and "dropWhile (\<lambda>y. f y \<le> v) ts = filter (\<lambda>y. v < f y) ts" by simp_all
qed

text \<open>The contract \<open>std::set\<close> asks of its comparator, and what the container then promises.\<close>

locale comparator =
  fixes lt :: "'a \<Rightarrow> 'a \<Rightarrow> bool"
  assumes lt_irrefl: "\<not> lt x x"
    and lt_trans: "lt x y \<Longrightarrow> lt y z \<Longrightarrow> lt x z"
    and incomparable_trans:
      "\<not> lt x y \<Longrightarrow> \<not> lt y x \<Longrightarrow> \<not> lt y z \<Longrightarrow> \<not> lt z y \<Longrightarrow> \<not> lt x z \<and> \<not> lt z x"
begin

lemma lt_asym: "lt x y \<Longrightarrow> \<not> lt y x"
  using lt_irrefl lt_trans by blast

lemma lt_not_lt_trans: "lt x y \<Longrightarrow> \<not> lt z y \<Longrightarrow> lt x z"
  using lt_trans lt_irrefl incomparable_trans by metis

lemma not_lt_lt_trans: "\<not> lt y x \<Longrightarrow> lt y z \<Longrightarrow> lt x z"
  using lt_trans lt_irrefl incomparable_trans by metis

lemma sorted_insert: "sorted_wrt lt xs \<Longrightarrow> sorted_wrt lt (oset_insert lt x xs)"
proof (induction xs)
  case (Cons y ys)
  then show ?case
    using oset_insert_subset [of lt x ys] by (auto dest: lt_trans)
qed simp

lemma set_insert_fresh:
  "(\<And>y. y \<in> set xs \<Longrightarrow> lt x y \<or> lt y x) \<Longrightarrow> set (oset_insert lt x xs) = insert x (set xs)"
  by (induction xs) auto

lemma insert_equivalent:
  assumes "sorted_wrt lt xs" "y \<in> set xs" "\<not> lt x y" "\<not> lt y x"
  shows "oset_insert lt x xs = xs"
  using assms
proof (induction xs)
  case (Cons z zs)
  show ?case
  proof (cases "y = z")
    case False
    with Cons.prems have "y \<in> set zs" "lt z y" by auto
    then have "lt z x" using Cons.prems(3) lt_not_lt_trans by blast
    with Cons \<open>y \<in> set zs\<close> show ?thesis using lt_asym by auto
  qed (use Cons.prems in auto)
qed simp

lemma find_Some:
  assumes "sorted_wrt lt xs" "oset_find lt x xs = Some i"
  shows "i < length xs \<and> \<not> lt x (xs ! i) \<and> \<not> lt (xs ! i) x"
  using assms by (induction xs arbitrary: i) (auto split: if_splits)

lemma find_None:
  assumes "sorted_wrt lt xs" "oset_find lt x xs = None" "y \<in> set xs"
  shows "lt x y \<or> lt y x"
  using assms by (induction xs) (auto split: if_splits intro: lt_trans)

lemma sorted_erase_at: "sorted_wrt lt xs \<Longrightarrow> sorted_wrt lt (erase_at i xs)"
proof (induction xs arbitrary: i)
  case (Cons y ys)
  then show ?case
    using set_erase_at_subset by (cases i) fastforce+
qed simp

lemma sorted_distinct: "sorted_wrt lt xs \<Longrightarrow> distinct xs"
  by (induction xs) (auto simp: lt_irrefl)

end

text \<open>A comparator under which only equal elements are equivalent.\<close>

locale total_comparator = comparator +
  assumes lt_total: "\<not> lt x y \<Longrightarrow> \<not> lt y x \<Longrightarrow> x = y"
begin

lemma set_insert: "set (oset_insert lt x xs) = insert x (set xs)"
  by (induction xs) (auto dest: lt_total)

lemma find_member:
  assumes "sorted_wrt lt xs" "x \<in> set xs"
  obtains i where "oset_find lt x xs = Some i" "i < length xs" "xs ! i = x"
    "erase_at i xs = remove1 x xs"
proof -
  have "\<exists>i. oset_find lt x xs = Some i \<and> i < length xs \<and> xs ! i = x \<and>
      erase_at i xs = remove1 x xs"
    using assms
  proof (induction xs)
    case (Cons y ys)
    then show ?case by (cases "x = y") (auto simp: lt_irrefl dest: lt_asym)
  qed simp
  then show ?thesis using that by blast
qed

lemma find_not_member: "x \<notin> set xs \<Longrightarrow> oset_find lt x xs = None"
  by (induction xs) (auto dest: lt_total)

lemma insert_at_front:
  "sorted_wrt lt xs \<Longrightarrow> hd (oset_insert lt x xs) = x \<longleftrightarrow> (\<forall>y \<in> set xs. x = y \<or> lt x y)"
  by (cases xs) (auto simp: lt_irrefl dest: lt_total lt_asym intro: lt_trans)

end

subsection \<open>Systems of guarded actions\<close>

text \<open>
  A component whose operations happen in any order is given by its actions: when one may happen, and
  what it does, which may be an error. \<open>runs\<close>: a sequence of actions, each of which may happen.
\<close>

fun runs :: "('a \<Rightarrow> 's \<Rightarrow> bool) \<Rightarrow> ('a \<Rightarrow> 's \<Rightarrow> 's res) \<Rightarrow> 'a list \<Rightarrow> 's \<Rightarrow> 's \<Rightarrow> bool" where
  "runs guard exec [] s s' \<longleftrightarrow> s' = s"
| "runs guard exec (a # as) s s' \<longleftrightarrow> guard a s \<and> (\<exists>s1. exec a s = Inr s1 \<and> runs guard exec as s1 s')"

lemma runs_append: "runs guard exec (as @ bs) s s' \<longleftrightarrow> (\<exists>s1. runs guard exec as s s1 \<and> runs guard exec bs s1 s')"
  by (induction as arbitrary: s) auto

text \<open>The contract: in a state of the invariant an action that may happen has a result, with the invariant.\<close>

locale guarded_system =
  fixes guard :: "'a \<Rightarrow> 's \<Rightarrow> bool" and exec :: "'a \<Rightarrow> 's \<Rightarrow> 's res" and inv :: "'s \<Rightarrow> bool"
  assumes step: "inv s \<Longrightarrow> guard a s \<Longrightarrow> \<exists>s'. exec a s = Inr s' \<and> inv s'"
begin

lemma run_inv: "runs guard exec as s s' \<Longrightarrow> inv s \<Longrightarrow> inv s'"
proof (induction as arbitrary: s)
  case (Cons a as)
  then obtain s1 where "guard a s" "exec a s = Inr s1" "runs guard exec as s1 s'" by auto
  then show ?case using Cons step [of s a] by auto
qed simp

lemma run_progress: "runs guard exec as s s' \<Longrightarrow> inv s \<Longrightarrow> guard a s' \<Longrightarrow> \<exists>s2. runs guard exec (as @ [a]) s s2 \<and> inv s2"
  using run_inv step by (fastforce simp: runs_append)

end

end
