(* ===== verification/Fiber.thy ===== *)
theory Fiber
  imports Prelude
begin

section \<open>Fibers (fiber.h, fiber.cpp)\<close>

text \<open>
  Fibers are objects on a heap shared by the threads; each thread has its thread-local
  \<open>t_fiber\<close>, \<open>t_threadFiber\<close> and, from schedular.cpp, \<open>t_schedular_fiber\<close>. A context
  (\<open>ucontext_t\<close>) is modelled by what resuming it does. \<open>running\<close> is the fiber whose stack the
  thread is executing, which the program only knows as \<open>t_fiber\<close>. Every function is modelled up
  to the point where it switches stacks; \<open>getcontext\<close> and \<open>swapcontext\<close> themselves succeed, as
  they do on Linux for a valid argument. Addresses returned by \<open>new\<close> and \<open>malloc\<close> are arguments.
\<close>

subsection \<open>State\<close>

text \<open>\<open>Fiber::State\<close>; \<open>FTERM\<close> is \<open>TERM\<close>, a reserved word of the logic.\<close>

datatype fiber_state = INIT | HOLD | EXEC | FTERM | READY | EXCEPT

datatype fiber_entry = MainFunc_entry | CallerMainFunc_entry

text \<open>
  \<open>Captured\<close>: the point in the constructor of a main fiber; resuming it would run the rest of
  the constructor again. \<open>Entry\<close>: \<open>makecontext\<close> was called and the function not yet entered.
  \<open>Resume\<close>: the fiber stopped inside a \<open>swapcontext\<close>. \<open>Never_reach\<close>: it stopped in the last
  switch of its main function, before the assertion that must not be reached.
\<close>

datatype ucontext =
    Captured
  | Entry fiber_entry ptr
  | Resume ptr
  | Never_reach ptr

record 'cb fiber =
  fb_id :: u64
  fb_stacksize :: u32
  fb_state :: fiber_state
  fb_ctx :: ucontext
  fb_stack :: ptr
  fb_cb :: "'cb option"

record 'cb fiber_heap =
  fibers :: "ptr \<rightharpoonup> 'cb fiber"
  s_fiber_id :: u64
  s_fiber_count :: u64

record fiber_tls =
  t_fiber :: ptr
  t_threadFiber :: ptr
  t_schedular_fiber :: ptr
  running :: ptr

type_synonym 'cb fiber_world = "fiber_tls \<times> 'cb fiber_heap"

definition live :: "'cb fiber_heap \<Rightarrow> ptr \<Rightarrow> 'cb fiber res" where
  "live h p = (case fibers h p of
     None \<Rightarrow> Inl (Undefined ''fiber pointer dereferenced'') | Some f \<Rightarrow> Inr f)"

definition upd_fiber :: "ptr \<Rightarrow> ('cb fiber \<Rightarrow> 'cb fiber) \<Rightarrow> 'cb fiber_heap \<Rightarrow> 'cb fiber_heap" where
  "upd_fiber p g h = h\<lparr>fibers := (fibers h)(p := map_option g (fibers h p))\<rparr>"

subsection \<open>Current fiber\<close>

definition GetFiberId :: "'cb fiber_world \<Rightarrow> u64 res" where
  "GetFiberId = (\<lambda>(t, h).
     if t_fiber t \<noteq> nullptr then rbind (live h (t_fiber t)) (\<lambda>f. Inr (fb_id f)) else Inr 0)"

definition SetThis :: "ptr \<Rightarrow> fiber_tls \<Rightarrow> fiber_tls" where
  "SetThis f t = t\<lparr>t_fiber := f\<rparr>"

definition TotalFibers :: "'cb fiber_heap \<Rightarrow> u64" where
  "TotalFibers h = s_fiber_count h"

subsection \<open>Construction and destruction\<close>

text \<open>The main fiber of a thread, allocated at \<open>this\<close>: its members keep their initializers.\<close>

definition Fiber_ctor_main :: "ptr \<Rightarrow> 'cb fiber_world \<Rightarrow> 'cb fiber_world" where
  "Fiber_ctor_main this = (\<lambda>(t, h).
     (SetThis this t,
      h\<lparr>fibers := (fibers h)(this \<mapsto>
          \<lparr> fb_id = 0, fb_stacksize = 0, fb_state = EXEC, fb_ctx = Captured, fb_stack = nullptr,
            fb_cb = None \<rparr>),
        s_fiber_count := s_fiber_count h + 1\<rparr>))"

text \<open>
  A fiber for a callback. \<open>stack\<close> is what \<open>malloc\<close> returns; the size is a 64-bit value stored
  in 32 bits, \<open>cfg\<close> the value of the configuration variable \<open>fiber.stack_size\<close>.
\<close>

definition Fiber_ctor :: "ptr \<Rightarrow> ptr \<Rightarrow> u32 \<Rightarrow> 'cb option \<Rightarrow> u64 \<Rightarrow> bool \<Rightarrow> 'cb fiber_heap \<Rightarrow> 'cb fiber_heap" where
  "Fiber_ctor this stack cfg cb stack_size use_caller h =
     h\<lparr>fibers := (fibers h)(this \<mapsto>
         \<lparr> fb_id = s_fiber_id h + 1,
           fb_stacksize = ucast (if stack_size \<noteq> 0 then stack_size else ucast cfg),
           fb_state = INIT,
           fb_ctx = Entry (if \<not> use_caller then MainFunc_entry else CallerMainFunc_entry) this,
           fb_stack = stack, fb_cb = cb \<rparr>),
       s_fiber_id := s_fiber_id h + 1,
       s_fiber_count := s_fiber_count h + 1\<rparr>"

definition Fiber_dtor :: "ptr \<Rightarrow> 'cb fiber_world \<Rightarrow> 'cb fiber_world res" where
  "Fiber_dtor this = (\<lambda>(t, h).
     rbind (live h this) (\<lambda>f.
       let h' = h\<lparr>s_fiber_count := s_fiber_count h - 1, fibers := (fibers h)(this := None)\<rparr> in
       if fb_stack f \<noteq> nullptr then
         qlc_assert (fb_state f \<in> {FTERM, EXCEPT, INIT}) ''fiber state in destructor'' (Inr (t, h'))
       else
         qlc_assert (fb_cb f = None) ''!m_cb''
           (qlc_assert (fb_state f = EXEC) ''main fiber state''
             (Inr (if t_fiber t = this then SetThis nullptr t else t, h')))))"

definition Fiber_reset :: "ptr \<Rightarrow> 'cb option \<Rightarrow> 'cb fiber_heap \<Rightarrow> 'cb fiber_heap res" where
  "Fiber_reset this cb h =
     rbind (live h this) (\<lambda>f.
       qlc_assert (fb_stack f \<noteq> nullptr) ''m_stack''
         (qlc_assert (fb_state f \<in> {FTERM, EXCEPT, INIT}) ''fiber state in reset''
           (Inr (upd_fiber this
              (\<lambda>f. f\<lparr>fb_cb := cb, fb_ctx := Entry MainFunc_entry this, fb_state := INIT\<rparr>) h))))"

definition Fiber_GetThis :: "ptr \<Rightarrow> 'cb fiber_world \<Rightarrow> ('cb fiber_world \<times> ptr) res" where
  "Fiber_GetThis fresh = (\<lambda>(t, h).
     if t_fiber t \<noteq> nullptr then rbind (live h (t_fiber t)) (\<lambda>_. Inr ((t, h), t_fiber t))
     else
       let (t', h') = Fiber_ctor_main fresh (t, h) in
       qlc_assert (t_fiber t' = fresh) ''t_fiber==main.get()''
         (Inr ((t'\<lparr>t_threadFiber := fresh\<rparr>, h'), t_fiber t')))"

subsection \<open>Switching\<close>

text \<open>
  \<open>swapcontext(&from->m_ctx, &to->m_ctx)\<close>: the point where the running fiber stands is stored
  in the context of \<open>from\<close>, and the context of \<open>to\<close> decides what the thread executes next.
\<close>

definition resume :: "ucontext \<Rightarrow> fiber_tls \<Rightarrow> fiber_tls res" where
  "resume c t =
     (case c of
        Captured \<Rightarrow> Inl (Undefined ''context of a constructor resumed'')
      | Entry e p \<Rightarrow> Inr (t\<lparr>running := p\<rparr>)
      | Resume p \<Rightarrow> Inr (t\<lparr>running := p\<rparr>)
      | Never_reach p \<Rightarrow> Inl (Assertion ''never reach''))"

definition swapcontext :: "(ptr \<Rightarrow> ucontext) \<Rightarrow> ptr \<Rightarrow> ptr \<Rightarrow> 'cb fiber_world \<Rightarrow> 'cb fiber_world res" where
  "swapcontext here from to = (\<lambda>(t, h).
     rbind (live h from) (\<lambda>_.
     rbind (live h to) (\<lambda>_.
       let h' = upd_fiber from (\<lambda>f. f\<lparr>fb_ctx := here (running t)\<rparr>) h in
       rbind (live h' to) (\<lambda>f.
       rbind (resume (fb_ctx f) t) (\<lambda>t'. Inr (t', h'))))))"

definition Fiber_call :: "ptr \<Rightarrow> 'cb fiber_world \<Rightarrow> 'cb fiber_world res" where
  "Fiber_call this = (\<lambda>(t, h).
     rbind (live h this) (\<lambda>_.
       let t = SetThis this t; h = upd_fiber this (\<lambda>f. f\<lparr>fb_state := EXEC\<rparr>) h
       in swapcontext Resume (t_threadFiber t) this (t, h)))"

definition swapIn :: "ptr \<Rightarrow> 'cb fiber_world \<Rightarrow> 'cb fiber_world res" where
  "swapIn this = (\<lambda>(t, h).
     rbind (live h this) (\<lambda>f.
       let t = SetThis this t in
       qlc_assert (fb_state f \<noteq> EXEC) ''m_state != EXEC''
         (let h = upd_fiber this (\<lambda>f. f\<lparr>fb_state := EXEC\<rparr>) h
          in swapcontext Resume (t_schedular_fiber t) this (t, h))))"

text \<open>\<open>here\<close> is the program point the switch is called from: inside the fiber, or at its end.\<close>

definition swapOut :: "(ptr \<Rightarrow> ucontext) \<Rightarrow> ptr \<Rightarrow> 'cb fiber_world \<Rightarrow> 'cb fiber_world res" where
  "swapOut here this = (\<lambda>(t, h).
     let t = SetThis (t_schedular_fiber t) t
     in swapcontext here this (t_schedular_fiber t) (t, h))"

definition Fiber_back :: "(ptr \<Rightarrow> ucontext) \<Rightarrow> ptr \<Rightarrow> 'cb fiber_world \<Rightarrow> 'cb fiber_world res" where
  "Fiber_back here this = (\<lambda>(t, h).
     let t = SetThis (t_threadFiber t) t
     in swapcontext here this (t_threadFiber t) (t, h))"

definition YieldToReady :: "ptr \<Rightarrow> 'cb fiber_world \<Rightarrow> 'cb fiber_world res" where
  "YieldToReady fresh w =
     rbind (Fiber_GetThis fresh w) (\<lambda>((t, h), cur).
     rbind (live h cur) (\<lambda>f.
       qlc_assert (fb_state f = EXEC) ''cur->m_state==EXEC''
         (swapOut Resume cur (t, upd_fiber cur (\<lambda>f. f\<lparr>fb_state := READY\<rparr>) h))))"

definition YieldToHold :: "ptr \<Rightarrow> 'cb fiber_world \<Rightarrow> 'cb fiber_world res" where
  "YieldToHold fresh w =
     rbind (Fiber_GetThis fresh w) (\<lambda>((t, h), cur).
     rbind (live h cur) (\<lambda>f.
       qlc_assert (fb_state f = EXEC) ''cur->m_state==EXEC''
         (swapOut Resume cur (t, upd_fiber cur (\<lambda>f. f\<lparr>fb_state := HOLD\<rparr>) h))))"

subsection \<open>The main functions\<close>

text \<open>
  How the call of \<open>m_cb\<close> ends: it returns, throws a \<open>std::exception\<close> (calling an empty
  \<open>std::function\<close> throws \<open>std::bad_function_call\<close>), or throws something else, which no handler
  catches. \<open>cur\<close> is what \<open>GetThis\<close> returned when the function was entered.
\<close>

datatype outcome = Returns | Throws_std string | Throws_other

definition call_outcome :: "'cb fiber \<Rightarrow> outcome \<Rightarrow> outcome" where
  "call_outcome f out = (case fb_cb f of None \<Rightarrow> Throws_std ''bad_function_call'' | Some _ \<Rightarrow> out)"

definition run_callback :: "ptr \<Rightarrow> outcome \<Rightarrow> 'cb fiber_heap \<Rightarrow> 'cb fiber_heap res" where
  "run_callback cur out h =
     rbind (live h cur) (\<lambda>f.
       case call_outcome f out of
         Returns \<Rightarrow> Inr (upd_fiber cur (\<lambda>f. f\<lparr>fb_cb := None, fb_state := FTERM\<rparr>) h)
       | Throws_std what \<Rightarrow> Inr (upd_fiber cur (\<lambda>f. f\<lparr>fb_state := EXCEPT\<rparr>) h)
       | Throws_other \<Rightarrow> Inl (Std_exception ''std::terminate''))"

definition MainFunc :: "ptr \<Rightarrow> outcome \<Rightarrow> 'cb fiber_world \<Rightarrow> 'cb fiber_world res" where
  "MainFunc cur out = (\<lambda>(t, h).
     qlc_assert (cur \<noteq> nullptr) ''cur''
       (rbind (run_callback cur out h) (\<lambda>h'. swapOut Never_reach cur (t, h'))))"

definition CallerMainFunc :: "ptr \<Rightarrow> outcome \<Rightarrow> 'cb fiber_world \<Rightarrow> 'cb fiber_world res" where
  "CallerMainFunc cur out = (\<lambda>(t, h).
     qlc_assert (cur \<noteq> nullptr) ''cur''
       (rbind (run_callback cur out h) (\<lambda>h'. Fiber_back Never_reach cur (t, h'))))"

subsection \<open>The discipline of a thread\<close>

text \<open>
  What a thread does with its fibers: the scheduling fiber \<open>t_schedular_fiber\<close> (the thread's
  main fiber, or the root fiber of a scheduler that uses the caller's thread) creates, resets,
  destroys and switches to task fibers; a task fiber yields or ends; the main fiber of the
  caller's thread calls the root fiber, which returns to it when it ends. An operation has a
  guard: the situations the scheduler makes the call in.
\<close>

datatype 'cb fiber_op =
    Op_new ptr ptr u32 "'cb option" u64
  | Op_reset ptr "'cb option"
  | Op_delete ptr
  | Op_swapIn ptr
  | Op_yield_ready
  | Op_yield_hold
  | Op_finish outcome
  | Op_call_root
  | Op_root_finish outcome

fun fiber_exec :: "'cb fiber_op \<Rightarrow> 'cb fiber_world \<Rightarrow> 'cb fiber_world res" where
  "fiber_exec (Op_new this stack cfg cb sz) (t, h) = Inr (t, Fiber_ctor this stack cfg cb sz False h)"
| "fiber_exec (Op_reset p cb) (t, h) = rbind (Fiber_reset p cb h) (\<lambda>h'. Inr (t, h'))"
| "fiber_exec (Op_delete p) w = Fiber_dtor p w"
| "fiber_exec (Op_swapIn p) w = swapIn p w"
| "fiber_exec Op_yield_ready w = YieldToReady nullptr w"
| "fiber_exec Op_yield_hold w = YieldToHold nullptr w"
| "fiber_exec (Op_finish out) (t, h) = MainFunc (running t) out (t, h)"
| "fiber_exec Op_call_root (t, h) = Fiber_call (t_schedular_fiber t) (t, h)"
| "fiber_exec (Op_root_finish out) (t, h) = CallerMainFunc (running t) out (t, h)"

definition is_task :: "fiber_tls \<Rightarrow> ptr \<Rightarrow> bool" where
  "is_task t p \<longleftrightarrow> p \<noteq> t_schedular_fiber t \<and> p \<noteq> t_threadFiber t"

definition has_state :: "'cb fiber_heap \<Rightarrow> ptr \<Rightarrow> fiber_state set \<Rightarrow> bool" where
  "has_state h p S \<longleftrightarrow> (\<exists>f. fibers h p = Some f \<and> fb_state f \<in> S)"

definition ends_caught :: "'cb fiber_heap \<Rightarrow> ptr \<Rightarrow> outcome \<Rightarrow> bool" where
  "ends_caught h p out \<longleftrightarrow> (\<exists>f. fibers h p = Some f \<and> call_outcome f out \<noteq> Throws_other)"

fun fiber_guard :: "'cb fiber_op \<Rightarrow> 'cb fiber_world \<Rightarrow> bool" where
  "fiber_guard (Op_new this stack cfg cb sz) (t, h) \<longleftrightarrow>
     this \<noteq> nullptr \<and> stack \<noteq> nullptr \<and> fibers h this = None"
| "fiber_guard (Op_reset p cb) (t, h) \<longleftrightarrow> is_task t p \<and> has_state h p {FTERM, EXCEPT, INIT}"
| "fiber_guard (Op_delete p) (t, h) \<longleftrightarrow> is_task t p \<and> has_state h p {FTERM, EXCEPT, INIT}"
| "fiber_guard (Op_swapIn p) (t, h) \<longleftrightarrow>
     running t = t_schedular_fiber t \<and> is_task t p \<and> has_state h p {INIT, HOLD, READY}"
| "fiber_guard Op_yield_ready (t, h) \<longleftrightarrow> is_task t (running t)"
| "fiber_guard Op_yield_hold (t, h) \<longleftrightarrow> is_task t (running t)"
| "fiber_guard (Op_finish out) (t, h) \<longleftrightarrow> is_task t (running t) \<and> ends_caught h (running t) out"
| "fiber_guard Op_call_root (t, h) \<longleftrightarrow> running t = t_threadFiber t \<and>
     t_schedular_fiber t \<noteq> t_threadFiber t \<and> has_state h (t_schedular_fiber t) {INIT}"
| "fiber_guard (Op_root_finish out) (t, h) \<longleftrightarrow> running t = t_schedular_fiber t \<and>
     t_schedular_fiber t \<noteq> t_threadFiber t \<and> ends_caught h (running t) out"

text \<open>
  The invariant. \<open>own_ctx\<close>: a fiber that is not running has a context that resumes itself, at
  its entry, at the switch it stopped in, or, only when it has ended, at the point that must not
  be reached.
\<close>

definition own_ctx :: "ptr \<Rightarrow> 'cb fiber \<Rightarrow> bool" where
  "own_ctx p f \<longleftrightarrow>
     (case fb_ctx f of
        Captured \<Rightarrow> False
      | Entry e q \<Rightarrow> q = p
      | Resume q \<Rightarrow> q = p
      | Never_reach q \<Rightarrow> q = p \<and> fb_state f \<in> {FTERM, EXCEPT})"

definition fiber_inv :: "'cb fiber_world \<Rightarrow> bool" where
  "fiber_inv = (\<lambda>(t, h).
     t_fiber t = running t \<and> running t \<noteq> nullptr \<and>
     fibers h (t_schedular_fiber t) \<noteq> None \<and> fibers h (t_threadFiber t) \<noteq> None \<and>
     has_state h (running t) {EXEC} \<and>
     (running t \<noteq> t_threadFiber t \<longrightarrow> has_state h (t_schedular_fiber t) {EXEC}) \<and>
     has_state h (t_threadFiber t) {EXEC} \<and>
     (\<forall>p f. fibers h p = Some f \<longrightarrow> p \<noteq> nullptr \<and>
        (p \<noteq> running t \<longrightarrow> own_ctx p f) \<and>
        (is_task t p \<longrightarrow> fb_stack f \<noteq> nullptr \<and> (p \<noteq> running t \<longrightarrow> fb_state f \<noteq> EXEC))))"

lemma fibers_upd_fiber: "fibers (upd_fiber p g h) q = (if q = p then map_option g (fibers h p) else fibers h q)"
  by (simp add: upd_fiber_def)

lemma swapcontext_ok:
  assumes "fibers h from = Some a" "fibers h to = Some b" "from \<noteq> to" "resume (fb_ctx b) t = Inr t'"
  shows "swapcontext here from to (t, h) = Inr (t', upd_fiber from (\<lambda>f. f\<lparr>fb_ctx := here (running t)\<rparr>) h)"
  using assms by (simp add: swapcontext_def live_def fibers_upd_fiber)

lemma resume_own: "own_ctx p f \<Longrightarrow> fb_state f \<notin> {FTERM, EXCEPT} \<Longrightarrow> resume (fb_ctx f) t = Inr (t\<lparr>running := p\<rparr>)"
  by (auto simp: own_ctx_def resume_def split: ucontext.splits)

lemma own_ctx_EXEC: "own_ctx p f \<Longrightarrow> fb_state f \<notin> {FTERM, EXCEPT} \<Longrightarrow> own_ctx p (f\<lparr>fb_state := s\<rparr>)"
  by (auto simp: own_ctx_def split: ucontext.splits)

text \<open>The switches, each from the fiber that makes it to the fiber it means.\<close>

lemma swapIn_ok:
  assumes "fiber_inv (t, h)" "fiber_guard (Op_swapIn p) (t, h)"
  shows "swapIn p (t, h) = Inr (t\<lparr>t_fiber := p, running := p\<rparr>,
    upd_fiber (t_schedular_fiber t) (\<lambda>f. f\<lparr>fb_ctx := Resume (t_schedular_fiber t)\<rparr>)
      (upd_fiber p (\<lambda>f. f\<lparr>fb_state := EXEC\<rparr>) h))"
proof -
  obtain f s where f: "fibers h p = Some f" "fb_state f \<in> {INIT, HOLD, READY}"
    and s: "fibers h (t_schedular_fiber t) = Some s" and ne: "t_schedular_fiber t \<noteq> p"
    and run: "running t = t_schedular_fiber t"
    using assms by (auto simp: fiber_inv_def has_state_def is_task_def)
  then have "own_ctx p f" using assms(1) by (auto simp: fiber_inv_def)
  then have "resume (fb_ctx f) (SetThis p t) = Inr (t\<lparr>t_fiber := p, running := p\<rparr>)"
    using f(2) by (subst resume_own) (auto simp: SetThis_def)
  then have "swapcontext Resume (t_schedular_fiber t) p (SetThis p t, upd_fiber p (\<lambda>f. f\<lparr>fb_state := EXEC\<rparr>) h) =
      Inr (t\<lparr>t_fiber := p, running := p\<rparr>,
        upd_fiber (t_schedular_fiber t) (\<lambda>f. f\<lparr>fb_ctx := Resume (running (SetThis p t))\<rparr>)
          (upd_fiber p (\<lambda>f. f\<lparr>fb_state := EXEC\<rparr>) h))"
    using f(1) s ne by (intro swapcontext_ok [where a = s and b = "f\<lparr>fb_state := EXEC\<rparr>"])
      (auto simp: fibers_upd_fiber)
  then show ?thesis
    using f run by (auto simp: swapIn_def live_def SetThis_def)
qed

lemma swapOut_ok:
  assumes "fiber_inv (t, h)" "is_task t (running t)" "fibers h' = fibers (upd_fiber (running t) g h)"
  shows "swapOut here (running t) (t, h') =
    Inr (t\<lparr>t_fiber := t_schedular_fiber t, running := t_schedular_fiber t\<rparr>,
      upd_fiber (running t) (\<lambda>f. f\<lparr>fb_ctx := here (running t)\<rparr>) h')"
proof -
  let ?S = "t_schedular_fiber t" and ?p = "running t"
  have ne: "?p \<noteq> ?S" "?p \<noteq> t_threadFiber t" using assms(2) by (auto simp: is_task_def)
  obtain f s where f: "fibers h ?p = Some f" and s: "fibers h ?S = Some s" "fb_state s = EXEC"
    using assms(1) ne by (auto simp: fiber_inv_def has_state_def)
  then have "own_ctx ?S s" using assms(1) ne by (auto simp: fiber_inv_def)
  then have "resume (fb_ctx s) (SetThis ?S t) = Inr (t\<lparr>t_fiber := ?S, running := ?S\<rparr>)"
    using s by (subst resume_own) (auto simp: SetThis_def)
  moreover have "fibers h' ?p = Some (g f)" "fibers h' ?S = Some s"
    using f s ne by (simp_all add: assms(3) fibers_upd_fiber)
  ultimately show ?thesis
    using swapcontext_ok [of h' ?p "g f" ?S s "SetThis ?S t" _ here] ne
    by (simp add: swapOut_def SetThis_def Let_def)
qed

lemma inv_swapIn:
  assumes "fiber_inv (t, h)" "fiber_guard (Op_swapIn p) (t, h)"
  shows "fiber_inv (t\<lparr>t_fiber := p, running := p\<rparr>,
    upd_fiber (t_schedular_fiber t) (\<lambda>f. f\<lparr>fb_ctx := Resume (t_schedular_fiber t)\<rparr>)
      (upd_fiber p (\<lambda>f. f\<lparr>fb_state := EXEC\<rparr>) h))"
  using assms
  by (auto simp: fiber_inv_def fibers_upd_fiber has_state_def is_task_def own_ctx_def split: if_splits)

lemma inv_swapOut:
  assumes "fiber_inv (t, h)" "is_task t (running t)" "fibers h' = fibers (upd_fiber (running t) g h)"
    and "\<And>f. fb_stack (g f) = fb_stack f" "\<And>f. fb_state (g f) = st" "st \<noteq> EXEC"
    and "here = Resume \<or> here = Never_reach \<and> st \<in> {FTERM, EXCEPT}"
  shows "fiber_inv (t\<lparr>t_fiber := t_schedular_fiber t, running := t_schedular_fiber t\<rparr>,
      upd_fiber (running t) (\<lambda>f. f\<lparr>fb_ctx := here (running t)\<rparr>) h')"
  using assms
  by (auto simp: fiber_inv_def fibers_upd_fiber has_state_def is_task_def own_ctx_def split: if_splits)

lemma inv_new:
  assumes "fiber_inv (t, h)" "fiber_guard (Op_new p sp cfg cb sz) (t, h)"
  shows "fiber_inv (t, Fiber_ctor p sp cfg cb sz False h)"
proof -
  have "p \<noteq> running t" "p \<noteq> t_schedular_fiber t" "p \<noteq> t_threadFiber t"
    using assms by (auto simp: fiber_inv_def has_state_def)
  then show ?thesis
    using assms by (auto simp: fiber_inv_def Fiber_ctor_def has_state_def own_ctx_def)
qed

lemma reset_ok:
  assumes "fiber_inv (t, h)" "fiber_guard (Op_reset p cb) (t, h)"
  shows "\<exists>h'. Fiber_reset p cb h = Inr h' \<and> fiber_inv (t, h')"
proof -
  obtain f where f: "fibers h p = Some f" "fb_state f \<in> {FTERM, EXCEPT, INIT}" "is_task t p"
    using assms by (auto simp: has_state_def)
  then have "p \<noteq> running t" "fb_stack f \<noteq> nullptr"
    using assms(1) by (auto simp: fiber_inv_def has_state_def)
  with f assms(1) show ?thesis
    by (auto simp: Fiber_reset_def live_def fiber_inv_def fibers_upd_fiber has_state_def is_task_def
        own_ctx_def)
qed

lemma delete_ok:
  assumes "fiber_inv (t, h)" "fiber_guard (Op_delete p) (t, h)"
  shows "\<exists>w'. Fiber_dtor p (t, h) = Inr w' \<and> fiber_inv w'"
proof -
  obtain f where f: "fibers h p = Some f" "fb_state f \<in> {FTERM, EXCEPT, INIT}" "is_task t p"
    using assms by (auto simp: has_state_def)
  then have "p \<noteq> running t" "fb_stack f \<noteq> nullptr"
    using assms(1) by (auto simp: fiber_inv_def has_state_def)
  with f assms(1) show ?thesis
    by (auto simp: Fiber_dtor_def live_def Let_def fiber_inv_def has_state_def is_task_def)
qed

lemma GetThis_running:
  assumes "fiber_inv (t, h)"
  shows "Fiber_GetThis fresh (t, h) = Inr ((t, h), running t)"
  using assms by (auto simp: Fiber_GetThis_def fiber_inv_def live_def has_state_def)

lemma yield_ok:
  assumes "fiber_inv (t, h)" "is_task t (running t)"
  shows "\<exists>w'. YieldToReady fresh (t, h) = Inr w' \<and> fiber_inv w'"
    "\<exists>w'. YieldToHold fresh (t, h) = Inr w' \<and> fiber_inv w'"
proof -
  obtain f where f: "fibers h (running t) = Some f" "fb_state f = EXEC"
    using assms(1) by (auto simp: fiber_inv_def has_state_def)
  note out = swapOut_ok [OF assms refl] and inv = inv_swapOut [OF assms refl]
  show "\<exists>w'. YieldToReady fresh (t, h) = Inr w' \<and> fiber_inv w'"
    using f by (simp add: YieldToReady_def GetThis_running [OF assms(1)] live_def out inv [of _ READY])
  show "\<exists>w'. YieldToHold fresh (t, h) = Inr w' \<and> fiber_inv w'"
    using f by (simp add: YieldToHold_def GetThis_running [OF assms(1)] live_def out inv [of _ HOLD])
qed

text \<open>The end of a callback leaves its fiber terminated, or in the exception state.\<close>

definition end_state :: "'cb fiber \<Rightarrow> outcome \<Rightarrow> fiber_state" where
  "end_state f out = (if call_outcome f out = Returns then FTERM else EXCEPT)"

lemma run_callback_ok:
  assumes "fibers h p = Some f" "call_outcome f out \<noteq> Throws_other"
  obtains g where "run_callback p out h = Inr (upd_fiber p g h)"
    "\<And>f. fb_stack (g f) = fb_stack f" "\<And>f'. fb_state (g f') = end_state f out"
proof (cases "call_outcome f out")
  case Returns
  with assms that [of "\<lambda>f. f\<lparr>fb_cb := None, fb_state := FTERM\<rparr>"] show ?thesis
    by (simp add: run_callback_def live_def end_state_def)
next
  case (Throws_std what)
  with assms that [of "\<lambda>f. f\<lparr>fb_state := EXCEPT\<rparr>"] show ?thesis
    by (simp add: run_callback_def live_def end_state_def)
qed (use assms in simp)

lemma end_state_cases: "end_state f out \<in> {FTERM, EXCEPT}"
  by (simp add: end_state_def)

lemma finish_ok:
  assumes "fiber_inv (t, h)" "fiber_guard (Op_finish out) (t, h)"
  shows "\<exists>w'. MainFunc (running t) out (t, h) = Inr w' \<and> fiber_inv w'"
proof -
  obtain f where f: "fibers h (running t) = Some f" "call_outcome f out \<noteq> Throws_other"
    using assms(2) by (auto simp: ends_caught_def)
  obtain g where g: "run_callback (running t) out h = Inr (upd_fiber (running t) g h)"
    "\<And>f. fb_stack (g f) = fb_stack f" "\<And>f'. fb_state (g f') = end_state f out"
    using run_callback_ok [OF f] by blast
  have task: "is_task t (running t)" and nn: "running t \<noteq> nullptr"
    using assms by (auto simp: fiber_inv_def)
  show ?thesis
    using end_state_cases [of f out]
    by (auto simp: MainFunc_def nn g(1) swapOut_ok [OF assms(1) task refl]
        intro!: inv_swapOut [OF assms(1) task refl g(2,3)])
qed

lemma call_root_ok:
  assumes "fiber_inv (t, h)" "fiber_guard Op_call_root (t, h)"
  shows "\<exists>w'. Fiber_call (t_schedular_fiber t) (t, h) = Inr w' \<and> fiber_inv w' \<and>
    running (fst w') = t_schedular_fiber t"
proof -
  let ?S = "t_schedular_fiber t" and ?M = "t_threadFiber t"
  obtain s m where s: "fibers h ?S = Some s" "fb_state s = INIT" and m: "fibers h ?M = Some m"
    and ne: "?M \<noteq> ?S" and run: "running t = ?M"
    using assms by (auto simp: fiber_inv_def has_state_def)
  then have "own_ctx ?S s" using assms(1) by (auto simp: fiber_inv_def)
  then have "resume (fb_ctx (s\<lparr>fb_state := EXEC\<rparr>)) (SetThis ?S t) = Inr (t\<lparr>t_fiber := ?S, running := ?S\<rparr>)"
    using s(2) resume_own [of ?S s "SetThis ?S t"] by (simp add: SetThis_def)
  then have "Fiber_call ?S (t, h) = Inr (t\<lparr>t_fiber := ?S, running := ?S\<rparr>,
      upd_fiber ?M (\<lambda>f. f\<lparr>fb_ctx := Resume ?M\<rparr>) (upd_fiber ?S (\<lambda>f. f\<lparr>fb_state := EXEC\<rparr>) h))"
    using s(1) m ne run swapcontext_ok [of "upd_fiber ?S (\<lambda>f. f\<lparr>fb_state := EXEC\<rparr>) h" ?M m ?S
        "s\<lparr>fb_state := EXEC\<rparr>" "SetThis ?S t" _ Resume]
    by (simp add: Fiber_call_def live_def Let_def fibers_upd_fiber SetThis_def)
  then show ?thesis
    using assms(1) s m ne run
    by (auto simp: fiber_inv_def fibers_upd_fiber has_state_def is_task_def own_ctx_def split: if_splits)
qed

lemma root_finish_ok:
  assumes "fiber_inv (t, h)" "fiber_guard (Op_root_finish out) (t, h)"
  shows "\<exists>w'. CallerMainFunc (running t) out (t, h) = Inr w' \<and> fiber_inv w' \<and>
    running (fst w') = t_threadFiber t"
proof -
  let ?S = "t_schedular_fiber t" and ?M = "t_threadFiber t"
  obtain f m where f: "fibers h ?S = Some f" "call_outcome f out \<noteq> Throws_other"
    and m: "fibers h ?M = Some m" "fb_state m = EXEC" and ne: "?S \<noteq> ?M" and run: "running t = ?S"
    using assms by (auto simp: fiber_inv_def has_state_def ends_caught_def)
  obtain g where g: "run_callback ?S out h = Inr (upd_fiber ?S g h)"
    "\<And>f. fb_stack (g f) = fb_stack f" "\<And>f'. fb_state (g f') = end_state f out"
    using run_callback_ok [OF f] by blast
  have "own_ctx ?M m" using assms(1) m ne run by (auto simp: fiber_inv_def)
  then have r: "resume (fb_ctx m) (SetThis ?M t) = Inr (t\<lparr>t_fiber := ?M, running := ?M\<rparr>)"
    using m(2) resume_own [of ?M m "SetThis ?M t"] by (simp add: SetThis_def)
  have "CallerMainFunc (running t) out (t, h) = Inr (t\<lparr>t_fiber := ?M, running := ?M\<rparr>,
      upd_fiber ?S (\<lambda>f. f\<lparr>fb_ctx := Never_reach ?S\<rparr>) (upd_fiber ?S g h))"
    using f m ne run r assms(1) swapcontext_ok [of "upd_fiber ?S g h" ?S "g f" ?M m "SetThis ?M t" _ Never_reach]
    by (auto simp: CallerMainFunc_def Fiber_back_def g(1) fibers_upd_fiber SetThis_def fiber_inv_def)
  then show ?thesis
    using assms(1) f m ne run g(2,3) end_state_cases [of f out]
    by (auto simp: fiber_inv_def fibers_upd_fiber has_state_def is_task_def own_ctx_def split: if_splits)
qed

lemma fiber_exec_ok:
  assumes "fiber_inv w" "fiber_guard op w"
  shows "\<exists>w'. fiber_exec op w = Inr w' \<and> fiber_inv w'"
proof -
  obtain t h where w: "w = (t, h)" by (cases w)
  show ?thesis
  proof (cases op)
    case (Op_new p sp cfg cb sz)
    then show ?thesis using assms inv_new w by simp
  next
    case (Op_reset p cb)
    then show ?thesis using assms reset_ok w by fastforce
  next
    case (Op_delete p)
    then show ?thesis using assms delete_ok w by simp
  next
    case (Op_swapIn p)
    then show ?thesis using assms swapIn_ok inv_swapIn w by (metis fiber_exec.simps(4))
  next
    case (Op_finish out)
    then show ?thesis using assms finish_ok w by simp
  next
    case Op_call_root
    then show ?thesis using assms call_root_ok w by fastforce
  next
    case (Op_root_finish out)
    then show ?thesis using assms root_finish_ok w by fastforce
  qed (use assms yield_ok w in auto)
qed

interpretation fbs: guarded_system fiber_guard fiber_exec fiber_inv
  by unfold_locales (rule fiber_exec_ok)

text \<open>
  A thread starts with no fiber. \<open>Fiber::GetThis\<close> makes its main fiber; on a worker thread that
  is the scheduling fiber, on the caller's thread the scheduler makes a root fiber for it.
\<close>

definition tls0 :: "ptr \<Rightarrow> fiber_tls" where
  "tls0 p = \<lparr> t_fiber = nullptr, t_threadFiber = nullptr, t_schedular_fiber = nullptr, running = p \<rparr>"

inductive fiber_reach :: "'cb fiber_world \<Rightarrow> bool" where
  worker: "\<lbrakk> p \<noteq> nullptr; fibers h = Map.empty; Fiber_GetThis p (tls0 p, h) = Inr ((t, h'), q) \<rbrakk> \<Longrightarrow>
    fiber_reach (t\<lparr>t_schedular_fiber := q\<rparr>, h')"
| caller: "\<lbrakk> p \<noteq> nullptr; fibers h = Map.empty; Fiber_GetThis p (tls0 p, h) = Inr ((t, h'), q);
      root \<noteq> nullptr; root \<noteq> p; sp \<noteq> nullptr \<rbrakk> \<Longrightarrow>
    fiber_reach (t\<lparr>t_schedular_fiber := root\<rparr>, Fiber_ctor root sp cfg cb 0 True h')"
| step: "\<lbrakk> fiber_reach w; fiber_guard op w; fiber_exec op w = Inr w' \<rbrakk> \<Longrightarrow> fiber_reach w'"

inductive_cases fiber_reach_stepE: "fiber_reach w"

lemma fiber_reach_inv: "fiber_reach w \<Longrightarrow> fiber_inv w"
proof (induction rule: fiber_reach.induct)
  case (worker p h t h' q)
  then show ?case
    by (auto simp: Fiber_GetThis_def tls0_def Fiber_ctor_main_def SetThis_def fiber_inv_def
        has_state_def is_task_def split: if_splits)
next
  case (caller p h t h' q root sp cfg cb)
  then show ?case
    by (auto simp: Fiber_GetThis_def tls0_def Fiber_ctor_main_def SetThis_def fiber_inv_def
        has_state_def is_task_def Fiber_ctor_def own_ctx_def split: if_splits)
next
  case (step w op w')
  then show ?case using fiber_exec_ok by fastforce
qed

text \<open>
  C9. In every state a thread reaches with its fibers, t_fiber is the fiber whose stack is
  running, that fiber is in state EXEC, every other fiber's saved context resumes that same
  fiber, and every task fiber that is not running has left EXEC. And the next operation the
  scheduler's discipline allows succeeds: no assertion of fiber.cpp fails, no dead or foreign
  context is resumed and no freed fiber is touched.
\<close>

theorem fiber_reach_safe:
  assumes "fiber_reach w"
  shows "t_fiber (fst w) = running (fst w) \<and> has_state (snd w) (running (fst w)) {EXEC} \<and>
    (\<forall>p f. fibers (snd w) p = Some f \<and> p \<noteq> running (fst w) \<longrightarrow>
       own_ctx p f \<and> (is_task (fst w) p \<longrightarrow> fb_state f \<noteq> EXEC)) \<and>
    (\<forall>op. fiber_guard op w \<longrightarrow> (\<exists>w'. fiber_exec op w = Inr w' \<and> fiber_reach w'))"
proof -
  note inv = fiber_reach_inv [OF assms]
  have "\<exists>w'. fiber_exec op w = Inr w' \<and> fiber_reach w'" if "fiber_guard op w" for op
    using fiber_exec_ok [OF inv that] fiber_reach.step [OF assms that] by blast
  then show ?thesis using inv by (auto simp: fiber_inv_def split: prod.splits)
qed

definition demo_world :: "nat fiber_world" where
  "demo_world =
     (\<lparr> t_fiber = 1, t_threadFiber = 1, t_schedular_fiber = 1, running = 1 \<rparr>,
      \<lparr> fibers = [1 \<mapsto> \<lparr> fb_id = 0, fb_stacksize = 0, fb_state = EXEC, fb_ctx = Captured,
                         fb_stack = nullptr, fb_cb = None \<rparr>],
        s_fiber_id = 0, s_fiber_count = 1 \<rparr>)"

lemma demo_world_reach: "fiber_reach demo_world"
  using fiber_reach.worker [of 1 "\<lparr> fibers = Map.empty, s_fiber_id = 0, s_fiber_count = 0 \<rparr>"]
  by (simp add: Fiber_GetThis_def tls0_def Fiber_ctor_main_def SetThis_def demo_world_def)

theorem fiber_reach_safe_witness:
  "t_fiber (fst demo_world) = 1 \<and>
   (\<exists>w'. fiber_exec (Op_new 2 100 131072 (Some 7) 0) demo_world = Inr w' \<and> fiber_reach w')"
proof -
  have "fiber_guard (Op_new 2 100 131072 (Some 7) 0) demo_world" by (simp add: demo_world_def)
  moreover have "running (fst demo_world) = 1" by (simp add: demo_world_def)
  ultimately show ?thesis using fiber_reach_safe [OF demo_world_reach] by auto
qed

lemma fiber_cycle:
  fixes Y :: "'cb fiber_world \<Rightarrow> 'cb fiber_world res"
  assumes "fiber_inv (t, h)" "fiber_guard (Op_swapIn p) (t, h)"
    and Y: "Y = YieldToHold nullptr \<and> st = HOLD \<or> Y = YieldToReady nullptr \<and> st = READY"
  obtains t1 h1 t2 h2 where "swapIn p (t, h) = Inr (t1, h1)" "running t1 = p" "has_state h1 p {EXEC}"
    "Y (t1, h1) = Inr (t2, h2)" "running t2 = t_schedular_fiber t" "has_state h2 p {st}"
    "map_option fb_ctx (fibers h2 p) = Some (Resume p)" "fiber_inv (t2, h2)"
    "t_schedular_fiber t2 = t_schedular_fiber t" "t_threadFiber t2 = t_threadFiber t"
proof -
  let ?S = "t_schedular_fiber t"
  define t1 h1 where "t1 = t\<lparr>t_fiber := p, running := p\<rparr>"
    and "h1 = upd_fiber ?S (\<lambda>f. f\<lparr>fb_ctx := Resume ?S\<rparr>) (upd_fiber p (\<lambda>f. f\<lparr>fb_state := EXEC\<rparr>) h)"
  define t2 h2 where "t2 = t1\<lparr>t_fiber := ?S, running := ?S\<rparr>"
    and "h2 = upd_fiber p (\<lambda>f. f\<lparr>fb_ctx := Resume p\<rparr>) (upd_fiber p (\<lambda>f. f\<lparr>fb_state := st\<rparr>) h1)"
  have inv1: "fiber_inv (t1, h1)" and in1: "swapIn p (t, h) = Inr (t1, h1)"
    unfolding t1_def h1_def by (rule inv_swapIn [OF assms(1,2)], rule swapIn_ok [OF assms(1,2)])
  obtain f where f: "fibers h p = Some f" and ne: "p \<noteq> ?S" and task: "is_task t1 (running t1)"
    using assms(2) by (auto simp: has_state_def is_task_def t1_def)
  then have f1: "fibers h1 p = Some (f\<lparr>fb_state := EXEC\<rparr>)" by (simp add: h1_def fibers_upd_fiber)
  have r1: "running t1 = p" "t_schedular_fiber t1 = ?S" by (simp_all add: t1_def)
  have "Y (t1, h1) = Inr (t2, h2)"
    using Y f1 swapOut_ok [OF inv1 task refl, of Resume "\<lambda>f. f\<lparr>fb_state := st\<rparr>"]
    by (auto simp: YieldToHold_def YieldToReady_def GetThis_running [OF inv1] live_def r1 t2_def h2_def)
  moreover have "fiber_inv (t2, h2)"
    using Y inv_swapOut [OF inv1 task refl, of "\<lambda>f. f\<lparr>fb_state := st\<rparr>" st Resume]
    by (auto simp: t1_def t2_def h2_def)
  ultimately show ?thesis
    using in1 f1 by (intro that [of t1 h1 t2 h2]) (auto simp: t1_def t2_def h2_def has_state_def fibers_upd_fiber)
qed

text \<open>
  C11. A switch returns where it left: the scheduling fiber's swapIn runs the task fiber, its
  YieldToHold runs the scheduling fiber again with the task in state HOLD (YieldToReady: READY),
  and a later swapIn continues the task at the switch it stopped in, with state EXEC.
\<close>

theorem fiber_switch_roundtrip:
  assumes "fiber_inv (t, h)" "fiber_guard (Op_swapIn p) (t, h)"
  shows "\<exists>t1 h1 t2 h2 t3 h3 t4 h4.
    swapIn p (t, h) = Inr (t1, h1) \<and> running t1 = p \<and> has_state h1 p {EXEC} \<and>
    YieldToHold nullptr (t1, h1) = Inr (t2, h2) \<and> running t2 = t_schedular_fiber t \<and>
    has_state h2 p {HOLD} \<and> map_option fb_ctx (fibers h2 p) = Some (Resume p) \<and>
    swapIn p (t2, h2) = Inr (t3, h3) \<and> running t3 = p \<and> has_state h3 p {EXEC} \<and>
    YieldToReady nullptr (t3, h3) = Inr (t4, h4) \<and> running t4 = t_schedular_fiber t \<and>
    has_state h4 p {READY}"
proof -
  obtain t1 h1 t2 h2 where a: "swapIn p (t, h) = Inr (t1, h1)" "running t1 = p" "has_state h1 p {EXEC}"
    "YieldToHold nullptr (t1, h1) = Inr (t2, h2)" "running t2 = t_schedular_fiber t"
    "has_state h2 p {HOLD}" "map_option fb_ctx (fibers h2 p) = Some (Resume p)" "fiber_inv (t2, h2)"
    "t_schedular_fiber t2 = t_schedular_fiber t" "t_threadFiber t2 = t_threadFiber t"
    by (rule fiber_cycle [OF assms, of "YieldToHold nullptr" HOLD]) simp_all
  then have g: "fiber_guard (Op_swapIn p) (t2, h2)"
    using assms(2) by (auto simp: is_task_def has_state_def)
  obtain t3 h3 t4 h4 where "swapIn p (t2, h2) = Inr (t3, h3)" "running t3 = p" "has_state h3 p {EXEC}"
    "YieldToReady nullptr (t3, h3) = Inr (t4, h4)" "running t4 = t_schedular_fiber t2" "has_state h4 p {READY}"
    by (rule fiber_cycle [OF a(8) g, of "YieldToReady nullptr" READY]) simp_all
  with a show ?thesis
    by (intro exI [of _ t1] exI [of _ h1] exI [of _ t2] exI [of _ h2] exI [of _ t3] exI [of _ h3]
        exI [of _ t4] exI [of _ h4]) simp
qed

theorem fiber_switch_roundtrip_witness:
  "\<exists>t h t1 h1. fiber_exec (Op_new 2 100 131072 (Some 7) 0) demo_world = Inr (t, h) \<and>
     swapIn 2 (t, h) = Inr (t1, h1) \<and> running t1 = 2 \<and> has_state h1 2 {EXEC}"
proof -
  obtain t h where w: "fiber_exec (Op_new 2 100 131072 (Some 7) 0) demo_world = Inr (t, h)"
    and "t = fst demo_world" "h = Fiber_ctor 2 100 131072 (Some 7) 0 False (snd demo_world)"
    by (simp add: demo_world_def)
  then have g: "fiber_guard (Op_swapIn 2) (t, h)"
    by (simp add: demo_world_def Fiber_ctor_def is_task_def has_state_def)
  have "fiber_guard (Op_new 2 100 131072 (Some 7) 0) demo_world" by (simp add: demo_world_def)
  then have "fiber_inv (t, h)" using fiber_exec_ok fiber_reach_inv [OF demo_world_reach] w by fastforce
  from fiber_switch_roundtrip [OF this g] w show ?thesis by blast
qed

text \<open>
  What the assertions of fiber.cpp rule out: switching to a fiber that is already executing,
  resetting or destroying a fiber that holds a stack and is suspended or executing, and resuming
  a fiber whose main function has ended all abort.
\<close>

theorem fiber_misuse_aborts:
  assumes "fibers h p = Some f" "fb_stack f \<noteq> nullptr"
  shows "(fb_state f = EXEC \<longrightarrow> (\<exists>m. swapIn p (t, h) = Inl (Assertion m))) \<and>
    (fb_state f \<in> {HOLD, READY, EXEC} \<longrightarrow> (\<exists>m. Fiber_reset p cb h = Inl (Assertion m)) \<and>
       (\<exists>m. Fiber_dtor p (t, h) = Inl (Assertion m))) \<and>
    (fb_ctx f = Never_reach p \<and> fb_state f \<noteq> EXEC \<and> fibers h (t_schedular_fiber t) \<noteq> None \<and>
       p \<noteq> t_schedular_fiber t \<longrightarrow> (\<exists>m. swapIn p (t, h) = Inl (Assertion m)))"
  using assms
  by (auto simp: swapIn_def Fiber_reset_def Fiber_dtor_def live_def swapcontext_def fibers_upd_fiber
      SetThis_def resume_def Let_def)

theorem fiber_misuse_aborts_witness:
  "let h = Fiber_ctor 2 100 131072 (Some 7) 0 False (snd demo_world);
       h' = upd_fiber 2 (\<lambda>f. f\<lparr>fb_state := HOLD\<rparr>) h
   in \<exists>m. Fiber_dtor 2 (fst demo_world, h') = Inl (Assertion m)"
  unfolding Let_def
  using fiber_misuse_aborts [of "upd_fiber 2 (\<lambda>f. f\<lparr>fb_state := HOLD\<rparr>)
      (Fiber_ctor 2 100 131072 (Some 7) 0 False (snd demo_world))" 2 _ "fst demo_world"]
  by (auto simp: Fiber_ctor_def fibers_upd_fiber)

end
