(* ===== verification/Schedular.thy ===== *)
theory Schedular
  imports Fiber
begin

section \<open>The scheduler (schedular.h, schedular.cpp)\<close>

text \<open>
  \<open>Schedular\<close> keeps a queue of tasks, fibers or callbacks, and runs them on its threads. The
  shared object is a record; \<open>run()\<close> is cut at its lock scope and at its switches into steps of
  one thread, which is what other threads can interleave with. A call of the virtual \<open>tickle\<close>
  is a boolean result, on which the subclass acts. Thread ids and addresses are arguments.
\<close>

subsection \<open>State\<close>

text \<open>\<open>FiberAndThread\<close>: a fiber, or a callback, and the thread it must run on (-1 for any).\<close>

record 'cb task =
  ft_fiber :: ptr
  ft_cb :: "'cb option"
  ft_thread :: int

record 'cb schedular =
  m_fibers :: "'cb task list"
  m_rootFiber :: ptr
  m_threads :: "int list"
  m_threadIds :: "int list"
  m_threadCount :: u64
  m_activeThreadCount :: u64
  m_idleThreadCount :: u64
  m_stopping :: bool
  m_autoStop :: bool
  m_rootThread :: int

text \<open>The thread-local variables of fiber.cpp, schedular.cpp and hook.cpp.\<close>

record sched_tls =
  st_fiber :: fiber_tls
  t_schedular :: ptr
  t_hook_enable :: bool
  st_thread :: int

subsection \<open>FiberAndThread and scheduling\<close>

definition FT_fiber :: "ptr \<Rightarrow> int \<Rightarrow> 'cb task" where
  "FT_fiber f thr = \<lparr> ft_fiber = f, ft_cb = None, ft_thread = thr \<rparr>"

definition FT_cb :: "'cb option \<Rightarrow> int \<Rightarrow> 'cb task" where
  "FT_cb f thr = \<lparr> ft_fiber = nullptr, ft_cb = f, ft_thread = thr \<rparr>"

text \<open>The constructors from a pointer swap: the second component is what the source holds after.\<close>

definition FT_fiber_swap :: "ptr \<Rightarrow> int \<Rightarrow> 'cb task \<times> ptr" where
  "FT_fiber_swap f thr = (FT_fiber f thr, nullptr)"

definition FT_cb_swap :: "'cb option \<Rightarrow> int \<Rightarrow> 'cb task \<times> 'cb option" where
  "FT_cb_swap f thr = (FT_cb f thr, None)"

definition FT_reset :: "'cb task" where
  "FT_reset = \<lparr> ft_fiber = nullptr, ft_cb = None, ft_thread = - 1 \<rparr>"

definition scheduleNoLock :: "'cb task \<Rightarrow> 'cb schedular \<Rightarrow> 'cb schedular \<times> bool" where
  "scheduleNoLock ft s =
     (let need_tickle = (m_fibers s = []) in
      (if ft_fiber ft \<noteq> nullptr \<or> ft_cb ft \<noteq> None then s\<lparr>m_fibers := m_fibers s @ [ft]\<rparr> else s,
       need_tickle))"

definition schedule :: "'cb task \<Rightarrow> 'cb schedular \<Rightarrow> 'cb schedular \<times> bool" where
  "schedule ft s = scheduleNoLock ft s"

text \<open>The batch form: each callback of the range is swapped out of it.\<close>

fun schedule_range :: "'cb option list \<Rightarrow> 'cb schedular \<Rightarrow> bool \<Rightarrow> 'cb schedular \<times> bool \<times> 'cb option list" where
  "schedule_range [] s need_tickle = (s, need_tickle, [])"
| "schedule_range (c # cs) s need_tickle =
     (let (ft, c') = FT_cb_swap c (- 1);
          (s, t) = scheduleNoLock ft s;
          (s, t', cs') = schedule_range cs s (t \<or> need_tickle)
      in (s, t', c' # cs'))"

definition stopping :: "'cb schedular \<Rightarrow> bool" where
  "stopping s \<longleftrightarrow> m_autoStop s \<and> m_stopping s \<and> m_fibers s = [] \<and> m_activeThreadCount s = 0"

definition hasIdleThreads :: "'cb schedular \<Rightarrow> bool" where
  "hasIdleThreads s \<longleftrightarrow> m_idleThreadCount s > 0"

subsection \<open>Construction, start and stop\<close>

text \<open>
  \<open>this\<close> is the scheduler's address, \<open>mainf\<close>, \<open>root\<close> and \<open>stack\<close> the addresses the allocations
  return, \<open>run\<close> the bound callback \<open>Schedular::run\<close>, \<open>cfg\<close> the configured stack size.
\<close>

definition Schedular_ctor ::
  "ptr \<Rightarrow> ptr \<Rightarrow> ptr \<Rightarrow> ptr \<Rightarrow> u32 \<Rightarrow> 'cb \<Rightarrow> u64 \<Rightarrow> bool \<Rightarrow> sched_tls \<times> 'cb fiber_heap \<Rightarrow>
     (sched_tls \<times> 'cb fiber_heap \<times> 'cb schedular) res" where
  "Schedular_ctor this mainf root stack cfg run threads use_caller = (\<lambda>(t, h).
     let s = \<lparr> m_fibers = [], m_rootFiber = nullptr, m_threads = [], m_threadIds = [], m_threadCount = 0,
               m_activeThreadCount = 0, m_idleThreadCount = 0, m_stopping = True, m_autoStop = False,
               m_rootThread = 0 \<rparr>
     in if use_caller then
          qlc_assert (threads > 0) ''threads > 0''
            (rbind (Fiber_GetThis mainf (st_fiber t, h)) (\<lambda>((ft, h), _).
              qlc_assert (t_schedular t = nullptr) ''GetThis() == nullptr''
                (Inr (t\<lparr>st_fiber := ft\<lparr>t_schedular_fiber := root\<rparr>, t_schedular := this\<rparr>,
                      Fiber_ctor root stack cfg (Some run) 0 True h,
                      s\<lparr>m_rootFiber := root, m_rootThread := st_thread t,
                        m_threadIds := [st_thread t], m_threadCount := threads - 1\<rparr>))))
        else Inr (t, h, s\<lparr>m_rootThread := - 1, m_threadCount := threads\<rparr>))"

definition Schedular_dtor :: "ptr \<Rightarrow> 'cb schedular \<Rightarrow> sched_tls \<Rightarrow> sched_tls res" where
  "Schedular_dtor this s t =
     qlc_assert (m_stopping s) ''m_stopping''
       (Inr (if t_schedular t = this then t\<lparr>t_schedular := nullptr\<rparr> else t))"

text \<open>\<open>start\<close>: \<open>ids\<close> are the ids of the \<open>m_threadCount\<close> threads it creates, in order.\<close>

definition Schedular_start :: "int list \<Rightarrow> 'cb schedular \<Rightarrow> 'cb schedular res" where
  "Schedular_start ids s =
     (if \<not> m_stopping s then Inr s
      else qlc_assert (m_threads s = []) ''m_threads.empty()''
        (Inr (s\<lparr>m_stopping := False, m_threads := take (unat (m_threadCount s)) ids,
                m_threadIds := m_threadIds s @ take (unat (m_threadCount s)) ids\<rparr>)))"

text \<open>
  \<open>stop\<close> up to the joins: the early return, or the number of \<open>tickle\<close> calls, whether the root
  fiber is called, and the threads to join. \<open>stopped\<close> is the virtual \<open>stopping()\<close>;
  \<open>root_state\<close> is the state of the root fiber when there is one.
\<close>

datatype stop_result = Stopped | Stop_wait nat bool "int list"

definition Schedular_stop ::
  "ptr \<Rightarrow> ('cb schedular \<Rightarrow> bool) \<Rightarrow> fiber_state \<Rightarrow> sched_tls \<Rightarrow> 'cb schedular \<Rightarrow>
     ('cb schedular \<times> stop_result) res" where
  "Schedular_stop this stopped root_state t s =
     (let s = s\<lparr>m_autoStop := True\<rparr>;
          only_caller = (m_rootFiber s \<noteq> nullptr \<and> m_threadCount s = 0 \<and> root_state \<in> {FTERM, INIT});
          s = (if only_caller then s\<lparr>m_stopping := True\<rparr> else s)
      in if only_caller \<and> stopped s then Inr (s, Stopped)
         else qlc_assert (if m_rootThread s \<noteq> - 1 then t_schedular t = this else t_schedular t \<noteq> this)
                ''stop called from the wrong thread''
           (let s = s\<lparr>m_stopping := True\<rparr>;
                tickles = unat (m_threadCount s) + (if m_rootFiber s \<noteq> nullptr then 1 else 0);
                call = (m_rootFiber s \<noteq> nullptr \<and> \<not> stopped s)
            in Inr (s\<lparr>m_threads := []\<rparr>, Stop_wait tickles call (m_threads s))))"

subsection \<open>run\<close>

text \<open>Entering \<open>run()\<close>: the scheduling fiber of the thread and its idle fiber.\<close>

definition run_enter ::
  "ptr \<Rightarrow> ptr \<Rightarrow> ptr \<Rightarrow> ptr \<Rightarrow> u32 \<Rightarrow> 'cb \<Rightarrow> 'cb schedular \<Rightarrow> sched_tls \<times> 'cb fiber_heap \<Rightarrow>
     (sched_tls \<times> 'cb fiber_heap) res" where
  "run_enter this mainf idle_fiber stack cfg idle s = (\<lambda>(t, h).
     let t = t\<lparr>t_schedular := this, t_hook_enable := True\<rparr> in
     rbind (if st_thread t \<noteq> m_rootThread s then
              rbind (Fiber_GetThis mainf (st_fiber t, h)) (\<lambda>((ft, h), cur).
                Inr (t\<lparr>st_fiber := ft\<lparr>t_schedular_fiber := cur\<rparr>\<rparr>, h))
            else Inr (t, h))
       (\<lambda>(t, h). Inr (t, Fiber_ctor idle_fiber stack cfg (Some idle) 0 False h)))"

text \<open>
  The scan of the queue under the lock: the task taken, the queue left, and \<open>tickle_me\<close>. An
  entry for another thread is skipped with \<open>tickle_me\<close> set, a fiber that is executing without.
\<close>

fun pick_loop :: "'cb fiber_heap \<Rightarrow> int \<Rightarrow> 'cb task list \<Rightarrow> bool \<Rightarrow> ('cb task option \<times> 'cb task list \<times> bool) res" where
  "pick_loop h tid [] tickle_me = Inr (None, [], tickle_me)"
| "pick_loop h tid (it # rest) tickle_me =
     (if ft_thread it \<noteq> - 1 \<and> ft_thread it \<noteq> tid then
        rbind (pick_loop h tid rest True) (\<lambda>(ft, q, tm). Inr (ft, it # q, tm))
      else qlc_assert (ft_fiber it \<noteq> nullptr \<or> ft_cb it \<noteq> None) ''it->fiber || it->cb''
        (if ft_fiber it \<noteq> nullptr then
           rbind (live h (ft_fiber it)) (\<lambda>f.
             if fb_state f = EXEC then
               rbind (pick_loop h tid rest tickle_me) (\<lambda>(ft, q, tm). Inr (ft, it # q, tm))
             else Inr (Some it, rest, tickle_me \<or> rest \<noteq> []))
         else Inr (Some it, rest, tickle_me \<or> rest \<noteq> [])))"

definition run_pick :: "'cb fiber_heap \<Rightarrow> int \<Rightarrow> 'cb schedular \<Rightarrow> ('cb schedular \<times> 'cb task \<times> bool \<times> bool) res" where
  "run_pick h tid s =
     rbind (pick_loop h tid (m_fibers s) False) (\<lambda>(picked, q, tickle_me).
       case picked of
         None \<Rightarrow> Inr (s\<lparr>m_fibers := q\<rparr>, FT_reset, False, tickle_me)
       | Some ft \<Rightarrow>
           Inr (s\<lparr>m_fibers := q, m_activeThreadCount := m_activeThreadCount s + 1\<rparr>, ft, True, tickle_me))"

text \<open>The branch the loop takes for the task it picked.\<close>

datatype run_branch = Run_fiber | Run_cb | Run_skip | Run_exit | Run_idle

definition run_decide :: "'cb fiber_heap \<Rightarrow> 'cb task \<Rightarrow> bool \<Rightarrow> ptr \<Rightarrow> run_branch res" where
  "run_decide h ft is_active idle_fiber =
     rbind (if ft_fiber ft = nullptr then Inr False
            else rbind (live h (ft_fiber ft)) (\<lambda>f. Inr (fb_state f \<noteq> FTERM \<and> fb_state f \<noteq> EXCEPT)))
       (\<lambda>can_run.
         if can_run then Inr Run_fiber
         else if ft_cb ft \<noteq> None then Inr Run_cb
         else if is_active then Inr Run_skip
         else rbind (live h idle_fiber) (\<lambda>f. Inr (if fb_state f = FTERM then Run_exit else Run_idle)))"

text \<open>After \<open>swapIn\<close> of a task fiber has returned.\<close>

definition run_after_fiber :: "'cb task \<Rightarrow> 'cb schedular \<times> 'cb fiber_heap \<Rightarrow>
    ('cb schedular \<times> 'cb fiber_heap \<times> bool) res" where
  "run_after_fiber ft = (\<lambda>(s, h).
     let s = s\<lparr>m_activeThreadCount := m_activeThreadCount s - 1\<rparr> in
     rbind (live h (ft_fiber ft)) (\<lambda>f.
       if fb_state f = READY then
         let (s, tick) = schedule (FT_fiber (ft_fiber ft) (- 1)) s in Inr (s, h, tick)
       else if fb_state f \<noteq> FTERM \<and> fb_state f \<noteq> EXCEPT then
         Inr (s, upd_fiber (ft_fiber ft) (\<lambda>f. f\<lparr>fb_state := HOLD\<rparr>) h, False)
       else Inr (s, h, False)))"

text \<open>A callback runs on the thread's cached \<open>cb_fiber\<close>, or on a new one.\<close>

definition run_cb_fiber :: "ptr \<Rightarrow> ptr \<Rightarrow> u32 \<Rightarrow> 'cb option \<Rightarrow> ptr \<Rightarrow> 'cb fiber_heap \<Rightarrow> (ptr \<times> 'cb fiber_heap) res" where
  "run_cb_fiber fresh stack cfg cb cb_fiber h =
     (if cb_fiber \<noteq> nullptr then rbind (Fiber_reset cb_fiber cb h) (\<lambda>h. Inr (cb_fiber, h))
      else Inr (fresh, Fiber_ctor fresh stack cfg cb 0 False h))"

definition run_after_cb :: "ptr \<Rightarrow> 'cb schedular \<times> 'cb fiber_heap \<Rightarrow>
    ('cb schedular \<times> 'cb fiber_heap \<times> ptr \<times> bool) res" where
  "run_after_cb cb_fiber = (\<lambda>(s, h).
     let s = s\<lparr>m_activeThreadCount := m_activeThreadCount s - 1\<rparr> in
     rbind (live h cb_fiber) (\<lambda>f.
       if fb_state f = READY then
         let (s, tick) = schedule (FT_fiber cb_fiber (- 1)) s in Inr (s, h, nullptr, tick)
       else if fb_state f = EXCEPT \<or> fb_state f = FTERM then
         rbind (Fiber_reset cb_fiber None h) (\<lambda>h. Inr (s, h, cb_fiber, False))
       else Inr (s, upd_fiber cb_fiber (\<lambda>f. f\<lparr>fb_state := HOLD\<rparr>) h, nullptr, False)))"

definition run_skip :: "'cb schedular \<Rightarrow> 'cb schedular" where
  "run_skip s = s\<lparr>m_activeThreadCount := m_activeThreadCount s - 1\<rparr>"

definition run_before_idle :: "'cb schedular \<Rightarrow> 'cb schedular" where
  "run_before_idle s = s\<lparr>m_idleThreadCount := m_idleThreadCount s + 1\<rparr>"

definition run_after_idle :: "ptr \<Rightarrow> 'cb schedular \<times> 'cb fiber_heap \<Rightarrow> ('cb schedular \<times> 'cb fiber_heap) res" where
  "run_after_idle idle_fiber = (\<lambda>(s, h).
     let s = s\<lparr>m_idleThreadCount := m_idleThreadCount s - 1\<rparr> in
     rbind (live h idle_fiber) (\<lambda>f.
       if fb_state f \<noteq> FTERM \<and> fb_state f \<noteq> EXCEPT then
         Inr (s, upd_fiber idle_fiber (\<lambda>f. f\<lparr>fb_state := HOLD\<rparr>) h)
       else Inr (s, h)))"

text \<open>\<open>Schedular::idle\<close>: one turn of its loop, which ends the fiber or yields.\<close>

definition idle_turn :: "('cb schedular \<Rightarrow> bool) \<Rightarrow> 'cb schedular \<Rightarrow> bool" where
  "idle_turn stopped s = (\<not> stopped s)"

subsection \<open>The scan\<close>

text \<open>Which tasks a thread may take, which belong to another thread, and which are well formed.\<close>

definition elsewhere :: "int \<Rightarrow> 'cb task \<Rightarrow> bool" where
  "elsewhere tid it \<longleftrightarrow> ft_thread it \<noteq> - 1 \<and> ft_thread it \<noteq> tid"

definition executing :: "'cb fiber_heap \<Rightarrow> 'cb task \<Rightarrow> bool" where
  "executing h it \<longleftrightarrow> ft_fiber it \<noteq> nullptr \<and> has_state h (ft_fiber it) {EXEC}"

definition runnable :: "'cb fiber_heap \<Rightarrow> int \<Rightarrow> 'cb task \<Rightarrow> bool" where
  "runnable h tid it \<longleftrightarrow> \<not> elsewhere tid it \<and> \<not> executing h it"

definition task_ok :: "'cb fiber_heap \<Rightarrow> 'cb task \<Rightarrow> bool" where
  "task_ok h it \<longleftrightarrow> (ft_fiber it \<noteq> nullptr \<or> ft_cb it \<noteq> None) \<and>
     (ft_fiber it \<noteq> nullptr \<longrightarrow> fibers h (ft_fiber it) \<noteq> None)"

lemma pick_loop_skip:
  assumes "\<forall>it \<in> set xs. task_ok h it \<and> \<not> runnable h tid it"
  shows "pick_loop h tid (xs @ ys) tm =
    rbind (pick_loop h tid ys (tm \<or> (\<exists>it \<in> set xs. elsewhere tid it))) (\<lambda>(ft, q, tm). Inr (ft, xs @ q, tm))"
  using assms
proof (induction xs arbitrary: tm)
  case Nil
  then show ?case by (cases "pick_loop h tid ys tm") auto
next
  case (Cons x xs)
  then have x: "task_ok h x" "\<not> runnable h tid x" by auto
  have IH: "pick_loop h tid (xs @ ys) tm =
    rbind (pick_loop h tid ys (tm \<or> (\<exists>it \<in> set xs. elsewhere tid it))) (\<lambda>(ft, q, tm). Inr (ft, xs @ q, tm))" for tm
    using Cons by simp
  show ?case
  proof (cases "elsewhere tid x")
    case True
    then show ?thesis by (auto simp: elsewhere_def IH rbind_def split: sum.splits)
  next
    case False
    with x have ex: "executing h x" by (simp add: runnable_def)
    then obtain f where "fibers h (ft_fiber x) = Some f" "fb_state f = EXEC" "ft_fiber x \<noteq> nullptr"
      by (auto simp: executing_def has_state_def)
    with False show ?thesis
      by (auto simp: elsewhere_def IH live_def rbind_def split: sum.splits)
  qed
qed

lemma pick_loop_take:
  assumes "task_ok h it" "runnable h tid it"
  shows "pick_loop h tid (it # ys) tm = Inr (Some it, ys, tm \<or> ys \<noteq> [])"
  using assms by (auto simp: task_ok_def runnable_def elsewhere_def executing_def has_state_def live_def)

text \<open>
  C13. The scan of run() takes the first task in queue order that may run on this thread and is
  not already executing, counts the thread as active, and leaves the other tasks in their order.
  It asks for another thread to be woken exactly when a task it passed over belongs to another
  thread or tasks remain behind the one it took. When no task is eligible the queue and the
  count are unchanged and no task is returned.
\<close>

theorem run_pick_first_runnable:
  assumes "\<forall>it \<in> set (m_fibers s). task_ok h it"
  shows "(\<forall>xs it ys. m_fibers s = xs @ it # ys \<and> runnable h tid it \<and> (\<forall>x \<in> set xs. \<not> runnable h tid x) \<longrightarrow>
      run_pick h tid s =
        Inr (s\<lparr>m_fibers := xs @ ys, m_activeThreadCount := m_activeThreadCount s + 1\<rparr>, it, True,
             (\<exists>x \<in> set xs. elsewhere tid x) \<or> ys \<noteq> [])) \<and>
    ((\<forall>x \<in> set (m_fibers s). \<not> runnable h tid x) \<longrightarrow>
      run_pick h tid s = Inr (s, FT_reset, False, \<exists>x \<in> set (m_fibers s). elsewhere tid x))"
proof (intro conjI allI impI)
  fix xs it ys
  assume *: "m_fibers s = xs @ it # ys \<and> runnable h tid it \<and> (\<forall>x \<in> set xs. \<not> runnable h tid x)"
  then have "\<forall>x \<in> set xs. task_ok h x \<and> \<not> runnable h tid x" "task_ok h it"
    using assms by auto
  then show "run_pick h tid s =
      Inr (s\<lparr>m_fibers := xs @ ys, m_activeThreadCount := m_activeThreadCount s + 1\<rparr>, it, True,
           (\<exists>x \<in> set xs. elsewhere tid x) \<or> ys \<noteq> [])"
    using * by (simp add: run_pick_def pick_loop_skip pick_loop_take del: pick_loop.simps)
next
  assume "\<forall>x \<in> set (m_fibers s). \<not> runnable h tid x"
  then show "run_pick h tid s = Inr (s, FT_reset, False, \<exists>x \<in> set (m_fibers s). elsewhere tid x)"
    using assms pick_loop_skip [of "m_fibers s" h tid "[]" False] by (simp add: run_pick_def)
qed

theorem run_pick_first_runnable_witness:
  "let s = \<lparr> m_fibers = [FT_cb (Some (1::nat)) 7, FT_cb (Some 2) (- 1), FT_cb (Some 3) 5],
             m_rootFiber = nullptr, m_threads = [5, 7], m_threadIds = [5, 7], m_threadCount = 2,
             m_activeThreadCount = 0, m_idleThreadCount = 0, m_stopping = False, m_autoStop = False,
             m_rootThread = - 1 \<rparr>;
       h = \<lparr> fibers = Map.empty, s_fiber_id = 0, s_fiber_count = 0 \<rparr>
   in run_pick h 5 s =
        Inr (s\<lparr>m_fibers := [FT_cb (Some 1) 7, FT_cb (Some 3) 5], m_activeThreadCount := 1\<rparr>,
             FT_cb (Some 2) (- 1), True, True)"
proof -
  let ?s = "\<lparr> m_fibers = [FT_cb (Some (1::nat)) 7, FT_cb (Some 2) (- 1), FT_cb (Some 3) 5],
             m_rootFiber = nullptr, m_threads = [5, 7], m_threadIds = [5, 7], m_threadCount = 2,
             m_activeThreadCount = 0, m_idleThreadCount = 0, m_stopping = False, m_autoStop = False,
             m_rootThread = - 1 \<rparr>"
  let ?h = "\<lparr> fibers = Map.empty, s_fiber_id = 0, s_fiber_count = 0 \<rparr> :: nat fiber_heap"
  have ok: "\<forall>it \<in> set (m_fibers ?s). task_ok ?h it" by (simp add: task_ok_def FT_cb_def)
  show ?thesis
    unfolding Let_def
    using run_pick_first_runnable [OF ok, of 5, THEN conjunct1, rule_format,
        of "[FT_cb (Some 1) 7]" "FT_cb (Some 2) (- 1)" "[FT_cb (Some 3) 5]"]
    by (simp add: runnable_def elsewhere_def executing_def FT_cb_def)
qed

subsection \<open>The threads of a scheduler\<close>

text \<open>
  Where a thread stands in \<open>run()\<close>: at the top of the loop, after the scan with the task and
  \<open>is_active\<close>, inside one of the three \<open>swapIn\<close> calls, after one of them, or returned.
\<close>

datatype 'cb run_pc =
    Loop
  | Picked "'cb task" bool
  | In_fiber "'cb task"
  | Back_fiber "'cb task"
  | In_cb
  | Back_cb
  | In_idle
  | Back_idle
  | Exited

record 'cb sched_thread =
  th_tid :: int
  th_pc :: "'cb run_pc"
  th_idle :: ptr
  th_idle_ended :: bool
  th_cb :: ptr
  th_tls :: fiber_tls

record 'cb sched_sys =
  sy_sched :: "'cb schedular"
  sy_heap :: "'cb fiber_heap"
  sy_threads :: "'cb sched_thread list"

definition set_thread :: "nat \<Rightarrow> ('cb sched_thread \<Rightarrow> 'cb sched_thread) \<Rightarrow> 'cb sched_sys \<Rightarrow> 'cb sched_sys" where
  "set_thread i g y = y\<lparr>sy_threads := (sy_threads y)[i := g (sy_threads y ! i)]\<rparr>"

text \<open>What the code of a task does to its own fiber when it gives the thread back.\<close>

datatype body_end = Yields_ready | Yields_hold | Ends outcome

definition body_leave :: "body_end \<Rightarrow> 'cb fiber_world \<Rightarrow> 'cb fiber_world res" where
  "body_leave e = (\<lambda>(t, h).
     case e of
       Yields_ready \<Rightarrow> YieldToReady nullptr (t, h)
     | Yields_hold \<Rightarrow> YieldToHold nullptr (t, h)
     | Ends out \<Rightarrow> MainFunc (running t) out (t, h))"

text \<open>
  The steps. \<open>stopped\<close> is the virtual \<open>stopping()\<close> that \<open>idle\<close> consults. The code of a task may
  schedule tasks; code outside the scheduler's threads schedules tasks until \<open>stop()\<close> is called.
\<close>

inductive sched_step :: "'cb sched_sys \<Rightarrow> 'cb sched_sys \<Rightarrow> bool" where
  pick: "\<lbrakk> i < length (sy_threads y); thr = sy_threads y ! i; th_pc thr = Loop;
      run_pick (sy_heap y) (th_tid thr) (sy_sched y) = Inr (s', ft, act, tick) \<rbrakk> \<Longrightarrow>
    sched_step y (set_thread i (\<lambda>t. t\<lparr>th_pc := Picked ft act\<rparr>) (y\<lparr>sy_sched := s'\<rparr>))"
| enter_fiber: "\<lbrakk> i < length (sy_threads y); thr = sy_threads y ! i; th_pc thr = Picked ft act;
      run_decide (sy_heap y) ft act (th_idle thr) = Inr Run_fiber;
      swapIn (ft_fiber ft) (th_tls thr, sy_heap y) = Inr (tls', h') \<rbrakk> \<Longrightarrow>
    sched_step y (set_thread i (\<lambda>t. t\<lparr>th_pc := In_fiber ft, th_tls := tls'\<rparr>) (y\<lparr>sy_heap := h'\<rparr>))"
| enter_cb: "\<lbrakk> i < length (sy_threads y); thr = sy_threads y ! i; th_pc thr = Picked ft act;
      run_decide (sy_heap y) ft act (th_idle thr) = Inr Run_cb;
      run_cb_fiber fresh stack cfg (ft_cb ft) (th_cb thr) (sy_heap y) = Inr (cf, h1);
      swapIn cf (th_tls thr, h1) = Inr (tls', h') \<rbrakk> \<Longrightarrow>
    sched_step y (set_thread i (\<lambda>t. t\<lparr>th_pc := In_cb, th_cb := cf, th_tls := tls'\<rparr>) (y\<lparr>sy_heap := h'\<rparr>))"
| skip: "\<lbrakk> i < length (sy_threads y); thr = sy_threads y ! i; th_pc thr = Picked ft act;
      run_decide (sy_heap y) ft act (th_idle thr) = Inr Run_skip \<rbrakk> \<Longrightarrow>
    sched_step y (set_thread i (\<lambda>t. t\<lparr>th_pc := Loop\<rparr>) (y\<lparr>sy_sched := run_skip (sy_sched y)\<rparr>))"
| leave: "\<lbrakk> i < length (sy_threads y); thr = sy_threads y ! i; th_pc thr = Picked ft act;
      run_decide (sy_heap y) ft act (th_idle thr) = Inr Run_exit \<rbrakk> \<Longrightarrow>
    sched_step y (set_thread i (\<lambda>t. t\<lparr>th_pc := Exited\<rparr>) y)"
| enter_idle: "\<lbrakk> i < length (sy_threads y); thr = sy_threads y ! i; th_pc thr = Picked ft act;
      run_decide (sy_heap y) ft act (th_idle thr) = Inr Run_idle;
      swapIn (th_idle thr) (th_tls thr, sy_heap y) = Inr (tls', h') \<rbrakk> \<Longrightarrow>
    sched_step y (set_thread i (\<lambda>t. t\<lparr>th_pc := In_idle, th_tls := tls'\<rparr>)
      (y\<lparr>sy_sched := run_before_idle (sy_sched y), sy_heap := h'\<rparr>))"
| task_schedule: "\<lbrakk> i < length (sy_threads y); thr = sy_threads y ! i;
      th_pc thr = In_fiber ft \<or> th_pc thr = In_cb \<rbrakk> \<Longrightarrow>
    sched_step y (y\<lparr>sy_sched := fst (schedule new (sy_sched y))\<rparr>)"
| leave_fiber: "\<lbrakk> i < length (sy_threads y); thr = sy_threads y ! i; th_pc thr = In_fiber ft;
      body_leave e (th_tls thr, sy_heap y) = Inr (tls', h') \<rbrakk> \<Longrightarrow>
    sched_step y (set_thread i (\<lambda>t. t\<lparr>th_pc := Back_fiber ft, th_tls := tls'\<rparr>) (y\<lparr>sy_heap := h'\<rparr>))"
| leave_cb: "\<lbrakk> i < length (sy_threads y); thr = sy_threads y ! i; th_pc thr = In_cb;
      body_leave e (th_tls thr, sy_heap y) = Inr (tls', h') \<rbrakk> \<Longrightarrow>
    sched_step y (set_thread i (\<lambda>t. t\<lparr>th_pc := Back_cb, th_tls := tls'\<rparr>) (y\<lparr>sy_heap := h'\<rparr>))"
| idle_yields: "\<lbrakk> i < length (sy_threads y); thr = sy_threads y ! i; th_pc thr = In_idle;
      idle_turn stopping (sy_sched y);
      YieldToHold nullptr (th_tls thr, sy_heap y) = Inr (tls', h') \<rbrakk> \<Longrightarrow>
    sched_step y (set_thread i (\<lambda>t. t\<lparr>th_pc := Back_idle, th_tls := tls'\<rparr>) (y\<lparr>sy_heap := h'\<rparr>))"
| idle_ends: "\<lbrakk> i < length (sy_threads y); thr = sy_threads y ! i; th_pc thr = In_idle;
      \<not> idle_turn stopping (sy_sched y);
      MainFunc (running (th_tls thr)) Returns (th_tls thr, sy_heap y) = Inr (tls', h') \<rbrakk> \<Longrightarrow>
    sched_step y (set_thread i (\<lambda>t. t\<lparr>th_pc := Back_idle, th_idle_ended := True, th_tls := tls'\<rparr>)
      (y\<lparr>sy_heap := h'\<rparr>))"
| after_fiber: "\<lbrakk> i < length (sy_threads y); thr = sy_threads y ! i; th_pc thr = Back_fiber ft;
      run_after_fiber ft (sy_sched y, sy_heap y) = Inr (s', h', tick) \<rbrakk> \<Longrightarrow>
    sched_step y (set_thread i (\<lambda>t. t\<lparr>th_pc := Loop\<rparr>) (y\<lparr>sy_sched := s', sy_heap := h'\<rparr>))"
| after_cb: "\<lbrakk> i < length (sy_threads y); thr = sy_threads y ! i; th_pc thr = Back_cb;
      run_after_cb (th_cb thr) (sy_sched y, sy_heap y) = Inr (s', h', cf, tick) \<rbrakk> \<Longrightarrow>
    sched_step y (set_thread i (\<lambda>t. t\<lparr>th_pc := Loop, th_cb := cf\<rparr>) (y\<lparr>sy_sched := s', sy_heap := h'\<rparr>))"
| after_idle: "\<lbrakk> i < length (sy_threads y); thr = sy_threads y ! i; th_pc thr = Back_idle;
      run_after_idle (th_idle thr) (sy_sched y, sy_heap y) = Inr (s', h') \<rbrakk> \<Longrightarrow>
    sched_step y (set_thread i (\<lambda>t. t\<lparr>th_pc := Loop\<rparr>) (y\<lparr>sy_sched := s', sy_heap := h'\<rparr>))"
| outside_schedule: "\<not> m_autoStop (sy_sched y) \<Longrightarrow>
    sched_step y (y\<lparr>sy_sched := fst (schedule new (sy_sched y))\<rparr>)"
| outside_stop: "sched_step y (y\<lparr>sy_sched := (sy_sched y)\<lparr>m_autoStop := True, m_stopping := True\<rparr>\<rparr>)"

text \<open>Threads between the scan that took a task and the decrement of the count, and idle threads.\<close>

fun has_task :: "'cb run_pc \<Rightarrow> bool" where
  "has_task (Picked ft act) = act"
| "has_task (In_fiber ft) = True"
| "has_task (Back_fiber ft) = True"
| "has_task In_cb = True"
| "has_task Back_cb = True"
| "has_task _ = False"

fun is_idle :: "'cb run_pc \<Rightarrow> bool" where
  "is_idle In_idle = True"
| "is_idle Back_idle = True"
| "is_idle _ = False"

definition sched_inv :: "'cb sched_sys \<Rightarrow> bool" where
  "sched_inv y \<longleftrightarrow>
     length (sy_threads y) < 2 ^ 64 \<and>
     m_activeThreadCount (sy_sched y) = of_nat (count_if (\<lambda>t. has_task (th_pc t)) (sy_threads y)) \<and>
     m_idleThreadCount (sy_sched y) = of_nat (count_if (\<lambda>t. is_idle (th_pc t)) (sy_threads y)) \<and>
     (\<forall>t \<in> set (sy_threads y). \<forall>ft. th_pc t = Picked ft False \<longrightarrow> ft = FT_reset) \<and>
     (\<forall>it \<in> set (m_fibers (sy_sched y)). ft_fiber it \<noteq> nullptr \<or> ft_cb it \<noteq> None) \<and>
     ((\<exists>t \<in> set (sy_threads y). th_idle_ended t) \<longrightarrow> stopping (sy_sched y))"

definition queue_ok :: "'cb schedular \<Rightarrow> bool" where
  "queue_ok s \<longleftrightarrow> (\<forall>it \<in> set (m_fibers s). ft_fiber it \<noteq> nullptr \<or> ft_cb it \<noteq> None)"

lemma schedule_facts [simp]:
  "m_activeThreadCount (fst (schedule ft s)) = m_activeThreadCount s"
  "m_idleThreadCount (fst (schedule ft s)) = m_idleThreadCount s"
  "m_autoStop (fst (schedule ft s)) = m_autoStop s"
  "m_stopping (fst (schedule ft s)) = m_stopping s"
  "queue_ok s \<Longrightarrow> queue_ok (fst (schedule ft s))"
  by (auto simp: schedule_def scheduleNoLock_def queue_ok_def Let_def)

lemma pick_loop_subset: "pick_loop h tid q tm = Inr (ft, q', tm') \<Longrightarrow> set q' \<subseteq> set q \<and> (ft = None \<longrightarrow> q' = q)"
proof (induction q arbitrary: tm ft q' tm')
  case (Cons it rest)
  show ?case
  proof (cases "elsewhere tid it \<or> executing h it")
    case True
    then obtain q'' b where "pick_loop h tid rest b = Inr (ft, q'', tm')" "q' = it # q''"
      using Cons.prems by (auto simp: elsewhere_def executing_def has_state_def live_def split: if_splits)
    then show ?thesis using Cons.IH [of b ft q'' tm'] by auto
  next
    case False
    then have "ft = Some it \<and> q' = rest"
      using Cons.prems
      by (auto simp: elsewhere_def executing_def has_state_def live_def split: if_splits option.splits)
    then show ?thesis by auto
  qed
qed simp

lemma run_pick_facts:
  assumes "run_pick h tid s = Inr (s', ft, act, tick)"
  shows "m_activeThreadCount s' = m_activeThreadCount s + (if act then 1 else 0)"
    "m_idleThreadCount s' = m_idleThreadCount s" "m_autoStop s' = m_autoStop s" "m_stopping s' = m_stopping s"
    "\<not> act \<Longrightarrow> ft = FT_reset \<and> s' = s" "queue_ok s \<Longrightarrow> queue_ok s'" "m_fibers s = [] \<Longrightarrow> \<not> act"
proof -
  obtain p q tm where p: "pick_loop h tid (m_fibers s) False = Inr (p, q, tm)"
    and s': "case p of None \<Rightarrow> (s', ft, act, tick) = (s\<lparr>m_fibers := q\<rparr>, FT_reset, False, tm)
      | Some f \<Rightarrow> (s', ft, act, tick) =
          (s\<lparr>m_fibers := q, m_activeThreadCount := m_activeThreadCount s + 1\<rparr>, f, True, tm)"
    using assms by (auto simp: run_pick_def split: option.splits)
  note sub = pick_loop_subset [OF p]
  show "m_activeThreadCount s' = m_activeThreadCount s + (if act then 1 else 0)"
    "m_idleThreadCount s' = m_idleThreadCount s" "m_autoStop s' = m_autoStop s" "m_stopping s' = m_stopping s"
    "\<not> act \<Longrightarrow> ft = FT_reset \<and> s' = s" "queue_ok s \<Longrightarrow> queue_ok s'"
    using s' sub by (auto simp: queue_ok_def split: option.splits)
  show "m_fibers s = [] \<Longrightarrow> \<not> act" using s' p by (auto split: option.splits)
qed

lemma run_after_facts:
  "run_after_fiber ft (s, h) = Inr (s', h', tick) \<Longrightarrow>
     m_activeThreadCount s' = m_activeThreadCount s - 1 \<and> m_idleThreadCount s' = m_idleThreadCount s \<and>
     (queue_ok s \<longrightarrow> queue_ok s')"
  "run_after_cb cf (s, h) = Inr (s', h', cf', tick) \<Longrightarrow>
     m_activeThreadCount s' = m_activeThreadCount s - 1 \<and> m_idleThreadCount s' = m_idleThreadCount s \<and>
     (queue_ok s \<longrightarrow> queue_ok s')"
  "run_after_idle p (s, h) = Inr (s', h') \<Longrightarrow>
     m_activeThreadCount s' = m_activeThreadCount s \<and> m_idleThreadCount s' = m_idleThreadCount s - 1 \<and>
     (queue_ok s \<longrightarrow> queue_ok s') \<and> stopping s' = stopping s"
  subgoal by (auto simp: run_after_fiber_def Let_def schedule_def scheduleNoLock_def queue_ok_def split: if_splits)
  subgoal by (auto simp: run_after_cb_def Let_def schedule_def scheduleNoLock_def queue_ok_def split: if_splits)
  subgoal by (auto simp: run_after_idle_def Let_def queue_ok_def stopping_def split: if_splits)
  done

lemma run_decide_active:
  "run_decide h ft act idle = Inr Run_skip \<Longrightarrow> act"
  "run_decide h FT_reset False idle = Inr b \<Longrightarrow> b = Run_exit \<or> b = Run_idle"
  "run_decide h ft act idle = Inr Run_exit \<Longrightarrow> \<not> act"
  "run_decide h ft act idle = Inr Run_idle \<Longrightarrow> \<not> act"
  by (auto simp: run_decide_def FT_reset_def split: if_splits)

lemma active_not_stopping:
  assumes "sched_inv y" "i < length (sy_threads y)" "has_task (th_pc (sy_threads y ! i))"
  shows "\<not> stopping (sy_sched y)"
proof -
  have "0 < count_if (\<lambda>t. has_task (th_pc t)) (sy_threads y)"
    using assms by (auto intro!: count_if_pos)
  moreover have "count_if (\<lambda>t. has_task (th_pc t)) (sy_threads y) < 2 ^ 64"
    using assms(1) count_if_le [of _ "sy_threads y"] by (auto simp: sched_inv_def intro: le_less_trans)
  then have "unat (of_nat (count_if (\<lambda>t. has_task (th_pc t)) (sy_threads y)) :: u64) =
      count_if (\<lambda>t. has_task (th_pc t)) (sy_threads y)"
    by (intro unat_of_nat_small) simp
  ultimately have "(of_nat (count_if (\<lambda>t. has_task (th_pc t)) (sy_threads y)) :: u64) \<noteq> 0"
    by (metis less_irrefl unat_0)
  then show ?thesis using assms(1) by (simp add: sched_inv_def stopping_def)
qed

lemma sched_inv_set_thread:
  assumes inv: "sched_inv y" and i: "i < length (sy_threads y)" and y': "sy_threads y' = sy_threads y"
    and thr: "thr = sy_threads y ! i" and s': "s' = sy_sched y'"
    and act: "m_activeThreadCount s' = m_activeThreadCount (sy_sched y) +
      (if has_task (th_pc (g thr)) then 1 else 0) - (if has_task (th_pc thr) then 1 else 0)"
    and idle: "m_idleThreadCount s' = m_idleThreadCount (sy_sched y) +
      (if is_idle (th_pc (g thr)) then 1 else 0) - (if is_idle (th_pc thr) then 1 else 0)"
    and reset: "\<And>ft. th_pc (g thr) = Picked ft False \<Longrightarrow> ft = FT_reset"
    and q: "queue_ok (sy_sched y) \<Longrightarrow> queue_ok s'"
    and st: "stopping (sy_sched y) \<Longrightarrow> stopping s'"
    and e: "th_idle_ended (g thr) \<Longrightarrow> th_idle_ended thr \<or> stopping (sy_sched y)"
  shows "sched_inv (set_thread i g y')"
proof -
  have sub: "t \<in> set ((sy_threads y)[i := g thr]) \<Longrightarrow> t \<in> set (sy_threads y) \<or> t = g thr" for t
    using set_update_subset_insert [of "sy_threads y" i "g thr"] by auto
  have mem: "thr \<in> set (sy_threads y)" using i thr by simp
  have "m_activeThreadCount s' = of_nat (count_if (\<lambda>t. has_task (th_pc t)) ((sy_threads y)[i := g thr]))"
    "m_idleThreadCount s' = of_nat (count_if (\<lambda>t. is_idle (th_pc t)) ((sy_threads y)[i := g thr]))"
    using inv act idle by (auto simp: sched_inv_def of_nat_count [OF i] thr)
  moreover have "\<forall>t \<in> set ((sy_threads y)[i := g thr]). \<forall>ft. th_pc t = Picked ft False \<longrightarrow> ft = FT_reset"
    using inv sub reset by (auto simp: sched_inv_def)
  moreover have "stopping s'" if "t \<in> set ((sy_threads y)[i := g thr])" "th_idle_ended t" for t
    using sub [OF that(1)] that(2) inv e st mem by (auto simp: sched_inv_def)
  ultimately show ?thesis
    using inv q by (auto simp: sched_inv_def set_thread_def queue_ok_def y' s' thr)
qed

lemma sched_step_inv: "sched_step y y' \<Longrightarrow> sched_inv y \<Longrightarrow> sched_inv y'"
proof (induction rule: sched_step.induct)
  case (pick i y thr s' ft act tick)
  note facts = run_pick_facts [OF pick(4)]
  show ?case
    by (rule sched_inv_set_thread [OF pick(5,1) _ pick(2) refl])
      (use pick(3) facts in \<open>auto simp: stopping_def\<close>)
next
  case (enter_fiber i y thr ft act tls' h')
  have act: "act"
    using enter_fiber run_decide_active(2) [of _ "th_idle thr" Run_fiber]
    by (cases act) (auto simp: sched_inv_def dest!: bspec [of _ _ thr])
  show ?case
    by (rule sched_inv_set_thread [OF enter_fiber(6,1) _ enter_fiber(2) refl]) (use enter_fiber(3) act in auto)
next
  case (enter_cb i y thr ft act fresh stack cfg cf h1 tls' h')
  have act: "act"
    using enter_cb run_decide_active(2) [of _ "th_idle thr" Run_cb]
    by (cases act) (auto simp: sched_inv_def dest!: bspec [of _ _ thr])
  show ?case
    by (rule sched_inv_set_thread [OF enter_cb(7,1) _ enter_cb(2) refl]) (use enter_cb(3) act in auto)
next
  case (skip i y thr ft act)
  have act: "act" using skip(4) by (rule run_decide_active)
  show ?case
    by (rule sched_inv_set_thread [OF skip(5,1) _ skip(2) refl])
      (use skip(3) act active_not_stopping [OF skip(5,1)] in \<open>auto simp: run_skip_def queue_ok_def skip(2)\<close>)
next
  case (leave i y thr ft act)
  have act: "\<not> act" using leave(4) by (rule run_decide_active)
  show ?case
    by (rule sched_inv_set_thread [OF leave(5,1) _ leave(2) refl]) (use leave(3) act in auto)
next
  case (enter_idle i y thr ft act tls' h')
  have act: "\<not> act" using enter_idle(4) by (rule run_decide_active)
  show ?case
    by (rule sched_inv_set_thread [OF enter_idle(6,1) _ enter_idle(2) refl])
      (use enter_idle(3) act in \<open>auto simp: run_before_idle_def queue_ok_def stopping_def\<close>)
next
  case (task_schedule i y thr ft new)
  have "\<not> stopping (sy_sched y)"
    by (rule active_not_stopping [OF task_schedule(4,1)]) (use task_schedule in auto)
  then show ?case
    using task_schedule(4) schedule_facts(5) [of "sy_sched y" new]
    by (auto simp: sched_inv_def queue_ok_def)
next
  case (leave_fiber i y thr ft e tls' h')
  show ?case
    by (rule sched_inv_set_thread [OF leave_fiber(5,1) _ leave_fiber(2) refl]) (use leave_fiber(3) in auto)
next
  case (leave_cb i y thr e tls' h')
  show ?case
    by (rule sched_inv_set_thread [OF leave_cb(5,1) _ leave_cb(2) refl]) (use leave_cb(3) in auto)
next
  case (idle_yields i y thr tls' h')
  show ?case
    by (rule sched_inv_set_thread [OF idle_yields(6,1) _ idle_yields(2) refl]) (use idle_yields(3) in auto)
next
  case (idle_ends i y thr tls' h')
  show ?case
    by (rule sched_inv_set_thread [OF idle_ends(6,1) _ idle_ends(2) refl])
      (use idle_ends(3,4) in \<open>auto simp: idle_turn_def\<close>)
next
  case (after_fiber i y thr ft s' h' tick)
  show ?case
    by (rule sched_inv_set_thread [OF after_fiber(5,1) _ after_fiber(2) refl])
      (use after_fiber(3) run_after_facts(1) [OF after_fiber(4)] active_not_stopping [OF after_fiber(5,1)]
        in \<open>auto simp: after_fiber(2)\<close>)
next
  case (after_cb i y thr s' h' cf tick)
  show ?case
    by (rule sched_inv_set_thread [OF after_cb(5,1) _ after_cb(2) refl])
      (use after_cb(3) run_after_facts(2) [OF after_cb(4)] active_not_stopping [OF after_cb(5,1)]
        in \<open>auto simp: after_cb(2)\<close>)
next
  case (after_idle i y thr s' h')
  show ?case
    by (rule sched_inv_set_thread [OF after_idle(5,1) _ after_idle(2) refl])
      (use after_idle(3) run_after_facts(3) [OF after_idle(4)] in auto)
next
  case (outside_schedule y new)
  then show ?case
    using schedule_facts(5) [of "sy_sched y" new] by (auto simp: sched_inv_def queue_ok_def stopping_def)
next
  case (outside_stop y)
  then show ?case by (auto simp: sched_inv_def stopping_def)
qed

lemma sched_step_stopping:
  assumes "sched_step y y'" "sched_inv y" "stopping (sy_sched y)"
  shows "stopping (sy_sched y')"
proof -
  have idle: "\<not> has_task (th_pc (sy_threads y ! i))" if "i < length (sy_threads y)" for i
    using active_not_stopping [OF assms(2) that] assms(3) by blast
  show ?thesis
    using assms(1)
  proof cases
    case (pick i thr s' ft act tick)
    then have "s' = sy_sched y"
      using run_pick_facts(5,7) [OF pick(5)] assms(3) by (auto simp: stopping_def)
    then show ?thesis using pick assms(3) by (simp add: set_thread_def)
  next
    case (skip i thr ft act)
    then show ?thesis using idle [of i] run_decide_active(1) by force
  next
    case (enter_idle i thr ft act tls' h')
    then show ?thesis using assms(3) by (simp add: set_thread_def run_before_idle_def stopping_def)
  next
    case (task_schedule i thr ft new)
    then show ?thesis using idle [of i] by auto
  next
    case (after_fiber i thr ft s' h' tick)
    then show ?thesis using idle [of i] by auto
  next
    case (after_cb i thr s' h' cf tick)
    then show ?thesis using idle [of i] by auto
  next
    case (after_idle i thr s' h')
    then show ?thesis using run_after_facts(3) [OF after_idle(5)] assms(3) by (simp add: set_thread_def)
  qed (use assms(3) in \<open>auto simp: set_thread_def stopping_def\<close>)
qed

text \<open>A scheduler whose threads have just entered \<open>run()\<close>, with any tasks already queued.\<close>

definition sched_init :: "'cb sched_sys \<Rightarrow> bool" where
  "sched_init y \<longleftrightarrow> length (sy_threads y) < 2 ^ 64 \<and> queue_ok (sy_sched y) \<and>
     m_activeThreadCount (sy_sched y) = 0 \<and> m_idleThreadCount (sy_sched y) = 0 \<and>
     (\<forall>t \<in> set (sy_threads y). th_pc t = Loop \<and> \<not> th_idle_ended t)"

inductive sched_reach :: "'cb sched_sys \<Rightarrow> bool" where
  init: "sched_init y \<Longrightarrow> sched_reach y"
| step: "sched_reach y \<Longrightarrow> sched_step y y' \<Longrightarrow> sched_reach y'"

lemma sched_reach_inv: "sched_reach y \<Longrightarrow> sched_inv y"
proof (induction rule: sched_reach.induct)
  case (init y)
  then have "count_if (\<lambda>t. has_task (th_pc t)) (sy_threads y) = 0"
    "count_if (\<lambda>t. is_idle (th_pc t)) (sy_threads y) = 0"
    by (auto simp: sched_init_def count_if_zero)
  with init show ?case by (auto simp: sched_init_def sched_inv_def queue_ok_def)
qed (rule sched_step_inv)


definition demo_sys :: "nat sched_sys" where
  "demo_sys =
     \<lparr> sy_sched = \<lparr> m_fibers = [FT_cb (Some 1) (- 1)], m_rootFiber = nullptr, m_threads = [5],
         m_threadIds = [5], m_threadCount = 1, m_activeThreadCount = 0, m_idleThreadCount = 0,
         m_stopping = False, m_autoStop = False, m_rootThread = - 1 \<rparr>,
       sy_heap = snd demo_world,
       sy_threads = [\<lparr> th_tid = 5, th_pc = Loop, th_idle = 2, th_idle_ended = False, th_cb = nullptr,
         th_tls = fst demo_world \<rparr>] \<rparr>"

lemma demo_sys_init: "sched_init demo_sys"
  by (simp add: sched_init_def demo_sys_def queue_ok_def FT_cb_def)


text \<open>
  stopping() is stable: once it is true in a reachable state it stays true under every
  further step of the threads, so all threads see the same decision and leave run().
\<close>

theorem sched_stopping_stable:
  assumes "sched_reach y" "stopping (sy_sched y)" "sched_step\<^sup>*\<^sup>* y y'"
  shows "stopping (sy_sched y') \<and> m_fibers (sy_sched y') = []"
proof -
  have "sched_reach y' \<and> stopping (sy_sched y')"
    using assms(3,1,2)
  proof (induction rule: rtranclp_induct)
    case (step y' y'')
    then show ?case
      using sched_step_stopping [OF step(2) sched_reach_inv] sched_reach.step [of y' y''] by blast
  qed simp
  then show ?thesis by (simp add: stopping_def)
qed

theorem sched_stopping_stable_witness:
  "let y = demo_sys\<lparr>sy_sched := (sy_sched demo_sys)\<lparr>m_fibers := [], m_autoStop := True, m_stopping := True\<rparr>\<rparr>
   in sched_reach y \<and> stopping (sy_sched y) \<and> sched_step\<^sup>*\<^sup>* y y \<and> m_fibers (sy_sched y) = []"
proof -
  let ?y = "demo_sys\<lparr>sy_sched := (sy_sched demo_sys)\<lparr>m_fibers := [], m_autoStop := True, m_stopping := True\<rparr>\<rparr>"
  have r: "sched_reach ?y"
    using demo_sys_init by (intro sched_reach.init) (simp add: sched_init_def queue_ok_def)
  have s: "stopping (sy_sched ?y)" by (simp add: stopping_def demo_sys_def)
  show ?thesis
    unfolding Let_def using sched_stopping_stable [OF r s rtranclp.rtrancl_refl] r s by blast
qed

subsection \<open>What becomes of a task\<close>

text \<open>
  What run() does with a fiber that gives its thread back. A fiber that yielded READY is put
  at the end of the queue, free to run on any thread, also when its task was bound to one; one
  that ended is dropped; any other is left in HOLD. The thread's callback fiber is handed over
  to the queue when it yielded READY, reset to INIT and kept for the next callback when it ended,
  and otherwise left in HOLD and forgotten by the thread.
\<close>

theorem run_after_outcomes:
  fixes s :: "'cb schedular"
  assumes "fibers h p = Some f" "p \<noteq> nullptr" "ft_fiber ft = p"
  defines "s' \<equiv> s\<lparr>m_activeThreadCount := m_activeThreadCount s - 1\<rparr>"
  shows "(fb_state f = READY \<longrightarrow>
      run_after_fiber ft (s, h) = Inr (s'\<lparr>m_fibers := m_fibers s @ [FT_fiber p (- 1)]\<rparr>, h, m_fibers s = []) \<and>
      run_after_cb p (s, h) =
        Inr (s'\<lparr>m_fibers := m_fibers s @ [FT_fiber p (- 1)]\<rparr>, h, nullptr, m_fibers s = [])) \<and>
    (fb_state f \<in> {FTERM, EXCEPT} \<and> fb_stack f \<noteq> nullptr \<longrightarrow>
      run_after_fiber ft (s, h) = Inr (s', h, False) \<and>
      (\<exists>h'. run_after_cb p (s, h) = Inr (s', h', p, False) \<and> has_state h' p {INIT} \<and>
         map_option fb_cb (fibers h' p) = Some None)) \<and>
    (fb_state f \<in> {INIT, HOLD, EXEC} \<longrightarrow>
      (\<exists>h'. run_after_fiber ft (s, h) = Inr (s', h', False) \<and> run_after_cb p (s, h) = Inr (s', h', nullptr, False) \<and>
         has_state h' p {HOLD}))"
  using assms
  by (auto simp: run_after_fiber_def run_after_cb_def live_def Let_def schedule_def scheduleNoLock_def
      FT_fiber_def Fiber_reset_def has_state_def fibers_upd_fiber)

theorem run_after_outcomes_witness:
  "let h = upd_fiber 2 (\<lambda>f. f\<lparr>fb_state := READY\<rparr>) (Fiber_ctor 2 100 131072 (Some 7) 0 False (snd demo_world));
       s = sy_sched demo_sys
   in run_after_fiber (FT_fiber 2 5) (s, h) =
        Inr (s\<lparr>m_activeThreadCount := - 1, m_fibers := [FT_cb (Some 1) (- 1), FT_fiber 2 (- 1)]\<rparr>, h, False)"
proof -
  let ?h = "upd_fiber 2 (\<lambda>f. f\<lparr>fb_state := READY\<rparr>) (Fiber_ctor 2 100 131072 (Some 7) 0 False (snd demo_world))"
  obtain f where f: "fibers ?h 2 = Some f" "fb_state f = READY"
    by (simp add: fibers_upd_fiber Fiber_ctor_def)
  show ?thesis
    unfolding Let_def
    using run_after_outcomes [OF f(1), of "FT_fiber 2 5" "sy_sched demo_sys"] f(2)
    by (simp add: FT_fiber_def demo_sys_def)
qed

text \<open>
  A fiber that is queued twice can be taken by two threads: the scan tests for EXEC under the
  lock, but the state becomes EXEC only in swapIn, after the lock is released. The second
  thread's swapIn then fails its assertion and aborts the process.
\<close>

theorem double_schedule_aborts:
  assumes "fibers h p = Some f" "p \<noteq> nullptr" "fb_state f \<in> {INIT, HOLD, READY}"
    and "m_fibers s = FT_fiber p (- 1) # FT_fiber p (- 1) # q"
    and "swapIn p (t1, h) = Inr (t1', h')"
  shows "\<exists>s1 s2 tick1 tick2. run_pick h tid1 s = Inr (s1, FT_fiber p (- 1), True, tick1) \<and>
    run_pick h tid2 s1 = Inr (s2, FT_fiber p (- 1), True, tick2) \<and>
    (\<exists>m. swapIn p (t2, h') = Inl (Assertion m))"
proof -
  have "\<exists>s1 tick. run_pick h tid s = Inr (s1, FT_fiber p (- 1), True, tick) \<and> m_fibers s1 = q"
    if "m_fibers s = FT_fiber p (- 1) # q" for s q tid
    using that assms(1-3) by (auto simp: run_pick_def FT_fiber_def live_def)
  then obtain s1 s2 tick1 tick2 where "run_pick h tid1 s = Inr (s1, FT_fiber p (- 1), True, tick1)"
    "run_pick h tid2 s1 = Inr (s2, FT_fiber p (- 1), True, tick2)"
    using assms(4) by metis
  moreover have "has_state h' p {EXEC}"
    using assms(1,5) by (auto simp: swapIn_def live_def swapcontext_def has_state_def fibers_upd_fiber Let_def
        split: option.splits if_splits)
  then have "\<exists>m. swapIn p (t2, h') = Inl (Assertion m)"
    by (auto simp: swapIn_def live_def has_state_def Let_def)
  ultimately show ?thesis by blast
qed

theorem double_schedule_aborts_witness:
  "\<exists>h p q. fibers h p \<noteq> None \<and>
     (\<exists>s1 s2 tick1 tick2.
        run_pick h 5 ((sy_sched demo_sys)\<lparr>m_fibers := FT_fiber p (- 1) # FT_fiber p (- 1) # q\<rparr>) =
          Inr (s1, FT_fiber p (- 1), True, tick1) \<and>
        run_pick h 6 s1 = Inr (s2, FT_fiber p (- 1), True, tick2))"
proof -
  let ?h = "Fiber_ctor 2 100 131072 (Some 7) 0 False (snd demo_world)"
  have g: "fiber_guard (Op_new 2 100 131072 (Some 7) 0) demo_world" by (simp add: demo_world_def)
  have inv: "fiber_inv (fst demo_world, ?h)"
    using inv_new [of "fst demo_world" "snd demo_world" 2 100 131072 "Some 7" 0]
      fiber_reach_inv [OF demo_world_reach] g by simp
  have "fiber_guard (Op_swapIn 2) (fst demo_world, ?h)"
    by (simp add: demo_world_def Fiber_ctor_def is_task_def has_state_def)
  then obtain t' h' where sw: "swapIn 2 (fst demo_world, ?h) = Inr (t', h')"
    using swapIn_ok [OF inv] by blast
  obtain f where f: "fibers ?h 2 = Some f" "fb_state f \<in> {INIT, HOLD, READY}"
    by (simp add: Fiber_ctor_def)
  have q: "m_fibers ((sy_sched demo_sys)\<lparr>m_fibers := FT_fiber 2 (- 1) # FT_fiber 2 (- 1) # []\<rparr>) =
      FT_fiber 2 (- 1) # FT_fiber 2 (- 1) # []" by simp
  show ?thesis
    using double_schedule_aborts [OF f(1) _ f(2) q sw, of 5 6 "fst demo_world"] f(1)
    by (intro exI [of _ ?h] exI [of _ 2] exI [of _ "[]"]) auto
qed

end
