(* ===== verification/Timer.thy ===== *)
theory Timer
  imports Prelude
begin

section \<open>Timers (timer.h, timer.cpp)\<close>

text \<open>
  \<open>Timer\<close> objects live in a heap indexed by their address; \<open>TimerManager::m_timers\<close> is the
  \<open>std::set\<close> of their addresses, ordered by \<open>Timer::Comparator\<close>, which reads the deadline
  through the heap. The manager that \<open>m_manager\<close> points to is the state argument of every
  operation. The current time and the address a \<open>new\<close> returns are arguments. The call of the
  virtual \<open>onTimerInsertedAtFront\<close>, made after the lock is released, is a boolean result that
  the subclass acts on.
\<close>

subsection \<open>Data\<close>

text \<open>
  A timer's \<open>std::function\<close>: a plain callback, or \<open>std::bind(&OnTimer, weak_cond, cb)\<close> of a
  conditional timer, with the control block of the weak pointer and the wrapped function, which
  may itself be empty.
\<close>

datatype 'cb timer_cb = Cb 'cb | Bind_OnTimer ptr "'cb option"

record 'cb timer =
  m_recurring :: bool
  m_ms :: u64
  m_next :: u64
  m_cb :: "'cb timer_cb option"

type_synonym 'cb timer_heap = "ptr \<Rightarrow> 'cb timer"

record 'cb timer_manager =
  tm_heap :: "'cb timer_heap"
  m_timers :: "ptr list"
  m_tickled :: bool
  m_previouseTime :: u64

subsection \<open>Timer\<close>

definition Comparator :: "'cb timer_heap \<Rightarrow> ptr \<Rightarrow> ptr \<Rightarrow> bool" where
  "Comparator h lf rg =
     (if lf = nullptr \<and> rg = nullptr then False
      else if lf = nullptr then True
      else if rg = nullptr then False
      else if m_next (h lf) < m_next (h rg) then True
      else if m_next (h lf) > m_next (h rg) then False
      else lf < rg)"

definition Timer_ctor :: "u64 \<Rightarrow> 'cb timer_cb option \<Rightarrow> bool \<Rightarrow> u64 \<Rightarrow> 'cb timer" where
  "Timer_ctor ms cb recurring now =
     \<lparr>m_recurring = recurring, m_ms = ms, m_next = ms + now, m_cb = cb\<rparr>"

definition Timer_ctor_next :: "u64 \<Rightarrow> 'cb timer" where
  "Timer_ctor_next next_ms = \<lparr>m_recurring = False, m_ms = 0, m_next = next_ms, m_cb = None\<rparr>"

abbreviation upd_timer ::
  "ptr \<Rightarrow> ('cb timer \<Rightarrow> 'cb timer) \<Rightarrow> 'cb timer_manager \<Rightarrow> 'cb timer_manager" where
  "upd_timer p f M \<equiv> M\<lparr>tm_heap := (tm_heap M)(p := f (tm_heap M p))\<rparr>"

abbreviation tm_find :: "'cb timer_manager \<Rightarrow> ptr \<Rightarrow> nat option" where
  "tm_find M p \<equiv> oset_find (Comparator (tm_heap M)) p (m_timers M)"

abbreviation tm_insert :: "ptr \<Rightarrow> 'cb timer_manager \<Rightarrow> 'cb timer_manager" where
  "tm_insert p M \<equiv> M\<lparr>m_timers := oset_insert (Comparator (tm_heap M)) p (m_timers M)\<rparr>"

abbreviation tm_erase :: "nat \<Rightarrow> 'cb timer_manager \<Rightarrow> 'cb timer_manager" where
  "tm_erase i M \<equiv> M\<lparr>m_timers := erase_at i (m_timers M)\<rparr>"

definition Timer_cancel :: "'cb timer_manager \<Rightarrow> ptr \<Rightarrow> 'cb timer_manager \<times> bool" where
  "Timer_cancel M p =
     (if m_cb (tm_heap M p) \<noteq> None then
        let M1 = upd_timer p (\<lambda>t. t\<lparr>m_cb := None\<rparr>) M
        in (case tm_find M1 p of
              Some i \<Rightarrow> (tm_erase i M1, True)
            | None \<Rightarrow> (M1, False))
      else (M, False))"

definition Timer_refresh :: "'cb timer_manager \<Rightarrow> ptr \<Rightarrow> u64 \<Rightarrow> 'cb timer_manager \<times> bool" where
  "Timer_refresh M p now =
     (if m_cb (tm_heap M p) = None then (M, False)
      else (case tm_find M p of
              None \<Rightarrow> (M, False)
            | Some i \<Rightarrow>
                (let M1 = tm_erase i M;
                     M2 = upd_timer p (\<lambda>t. t\<lparr>m_next := now + m_ms t\<rparr>) M1
                 in (tm_insert p M2, True))))"

subsection \<open>TimerManager\<close>

definition TimerManager_ctor :: "u64 \<Rightarrow> 'cb timer_heap \<Rightarrow> 'cb timer_manager" where
  "TimerManager_ctor now h =
     \<lparr>tm_heap = h, m_timers = [], m_tickled = False, m_previouseTime = now\<rparr>"

text \<open>\<open>addTimer(Timer::ptr val, WriteLock& lock)\<close>; the result says whether
  \<open>onTimerInsertedAtFront\<close> is called.\<close>

definition addTimer_locked :: "'cb timer_manager \<Rightarrow> ptr \<Rightarrow> 'cb timer_manager \<times> bool" where
  "addTimer_locked M val =
     (let M1 = tm_insert val M;
          on_first = (tm_find M1 val = Some 0 \<and> \<not> m_tickled M)
      in (if on_first then M1\<lparr>m_tickled := True\<rparr> else M1, on_first))"

definition addTimer ::
  "'cb timer_manager \<Rightarrow> ptr \<Rightarrow> u64 \<Rightarrow> 'cb timer_cb option \<Rightarrow> bool \<Rightarrow> u64 \<Rightarrow> 'cb timer_manager \<times> bool"
  where
  "addTimer M p ms cb recurring now =
     addTimer_locked (upd_timer p (\<lambda>_. Timer_ctor ms cb recurring now) M) p"

definition addConditionTimer ::
  "'cb timer_manager \<Rightarrow> ptr \<Rightarrow> u64 \<Rightarrow> 'cb option \<Rightarrow> ptr \<Rightarrow> bool \<Rightarrow> u64 \<Rightarrow> 'cb timer_manager \<times> bool"
  where
  "addConditionTimer M p ms cb weak_cond recurring now =
     addTimer M p ms (Some (Bind_OnTimer weak_cond cb)) recurring now"

definition Timer_reset ::
  "'cb timer_manager \<Rightarrow> ptr \<Rightarrow> u64 \<Rightarrow> bool \<Rightarrow> u64 \<Rightarrow> 'cb timer_manager \<times> bool \<times> bool" where
  "Timer_reset M p ms from_now now =
     (if ms = m_ms (tm_heap M p) \<and> \<not> from_now then (M, True, False)
      else if m_cb (tm_heap M p) = None then (M, False, False)
      else (case tm_find M p of
              None \<Rightarrow> (M, False, False)
            | Some i \<Rightarrow>
                (let M1 = tm_erase i M;
                     t = tm_heap M p;
                     start = (if from_now then now else m_next t - m_ms t);
                     M2 = upd_timer p (\<lambda>t. t\<lparr>m_ms := ms, m_next := start + ms\<rparr>) M1;
                     (M3, front) = addTimer_locked M2 p
                 in (M3, True, front))))"

text \<open>
  \<open>OnTimer\<close>: \<open>alive w\<close> says whether \<open>lock()\<close> on the weak pointer succeeds. The result is the
  user callback that runs, if one does; calling an empty \<open>std::function\<close> throws.
\<close>

definition OnTimer :: "(ptr \<Rightarrow> bool) \<Rightarrow> ptr \<Rightarrow> 'cb option \<Rightarrow> 'cb option res" where
  "OnTimer alive weak_cond cb =
     (if alive weak_cond then
        (case cb of None \<Rightarrow> Inl (Std_exception ''bad_function_call'') | Some f \<Rightarrow> Inr (Some f))
      else Inr None)"

definition getNextTimer :: "'cb timer_manager \<Rightarrow> u64 \<Rightarrow> 'cb timer_manager \<times> u64" where
  "getNextTimer M now_ms =
     (M\<lparr>m_tickled := False\<rparr>,
      case m_timers M of
        [] \<Rightarrow> - 1
      | p # _ \<Rightarrow>
          (if now_ms \<ge> m_next (tm_heap M p) then 0 else m_next (tm_heap M p) - now_ms))"

definition detectClockRollover :: "'cb timer_manager \<Rightarrow> u64 \<Rightarrow> 'cb timer_manager \<times> bool" where
  "detectClockRollover M now_ms =
     (M\<lparr>m_previouseTime := now_ms\<rparr>,
      now_ms > m_previouseTime M \<and> now_ms > m_previouseTime M + 60 * 60 * 1000)"

text \<open>The \<open>while\<close> loop of \<open>listExpiredCb\<close>: how far it steps over timers due right now.\<close>

fun skip_equal :: "'cb timer_heap \<Rightarrow> u64 \<Rightarrow> ptr list \<Rightarrow> nat" where
  "skip_equal h now_ms [] = 0"
| "skip_equal h now_ms (p # ps) = (if m_next (h p) = now_ms then Suc (skip_equal h now_ms ps) else 0)"

text \<open>The \<open>for\<close> loop of \<open>listExpiredCb\<close> over the expired timers.\<close>

fun expire_loop ::
  "u64 \<Rightarrow> ptr list \<Rightarrow> 'cb timer_manager \<Rightarrow> 'cb timer_cb option list
     \<Rightarrow> 'cb timer_manager \<times> 'cb timer_cb option list"
  where
  "expire_loop now_ms [] M cbs = (M, cbs)"
| "expire_loop now_ms (p # ps) M cbs =
     (let t = tm_heap M p
      in expire_loop now_ms ps
           (if m_recurring t
            then tm_insert p (upd_timer p (\<lambda>t. t\<lparr>m_next := m_ms t + now_ms\<rparr>) M)
            else upd_timer p (\<lambda>t. t\<lparr>m_cb := None\<rparr>) M)
           (cbs @ [m_cb t]))"

text \<open>
  The part of \<open>listExpiredCb\<close> under the write lock. \<open>a\<close> is the address of the temporary
  \<open>now_timer\<close>. Dereferencing \<open>begin()\<close> of an empty set is undefined.
\<close>

definition listExpiredCb_locked ::
  "'cb timer_manager \<Rightarrow> u64 \<Rightarrow> ptr \<Rightarrow> 'cb timer_cb option list
     \<Rightarrow> ('cb timer_manager \<times> 'cb timer_cb option list) res"
  where
  "listExpiredCb_locked M now_ms a cbs =
     (let (M1, rollover) = detectClockRollover M now_ms;
          ts = m_timers M1;
          h = (tm_heap M1)(a := Timer_ctor_next now_ms)
      in if \<not> rollover \<and> ts = [] then Inl (Undefined ''begin() of an empty set'')
         else if \<not> rollover \<and> m_next (tm_heap M1 (hd ts)) > now_ms then Inr (M1, cbs)
         else
           (let lb = (if rollover then length ts else oset_lower_bound (Comparator h) a ts);
                it = lb + skip_equal (tm_heap M1) now_ms (drop lb ts);
                expired = take it ts
            in Inr (expire_loop now_ms expired (M1\<lparr>m_timers := drop it ts\<rparr>) cbs)))"

definition listExpiredCb ::
  "'cb timer_manager \<Rightarrow> u64 \<Rightarrow> ptr \<Rightarrow> 'cb timer_cb option list
     \<Rightarrow> ('cb timer_manager \<times> 'cb timer_cb option list) res"
  where
  "listExpiredCb M now_ms a cbs =
     (if m_timers M = [] then Inr (M, cbs) else listExpiredCb_locked M now_ms a cbs)"

definition hasTimer :: "'cb timer_manager \<Rightarrow> bool" where
  "hasTimer M = (m_timers M \<noteq> [])"

subsection \<open>The comparator\<close>

lemma Comparator_iff:
  "Comparator h p q \<longleftrightarrow>
     q \<noteq> nullptr \<and>
     (p = nullptr \<or> m_next (h p) < m_next (h q) \<or> m_next (h p) = m_next (h q) \<and> p < q)"
  by (auto simp: Comparator_def)

interpretation tc: total_comparator "Comparator h" for h :: "'cb timer_heap"
proof
  fix x y z
  show "\<not> Comparator h x x"
    by (auto simp: Comparator_iff)
  show "Comparator h x y \<Longrightarrow> Comparator h y z \<Longrightarrow> Comparator h x z"
    unfolding Comparator_iff by (elim conjE disjE) (auto intro: order.strict_trans)
  show total: "\<not> Comparator h x y \<Longrightarrow> \<not> Comparator h y x \<Longrightarrow> x = y" for x y
    unfolding Comparator_iff by (metis linorder_neqE)
  show "\<not> Comparator h x y \<Longrightarrow> \<not> Comparator h y x \<Longrightarrow> \<not> Comparator h y z \<Longrightarrow>
      \<not> Comparator h z y \<Longrightarrow> \<not> Comparator h x z \<and> \<not> Comparator h z x"
    using total by blast
qed

lemma Comparator_cong:
  assumes "m_next (h p) = m_next (h' p)" "m_next (h q) = m_next (h' q)"
  shows "Comparator h p q = Comparator h' p q"
  using assms by (simp add: Comparator_iff)

lemma sorted_Comparator_cong:
  assumes "\<And>p. p \<in> set ps \<Longrightarrow> m_next (h p) = m_next (h' p)"
  shows "sorted_wrt (Comparator h) ps = sorted_wrt (Comparator h') ps"
  using assms by (induction ps) (simp_all add: Comparator_iff)

lemma Comparator_next_le: "Comparator h p q \<Longrightarrow> q \<noteq> nullptr \<Longrightarrow> p \<noteq> nullptr \<Longrightarrow> m_next (h p) \<le> m_next (h q)"
  by (auto simp: Comparator_iff)


lemma sorted_heap_upd:
  "p \<notin> set ps \<Longrightarrow> sorted_wrt (Comparator (h(p := t))) ps = sorted_wrt (Comparator h) ps"
  by (rule sorted_Comparator_cong) auto

lemma sorted_heap_upd_same:
  "m_next t = m_next (h p) \<Longrightarrow> sorted_wrt (Comparator (h(p := t))) ps = sorted_wrt (Comparator h) ps"
  by (rule sorted_Comparator_cong) auto

subsection \<open>The invariant\<close>

definition timers_ok :: "'cb timer_manager \<Rightarrow> bool" where
  "timers_ok M \<longleftrightarrow>
     sorted_wrt (Comparator (tm_heap M)) (m_timers M) \<and>
     nullptr \<notin> set (m_timers M) \<and>
     (\<forall>p \<in> set (m_timers M). m_cb (tm_heap M p) \<noteq> None)"

lemma timers_okD:
  assumes "timers_ok M"
  shows "sorted_wrt (Comparator (tm_heap M)) (m_timers M)" "distinct (m_timers M)"
    "p \<in> set (m_timers M) \<Longrightarrow> p \<noteq> nullptr" "p \<in> set (m_timers M) \<Longrightarrow> m_cb (tm_heap M p) \<noteq> None"
  using assms tc.sorted_distinct by (auto simp: timers_ok_def intro: gr0I)

lemma timers_ok_ctor: "timers_ok (TimerManager_ctor now h)"
  by (simp add: timers_ok_def TimerManager_ctor_def)

lemma timers_ok_tickled [simp]: "timers_ok (M\<lparr>m_tickled := b\<rparr>) = timers_ok M"
  by (simp add: timers_ok_def)

lemma timers_ok_previouse [simp]: "timers_ok (M\<lparr>m_previouseTime := b\<rparr>) = timers_ok M"
  by (simp add: timers_ok_def)

lemma timers_ok_remove1:
  "timers_ok M \<Longrightarrow> timers_ok (M\<lparr>m_timers := remove1 p (m_timers M)\<rparr>)"
  unfolding timers_ok_def
  by (auto simp: sorted_wrt_remove1 dest: set_remove1_subset [THEN subsetD])

text \<open>Rewriting a timer that is not in the set, whatever its new fields.\<close>

lemma timers_ok_upd:
  "timers_ok M \<Longrightarrow> p \<notin> set (m_timers M) \<Longrightarrow> timers_ok (upd_timer p f M)"
  by (auto simp: timers_ok_def sorted_heap_upd)

lemma timers_ok_insert:
  "timers_ok M \<Longrightarrow> p \<noteq> nullptr \<Longrightarrow> m_cb (tm_heap M p) \<noteq> None \<Longrightarrow> timers_ok (tm_insert p M)"
  by (auto simp: timers_ok_def tc.sorted_insert tc.set_insert)

lemma timers_ok_readd:
  "timers_ok M \<Longrightarrow> p \<notin> set (m_timers M) \<Longrightarrow> p \<noteq> nullptr \<Longrightarrow> m_cb (f (tm_heap M p)) \<noteq> None \<Longrightarrow>
    timers_ok (tm_insert p (upd_timer p f M))"
  using timers_ok_insert [of "upd_timer p f M" p] timers_ok_upd [of M p f] by simp

lemma timers_ok_drop: "timers_ok M \<Longrightarrow> timers_ok (M\<lparr>m_timers := drop n (m_timers M)\<rparr>)"
  by (auto simp: timers_ok_def sorted_wrt_drop dest: in_set_dropD)

subsection \<open>What find and erase do on a well-formed set\<close>

lemma tm_find_member:
  assumes "timers_ok M" "p \<in> set (m_timers M)"
  obtains i where "tm_find M p = Some i" "erase_at i (m_timers M) = remove1 p (m_timers M)"
  using tc.find_member timers_okD(1) assms by metis

lemma tm_find_iff: "timers_ok M \<Longrightarrow> tm_find M p \<noteq> None \<longleftrightarrow> p \<in> set (m_timers M)"
  using tm_find_member tc.find_not_member by (metis option.distinct(1))

lemma tm_find_upd_cb:
  "tm_find (upd_timer p (\<lambda>t. t\<lparr>m_cb := c\<rparr>) M) q = tm_find M q"
proof -
  have "Comparator ((tm_heap M)(p := (tm_heap M p)\<lparr>m_cb := c\<rparr>)) = Comparator (tm_heap M)"
    by (intro ext Comparator_cong) auto
  then show ?thesis by simp
qed

lemma Timer_cancel_member:
  assumes "timers_ok M" "p \<in> set (m_timers M)"
  shows "Timer_cancel M p =
     ((upd_timer p (\<lambda>t. t\<lparr>m_cb := None\<rparr>) M)\<lparr>m_timers := remove1 p (m_timers M)\<rparr>, True)"
proof -
  obtain i where "tm_find M p = Some i" "erase_at i (m_timers M) = remove1 p (m_timers M)"
    using assms by (rule tm_find_member)
  then show ?thesis
    using timers_okD(4) [OF assms]
    by (simp add: Timer_cancel_def Let_def tm_find_upd_cb [simplified])
qed

lemma Timer_cancel_absent:
  assumes "timers_ok M" "p \<notin> set (m_timers M)"
  shows "Timer_cancel M p = (upd_timer p (\<lambda>t. t\<lparr>m_cb := None\<rparr>) M, False)"
proof -
  have "tm_find M p = None"
    using assms tm_find_iff by blast
  then show ?thesis
    by (auto simp: Timer_cancel_def Let_def tm_find_upd_cb [simplified] fun_upd_idem)
qed

lemma Timer_refresh_member:
  assumes "timers_ok M" "p \<in> set (m_timers M)"
  shows "Timer_refresh M p now =
     (tm_insert p (upd_timer p (\<lambda>t. t\<lparr>m_next := now + m_ms t\<rparr>)
        (M\<lparr>m_timers := remove1 p (m_timers M)\<rparr>)), True)"
proof -
  obtain i where "tm_find M p = Some i" "erase_at i (m_timers M) = remove1 p (m_timers M)"
    using assms by (rule tm_find_member)
  then show ?thesis
    using timers_okD(4) [OF assms] by (simp add: Timer_refresh_def Let_def)
qed

lemma Timer_refresh_absent:
  assumes "timers_ok M" "p \<notin> set (m_timers M)"
  shows "Timer_refresh M p now = (M, False)"
  using assms tm_find_iff [of M p] by (auto simp: Timer_refresh_def)

lemma Timer_reset_noop:
  "ms = m_ms (tm_heap M p) \<Longrightarrow> \<not> from_now \<Longrightarrow> Timer_reset M p ms from_now now = (M, True, False)"
  by (simp add: Timer_reset_def)

lemma Timer_reset_member:
  assumes "timers_ok M" "p \<in> set (m_timers M)" "ms \<noteq> m_ms (tm_heap M p) \<or> from_now"
    and start: "start = (if from_now then now else m_next (tm_heap M p) - m_ms (tm_heap M p))"
  shows "Timer_reset M p ms from_now now =
     (let (M3, front) = addTimer_locked
            (upd_timer p (\<lambda>t. t\<lparr>m_ms := ms, m_next := start + ms\<rparr>)
              (M\<lparr>m_timers := remove1 p (m_timers M)\<rparr>)) p
      in (M3, True, front))"
proof -
  obtain i where "tm_find M p = Some i" "erase_at i (m_timers M) = remove1 p (m_timers M)"
    using assms(1,2) by (rule tm_find_member)
  moreover obtain c where "m_cb (tm_heap M p) = Some c"
    using timers_okD(4) [OF assms(1,2)] by blast
  ultimately show ?thesis
    using assms(3) by (auto simp: Timer_reset_def Let_def start)
qed

lemma Timer_reset_absent:
  assumes "timers_ok M" "p \<notin> set (m_timers M)" "ms \<noteq> m_ms (tm_heap M p) \<or> from_now"
  shows "Timer_reset M p ms from_now now = (M, False, False)"
  using assms tm_find_iff [of M p] by (auto simp: Timer_reset_def)

lemma addTimer_locked_eq:
  assumes "timers_ok M" "p \<notin> set (m_timers M)" "p \<noteq> nullptr"
  defines "front \<equiv> (\<forall>q \<in> set (m_timers M). Comparator (tm_heap M) p q) \<and> \<not> m_tickled M"
  shows "addTimer_locked M p =
     (if front then (tm_insert p M)\<lparr>m_tickled := True\<rparr> else tm_insert p M, front)"
proof -
  let ?ts = "oset_insert (Comparator (tm_heap M)) p (m_timers M)"
  have sorted: "sorted_wrt (Comparator (tm_heap M)) ?ts"
    using assms(1) by (simp add: tc.sorted_insert timers_okD)
  have mem: "p \<in> set ?ts"
    by (simp add: tc.set_insert)
  obtain i where i: "oset_find (Comparator (tm_heap M)) p ?ts = Some i" "i < length ?ts" "?ts ! i = p"
    using sorted mem by (rule tc.find_member)
  have "i = 0 \<longleftrightarrow> hd ?ts = p"
    using i tc.sorted_distinct [OF sorted]
    by (metis hd_conv_nth length_greater_0_conv nth_eq_iff_index_eq oset_insert_nonempty)
  also have "\<dots> \<longleftrightarrow> (\<forall>q \<in> set (m_timers M). Comparator (tm_heap M) p q)"
    using tc.insert_at_front [OF timers_okD(1) [OF assms(1)]] assms(2) by auto
  finally show ?thesis
    using i(1) by (simp add: addTimer_locked_def Let_def front_def)
qed

subsection \<open>Which timers expire\<close>

lemma sorted_next:
  assumes "timers_ok M"
  shows "sorted (map (\<lambda>p. m_next (tm_heap M p)) (m_timers M))"
proof -
  have "sorted_wrt (Comparator (tm_heap M)) (m_timers M)" "nullptr \<notin> set (m_timers M)"
    using assms by (auto simp: timers_ok_def)
  then show ?thesis
  proof (induction "m_timers M" arbitrary: M)
    case (Cons p ps)
    then show ?case
      by (metis (mono_tags, lifting) Comparator_next_le sorted_wrt_map sorted_wrt_mono_rel)
  qed simp
qed

lemma skip_equal_takeWhile: "skip_equal h v ps = length (takeWhile (\<lambda>p. m_next (h p) = v) ps)"
  by (induction ps) auto

lemma expired_prefix:
  assumes "timers_ok M" "a \<notin> set (m_timers M)" "a \<noteq> nullptr"
    and lb: "lb = oset_lower_bound (Comparator ((tm_heap M)(a := Timer_ctor_next now_ms))) a (m_timers M)"
  shows "take (lb + skip_equal (tm_heap M) now_ms (drop lb (m_timers M))) (m_timers M) =
      filter (\<lambda>p. m_next (tm_heap M p) \<le> now_ms) (m_timers M)"
    "drop (lb + skip_equal (tm_heap M) now_ms (drop lb (m_timers M))) (m_timers M) =
      filter (\<lambda>p. now_ms < m_next (tm_heap M p)) (m_timers M)"
proof -
  let ?h = "(tm_heap M)(a := Timer_ctor_next now_ms)"
  let ?f = "\<lambda>p. m_next (tm_heap M p)"
  let ?P = "\<lambda>p. Comparator ?h p a"
  let ?ts = "m_timers M"
  let ?n = "lb + skip_equal (tm_heap M) now_ms (drop lb ?ts)"
  have P: "?P y \<longleftrightarrow> ?f y < now_ms \<or> ?f y = now_ms \<and> y < a" if "y \<in> set ?ts" for y
    using that assms timers_okD(3) [OF assms(1) that]
    by (auto simp: Comparator_iff Timer_ctor_next_def)
  have cut: "takeWhile ?P ?ts @ takeWhile (\<lambda>p. ?f p = now_ms) (dropWhile ?P ?ts) =
      takeWhile (\<lambda>p. ?f p \<le> now_ms) ?ts"
    by (rule takeWhile_cut [OF sorted_next [OF assms(1)]]) (auto simp: P)
  have n: "?n = length (takeWhile (\<lambda>p. ?f p \<le> now_ms) ?ts)"
    unfolding cut [symmetric] lb oset_lower_bound_takeWhile skip_equal_takeWhile
    by (simp add: dropWhile_eq_drop)
  show "take ?n ?ts = filter (\<lambda>p. ?f p \<le> now_ms) ?ts"
    unfolding n takeWhile_eq_take [symmetric]
    by (rule takeWhile_le_filter(1) [OF sorted_next [OF assms(1)]])
  show "drop ?n ?ts = filter (\<lambda>p. now_ms < ?f p) ?ts"
    unfolding n dropWhile_eq_drop [symmetric]
    by (rule takeWhile_le_filter(2) [OF sorted_next [OF assms(1)]])
qed

text \<open>What the loop over the expired timers leaves behind.\<close>

definition expired_timer :: "u64 \<Rightarrow> 'cb timer \<Rightarrow> 'cb timer" where
  "expired_timer now_ms t =
     (if m_recurring t then t\<lparr>m_next := m_ms t + now_ms\<rparr> else t\<lparr>m_cb := None\<rparr>)"

lemma expire_loop_spec:
  assumes "timers_ok M" "distinct ps" "set ps \<inter> set (m_timers M) = {}" "nullptr \<notin> set ps"
    and "\<And>p. p \<in> set ps \<Longrightarrow> m_cb (tm_heap M p) \<noteq> None"
  shows "\<exists>M'. expire_loop now_ms ps M cbs = (M', cbs @ map (\<lambda>p. m_cb (tm_heap M p)) ps) \<and>
     timers_ok M' \<and>
     set (m_timers M') = set (m_timers M) \<union> {p \<in> set ps. m_recurring (tm_heap M p)} \<and>
     tm_heap M' = (\<lambda>p. if p \<in> set ps then expired_timer now_ms (tm_heap M p) else tm_heap M p) \<and>
     m_tickled M' = m_tickled M \<and> m_previouseTime M' = m_previouseTime M"
  using assms
proof (induction ps arbitrary: M cbs)
  case (Cons p ps)
  let ?N = "if m_recurring (tm_heap M p)
      then tm_insert p (upd_timer p (\<lambda>t. t\<lparr>m_next := m_ms t + now_ms\<rparr>) M)
      else upd_timer p (\<lambda>t. t\<lparr>m_cb := None\<rparr>) M"
  have heap: "tm_heap ?N = (tm_heap M)(p := expired_timer now_ms (tm_heap M p))"
    by (simp add: expired_timer_def)
  have ts: "set (m_timers ?N) = set (m_timers M) \<union> (if m_recurring (tm_heap M p) then {p} else {})"
    by (auto simp: tc.set_insert)
  have ok: "timers_ok ?N"
    using Cons.prems timers_ok_upd [of M p] timers_ok_readd [of M p] by auto
  have "p \<notin> set ps" "distinct ps" "set ps \<inter> set (m_timers ?N) = {}" "nullptr \<notin> set ps"
    using Cons.prems ts by auto
  moreover have "m_cb (tm_heap ?N q) \<noteq> None" if "q \<in> set ps" for q
    using Cons.prems that by (auto simp: heap)
  ultimately obtain M' where M': "expire_loop now_ms ps ?N (cbs @ [m_cb (tm_heap M p)]) =
        (M', (cbs @ [m_cb (tm_heap M p)]) @ map (\<lambda>p. m_cb (tm_heap ?N p)) ps)"
      "timers_ok M'" "set (m_timers M') = set (m_timers ?N) \<union> {q \<in> set ps. m_recurring (tm_heap ?N q)}"
      "tm_heap M' = (\<lambda>q. if q \<in> set ps then expired_timer now_ms (tm_heap ?N q) else tm_heap ?N q)"
      "m_tickled M' = m_tickled ?N" "m_previouseTime M' = m_previouseTime ?N"
    using Cons.IH [OF ok] by blast
  have "map (\<lambda>p. m_cb (tm_heap ?N p)) ps = map (\<lambda>p. m_cb (tm_heap M p)) ps"
    using \<open>p \<notin> set ps\<close> by (auto simp: heap)
  moreover have "tm_heap M' = (\<lambda>q. if q \<in> set (p # ps) then expired_timer now_ms (tm_heap M q)
      else tm_heap M q)"
    unfolding M'(4) heap using \<open>p \<notin> set ps\<close> by auto
  moreover have "set (m_timers M') = set (m_timers M) \<union> {q \<in> set (p # ps). m_recurring (tm_heap M q)}"
    unfolding M'(3) ts heap using \<open>p \<notin> set ps\<close> by auto
  ultimately show ?case
    using M'(1,2,5,6) by (auto simp: Let_def)
qed auto

lemma listExpiredCb_locked_run:
  assumes "timers_ok M" "expired = take it (m_timers M)"
  shows "\<exists>M'. expire_loop now_ms expired (M\<lparr>m_previouseTime := now_ms, m_timers := drop it (m_timers M)\<rparr>) cbs =
        (M', cbs @ map (\<lambda>p. m_cb (tm_heap M p)) expired) \<and>
     timers_ok M' \<and>
     set (m_timers M') = set (drop it (m_timers M)) \<union> {p \<in> set expired. m_recurring (tm_heap M p)} \<and>
     tm_heap M' = (\<lambda>p. if p \<in> set expired then expired_timer now_ms (tm_heap M p) else tm_heap M p) \<and>
     m_tickled M' = m_tickled M \<and> m_previouseTime M' = now_ms"
proof -
  let ?N = "M\<lparr>m_previouseTime := now_ms, m_timers := drop it (m_timers M)\<rparr>"
  have "timers_ok ?N"
    using timers_ok_drop [of "M\<lparr>m_previouseTime := now_ms\<rparr>" it] assms(1) by simp
  moreover have "distinct expired" "set expired \<inter> set (m_timers ?N) = {}" "nullptr \<notin> set expired"
    using assms timers_okD(2) [OF assms(1)] timers_okD(3) [OF assms(1)]
    by (auto simp: set_take_disj_set_drop_if_distinct dest: in_set_takeD)
  moreover have "m_cb (tm_heap ?N p) \<noteq> None" if "p \<in> set expired" for p
    using timers_okD(4) [OF assms(1), of p] that assms(2) by (auto dest: in_set_takeD)
  ultimately show ?thesis
    using expire_loop_spec [of ?N expired now_ms cbs] by (simp cong: if_cong)
qed

definition rolled_over :: "'cb timer_manager \<Rightarrow> u64 \<Rightarrow> bool" where
  "rolled_over M now_ms = snd (detectClockRollover M now_ms)"

definition due :: "'cb timer_manager \<Rightarrow> u64 \<Rightarrow> ptr list" where
  "due M now_ms = filter (\<lambda>p. m_next (tm_heap M p) \<le> now_ms) (m_timers M)"

lemma due_empty:
  assumes "timers_ok M" "m_timers M \<noteq> []" "now_ms < m_next (tm_heap M (hd (m_timers M)))"
  shows "due M now_ms = []"
proof -
  obtain p ps where ts: "m_timers M = p # ps"
    using assms(2) by (cases "m_timers M") auto
  then show ?thesis
    using sorted_next [OF assms(1)] assms(3) by (auto simp: due_def filter_empty_conv)
qed

lemma listExpiredCb_normal:
  assumes "timers_ok M" "a \<notin> set (m_timers M)" "a \<noteq> nullptr" "\<not> rolled_over M now_ms"
  shows "\<exists>M'. listExpiredCb M now_ms a cbs =
        Inr (M', cbs @ map (\<lambda>p. m_cb (tm_heap M p)) (due M now_ms)) \<and>
     timers_ok M' \<and>
     set (m_timers M') =
       {p \<in> set (m_timers M). now_ms < m_next (tm_heap M p) \<or> m_recurring (tm_heap M p)} \<and>
     tm_heap M' =
       (\<lambda>p. if p \<in> set (due M now_ms) then expired_timer now_ms (tm_heap M p) else tm_heap M p) \<and>
     m_tickled M' = m_tickled M"
proof -
  let ?ts = "m_timers M"
  let ?lb = "oset_lower_bound (Comparator ((tm_heap M)(a := Timer_ctor_next now_ms))) a ?ts"
  let ?it = "?lb + skip_equal (tm_heap M) now_ms (drop ?lb ?ts)"
  consider (empty) "?ts = []" | (early) "?ts \<noteq> []" "now_ms < m_next (tm_heap M (hd ?ts))"
    | (late) "?ts \<noteq> []" "\<not> now_ms < m_next (tm_heap M (hd ?ts))" by blast
  then show ?thesis
  proof cases
    case empty
    then show ?thesis using assms(1) by (auto simp: listExpiredCb_def due_def)
  next
    case early
    have "due M now_ms = []"
      using due_empty assms(1) early by blast
    moreover from this have "now_ms < m_next (tm_heap M p)" if "p \<in> set ?ts" for p
      using that by (auto simp: due_def filter_empty_conv not_le)
    ultimately show ?thesis
      using early assms(1,4)
      by (auto simp: listExpiredCb_def listExpiredCb_locked_def detectClockRollover_def
          rolled_over_def Let_def)
  next
    case late
    have "due M now_ms = take ?it ?ts"
      using expired_prefix(1) [OF assms(1-3) refl] by (simp add: due_def)
    from listExpiredCb_locked_run [OF assms(1) this, of now_ms cbs] obtain M' where
      M': "expire_loop now_ms (due M now_ms)
          (M\<lparr>m_previouseTime := now_ms, m_timers := drop ?it ?ts\<rparr>) cbs =
          (M', cbs @ map (\<lambda>p. m_cb (tm_heap M p)) (due M now_ms))"
        "timers_ok M'"
        "set (m_timers M') = set (drop ?it ?ts) \<union> {p \<in> set (due M now_ms). m_recurring (tm_heap M p)}"
        "tm_heap M' = (\<lambda>p. if p \<in> set (due M now_ms) then expired_timer now_ms (tm_heap M p)
          else tm_heap M p)"
        "m_tickled M' = m_tickled M"
      by blast
    have "listExpiredCb M now_ms a cbs = Inr (M', cbs @ map (\<lambda>p. m_cb (tm_heap M p)) (due M now_ms))"
      using late assms(4) M'(1) \<open>due M now_ms = take ?it ?ts\<close>
      by (auto simp: listExpiredCb_def listExpiredCb_locked_def detectClockRollover_def
          rolled_over_def Let_def)
    moreover have "set (m_timers M') =
        {p \<in> set ?ts. now_ms < m_next (tm_heap M p) \<or> m_recurring (tm_heap M p)}"
      unfolding M'(3) expired_prefix(2) [OF assms(1-3) refl] by (auto simp: due_def not_le)
    ultimately show ?thesis using M'(2,4,5) by blast
  qed
qed

text \<open>
  C5. One call of listExpiredCb, when the clock check does not trip: it hands out the callbacks
  of exactly the timers whose deadline has passed, in deadline order and after those already in
  the vector; the one-shot timers among them leave the set with their callback cleared, the
  recurring ones are back in the set with the deadline one period from now, every other timer
  and field is untouched, and the set is ordered again.
\<close>

theorem listExpiredCb_fires_due:
  assumes "timers_ok M" "a \<notin> set (m_timers M)" "a \<noteq> nullptr" "\<not> rolled_over M now_ms"
  shows "\<exists>M'. listExpiredCb M now_ms a cbs =
        Inr (M', cbs @ map (\<lambda>p. m_cb (tm_heap M p)) (due M now_ms)) \<and>
     timers_ok M' \<and>
     set (m_timers M') =
       {p \<in> set (m_timers M). now_ms < m_next (tm_heap M p) \<or> m_recurring (tm_heap M p)} \<and>
     tm_heap M' =
       (\<lambda>p. if p \<in> set (due M now_ms) then expired_timer now_ms (tm_heap M p) else tm_heap M p) \<and>
     m_tickled M' = m_tickled M"
  using assms by (rule listExpiredCb_normal)

subsection \<open>A manager to evaluate\<close>

text \<open>Three timers at the addresses 1, 2, 3: a recurring one due at 100, one-shots due at 50 and 200.\<close>

definition demo_heap :: "nat timer_heap" where
  "demo_heap = (\<lambda>_. Timer_ctor_next 0)
     (1 := Timer_ctor 60 (Some (Cb 1)) True 40,
      2 := Timer_ctor 10 (Some (Cb 2)) False 40,
      3 := Timer_ctor 160 (Some (Cb 3)) False 40)"

definition demo_tm :: "nat timer_manager" where
  "demo_tm = \<lparr>tm_heap = demo_heap, m_timers = [2, 1, 3], m_tickled = False, m_previouseTime = 40\<rparr>"

lemmas timer_eval =
  demo_tm_def demo_heap_def Timer_ctor_def Timer_ctor_next_def Comparator_iff timers_ok_def
  rolled_over_def detectClockRollover_def due_def expired_timer_def

lemma demo_ok: "timers_ok demo_tm" "\<not> rolled_over demo_tm 120" "\<not> rolled_over demo_tm 45"
  "(9::ptr) \<notin> set (m_timers demo_tm)" "m_timers demo_tm = [2, 1, 3]"
  by (simp_all add: timer_eval)

theorem listExpiredCb_fires_due_witness:
  "\<exists>M'. listExpiredCb demo_tm 120 9 [] = Inr (M', [Some (Cb 2), Some (Cb 1)]) \<and>
     set (m_timers M') = {1, 3} \<and> m_next (tm_heap M' 1) = 180"
proof -
  have "due demo_tm 120 = [2, 1]"
    by (simp add: timer_eval)
  moreover obtain M' where M': "listExpiredCb demo_tm 120 9 [] =
        Inr (M', [] @ map (\<lambda>p. m_cb (tm_heap demo_tm p)) (due demo_tm 120))"
      "set (m_timers M') =
        {p \<in> set (m_timers demo_tm). 120 < m_next (tm_heap demo_tm p) \<or> m_recurring (tm_heap demo_tm p)}"
      "tm_heap M' = (\<lambda>p. if p \<in> set (due demo_tm 120) then expired_timer 120 (tm_heap demo_tm p)
         else tm_heap demo_tm p)"
    using listExpiredCb_fires_due [of demo_tm 9 120 "[]"] demo_ok by auto
  ultimately show ?thesis
    by (intro exI [of _ M']) (auto simp: timer_eval)
qed

text \<open>
  The clock check trips on a jump forward: when more than an hour has passed since the
  previous check, every timer fires, due or not. Since the previous check is only recorded while
  timers exist, a manager idle for an hour fires its next timer at once.
\<close>

theorem listExpiredCb_forward_jump_fires_all:
  assumes "timers_ok M" "m_previouseTime M + 3600000 < now_ms" "m_previouseTime M < now_ms"
  shows "\<exists>M'. listExpiredCb M now_ms a cbs = Inr (M', cbs @ map (\<lambda>p. m_cb (tm_heap M p)) (m_timers M))"
proof -
  have "drop (length (m_timers M) + n) (m_timers M) = []" "take (length (m_timers M) + n) (m_timers M) = m_timers M" for n
    by simp_all
  moreover obtain M' where "expire_loop now_ms (m_timers M)
        (M\<lparr>m_previouseTime := now_ms, m_timers := drop (length (m_timers M)) (m_timers M)\<rparr>) cbs =
        (M', cbs @ map (\<lambda>p. m_cb (tm_heap M p)) (m_timers M))"
    using listExpiredCb_locked_run [OF assms(1), of "m_timers M" "length (m_timers M)" now_ms cbs] by auto
  ultimately show ?thesis
    using assms(2,3)
    by (auto simp: listExpiredCb_def listExpiredCb_locked_def detectClockRollover_def Let_def)
qed

theorem listExpiredCb_forward_jump_fires_all_witness:
  "\<exists>M'. listExpiredCb (fst (addTimer (demo_tm\<lparr>m_timers := []\<rparr>) 4 5000 (Some (Cb 7)) False 4000000))
      4000001 9 [] = Inr (M', [Some (Cb 7)])"
proof -
  let ?M = "fst (addTimer (demo_tm\<lparr>m_timers := []\<rparr>) 4 5000 (Some (Cb 7)) False 4000000)"
  have eqs: "m_timers ?M = [4]" "m_previouseTime ?M = 40" "m_cb (tm_heap ?M 4) = Some (Cb 7)"
    by (simp_all add: addTimer_def addTimer_locked_def Let_def timer_eval)
  have "timers_ok ?M"
    unfolding timers_ok_def eqs by (simp add: eqs)
  from listExpiredCb_forward_jump_fires_all [OF this, of 4000001 9 "[]"] eqs show ?thesis
    by simp
qed

text \<open>
  getNextTimer answers the smallest remaining time over all timers, 0 for one that is due,
  and the largest 64-bit value exactly when there is no timer.
\<close>

theorem getNextTimer_min:
  assumes "timers_ok M"
  shows "snd (getNextTimer M now_ms) =
     (if m_timers M = [] then - 1
      else Min ((\<lambda>p. if m_next (tm_heap M p) \<le> now_ms then 0 else m_next (tm_heap M p) - now_ms)
             ` set (m_timers M)))"
proof (cases "m_timers M")
  case (Cons p ps)
  let ?d = "\<lambda>p. if m_next (tm_heap M p) \<le> now_ms then 0 else m_next (tm_heap M p) - now_ms"
  have "?d p \<le> ?d q" if "q \<in> set (p # ps)" for q
  proof -
    have le: "m_next (tm_heap M p) \<le> m_next (tm_heap M q)"
      using sorted_next [OF assms] that Cons by auto
    show ?thesis
      using le word_diff_mono [of now_ms] by auto
  qed
  then have "Min (?d ` set (p # ps)) = ?d p"
    by (intro Min_eqI finite_imageI finite_set) (blast, rule imageI, simp)
  with Cons show ?thesis
    by (simp add: getNextTimer_def)
qed (simp add: getNextTimer_def)


theorem getNextTimer_min_witness: "snd (getNextTimer demo_tm 45) = 5"
  using getNextTimer_min [OF demo_ok(1), of 45] by (simp add: timer_eval)

subsection \<open>The manager as a map from live timers to their fields\<close>

definition live_timers :: "'cb timer_manager \<Rightarrow> (ptr \<rightharpoonup> 'cb timer)" where
  "live_timers M = (\<lambda>p. if p \<in> set (m_timers M) then Some (tm_heap M p) else None)"

lemma live_addTimer_locked:
  assumes "timers_ok M" "p \<notin> set (m_timers M)" "p \<noteq> nullptr"
  shows "live_timers (fst (addTimer_locked M p)) = (live_timers M)(p \<mapsto> tm_heap M p)"
    "m_cb (tm_heap M p) \<noteq> None \<Longrightarrow> timers_ok (fst (addTimer_locked M p))"
    "m_timers (fst (addTimer_locked M p)) = oset_insert (Comparator (tm_heap M)) p (m_timers M)"
    "tm_heap (fst (addTimer_locked M p)) = tm_heap M"
  using timers_ok_insert [OF assms(1,3)]
  by (auto simp: addTimer_locked_eq [OF assms] live_timers_def tc.set_insert)

lemma live_upd_absent: "p \<notin> set (m_timers M) \<Longrightarrow> live_timers (upd_timer p f M) = live_timers M"
  by (auto simp: live_timers_def)

lemma live_readd:
  assumes "timers_ok M" "p \<notin> set (m_timers M)" "p \<noteq> nullptr"
  shows "live_timers (fst (addTimer_locked (upd_timer p f M) p)) = (live_timers M)(p \<mapsto> f (tm_heap M p))"
  using live_addTimer_locked(1) [of "upd_timer p f M" p] timers_ok_upd [OF assms(1,2), of f] assms(2,3)
    live_upd_absent [OF assms(2), of f] by simp

lemma live_remove1:
  "timers_ok M \<Longrightarrow> live_timers (M\<lparr>m_timers := remove1 p (m_timers M)\<rparr>) = (live_timers M)(p := None)"
  using timers_okD(2) [of M] by (auto simp: live_timers_def)

text \<open>
  C7. On a well-formed manager the operations on one timer are the operations of a finite map
  from live timers to their fields: addTimer and addConditionTimer add an entry with deadline
  now + ms; cancel deletes the entry and answers whether there was one; refresh moves the deadline
  to now + period; reset changes period and deadline, counting from now or from the start of the
  current period. Each answers false and changes no live timer when the timer is not live.
\<close>

theorem timer_ops_refine_map:
  assumes "timers_ok M" "p \<noteq> nullptr"
  shows "(p \<notin> set (m_timers M) \<longrightarrow>
      live_timers (fst (addTimer M p ms cb recurring now)) = (live_timers M)(p \<mapsto> Timer_ctor ms cb recurring now)) \<and>
    live_timers (fst (Timer_cancel M p)) = (live_timers M)(p := None) \<and>
    snd (Timer_cancel M p) = (live_timers M p \<noteq> None) \<and>
    live_timers (fst (Timer_refresh M p now)) =
      (live_timers M)(p := map_option (\<lambda>t. t\<lparr>m_next := now + m_ms t\<rparr>) (live_timers M p)) \<and>
    snd (Timer_refresh M p now) = (live_timers M p \<noteq> None) \<and>
    live_timers (fst (Timer_reset M p ms from_now now)) =
      (live_timers M)(p := map_option
         (\<lambda>t. if ms = m_ms t \<and> \<not> from_now then t
              else t\<lparr>m_ms := ms, m_next := (if from_now then now else m_next t - m_ms t) + ms\<rparr>)
         (live_timers M p))"
    (is "?add \<and> ?cancel \<and> ?cancelled \<and> ?refresh \<and> ?refreshed \<and> ?reset")
proof (intro conjI)
  let ?R = "M\<lparr>m_timers := remove1 p (m_timers M)\<rparr>"
  have R: "timers_ok ?R" "p \<notin> set (m_timers ?R)"
    using timers_ok_remove1 [OF assms(1)] timers_okD(2) [OF assms(1)] by simp_all
  show ?add
    using live_readd [OF assms(1) _ assms(2), of "\<lambda>_. Timer_ctor ms cb recurring now"]
    by (simp add: addTimer_def)
  show ?cancel and ?cancelled
    using Timer_cancel_member [OF assms(1)] Timer_cancel_absent [OF assms(1)] timers_okD(2) [OF assms(1)]
    by (cases "p \<in> set (m_timers M)"; auto simp: live_timers_def fun_eq_iff)+
  show ?refresh and ?refreshed
    using Timer_refresh_member [OF assms(1)] Timer_refresh_absent [OF assms(1)] timers_okD(2) [OF assms(1)]
    by (cases "p \<in> set (m_timers M)"; auto simp: live_timers_def tc.set_insert fun_eq_iff)+
  consider "ms = m_ms (tm_heap M p) \<and> \<not> from_now"
    | "p \<notin> set (m_timers M)" "ms \<noteq> m_ms (tm_heap M p) \<or> from_now"
    | "p \<in> set (m_timers M)" "ms \<noteq> m_ms (tm_heap M p) \<or> from_now" by blast
  then show ?reset
  proof cases
    case 3
    let ?f = "\<lambda>t. t\<lparr>m_ms := ms, m_next := (if from_now then now
        else m_next (tm_heap M p) - m_ms (tm_heap M p)) + ms\<rparr>"
    have "fst (Timer_reset M p ms from_now now) = fst (addTimer_locked (upd_timer p ?f ?R) p)"
      using Timer_reset_member [OF assms(1) 3 refl, of now] by (simp add: case_prod_unfold Let_def)
    moreover have "live_timers M p = Some (tm_heap M p)"
      using 3 by (simp add: live_timers_def)
    ultimately show ?thesis
      using 3(2) live_readd [OF R assms(2), of ?f] live_remove1 [OF assms(1), of p] by auto
  qed (auto simp: Timer_reset_noop Timer_reset_absent [OF assms(1)] live_timers_def fun_eq_iff)
qed

theorem timer_ops_refine_map_witness:
  "snd (Timer_cancel demo_tm 1) \<and> live_timers (fst (Timer_cancel demo_tm 1)) 1 = None \<and>
   map_option m_next (live_timers (fst (Timer_reset demo_tm 1 70 False 45)) 1) = Some 110"
  using timer_ops_refine_map [OF demo_ok(1), of 1 70 None False 45 False]
  by (simp add: live_timers_def timer_eval)

subsection \<open>Reachable managers\<close>

text \<open>
  Any sequence of calls: \<open>A\<close> holds the addresses of the timers handed out so far (the caller or
  the set keeps a \<open>shared_ptr\<close>, so their memory is not reused). Callers pass callbacks that are
  not empty.
\<close>

inductive tm_reach :: "ptr set \<Rightarrow> 'cb timer_manager \<Rightarrow> bool" where
  reach_ctor: "tm_reach {} (TimerManager_ctor now h)"
| reach_add: "tm_reach A M \<Longrightarrow> p \<notin> A \<Longrightarrow> p \<noteq> nullptr \<Longrightarrow>
    tm_reach (insert p A) (fst (addTimer M p ms (Some cb) recurring now))"
| reach_add_condition: "tm_reach A M \<Longrightarrow> p \<notin> A \<Longrightarrow> p \<noteq> nullptr \<Longrightarrow>
    tm_reach (insert p A) (fst (addConditionTimer M p ms f w recurring now))"
| reach_cancel: "tm_reach A M \<Longrightarrow> p \<in> A \<Longrightarrow> tm_reach A (fst (Timer_cancel M p))"
| reach_refresh: "tm_reach A M \<Longrightarrow> p \<in> A \<Longrightarrow> tm_reach A (fst (Timer_refresh M p now))"
| reach_reset: "tm_reach A M \<Longrightarrow> p \<in> A \<Longrightarrow> tm_reach A (fst (Timer_reset M p ms from_now now))"
| reach_next: "tm_reach A M \<Longrightarrow> tm_reach A (fst (getNextTimer M now))"
| reach_expired: "tm_reach A M \<Longrightarrow> a \<notin> A \<Longrightarrow> a \<noteq> nullptr \<Longrightarrow>
    listExpiredCb M now a cbs = Inr (M', cbs') \<Longrightarrow> tm_reach A M'"

text \<open>The handed-out timers that still hold a callback are exactly the ones in the set.\<close>

definition tm_inv :: "ptr set \<Rightarrow> 'cb timer_manager \<Rightarrow> bool" where
  "tm_inv A M \<longleftrightarrow>
     timers_ok M \<and> nullptr \<notin> A \<and> set (m_timers M) \<subseteq> A \<and>
     (\<forall>p \<in> A. m_cb (tm_heap M p) \<noteq> None \<longleftrightarrow> p \<in> set (m_timers M))"

lemma tm_inv_readd:
  assumes "timers_ok M" "set (m_timers M) \<subseteq> A" "p \<notin> set (m_timers M)" "p \<noteq> nullptr" "nullptr \<notin> A"
    and "\<forall>q \<in> A - {p}. m_cb (tm_heap M q) \<noteq> None \<longleftrightarrow> q \<in> set (m_timers M)"
    and "m_cb (f (tm_heap M p)) \<noteq> None"
  shows "tm_inv (insert p A) (fst (addTimer_locked (upd_timer p f M) p))"
    "tm_inv (insert p A) (tm_insert p (upd_timer p f M))"
proof -
  have ok: "timers_ok (upd_timer p f M)" "p \<notin> set (m_timers (upd_timer p f M))"
    using timers_ok_upd assms by auto
  show "tm_inv (insert p A) (tm_insert p (upd_timer p f M))"
    using assms timers_ok_readd [where f = f, OF assms(1,3,4,7)]
    by (auto simp: tm_inv_def tc.set_insert)
  then show "tm_inv (insert p A) (fst (addTimer_locked (upd_timer p f M) p))"
    unfolding tm_inv_def addTimer_locked_eq [OF ok assms(4)] by auto
qed

lemma tm_inv_cancel: "tm_inv A M \<Longrightarrow> p \<in> A \<Longrightarrow> tm_inv A (fst (Timer_cancel M p))"
proof (cases "p \<in> set (m_timers M)")
  case True
  moreover assume "tm_inv A M" "p \<in> A"
  moreover from this have ok: "timers_ok M" by (simp add: tm_inv_def)
  ultimately show ?thesis
    using timers_ok_upd [OF timers_ok_remove1 [OF ok, of p], of p "\<lambda>t. t\<lparr>m_cb := None\<rparr>"] timers_okD(2) [OF ok]
    by (auto simp: Timer_cancel_member [OF ok] tm_inv_def timers_ok_def)
next
  case False
  moreover assume "tm_inv A M" "p \<in> A"
  moreover from this have ok: "timers_ok M" by (simp add: tm_inv_def)
  ultimately show ?thesis
    using timers_ok_upd [OF ok, of p] by (auto simp: Timer_cancel_absent [OF ok] tm_inv_def)
qed


lemma tm_inv_drop1:
  assumes "tm_inv A M" "p \<in> set (m_timers M)"
  defines "R \<equiv> M\<lparr>m_timers := remove1 p (m_timers M)\<rparr>"
  shows "timers_ok R" "set (m_timers R) \<subseteq> A" "p \<notin> set (m_timers R)" "p \<noteq> nullptr" "nullptr \<notin> A"
    "\<forall>q \<in> A - {p}. m_cb (tm_heap R q) \<noteq> None \<longleftrightarrow> q \<in> set (m_timers R)"
    "m_cb (tm_heap R p) \<noteq> None" "insert p A = A"
  using assms timers_ok_remove1 [of M p] timers_okD(2,3,4) [of M] set_remove1_subset [of p "m_timers M"]
  by (auto simp: tm_inv_def intro: gr0I)

lemma tm_inv_refresh: "tm_inv A M \<Longrightarrow> tm_inv A (fst (Timer_refresh M p now))"
proof (cases "p \<in> set (m_timers M)")
  case True
  assume inv: "tm_inv A M"
  then have ok: "timers_ok M" by (simp add: tm_inv_def)
  note d = tm_inv_drop1 [OF inv True]
  show ?thesis
    using tm_inv_readd(2) [OF d(1-6), of "\<lambda>t. t\<lparr>m_next := now + m_ms t\<rparr>"] d(7,8)
    by (simp add: Timer_refresh_member [OF ok True])
qed (simp add: Timer_refresh_absent tm_inv_def)

lemma tm_inv_reset: "tm_inv A M \<Longrightarrow> tm_inv A (fst (Timer_reset M p ms from_now now))"
proof -
  assume inv: "tm_inv A M"
  then have ok: "timers_ok M" by (simp add: tm_inv_def)
  consider "ms = m_ms (tm_heap M p) \<and> \<not> from_now"
    | "p \<notin> set (m_timers M)" "ms \<noteq> m_ms (tm_heap M p) \<or> from_now"
    | "p \<in> set (m_timers M)" "ms \<noteq> m_ms (tm_heap M p) \<or> from_now" by blast
  then show ?thesis
  proof cases
    case 3
    let ?f = "\<lambda>t. t\<lparr>m_ms := ms, m_next := (if from_now then now
        else m_next (tm_heap M p) - m_ms (tm_heap M p)) + ms\<rparr>"
    note d = tm_inv_drop1 [OF inv 3(1)]
    have "fst (Timer_reset M p ms from_now now) =
        fst (addTimer_locked (upd_timer p ?f (M\<lparr>m_timers := remove1 p (m_timers M)\<rparr>)) p)"
      using Timer_reset_member [OF ok 3 refl, of now] by (simp add: case_prod_unfold Let_def)
    then show ?thesis
      using tm_inv_readd(1) [OF d(1-6), of ?f] d(7,8) by simp
  qed (use inv in \<open>auto simp: Timer_reset_noop Timer_reset_absent [OF ok]\<close>)
qed

lemma tm_inv_expired:
  assumes inv: "tm_inv A M" and fresh: "a \<notin> A" "a \<noteq> nullptr"
    and res: "listExpiredCb M now a cbs = Inr (M', cbs')"
  shows "tm_inv A M'"
proof (cases "rolled_over M now \<and> m_timers M \<noteq> []")
  case False
  have ok: "timers_ok M" "a \<notin> set (m_timers M)"
    using inv fresh by (auto simp: tm_inv_def)
  show ?thesis
  proof (cases "m_timers M = []")
    case True
    then show ?thesis using inv res by (simp add: listExpiredCb_def)
  next
    case False
    then have no: "\<not> rolled_over M now" using \<open>\<not> (rolled_over M now \<and> m_timers M \<noteq> [])\<close> by simp
    have rec: "m_recurring (tm_heap M p) \<Longrightarrow> m_cb (expired_timer now (tm_heap M p)) = m_cb (tm_heap M p)"
      "\<not> m_recurring (tm_heap M p) \<Longrightarrow> m_cb (expired_timer now (tm_heap M p)) = None" for p
      by (simp_all add: expired_timer_def)
    from listExpiredCb_normal [OF ok fresh(2) no, of cbs] res inv show ?thesis
      unfolding tm_inv_def by (auto simp: due_def rec not_le split: if_splits)
  qed
next
  case True
  then have ok: "timers_ok M" using inv by (simp add: tm_inv_def)
  have "expire_loop now (m_timers M)
      (M\<lparr>m_previouseTime := now, m_timers := drop (length (m_timers M)) (m_timers M)\<rparr>) cbs = (M', cbs')"
    using True res
    by (auto simp: listExpiredCb_def listExpiredCb_locked_def rolled_over_def detectClockRollover_def Let_def)
  with listExpiredCb_locked_run [OF ok, of "m_timers M" "length (m_timers M)" now cbs] inv show ?thesis
    unfolding tm_inv_def by (auto simp: expired_timer_def split: if_splits)
qed

text \<open>
  C6. In every state reachable by any sequence of calls on a timer manager (construction, adding
  plain and conditional timers, cancel, refresh, reset, getNextTimer, listExpiredCb with any
  clock values, forward or backward), the set is strictly ordered by deadline and address, holds
  no null pointer and no duplicate, and a timer handed out to a caller still has its callback if
  and only if it is in the set: no live timer is ever lost and no dead one can fire.
\<close>

theorem tm_reach_inv: "tm_reach A M \<Longrightarrow> tm_inv A M"
proof (induction rule: tm_reach.induct)
  case (reach_ctor now h)
  show ?case by (simp add: tm_inv_def timers_ok_ctor) (simp add: TimerManager_ctor_def)
next
  case (reach_add A M p ms cb recurring now)
  then show ?case
    using tm_inv_readd(1) [of M A p "\<lambda>_. Timer_ctor ms (Some cb) recurring now"]
    by (auto simp: tm_inv_def addTimer_def Timer_ctor_def)
next
  case (reach_add_condition A M p ms f w recurring now)
  then show ?case
    using tm_inv_readd(1) [of M A p "\<lambda>_. Timer_ctor ms (Some (Bind_OnTimer w f)) recurring now"]
    by (auto simp: tm_inv_def addConditionTimer_def addTimer_def Timer_ctor_def)
next
  case (reach_next A M now)
  then show ?case by (simp add: tm_inv_def getNextTimer_def)
qed (auto intro: tm_inv_cancel tm_inv_refresh tm_inv_reset tm_inv_expired)

theorem tm_reach_inv_witness:
  "tm_inv {5, 6} (fst (Timer_cancel (fst (addTimer (fst (addTimer
      (TimerManager_ctor 0 demo_heap) 5 100 (Some (Cb 1)) False 10)) 6 20 (Some (Cb 2)) True 10)) 5))"
proof -
  have "tm_reach {6, 5} (fst (Timer_cancel (fst (addTimer (fst (addTimer
      (TimerManager_ctor 0 demo_heap) 5 100 (Some (Cb 1)) False 10)) 6 20 (Some (Cb 2)) True 10)) 5))"
    by (intro reach_cancel reach_add reach_ctor) auto
  from tm_reach_inv [OF this] show ?thesis by (simp add: insert_commute)
qed

subsection \<open>Two locks in listExpiredCb\<close>

text \<open>
  listExpiredCb looks for timers under a read lock, releases it, and only then takes the
  write lock. If the one timer is cancelled between the two, the second part dereferences
  \<open>begin()\<close> of an empty set, which is undefined.
\<close>

theorem listExpiredCb_race_undefined:
  assumes "timers_ok M" "m_timers M = [p]" "\<not> rolled_over M now_ms"
  shows "\<exists>msg. listExpiredCb_locked (fst (Timer_cancel M p)) now_ms a cbs = Inl (Undefined msg)"
  using assms Timer_cancel_member [OF assms(1), of p]
  by (auto simp: listExpiredCb_locked_def rolled_over_def detectClockRollover_def Let_def)

theorem listExpiredCb_race_undefined_witness:
  "\<exists>msg. listExpiredCb_locked (fst (Timer_cancel (demo_tm\<lparr>m_timers := [1]\<rparr>) 1)) 120 9 [] = Inl (Undefined msg)"
  by (rule listExpiredCb_race_undefined) (simp_all add: timer_eval)

subsection \<open>Waking the thread that sleeps until the next deadline\<close>

text \<open>
  \<open>d\<close> is the deadline the sleeping thread knows of, from its last \<open>getNextTimer\<close>. Either a
  wake-up has been requested since, or no timer is due before \<open>d\<close>.
\<close>

definition wakeup_covered :: "u64 \<Rightarrow> 'cb timer_manager \<Rightarrow> bool" where
  "wakeup_covered d M \<longleftrightarrow> m_tickled M \<or> (\<forall>p \<in> set (m_timers M). d \<le> m_next (tm_heap M p))"

definition known_deadline :: "'cb timer_manager \<Rightarrow> u64" where
  "known_deadline M = (case m_timers M of [] \<Rightarrow> - 1 | p # _ \<Rightarrow> m_next (tm_heap M p))"

lemma wakeup_covered_readd:
  assumes "timers_ok M" "p \<notin> set (m_timers M)" "p \<noteq> nullptr" "wakeup_covered d M"
  shows "\<not> snd (addTimer_locked (upd_timer p f M) p) \<Longrightarrow> wakeup_covered d (fst (addTimer_locked (upd_timer p f M) p))"
    "snd (addTimer_locked (upd_timer p f M) p) \<Longrightarrow> m_tickled (fst (addTimer_locked (upd_timer p f M) p))"
proof -
  let ?N = "upd_timer p f M"
  have ok: "timers_ok ?N" "p \<notin> set (m_timers ?N)"
    using timers_ok_upd assms(1,2) by auto
  note eq = addTimer_locked_eq [OF ok assms(3)]
  show "snd (addTimer_locked ?N p) \<Longrightarrow> m_tickled (fst (addTimer_locked ?N p))"
    by (simp add: eq)
  have c: "wakeup_covered d (fst (addTimer_locked ?N p))" if no: "\<not> snd (addTimer_locked ?N p)"
  proof (cases "m_tickled M")
    case False
    with no obtain q where q: "q \<in> set (m_timers M)" "\<not> Comparator (tm_heap ?N) p q"
      by (auto simp: eq)
    then have "p \<noteq> q" using assms(2) by auto
    with q(2) have "Comparator (tm_heap ?N) q p" using tc.lt_total by blast
    then have "m_next (tm_heap ?N q) \<le> m_next (tm_heap ?N p)"
      using Comparator_next_le timers_okD(3) [OF assms(1) q(1)] assms(3) by blast
    moreover have "d \<le> m_next (tm_heap M r)" if "r \<in> set (m_timers M)" for r
      using assms(4) False that by (auto simp: wakeup_covered_def)
    ultimately show ?thesis
      using no q(1) \<open>p \<noteq> q\<close> assms(2) False
      by (auto simp: eq wakeup_covered_def tc.set_insert intro: order_trans split: if_splits)
  qed (auto simp: eq wakeup_covered_def)
  then show "\<not> snd (addTimer_locked ?N p) \<Longrightarrow> wakeup_covered d (fst (addTimer_locked ?N p))" .
qed



end
