(* ===== verification/IOManager.thy ===== *)
theory IOManager
  imports Schedular Timer
begin

section \<open>The I/O manager (iomanager.h, iomanager.cpp)\<close>

text \<open>
  \<open>IOManager\<close> is a scheduler and a timer manager that waits for file descriptors with epoll. Its
  own state is the table of \<open>FdContext\<close> objects and the count of pending events; the schedulers,
  to which a triggered event hands its callback or fiber, are a heap. What \<open>epoll_ctl\<close> and
  \<open>write\<close> return are arguments, and so are the events \<open>epoll_wait\<close> reports. \<open>Event\<close> values and
  epoll masks are 32-bit words.
\<close>

subsection \<open>State\<close>

abbreviation (input) EV_NONE :: u32 where "EV_NONE \<equiv> 0"
abbreviation (input) EV_READ :: u32 where "EV_READ \<equiv> 1"
abbreviation (input) EV_WRITE :: u32 where "EV_WRITE \<equiv> 4"
abbreviation (input) EPOLLIN :: u32 where "EPOLLIN \<equiv> 1"
abbreviation (input) EPOLLOUT :: u32 where "EPOLLOUT \<equiv> 4"
abbreviation (input) EPOLLERR :: u32 where "EPOLLERR \<equiv> 8"
abbreviation (input) EPOLLHUP :: u32 where "EPOLLHUP \<equiv> 16"
abbreviation (input) EPOLLET :: u32 where "EPOLLET \<equiv> 0x80000000"

datatype epoll_op = EPOLL_CTL_ADD | EPOLL_CTL_MOD | EPOLL_CTL_DEL

record 'cb event_context =
  ec_schedular :: ptr
  ec_fiber :: ptr
  ec_cb :: "'cb option"

record 'cb fd_context =
  fc_read :: "'cb event_context"
  fc_write :: "'cb event_context"
  fc_fd :: nat
  fc_events :: u32

record 'cb iomanager =
  io_this :: ptr
  io_scheds :: "ptr \<rightharpoonup> 'cb schedular"
  m_fdContexts :: "'cb fd_context list"
  m_pendingEventCount :: u64

definition empty_context :: "'cb event_context" where
  "empty_context = \<lparr> ec_schedular = nullptr, ec_fiber = nullptr, ec_cb = None \<rparr>"

definition new_FdContext :: "nat \<Rightarrow> 'cb fd_context" where
  "new_FdContext i = \<lparr> fc_read = empty_context, fc_write = empty_context, fc_fd = i, fc_events = EV_NONE \<rparr>"

subsection \<open>FdContext\<close>

definition contextResize :: "nat \<Rightarrow> 'cb iomanager \<Rightarrow> 'cb iomanager" where
  "contextResize n m =
     m\<lparr>m_fdContexts := take n (m_fdContexts m) @ map new_FdContext [length (m_fdContexts m)..<n]\<rparr>"

definition getContext :: "u32 \<Rightarrow> 'cb fd_context \<Rightarrow> 'cb event_context res" where
  "getContext event c =
     (if event = EV_READ then Inr (fc_read c)
      else if event = EV_WRITE then Inr (fc_write c)
      else Inl (Assertion ''getcontext''))"

text \<open>Writing through the reference \<open>getContext\<close> returns.\<close>

definition setContext :: "u32 \<Rightarrow> 'cb event_context \<Rightarrow> 'cb fd_context \<Rightarrow> 'cb fd_context" where
  "setContext event e c = (if event = EV_READ then c\<lparr>fc_read := e\<rparr> else c\<lparr>fc_write := e\<rparr>)"

definition resetContext :: "'cb event_context \<Rightarrow> 'cb event_context" where
  "resetContext e = e\<lparr>ec_cb := None, ec_fiber := nullptr, ec_schedular := nullptr\<rparr>"

definition schedule_on :: "ptr \<Rightarrow> 'cb task \<Rightarrow> (ptr \<rightharpoonup> 'cb schedular) \<Rightarrow> (ptr \<rightharpoonup> 'cb schedular) res" where
  "schedule_on p ft S =
     (case S p of
        None \<Rightarrow> Inl (Undefined ''null schedular dereferenced'')
      | Some s \<Rightarrow> Inr (S(p \<mapsto> fst (schedule ft s))))"

definition triggerEvent :: "u32 \<Rightarrow> 'cb fd_context \<times> (ptr \<rightharpoonup> 'cb schedular) \<Rightarrow>
    ('cb fd_context \<times> (ptr \<rightharpoonup> 'cb schedular)) res" where
  "triggerEvent event = (\<lambda>(c, S).
     qlc_assert (fc_events c AND event \<noteq> 0) ''events&event''
       (let c = c\<lparr>fc_events := fc_events c AND NOT event\<rparr> in
        rbind (getContext event c) (\<lambda>ctx.
          if ec_cb ctx \<noteq> None then
            let (ft, cb') = FT_cb_swap (ec_cb ctx) (- 1) in
            rbind (schedule_on (ec_schedular ctx) ft S) (\<lambda>S'.
              Inr (setContext event (ctx\<lparr>ec_cb := cb', ec_schedular := nullptr\<rparr>) c, S'))
          else
            let (ft, f') = FT_fiber_swap (ec_fiber ctx) (- 1) in
            rbind (schedule_on (ec_schedular ctx) ft S) (\<lambda>S'.
              Inr (setContext event (ctx\<lparr>ec_fiber := f', ec_schedular := nullptr\<rparr>) c, S')))))"

subsection \<open>Events\<close>

text \<open>
  \<open>m_fdContexts[fd]\<close>: a negative \<open>fd\<close> is converted to a huge index, and no operation tests
  for it.
\<close>

definition fd_ctx :: "int \<Rightarrow> 'cb iomanager \<Rightarrow> 'cb fd_context res" where
  "fd_ctx fd m =
     (if 0 \<le> fd \<and> nat fd < length (m_fdContexts m) then Inr (m_fdContexts m ! nat fd)
      else Inl (Undefined ''m_fdContexts index''))"

definition set_fd_ctx :: "int \<Rightarrow> 'cb fd_context \<Rightarrow> 'cb iomanager \<Rightarrow> 'cb iomanager" where
  "set_fd_ctx fd c m = m\<lparr>m_fdContexts := (m_fdContexts m)[nat fd := c]\<rparr>"

text \<open>
  \<open>addEvent\<close>: \<open>rt\<close> is what \<open>epoll_ctl\<close> returns; \<open>cur\<close> and \<open>state\<close> are the current fiber and its
  state, \<open>sched\<close> the scheduler of the calling thread.
\<close>

definition addEvent :: "int \<Rightarrow> ptr \<Rightarrow> ptr \<Rightarrow> fiber_state \<Rightarrow> int \<Rightarrow> u32 \<Rightarrow> 'cb option \<Rightarrow> 'cb iomanager \<Rightarrow>
    ('cb iomanager \<times> int) res" where
  "addEvent rt sched cur state fd event cb m =
     (let m = (if int (length (m_fdContexts m)) > fd then m else contextResize (nat (fd * 3 div 2)) m) in
      rbind (fd_ctx fd m) (\<lambda>c.
        qlc_assert (fc_events c AND event = 0) ''!(fd_ctx->events & event)''
          (if rt \<noteq> 0 then Inr (m, - 1)
           else
             let c = c\<lparr>fc_events := fc_events c OR event\<rparr>;
                 m = m\<lparr>m_pendingEventCount := m_pendingEventCount m + 1\<rparr>
             in rbind (getContext event c) (\<lambda>ctx.
               qlc_assert (ec_schedular ctx = nullptr \<and> ec_fiber ctx = nullptr \<and> ec_cb ctx = None)
                 ''event context in use''
                 (if cb \<noteq> None then
                    Inr (set_fd_ctx fd (setContext event (ctx\<lparr>ec_schedular := sched, ec_cb := cb\<rparr>) c) m, 0)
                  else qlc_assert (state = EXEC) ''state''
                    (Inr (set_fd_ctx fd (setContext event (ctx\<lparr>ec_schedular := sched, ec_fiber := cur\<rparr>) c) m,
                          0)))))))"

definition delEvent :: "int \<Rightarrow> int \<Rightarrow> u32 \<Rightarrow> 'cb iomanager \<Rightarrow> ('cb iomanager \<times> bool) res" where
  "delEvent rt fd event m =
     (if int (length (m_fdContexts m)) \<le> fd then Inr (m, False)
      else rbind (fd_ctx fd m) (\<lambda>c.
        if fc_events c AND event = 0 then Inr (m, False)
        else if rt \<noteq> 0 then Inr (m, False)
        else
          let new_events = fc_events c AND NOT event;
              m = m\<lparr>m_pendingEventCount := m_pendingEventCount m - 1\<rparr>;
              c = c\<lparr>fc_events := new_events\<rparr>
          in rbind (getContext event c) (\<lambda>ctx.
               Inr (set_fd_ctx fd (setContext event (resetContext ctx) c) m, True))))"

definition cancelEvent :: "int \<Rightarrow> int \<Rightarrow> u32 \<Rightarrow> 'cb iomanager \<Rightarrow> ('cb iomanager \<times> bool) res" where
  "cancelEvent rt fd event m =
     (if int (length (m_fdContexts m)) \<le> fd then Inr (m, False)
      else rbind (fd_ctx fd m) (\<lambda>c.
        if fc_events c AND event = 0 then Inr (m, False)
        else if rt \<noteq> 0 then Inr (m, False)
        else rbind (triggerEvent event (c, io_scheds m)) (\<lambda>(c, S).
          Inr ((set_fd_ctx fd c m)\<lparr>io_scheds := S, m_pendingEventCount := m_pendingEventCount m - 1\<rparr>, True))))"

text \<open>The \<open>if(events & e) { triggerEvent(e); --m_pendingEventCount; }\<close> of two functions.\<close>

definition trigger_if :: "bool \<Rightarrow> int \<Rightarrow> u32 \<Rightarrow> 'cb iomanager \<Rightarrow> 'cb iomanager res" where
  "trigger_if b fd event m =
     (if b then
        rbind (fd_ctx fd m) (\<lambda>c.
        rbind (triggerEvent event (c, io_scheds m)) (\<lambda>(c, S).
          Inr ((set_fd_ctx fd c m)\<lparr>io_scheds := S, m_pendingEventCount := m_pendingEventCount m - 1\<rparr>)))
      else Inr m)"

definition cancelAll :: "int \<Rightarrow> int \<Rightarrow> 'cb iomanager \<Rightarrow> ('cb iomanager \<times> bool) res" where
  "cancelAll rt fd m =
     (if int (length (m_fdContexts m)) \<le> fd then Inr (m, False)
      else rbind (fd_ctx fd m) (\<lambda>c.
        if fc_events c = 0 then Inr (m, False)
        else if rt \<noteq> 0 then Inr (m, False)
        else
          rbind (trigger_if (fc_events c AND EV_READ \<noteq> 0) fd EV_READ m) (\<lambda>m.
          rbind (fd_ctx fd m) (\<lambda>c.
          rbind (trigger_if (fc_events c AND EV_WRITE \<noteq> 0) fd EV_WRITE m) (\<lambda>m.
          rbind (fd_ctx fd m) (\<lambda>c.
            qlc_assert (fc_events c = 0) ''fd_ctx->events==0'' (Inr (m, True))))))))"

text \<open>The epoll operation and mask each function passes for a descriptor.\<close>

definition add_op :: "'cb fd_context \<Rightarrow> u32 \<Rightarrow> epoll_op \<times> u32" where
  "add_op c event = (if fc_events c \<noteq> 0 then EPOLL_CTL_MOD else EPOLL_CTL_ADD, EPOLLET OR fc_events c OR event)"

definition del_op :: "'cb fd_context \<Rightarrow> u32 \<Rightarrow> epoll_op \<times> u32" where
  "del_op c event =
     (let new_events = fc_events c AND NOT event
      in (if new_events \<noteq> 0 then EPOLL_CTL_MOD else EPOLL_CTL_DEL, EPOLLET OR new_events))"

subsection \<open>idle\<close>

definition io_stopping :: "'cb timer_manager \<Rightarrow> u64 \<Rightarrow> 'cb' iomanager \<Rightarrow> 'cb timer_manager \<times> u64 \<times> bool" where
  "io_stopping tm now m =
     (let (tm', timeout) = getNextTimer tm now
      in (tm', timeout,
          timeout = - 1 \<and> m_pendingEventCount m = 0 \<and>
          (case io_scheds m (io_this m) of None \<Rightarrow> False | Some s \<Rightarrow> stopping s)))"

text \<open>\<open>tickle\<close> writes one byte to the pipe when a thread is idle; \<open>rt\<close> is what \<open>write\<close> returns.\<close>

definition io_tickle :: "int \<Rightarrow> 'cb schedular \<Rightarrow> bool res" where
  "io_tickle rt s =
     (if \<not> hasIdleThreads s then Inr False else qlc_assert (rt = 1) ''rt==1'' (Inr True))"

text \<open>\<open>(int)next_timeout\<close>: the low 32 bits as a signed number.\<close>

definition to_int32 :: "u64 \<Rightarrow> int" where
  "to_int32 x = sint (ucast x :: u32)"

definition MAX_TIMEOUT :: u64 where
  "MAX_TIMEOUT = 5000"

definition idle_timeout :: "u64 \<Rightarrow> u64" where
  "idle_timeout next_timeout =
     (if next_timeout \<noteq> - 1 then
        (if to_int32 next_timeout > to_int32 MAX_TIMEOUT then MAX_TIMEOUT else next_timeout)
      else MAX_TIMEOUT)"

definition epoll_wait_timeout :: "u64 \<Rightarrow> int" where
  "epoll_wait_timeout next_timeout = to_int32 (idle_timeout next_timeout)"

text \<open>One reported event: the tickle pipe, which is drained, or a descriptor's context.\<close>

datatype epoll_data = Tickle_fd | Fd_ptr nat

definition real_events :: "u32 \<Rightarrow> 'cb fd_context \<Rightarrow> u32" where
  "real_events events c =
     (let events = (if events AND (EPOLLERR OR EPOLLHUP) \<noteq> 0
            then events OR ((EPOLLIN OR EPOLLOUT) AND fc_events c) else events)
      in (if events AND EPOLLIN \<noteq> 0 then EV_READ else EV_NONE) OR
         (if events AND EPOLLOUT \<noteq> 0 then EV_WRITE else EV_NONE))"

definition idle_event :: "int \<Rightarrow> u32 \<times> epoll_data \<Rightarrow> 'cb iomanager \<Rightarrow> 'cb iomanager res" where
  "idle_event rt2 = (\<lambda>(events, data) m.
     case data of
       Tickle_fd \<Rightarrow> Inr m
     | Fd_ptr i \<Rightarrow>
         rbind (fd_ctx (int i) m) (\<lambda>c.
           let real = real_events events c in
           if fc_events c AND real = EV_NONE then Inr m
           else if rt2 \<noteq> 0 then Inr m
           else rbind (trigger_if (real AND EV_READ \<noteq> 0) (int i) EV_READ m) (\<lambda>m.
                trigger_if (real AND EV_WRITE \<noteq> 0) (int i) EV_WRITE m)))"

fun idle_events :: "(int \<times> u32 \<times> epoll_data) list \<Rightarrow> 'cb iomanager \<Rightarrow> 'cb iomanager res" where
  "idle_events [] m = Inr m"
| "idle_events ((rt2, ev) # evs) m = rbind (idle_event rt2 ev m) (idle_events evs)"

text \<open>
  One round of \<open>idle\<close> after \<open>epoll_wait\<close>: the expired timers' callbacks are scheduled, then the
  events are handled, and the fiber switches back to the scheduler. \<open>None\<close>: the loop ended.
\<close>

definition idle_round ::
  "u64 \<Rightarrow> u64 \<Rightarrow> ptr \<Rightarrow> (int \<times> u32 \<times> epoll_data) list \<Rightarrow> 'cb timer_manager \<times> 'cb timer_cb iomanager \<Rightarrow>
     ('cb timer_manager \<times> 'cb timer_cb iomanager) option res" where
  "idle_round now now' now_timer evs = (\<lambda>(tm, m).
     let (tm, next_timeout, stop) = io_stopping tm now m in
     if stop then Inr None
     else
       rbind (listExpiredCb tm now' now_timer []) (\<lambda>(tm, cbs).
       rbind (if cbs = [] then Inr m
              else case io_scheds m (io_this m) of
                None \<Rightarrow> Inl (Undefined ''scheduler of the I/O manager'')
              | Some s \<Rightarrow>
                  let (s', need_tickle, cbs') = schedule_range cbs s False
                  in Inr (m\<lparr>io_scheds := (io_scheds m)(io_this m \<mapsto> s')\<rparr>)) (\<lambda>m.
       rbind (idle_events evs m) (\<lambda>m. Inr (Some (tm, m))))))"

subsection \<open>The invariant\<close>

text \<open>
  A descriptor's event bits say which of its two slots are armed. An armed slot has a live
  scheduler and either a callback or a fiber; an unarmed slot is empty. The count of pending
  events is the number of armed slots.
\<close>

definition slot :: "u32 \<Rightarrow> 'cb fd_context \<Rightarrow> 'cb event_context" where
  "slot event c = (if event = EV_READ then fc_read c else fc_write c)"

definition waiting :: "'cb event_context \<Rightarrow> 'cb task" where
  "waiting e = (if ec_cb e \<noteq> None then FT_cb (ec_cb e) (- 1) else FT_fiber (ec_fiber e) (- 1))"

definition slot_ok :: "(ptr \<rightharpoonup> 'cb schedular) \<Rightarrow> bool \<Rightarrow> 'cb event_context \<Rightarrow> bool" where
  "slot_ok S armed e \<longleftrightarrow>
     (if armed then ec_schedular e \<in> dom S \<and> (ec_cb e = None \<longleftrightarrow> ec_fiber e \<noteq> nullptr)
      else e = empty_context)"

definition armed :: "u32 \<Rightarrow> 'cb fd_context \<Rightarrow> bool" where
  "armed event c \<longleftrightarrow> fc_events c AND event \<noteq> 0"

definition valid_events :: "u32 \<Rightarrow> bool" where
  "valid_events e \<longleftrightarrow> e \<in> {0, 1, 4, 5}"

definition ctx_ok :: "(ptr \<rightharpoonup> 'cb schedular) \<Rightarrow> 'cb fd_context \<Rightarrow> bool" where
  "ctx_ok S c \<longleftrightarrow> valid_events (fc_events c) \<and> slot_ok S (armed EV_READ c) (fc_read c) \<and>
     slot_ok S (armed EV_WRITE c) (fc_write c)"

definition armed_count :: "'cb fd_context \<Rightarrow> nat" where
  "armed_count c = (if armed EV_READ c then 1 else 0) + (if armed EV_WRITE c then 1 else 0)"

definition iom_inv :: "'cb iomanager \<Rightarrow> bool" where
  "iom_inv m \<longleftrightarrow> (\<forall>c \<in> set (m_fdContexts m). ctx_ok (io_scheds m) c) \<and>
     m_pendingEventCount m = of_nat (sum_list (map armed_count (m_fdContexts m))) \<and>
     io_scheds m (io_this m) \<noteq> None"

lemma event_bits:
  fixes e :: u32
  assumes "valid_events e"
  shows "valid_events (e AND NOT 1)" "valid_events (e AND NOT 4)" "valid_events (e OR 1)" "valid_events (e OR 4)"
    "(e AND NOT 1) AND 1 = 0" "(e AND NOT 4) AND 4 = 0" "(e AND NOT 1) AND 4 = e AND 4" "(e AND NOT 4) AND 1 = e AND 1"
    "(e OR 1) AND 1 = 1" "(e OR 4) AND 4 = 4" "(e OR 1) AND 4 = e AND 4" "(e OR 4) AND 1 = e AND 1"
  using assms unfolding valid_events_def by (elim insertE; simp)+

text \<open>Setting and clearing one event bit of a well-formed descriptor.\<close>

lemma ctx_ok_clear:
  assumes "ctx_ok S c" "event \<in> {EV_READ, EV_WRITE}" "armed event c" "dom S \<subseteq> dom S'"
  shows "ctx_ok S' (setContext event empty_context (c\<lparr>fc_events := fc_events c AND NOT event\<rparr>))"
    "armed_count c = Suc (armed_count (setContext event empty_context (c\<lparr>fc_events := fc_events c AND NOT event\<rparr>)))"
proof -
  have e: "valid_events (fc_events c)" using assms(1) by (simp add: ctx_ok_def)
  note bits = event_bits [OF e] event_bits [OF e, simplified]
  have sub: "slot_ok S x y \<Longrightarrow> slot_ok S' x y" for x y
    using assms(4) by (auto simp: slot_ok_def split: if_splits)
  show "ctx_ok S' (setContext event empty_context (c\<lparr>fc_events := fc_events c AND NOT event\<rparr>))"
    using assms(1,2) sub by (elim insertE) (simp_all add: ctx_ok_def armed_def setContext_def bits slot_ok_def [of _ False])
  show "armed_count c = Suc (armed_count (setContext event empty_context (c\<lparr>fc_events := fc_events c AND NOT event\<rparr>)))"
    using assms(2,3) by (elim insertE) (simp_all add: armed_def setContext_def armed_count_def bits)
qed

lemma ctx_ok_set:
  assumes "ctx_ok S c" "event \<in> {EV_READ, EV_WRITE}" "\<not> armed event c" "slot_ok S True x"
  shows "ctx_ok S (setContext event x (c\<lparr>fc_events := fc_events c OR event\<rparr>))"
    "armed_count (setContext event x (c\<lparr>fc_events := fc_events c OR event\<rparr>)) = Suc (armed_count c)"
proof -
  have e: "valid_events (fc_events c)" using assms(1) by (simp add: ctx_ok_def)
  note bits = event_bits [OF e] event_bits [OF e, simplified]
  show "ctx_ok S (setContext event x (c\<lparr>fc_events := fc_events c OR event\<rparr>))"
    using assms(1,2,4) by (elim insertE) (simp_all add: ctx_ok_def armed_def setContext_def bits)
  show "armed_count (setContext event x (c\<lparr>fc_events := fc_events c OR event\<rparr>)) = Suc (armed_count c)"
    using assms(2,3) by (elim insertE) (simp_all add: armed_def setContext_def armed_count_def bits)
qed

lemma ctx_ok_slot: "ctx_ok S c \<Longrightarrow> event \<in> {EV_READ, EV_WRITE} \<Longrightarrow> slot_ok S (armed event c) (slot event c)"
  by (auto simp: ctx_ok_def slot_def)

lemma schedule_waiting:
  "slot_ok S True e \<Longrightarrow> fst (schedule (waiting e) s) = s\<lparr>m_fibers := m_fibers s @ [waiting e]\<rparr>"
  by (auto simp: slot_ok_def waiting_def schedule_def scheduleNoLock_def FT_cb_def FT_fiber_def Let_def)

text \<open>
  Triggering an armed event clears its bit and its slot and appends what waited there to the
  queue of the slot's scheduler.
\<close>

lemma triggerEvent_ok:
  assumes "ctx_ok S c" "event \<in> {EV_READ, EV_WRITE}" "armed event c" "S (ec_schedular (slot event c)) = Some s"
  shows "triggerEvent event (c, S) =
    Inr (setContext event empty_context (c\<lparr>fc_events := fc_events c AND NOT event\<rparr>),
         S(ec_schedular (slot event c) \<mapsto> s\<lparr>m_fibers := m_fibers s @ [waiting (slot event c)]\<rparr>))"
proof -
  let ?e = "slot event c" and ?c = "c\<lparr>fc_events := fc_events c AND NOT event\<rparr>"
  have so: "slot_ok S True ?e" using ctx_ok_slot [OF assms(1,2)] assms(3) by simp
  have g: "getContext event ?c = Inr ?e" using assms(2) by (auto simp: getContext_def slot_def)
  have a: "fc_events c AND event \<noteq> 0" using assms(3) by (simp add: armed_def)
  show ?thesis
  proof (cases "ec_cb ?e")
    case None
    then have w: "waiting ?e = FT_fiber (ec_fiber ?e) (- 1)" by (simp add: waiting_def)
    have "?e\<lparr>ec_fiber := nullptr, ec_schedular := nullptr\<rparr> = empty_context"
      using None by (simp add: empty_context_def)
    then show ?thesis
      using None a g assms(4) schedule_waiting [OF so, of s] w
      by (simp add: triggerEvent_def FT_fiber_swap_def schedule_on_def)
  next
    case (Some cb)
    then have w: "waiting ?e = FT_cb (ec_cb ?e) (- 1)" by (simp add: waiting_def)
    have "?e\<lparr>ec_cb := None, ec_schedular := nullptr\<rparr> = empty_context"
      using Some so by (simp add: empty_context_def slot_ok_def)
    then show ?thesis
      using Some a g assms(4) schedule_waiting [OF so, of s] w
      by (simp add: triggerEvent_def FT_cb_swap_def schedule_on_def)
  qed
qed

text \<open>
  What an operation does to the table: it disarms a slot, hands what waits there to its
  scheduler, or arms a slot.
\<close>

definition push_task :: "ptr \<Rightarrow> 'cb task \<Rightarrow> (ptr \<rightharpoonup> 'cb schedular) \<Rightarrow> (ptr \<rightharpoonup> 'cb schedular)" where
  "push_task p ft S = S(p := map_option (\<lambda>s. s\<lparr>m_fibers := m_fibers s @ [ft]\<rparr>) (S p))"

definition disarm :: "int \<Rightarrow> u32 \<Rightarrow> 'cb iomanager \<Rightarrow> 'cb iomanager" where
  "disarm fd event m =
     (let c = m_fdContexts m ! nat fd in
      (set_fd_ctx fd (setContext event empty_context (c\<lparr>fc_events := fc_events c AND NOT event\<rparr>)) m)
        \<lparr>m_pendingEventCount := m_pendingEventCount m - 1\<rparr>)"

definition fire :: "int \<Rightarrow> u32 \<Rightarrow> 'cb iomanager \<Rightarrow> 'cb iomanager" where
  "fire fd event m =
     (let e = slot event (m_fdContexts m ! nat fd) in
      (disarm fd event m)\<lparr>io_scheds := push_task (ec_schedular e) (waiting e) (io_scheds m)\<rparr>)"

definition arm :: "int \<Rightarrow> u32 \<Rightarrow> 'cb event_context \<Rightarrow> 'cb iomanager \<Rightarrow> 'cb iomanager" where
  "arm fd event e m =
     (let c = m_fdContexts m ! nat fd in
      (set_fd_ctx fd (setContext event e (c\<lparr>fc_events := fc_events c OR event\<rparr>)) m)
        \<lparr>m_pendingEventCount := m_pendingEventCount m + 1\<rparr>)"

definition valid_fd :: "int \<Rightarrow> 'cb iomanager \<Rightarrow> bool" where
  "valid_fd fd m \<longleftrightarrow> 0 \<le> fd \<and> nat fd < length (m_fdContexts m)"

definition armed_at :: "int \<Rightarrow> u32 \<Rightarrow> 'cb iomanager \<Rightarrow> bool" where
  "armed_at fd event m \<longleftrightarrow> armed event (m_fdContexts m ! nat fd)"

lemma dom_push_task [simp]: "dom (push_task p ft S) = dom S"
  by (auto simp: push_task_def dom_def)

lemma iom_inv_replace:
  assumes inv: "iom_inv m" and i: "i < length (m_fdContexts m)" and c: "ctx_ok S c'"
    and S: "dom S = dom (io_scheds m)"
    and n: "n = m_pendingEventCount m + of_nat (armed_count c') - of_nat (armed_count (m_fdContexts m ! i))"
  shows "iom_inv (m\<lparr>m_fdContexts := (m_fdContexts m)[i := c'], m_pendingEventCount := n, io_scheds := S\<rparr>)"
proof -
  have "slot_ok (io_scheds m) a e \<Longrightarrow> slot_ok S a e" for a e using S by (auto simp: slot_ok_def)
  then have "ctx_ok S x" if "x \<in> set (m_fdContexts m)" for x
    using inv that by (auto simp: iom_inv_def ctx_ok_def)
  moreover have "set ((m_fdContexts m)[i := c']) \<subseteq> insert c' (set (m_fdContexts m))"
    by (rule set_update_subset_insert)
  moreover have "sum_list (map armed_count ((m_fdContexts m)[i := c'])) + armed_count (m_fdContexts m ! i) =
      sum_list (map armed_count (m_fdContexts m)) + armed_count c'"
    using i elem_le_sum_list [of i "map armed_count (m_fdContexts m)"]
    by (simp add: map_update sum_list_update)
  then have "(of_nat (sum_list (map armed_count ((m_fdContexts m)[i := c']))) :: u64) +
      of_nat (armed_count (m_fdContexts m ! i)) =
      of_nat (sum_list (map armed_count (m_fdContexts m))) + of_nat (armed_count c')"
    by (simp only: flip: of_nat_add)
  then have "n = of_nat (sum_list (map armed_count ((m_fdContexts m)[i := c'])))"
    using n inv by (simp add: iom_inv_def eq_diff_eq) (metis add_right_cancel)
  moreover have "S (io_this m) \<noteq> None" using inv S by (auto simp: iom_inv_def dom_def)
  ultimately show ?thesis
    using c by (auto simp: iom_inv_def)
qed

lemma disarm_inv:
  assumes "iom_inv m" "valid_fd fd m" "event \<in> {EV_READ, EV_WRITE}" "armed_at fd event m"
    and "dom S = dom (io_scheds m)"
  shows "iom_inv ((disarm fd event m)\<lparr>io_scheds := S\<rparr>)"
proof -
  let ?c = "m_fdContexts m ! nat fd"
  have c: "ctx_ok (io_scheds m) ?c" and i: "nat fd < length (m_fdContexts m)"
    using assms by (auto simp: iom_inv_def valid_fd_def)
  have a: "armed event ?c" using assms(4) by (simp add: armed_at_def)
  have d: "dom (io_scheds m) \<subseteq> dom S" using assms(5) by simp
  note cl = ctx_ok_clear [OF c assms(3) a d]
  have "(disarm fd event m)\<lparr>io_scheds := S\<rparr> =
      m\<lparr>m_fdContexts := (m_fdContexts m)[nat fd := setContext event empty_context (?c\<lparr>fc_events := fc_events ?c AND NOT event\<rparr>)],
        m_pendingEventCount := m_pendingEventCount m - 1, io_scheds := S\<rparr>"
    by (simp add: disarm_def set_fd_ctx_def Let_def)
  then show ?thesis
    using iom_inv_replace [OF assms(1) i cl(1) assms(5)] cl(2) by simp
qed

lemma fire_inv:
  assumes "iom_inv m" "valid_fd fd m" "event \<in> {EV_READ, EV_WRITE}" "armed_at fd event m"
  shows "iom_inv (fire fd event m)"
  unfolding fire_def Let_def by (rule disarm_inv [OF assms]) simp

lemma triggerEvent_fire:
  assumes "iom_inv m" "valid_fd fd m" "event \<in> {EV_READ, EV_WRITE}" "armed_at fd event m"
  shows "rbind (triggerEvent event (m_fdContexts m ! nat fd, io_scheds m)) (\<lambda>(c, S).
    Inr ((set_fd_ctx fd c m)\<lparr>io_scheds := S, m_pendingEventCount := m_pendingEventCount m - 1\<rparr>)) =
    Inr (fire fd event m)"
proof -
  let ?c = "m_fdContexts m ! nat fd"
  have c: "ctx_ok (io_scheds m) ?c" and a: "armed event ?c"
    using assms by (auto simp: iom_inv_def valid_fd_def armed_at_def)
  then obtain s where "io_scheds m (ec_schedular (slot event ?c)) = Some s"
    using ctx_ok_slot [OF c assms(3)] by (auto simp: slot_ok_def)
  then show ?thesis
    using triggerEvent_ok [OF c assms(3) a]
    by (simp add: fire_def disarm_def set_fd_ctx_def push_task_def Let_def)
qed

lemma fd_ctx_valid: "valid_fd fd m \<Longrightarrow> fd_ctx fd m = Inr (m_fdContexts m ! nat fd)"
  by (simp add: fd_ctx_def valid_fd_def)

lemma trigger_if_fire:
  assumes "iom_inv m" "valid_fd fd m" "event \<in> {EV_READ, EV_WRITE}" "b \<Longrightarrow> armed_at fd event m"
  shows "trigger_if b fd event m = Inr (if b then fire fd event m else m)"
  using assms triggerEvent_fire [OF assms(1-3)] by (simp add: trigger_if_def fd_ctx_valid)

lemma fire_simps [simp]:
  "valid_fd fd (fire fd' event m) = valid_fd fd m" "length (m_fdContexts (fire fd event m)) = length (m_fdContexts m)"
  by (simp_all add: fire_def disarm_def set_fd_ctx_def valid_fd_def Let_def)

subsection \<open>The operations under the invariant\<close>

text \<open>\<open>grow\<close>: the table as \<open>addEvent\<close> finds it after its first block.\<close>

definition grow :: "int \<Rightarrow> 'cb iomanager \<Rightarrow> 'cb iomanager" where
  "grow fd m = (if int (length (m_fdContexts m)) > fd then m else contextResize (nat (fd * 3 div 2)) m)"

lemma new_FdContext_ok: "ctx_ok S (new_FdContext i)" "armed_count (new_FdContext i) = 0"
  by (simp_all add: new_FdContext_def ctx_ok_def valid_events_def armed_def slot_ok_def armed_count_def)

lemma grow_inv:
  assumes "iom_inv m" "2 \<le> fd \<or> int (length (m_fdContexts m)) > fd" "0 \<le> fd"
  shows "iom_inv (grow fd m) \<and> valid_fd fd (grow fd m) \<and> io_scheds (grow fd m) = io_scheds m \<and>
    (\<forall>i < length (m_fdContexts m). m_fdContexts (grow fd m) ! i = m_fdContexts m ! i) \<and>
    length (m_fdContexts m) \<le> length (m_fdContexts (grow fd m))"
proof (cases "int (length (m_fdContexts m)) > fd")
  case True
  then show ?thesis using assms by (simp add: grow_def valid_fd_def)
next
  case False
  let ?n = "nat (fd * 3 div 2)" and ?l = "length (m_fdContexts m)"
  have n: "?l \<le> ?n" "nat fd < ?n" using False assms(2,3) by linarith+
  have "sum_list (map armed_count (map new_FdContext [?l..<?n] :: 'a fd_context list)) = 0"
    by (simp add: comp_def new_FdContext_ok)
  then have "iom_inv (contextResize ?n m)"
    using assms(1) n by (auto simp: iom_inv_def contextResize_def new_FdContext_ok comp_def)
  then show ?thesis
    using False n assms(3) by (simp add: grow_def valid_fd_def contextResize_def nth_append)
qed

lemma arm_inv:
  assumes "iom_inv m" "valid_fd fd m" "event \<in> {EV_READ, EV_WRITE}" "\<not> armed_at fd event m"
    and "slot_ok (io_scheds m) True e"
  shows "iom_inv (arm fd event e m)"
proof -
  let ?c = "m_fdContexts m ! nat fd"
  have c: "ctx_ok (io_scheds m) ?c" and i: "nat fd < length (m_fdContexts m)" and a: "\<not> armed event ?c"
    using assms by (auto simp: iom_inv_def valid_fd_def armed_at_def)
  note st = ctx_ok_set [OF c assms(3) a assms(5)]
  have "arm fd event e m =
      m\<lparr>m_fdContexts := (m_fdContexts m)[nat fd := setContext event e (?c\<lparr>fc_events := fc_events ?c OR event\<rparr>)],
        m_pendingEventCount := m_pendingEventCount m + 1, io_scheds := io_scheds m\<rparr>"
    by (simp add: arm_def set_fd_ctx_def Let_def)
  then show ?thesis using iom_inv_replace [OF assms(1) i st(1) refl] st(2) by simp
qed

lemma getContext_slot:
  "event \<in> {EV_READ, EV_WRITE} \<Longrightarrow> getContext event (c\<lparr>fc_events := x\<rparr>) = Inr (slot event c)"
  by (auto simp: getContext_def slot_def)

lemma slot_empty:
  assumes "iom_inv m" "valid_fd fd m" "event \<in> {EV_READ, EV_WRITE}" "\<not> armed_at fd event m"
  shows "slot event (m_fdContexts m ! nat fd) = empty_context"
proof -
  have "ctx_ok (io_scheds m) (m_fdContexts m ! nat fd)"
    using assms by (auto simp: iom_inv_def valid_fd_def)
  from ctx_ok_slot [OF this assms(3)] show ?thesis
    using assms(4) by (simp add: armed_at_def slot_ok_def)
qed

lemma addEvent_ok:
  assumes "iom_inv m" "0 \<le> fd" "event \<in> {EV_READ, EV_WRITE}"
    and "2 \<le> fd \<or> int (length (m_fdContexts m)) > fd" "\<not> armed_at fd event (grow fd m)"
    and "sched \<in> dom (io_scheds m)" "cb = None \<Longrightarrow> cur \<noteq> nullptr \<and> state = EXEC"
  defines "e \<equiv> \<lparr> ec_schedular = sched, ec_fiber = (if cb = None then cur else nullptr), ec_cb = cb \<rparr>"
  shows "addEvent rt sched cur state fd event cb m =
      Inr (if rt = 0 then arm fd event e (grow fd m) else grow fd m, if rt = 0 then 0 else - 1)"
    "iom_inv (if rt = 0 then arm fd event e (grow fd m) else grow fd m)"
proof -
  let ?m = "grow fd m" and ?c = "m_fdContexts (grow fd m) ! nat fd"
  have g: "iom_inv ?m" "valid_fd fd ?m" "io_scheds ?m = io_scheds m"
    using grow_inv [OF assms(1) assms(4,2)] by auto
  have sl: "slot event ?c = empty_context" using slot_empty [OF g(1,2) assms(3,5)] .
  have na: "fc_events ?c AND event = 0" using assms(5) by (simp add: armed_at_def armed_def)
  have gr: "(if int (length (m_fdContexts m)) > fd then m else contextResize (nat (fd * 3 div 2)) m) = ?m"
    by (simp add: grow_def)
  show "addEvent rt sched cur state fd event cb m =
      Inr (if rt = 0 then arm fd event e (grow fd m) else grow fd m, if rt = 0 then 0 else - 1)"
    unfolding addEvent_def Let_def gr fd_ctx_valid [OF g(2)] rbind_simps
    using na assms(7) by (cases cb) (simp_all add: getContext_slot [OF assms(3)] sl empty_context_def arm_def
        set_fd_ctx_def e_def Let_def)
  have "slot_ok (io_scheds ?m) True e" using assms(6,7) by (auto simp: slot_ok_def e_def g(3))
  then show "iom_inv (if rt = 0 then arm fd event e (grow fd m) else grow fd m)"
    using arm_inv [OF g(1,2) assms(3,5)] g(1) by simp
qed

lemma delEvent_ok:
  assumes "iom_inv m" "event \<in> {EV_READ, EV_WRITE}" "valid_fd fd m"
  shows "delEvent rt fd event m =
      Inr (if rt = 0 \<and> armed_at fd event m then disarm fd event m else m, rt = 0 \<and> armed_at fd event m)"
    "iom_inv (if rt = 0 \<and> armed_at fd event m then disarm fd event m else m)"
proof -
  have "\<not> int (length (m_fdContexts m)) \<le> fd" using assms(3) by (auto simp: valid_fd_def)
  moreover have "resetContext x = empty_context" for x :: "'a event_context"
    by (simp add: resetContext_def empty_context_def)
  ultimately show "delEvent rt fd event m =
      Inr (if rt = 0 \<and> armed_at fd event m then disarm fd event m else m, rt = 0 \<and> armed_at fd event m)"
    by (auto simp: delEvent_def fd_ctx_valid [OF assms(3)] getContext_slot [OF assms(2)] armed_at_def
        armed_def disarm_def set_fd_ctx_def Let_def)
  show "iom_inv (if rt = 0 \<and> armed_at fd event m then disarm fd event m else m)"
    using disarm_inv [OF assms(1,3,2) _ refl] assms(1) by (simp add: disarm_def set_fd_ctx_def Let_def)
qed

lemma cancelEvent_ok:
  assumes "iom_inv m" "event \<in> {EV_READ, EV_WRITE}" "valid_fd fd m"
  shows "cancelEvent rt fd event m =
      Inr (if rt = 0 \<and> armed_at fd event m then fire fd event m else m, rt = 0 \<and> armed_at fd event m)"
    "iom_inv (if rt = 0 \<and> armed_at fd event m then fire fd event m else m)"
proof -
  have v: "\<not> int (length (m_fdContexts m)) \<le> fd" using assms(3) by (auto simp: valid_fd_def)
  have "rbind (triggerEvent event (m_fdContexts m ! nat fd, io_scheds m)) (\<lambda>(c, S).
      Inr ((set_fd_ctx fd c m)\<lparr>io_scheds := S, m_pendingEventCount := m_pendingEventCount m - 1\<rparr>, True)) =
      Inr (fire fd event m, True)" if "armed_at fd event m"
    using triggerEvent_fire [OF assms(1,3,2) that] by (auto split: prod.splits)
  with v show "cancelEvent rt fd event m =
      Inr (if rt = 0 \<and> armed_at fd event m then fire fd event m else m, rt = 0 \<and> armed_at fd event m)"
    by (auto simp: cancelEvent_def fd_ctx_valid [OF assms(3)] armed_at_def armed_def)
  show "iom_inv (if rt = 0 \<and> armed_at fd event m then fire fd event m else m)"
    using fire_inv [OF assms(1,3,2)] assms(1) by simp
qed

lemma fire_events:
  "valid_fd fd m \<Longrightarrow> fc_events (m_fdContexts (fire fd event m) ! nat fd) =
     fc_events (m_fdContexts m ! nat fd) AND NOT event"
  by (simp add: fire_def disarm_def set_fd_ctx_def valid_fd_def setContext_def Let_def)

lemma armed_fire:
  assumes "iom_inv m" "valid_fd fd m"
  shows "armed_at fd EV_WRITE (fire fd EV_READ m) = armed_at fd EV_WRITE m"
    "armed_at fd EV_READ (fire fd EV_WRITE m) = armed_at fd EV_READ m"
    "\<not> armed_at fd EV_READ (fire fd EV_READ m)" "\<not> armed_at fd EV_WRITE (fire fd EV_WRITE m)"
proof -
  have "valid_events (fc_events (m_fdContexts m ! nat fd))"
    using assms by (auto simp: iom_inv_def valid_fd_def ctx_ok_def)
  note bits = event_bits [OF this] event_bits [OF this, simplified]
  show "armed_at fd EV_WRITE (fire fd EV_READ m) = armed_at fd EV_WRITE m"
    "armed_at fd EV_READ (fire fd EV_WRITE m) = armed_at fd EV_READ m"
    "\<not> armed_at fd EV_READ (fire fd EV_READ m)" "\<not> armed_at fd EV_WRITE (fire fd EV_WRITE m)"
    by (simp_all add: armed_at_def armed_def fire_events [OF assms(2)] bits)
qed

lemma valid_events_zero: "valid_events e \<Longrightarrow> e = 0 \<longleftrightarrow> e AND 1 = 0 \<and> e AND 4 = 0"
  unfolding valid_events_def by (elim insertE; simp)

lemma events_zero_iff:
  assumes "iom_inv m" "valid_fd fd m"
  shows "fc_events (m_fdContexts m ! nat fd) = 0 \<longleftrightarrow> \<not> armed_at fd EV_READ m \<and> \<not> armed_at fd EV_WRITE m"
proof -
  have "valid_events (fc_events (m_fdContexts m ! nat fd))"
    using assms by (auto simp: iom_inv_def valid_fd_def ctx_ok_def)
  then show ?thesis using valid_events_zero by (simp add: armed_at_def armed_def)
qed

definition fire_all :: "int \<Rightarrow> 'cb iomanager \<Rightarrow> 'cb iomanager" where
  "fire_all fd m =
     (let m1 = (if armed_at fd EV_READ m then fire fd EV_READ m else m)
      in if armed_at fd EV_WRITE m then fire fd EV_WRITE m1 else m1)"

lemma cancelAll_ok:
  assumes "iom_inv m" "valid_fd fd m"
  shows "cancelAll rt fd m =
      Inr (if rt = 0 \<and> (armed_at fd EV_READ m \<or> armed_at fd EV_WRITE m) then fire_all fd m else m,
           rt = 0 \<and> (armed_at fd EV_READ m \<or> armed_at fd EV_WRITE m))"
    "iom_inv (fire_all fd m)"
proof -
  let ?m1 = "if armed_at fd EV_READ m then fire fd EV_READ m else m"
  let ?m2 = "if armed_at fd EV_WRITE ?m1 then fire fd EV_WRITE ?m1 else ?m1"
  let ?ev = "\<lambda>m. fc_events (m_fdContexts m ! nat fd)"
  have v: "\<not> int (length (m_fdContexts m)) \<le> fd" "valid_fd fd ?m1" "valid_fd fd ?m2"
    using assms(2) by (auto simp: valid_fd_def)
  have inv1: "iom_inv ?m1" using fire_inv [OF assms(1,2)] assms(1) by simp
  have inv2: "iom_inv ?m2" using fire_inv [OF inv1 v(2)] inv1 by simp
  have "\<not> armed_at fd EV_READ ?m2" "\<not> armed_at fd EV_WRITE ?m2"
    using armed_fire [OF assms] armed_fire [OF inv1 v(2)] by (auto split: if_splits)
  then have zero: "?ev ?m2 = 0" using events_zero_iff [OF inv2 v(3)] by blast
  have t1: "trigger_if (?ev m AND EV_READ \<noteq> 0) fd EV_READ m = Inr ?m1"
    using trigger_if_fire [OF assms, of EV_READ "?ev m AND EV_READ \<noteq> 0"] by (simp add: armed_at_def armed_def)
  have t2: "trigger_if (?ev ?m1 AND EV_WRITE \<noteq> 0) fd EV_WRITE ?m1 = Inr ?m2"
    using trigger_if_fire [OF inv1 v(2), of EV_WRITE "?ev ?m1 AND EV_WRITE \<noteq> 0"] by (simp add: armed_at_def armed_def)
  have fa: "fire_all fd m = ?m2"
    using armed_fire(1) [OF assms] by (simp add: fire_all_def Let_def)
  show "cancelAll rt fd m =
      Inr (if rt = 0 \<and> (armed_at fd EV_READ m \<or> armed_at fd EV_WRITE m) then fire_all fd m else m,
           rt = 0 \<and> (armed_at fd EV_READ m \<or> armed_at fd EV_WRITE m))"
    unfolding cancelAll_def fa fd_ctx_valid [OF assms(2)] rbind_simps t1 fd_ctx_valid [OF v(2)] t2
      fd_ctx_valid [OF v(3)] zero using v(1) events_zero_iff [OF assms] by simp
  show "iom_inv (fire_all fd m)" using inv2 fa by simp
qed

text \<open>
  C15. addEvent, delEvent, cancelEvent and cancelAll keep the table of descriptors consistent: an
  event bit is set exactly when its slot holds a scheduler and a callback or fiber, and the
  pending count is the number of set bits. For a valid descriptor no assertion fails: addEvent of
  an event that is not set arms it with the callback, or the calling fiber, without touching any
  other slot, and counts it; delEvent disarms without scheduling anything; cancelEvent disarms
  and appends what waited to its scheduler's queue, once; cancelAll does so for every set event.
  When epoll_ctl fails, or there is nothing to remove, nothing changes but the table's size.
\<close>

theorem iom_operations:
  assumes "iom_inv m" "0 \<le> fd" "event \<in> {EV_READ, EV_WRITE}"
  shows "((2 \<le> fd \<or> int (length (m_fdContexts m)) > fd) \<and> \<not> armed_at fd event (grow fd m) \<and>
      sched \<in> dom (io_scheds m) \<and> (cb = None \<longrightarrow> cur \<noteq> nullptr \<and> state = EXEC) \<longrightarrow>
      (let e = \<lparr> ec_schedular = sched, ec_fiber = (if cb = None then cur else nullptr), ec_cb = cb \<rparr>;
           m' = (if rt = 0 then arm fd event e (grow fd m) else grow fd m)
       in addEvent rt sched cur state fd event cb m = Inr (m', if rt = 0 then 0 else - 1) \<and> iom_inv m')) \<and>
    (valid_fd fd m \<longrightarrow>
      (let hit = (rt = 0 \<and> armed_at fd event m); m' = (if hit then disarm fd event m else m)
       in delEvent rt fd event m = Inr (m', hit) \<and> iom_inv m') \<and>
      (let hit = (rt = 0 \<and> armed_at fd event m); m' = (if hit then fire fd event m else m)
       in cancelEvent rt fd event m = Inr (m', hit) \<and> iom_inv m') \<and>
      (let hit = (rt = 0 \<and> (armed_at fd EV_READ m \<or> armed_at fd EV_WRITE m));
           m' = (if hit then fire_all fd m else m)
       in cancelAll rt fd m = Inr (m', hit) \<and> iom_inv m'))"
proof (intro conjI impI)
  assume "(2 \<le> fd \<or> int (length (m_fdContexts m)) > fd) \<and> \<not> armed_at fd event (grow fd m) \<and>
      sched \<in> dom (io_scheds m) \<and> (cb = None \<longrightarrow> cur \<noteq> nullptr \<and> state = EXEC)"
  then show "let e = \<lparr> ec_schedular = sched, ec_fiber = (if cb = None then cur else nullptr), ec_cb = cb \<rparr>;
           m' = (if rt = 0 then arm fd event e (grow fd m) else grow fd m)
       in addEvent rt sched cur state fd event cb m = Inr (m', if rt = 0 then 0 else - 1) \<and> iom_inv m'"
    unfolding Let_def by (intro conjI addEvent_ok [OF assms]) auto
next
  assume v: "valid_fd fd m"
  show "let hit = (rt = 0 \<and> armed_at fd event m); m' = (if hit then disarm fd event m else m)
       in delEvent rt fd event m = Inr (m', hit) \<and> iom_inv m'"
    unfolding Let_def by (intro conjI delEvent_ok [OF assms(1,3) v])
  show "let hit = (rt = 0 \<and> armed_at fd event m); m' = (if hit then fire fd event m else m)
       in cancelEvent rt fd event m = Inr (m', hit) \<and> iom_inv m'"
    unfolding Let_def by (intro conjI cancelEvent_ok [OF assms(1,3) v])
  show "let hit = (rt = 0 \<and> (armed_at fd EV_READ m \<or> armed_at fd EV_WRITE m));
           m' = (if hit then fire_all fd m else m)
       in cancelAll rt fd m = Inr (m', hit) \<and> iom_inv m'"
    unfolding Let_def using cancelAll_ok [OF assms(1) v] assms(1) by simp
qed

definition demo_sched :: "nat schedular" where
  "demo_sched = \<lparr> m_fibers = [], m_rootFiber = nullptr, m_threads = [5], m_threadIds = [5], m_threadCount = 1,
     m_activeThreadCount = 0, m_idleThreadCount = 1, m_stopping = False, m_autoStop = False, m_rootThread = - 1 \<rparr>"

definition demo_iom :: "nat iomanager" where
  "demo_iom = contextResize 32 \<lparr> io_this = 1, io_scheds = [1 \<mapsto> demo_sched], m_fdContexts = [], m_pendingEventCount = 0 \<rparr>"

lemma demo_iom_inv: "iom_inv demo_iom"
  by (simp add: demo_iom_def contextResize_def iom_inv_def new_FdContext_ok comp_def)

theorem iom_operations_witness:
  "\<exists>m m'. addEvent 0 1 nullptr INIT 7 EV_READ (Some 42) demo_iom = Inr (m, 0) \<and> iom_inv m \<and>
     cancelEvent 0 7 EV_READ m = Inr (m', True) \<and> iom_inv m' \<and> m' = fire 7 EV_READ m"
proof -
  define e :: "nat event_context" where "e = \<lparr> ec_schedular = 1, ec_fiber = nullptr, ec_cb = Some 42 \<rparr>"
  define m where "m = arm 7 EV_READ e demo_iom"
  have len: "int (length (m_fdContexts demo_iom)) > 7"
    by (simp add: demo_iom_def contextResize_def)
  then have g: "grow 7 demo_iom = demo_iom" by (simp add: grow_def)
  have na: "\<not> armed_at 7 EV_READ demo_iom"
    by (simp add: demo_iom_def contextResize_def armed_at_def armed_def new_FdContext_def)
  have s: "1 \<in> dom (io_scheds demo_iom)" by (simp add: demo_iom_def contextResize_def)
  have add: "addEvent 0 1 nullptr INIT 7 EV_READ (Some 42) demo_iom = Inr (m, 0) \<and> iom_inv m"
    using iom_operations [OF demo_iom_inv, of 7 EV_READ 1 "Some 42" nullptr INIT 0] len g na s
    by (simp add: m_def e_def Let_def)
  have v: "valid_fd 7 m" using len by (simp add: m_def arm_def set_fd_ctx_def valid_fd_def Let_def)
  have a: "armed_at 7 EV_READ m" using len
    by (simp add: m_def arm_def set_fd_ctx_def armed_at_def armed_def setContext_def Let_def
        demo_iom_def contextResize_def new_FdContext_def)
  have "cancelEvent 0 7 EV_READ m = Inr (fire 7 EV_READ m, True) \<and> iom_inv (fire 7 EV_READ m)"
    using iom_operations [of m 7 EV_READ _ _ _ _ 0] add v a by (simp add: Let_def)
  with add show ?thesis by blast
qed

text \<open>
  A descriptor's misuse: adding an event that is already set fails the assertion of addEvent,
  a negative descriptor indexes the table out of range in all four operations, and an event armed
  on a thread without a scheduler makes its trigger dereference a null pointer.
\<close>

theorem iom_misuse:
  assumes "iom_inv m" "event \<in> {EV_READ, EV_WRITE}"
  shows "(valid_fd fd m \<and> armed_at fd event m \<longrightarrow>
      (\<exists>e. addEvent rt sched cur state fd event cb m = Inl (Assertion e))) \<and>
    (fd < 0 \<longrightarrow> (\<exists>e. addEvent rt sched cur state fd event cb m = Inl (Undefined e) \<and>
      delEvent rt fd event m = Inl (Undefined e) \<and> cancelEvent rt fd event m = Inl (Undefined e) \<and>
      cancelAll rt fd m = Inl (Undefined e))) \<and>
    (valid_fd fd m \<and> \<not> armed_at fd event m \<and> io_scheds m nullptr = None \<longrightarrow>
      (\<exists>m' e. addEvent 0 nullptr cur EXEC fd event (Some f) m = Inr (m', 0) \<and>
         cancelEvent 0 fd event m' = Inl (Undefined e)))"
proof (intro conjI impI)
  assume "valid_fd fd m \<and> armed_at fd event m"
  then have "int (length (m_fdContexts m)) > fd" "fd_ctx fd m = Inr (m_fdContexts m ! nat fd)"
    "fc_events (m_fdContexts m ! nat fd) AND event \<noteq> 0"
    by (auto simp: valid_fd_def fd_ctx_valid armed_at_def armed_def)
  then show "\<exists>e. addEvent rt sched cur state fd event cb m = Inl (Assertion e)"
    by (simp add: addEvent_def)
next
  assume "fd < 0"
  then show "\<exists>e. addEvent rt sched cur state fd event cb m = Inl (Undefined e) \<and>
      delEvent rt fd event m = Inl (Undefined e) \<and> cancelEvent rt fd event m = Inl (Undefined e) \<and>
      cancelAll rt fd m = Inl (Undefined e)"
    by (simp add: addEvent_def delEvent_def cancelEvent_def cancelAll_def fd_ctx_def)
next
  assume *: "valid_fd fd m \<and> \<not> armed_at fd event m \<and> io_scheds m nullptr = None"
  let ?c = "m_fdContexts m ! nat fd"
  let ?c' = "setContext event \<lparr> ec_schedular = nullptr, ec_fiber = nullptr, ec_cb = Some f \<rparr>
    (?c\<lparr>fc_events := fc_events ?c OR event\<rparr>)"
  have c: "valid_events (fc_events ?c)" "nat fd < length (m_fdContexts m)"
    using assms(1) * by (auto simp: iom_inv_def valid_fd_def ctx_ok_def)
  have len: "int (length (m_fdContexts m)) > fd" using * by (auto simp: valid_fd_def)
  have sl: "slot event ?c = empty_context" using slot_empty assms * by blast
  have ev: "(fc_events ?c OR event) AND event \<noteq> 0"
    using assms(2) event_bits(9,10) [OF c(1)] by auto
  have "addEvent 0 nullptr cur EXEC fd event (Some f) m =
      Inr (set_fd_ctx fd ?c' (m\<lparr>m_pendingEventCount := m_pendingEventCount m + 1\<rparr>), 0)"
    using * len by (simp add: addEvent_def fd_ctx_valid getContext_slot [OF assms(2)] sl empty_context_def
        armed_at_def armed_def)
  moreover have "\<exists>e. triggerEvent event (?c', io_scheds m) = Inl (Undefined e)"
    using assms(2) ev * by (auto simp: triggerEvent_def setContext_def getContext_def FT_cb_swap_def schedule_on_def)
  then have "\<exists>e. cancelEvent 0 fd event
      (set_fd_ctx fd ?c' (m\<lparr>m_pendingEventCount := m_pendingEventCount m + 1\<rparr>)) = Inl (Undefined e)"
    using * len c(2) ev assms(2)
    by (auto simp: cancelEvent_def fd_ctx_def set_fd_ctx_def valid_fd_def setContext_def)
  ultimately show "\<exists>m' e. addEvent 0 nullptr cur EXEC fd event (Some f) m = Inr (m', 0) \<and>
      cancelEvent 0 fd event m' = Inl (Undefined e)" by blast
qed

theorem iom_misuse_witness:
  "(\<exists>e. delEvent 0 (- 1) EV_READ demo_iom = Inl (Undefined e)) \<and>
   (\<exists>m' e. addEvent 0 nullptr 0 EXEC 7 EV_READ (Some 42) demo_iom = Inr (m', 0) \<and>
      cancelEvent 0 7 EV_READ m' = Inl (Undefined e))"
proof -
  have "valid_fd 7 demo_iom \<and> \<not> armed_at 7 EV_READ demo_iom \<and> io_scheds demo_iom nullptr = None"
    by (simp add: demo_iom_def contextResize_def armed_at_def armed_def new_FdContext_def valid_fd_def)
  then show ?thesis
    using iom_misuse [OF demo_iom_inv, of EV_READ 7 0 _ 0 _ _ 42]
      iom_misuse [OF demo_iom_inv, of EV_READ "- 1" 0 nullptr nullptr INIT None 42]
    by auto
qed

subsection \<open>The idle loop\<close>

definition fire_real :: "u32 \<Rightarrow> int \<Rightarrow> 'cb iomanager \<Rightarrow> 'cb iomanager" where
  "fire_real real fd m =
     (let m1 = (if real AND EV_READ \<noteq> 0 then fire fd EV_READ m else m)
      in if real AND EV_WRITE \<noteq> 0 then fire fd EV_WRITE m1 else m1)"

lemma real_events_valid: "valid_events (real_events events c)"
  by (simp add: real_events_def valid_events_def Let_def)

lemma valid_events_and_zero:
  "valid_events e \<Longrightarrow> valid_events r \<Longrightarrow>
    e AND r = 0 \<longleftrightarrow> \<not> (r AND 1 \<noteq> 0 \<and> e AND 1 \<noteq> 0) \<and> \<not> (r AND 4 \<noteq> 0 \<and> e AND 4 \<noteq> 0)"
  unfolding valid_events_def by (elim insertE; simp)

lemma trigger_if_unarmed:
  "valid_fd fd m \<Longrightarrow> \<not> armed_at fd event m \<Longrightarrow> \<exists>e. trigger_if True fd event m = Inl (Assertion e)"
  by (simp add: trigger_if_def fd_ctx_valid triggerEvent_def armed_at_def armed_def)

lemma real_events_error:
  "valid_events (fc_events c) \<Longrightarrow> events \<in> {EPOLLERR, EPOLLHUP, EPOLLERR OR EPOLLHUP} \<Longrightarrow> real_events events c = fc_events c"
  unfolding valid_events_def by (elim insertE; simp add: real_events_def)

lemma idle_event_eq:
  assumes "iom_inv m" "i < length (m_fdContexts m)"
    and "real = real_events events (m_fdContexts m ! i)"
  shows "idle_event rt2 (events, Fd_ptr i) m =
    (if fc_events (m_fdContexts m ! i) AND real = 0 \<or> rt2 \<noteq> 0 then Inr m
     else rbind (trigger_if (real AND EV_READ \<noteq> 0) (int i) EV_READ m) (\<lambda>m.
                trigger_if (real AND EV_WRITE \<noteq> 0) (int i) EV_WRITE m))"
  using assms fd_ctx_valid [of "int i" m] by (simp add: idle_event_def valid_fd_def Let_def)

text \<open>
  C16. When epoll reports a descriptor, idle triggers exactly the events that were reported and
  are registered, handing each waiting callback or fiber to its scheduler, and keeps the table
  consistent; an error or hang-up alone triggers everything that is registered. When epoll_ctl
  refuses the change nothing is triggered. But a report of an event that is no longer registered
  (it was removed after epoll_wait returned) while the other one is fails the assertion of
  triggerEvent.
\<close>

theorem idle_event_fires:
  assumes "iom_inv m" "i < length (m_fdContexts m)"
  shows "let c = m_fdContexts m ! i; real = real_events events c in
    ((real AND EV_READ \<noteq> 0 \<longrightarrow> armed EV_READ c) \<and> (real AND EV_WRITE \<noteq> 0 \<longrightarrow> armed EV_WRITE c) \<longrightarrow>
      (let m' = (if rt2 = 0 then fire_real real (int i) m else m)
       in idle_event rt2 (events, Fd_ptr i) m = Inr m' \<and> iom_inv m')) \<and>
    (events \<in> {EPOLLERR, EPOLLHUP, EPOLLERR OR EPOLLHUP} \<longrightarrow> real = fc_events c) \<and>
    (real = EV_READ OR EV_WRITE \<and> fc_events c \<in> {EV_READ, EV_WRITE} \<and> rt2 = 0 \<longrightarrow>
      (\<exists>e. idle_event rt2 (events, Fd_ptr i) m = Inl (Assertion e)))"
proof -
  define c real where "c = m_fdContexts m ! i" and "real = real_events events c"
  have v: "valid_fd (int i) m" using assms(2) by (simp add: valid_fd_def)
  have ev: "valid_events (fc_events c)" "valid_events real"
    using assms real_events_valid by (auto simp: iom_inv_def ctx_ok_def c_def real_def)
  have at: "armed_at (int i) e m = armed e c" for e by (simp add: armed_at_def c_def)
  note eq = idle_event_eq [OF assms real_def [unfolded c_def], of rt2, folded c_def]
  let ?m1 = "if real AND EV_READ \<noteq> 0 then fire (int i) EV_READ m else m"
  have inv1: "iom_inv ?m1" and v1: "valid_fd (int i) ?m1"
    if "real AND EV_READ \<noteq> 0 \<longrightarrow> armed EV_READ c"
    using that fire_inv [OF assms(1) v, of EV_READ] assms(1) v by (auto simp: at)
  have w: "armed_at (int i) EV_WRITE ?m1 = armed EV_WRITE c"
    using armed_fire(1) [OF assms(1) v] by (simp add: at)
  have t1: "trigger_if (real AND EV_READ \<noteq> 0) (int i) EV_READ m = Inr ?m1"
    if "real AND EV_READ \<noteq> 0 \<longrightarrow> armed EV_READ c"
    using that by (intro trigger_if_fire [OF assms(1) v]) (simp_all add: at)
  have "let m' = (if rt2 = 0 then fire_real real (int i) m else m)
       in idle_event rt2 (events, Fd_ptr i) m = Inr m' \<and> iom_inv m'"
    if a: "(real AND EV_READ \<noteq> 0 \<longrightarrow> armed EV_READ c) \<and> (real AND EV_WRITE \<noteq> 0 \<longrightarrow> armed EV_WRITE c)"
  proof -
    have "trigger_if (real AND EV_WRITE \<noteq> 0) (int i) EV_WRITE ?m1 = Inr (fire_real real (int i) m)"
      using a trigger_if_fire [OF inv1 v1, of EV_WRITE "real AND EV_WRITE \<noteq> 0"]
      by (simp add: w fire_real_def Let_def)
    moreover have "iom_inv (fire_real real (int i) m)"
      using a fire_inv [OF inv1 v1, of EV_WRITE] inv1 by (simp add: w fire_real_def Let_def)
    moreover have "fire_real real (int i) m = m" if "fc_events c AND real = 0"
      using that a valid_events_and_zero [OF ev] by (auto simp: fire_real_def armed_def)
    ultimately show ?thesis using assms(1) a by (simp add: eq t1 Let_def)
  qed
  moreover have "real = fc_events c" if "events \<in> {EPOLLERR, EPOLLHUP, EPOLLERR OR EPOLLHUP}"
    using real_events_error [OF ev(1) that] by (simp add: real_def)
  moreover have "\<exists>e. idle_event rt2 (events, Fd_ptr i) m = Inl (Assertion e)"
    if r: "real = EV_READ OR EV_WRITE \<and> fc_events c \<in> {EV_READ, EV_WRITE} \<and> rt2 = 0"
  proof (cases "fc_events c = EV_READ")
    case True
    then have "\<not> armed_at (int i) EV_WRITE ?m1" "armed EV_READ c" by (simp_all only: w) (simp_all add: armed_def)
    then show ?thesis unfolding eq using r True trigger_if_unarmed [OF v1, of EV_WRITE] t1 by auto
  next
    case False
    then have "\<not> armed_at (int i) EV_READ m" "fc_events c = EV_WRITE" using r by (auto simp: at armed_def)
    then show ?thesis unfolding eq using r trigger_if_unarmed [OF v, of EV_READ] by auto
  qed
  ultimately show ?thesis unfolding Let_def c_def [symmetric] real_def [symmetric] by blast
qed

theorem idle_event_fires_witness:
  "\<exists>m. addEvent 0 1 nullptr INIT 7 EV_READ (Some 42) demo_iom = Inr (m, 0) \<and>
     idle_event 0 (EPOLLHUP, Fd_ptr 7) m = Inr (fire 7 EV_READ m) \<and> iom_inv (fire 7 EV_READ m)"
proof -
  define e :: "nat event_context" where "e = \<lparr> ec_schedular = 1, ec_fiber = nullptr, ec_cb = Some 42 \<rparr>"
  define m where "m = arm 7 EV_READ e demo_iom"
  have len: "7 < length (m_fdContexts demo_iom)" by (simp add: demo_iom_def contextResize_def)
  then have g: "grow 7 demo_iom = demo_iom" by (simp add: grow_def)
  have na: "\<not> armed_at 7 EV_READ demo_iom" and s: "1 \<in> dom (io_scheds demo_iom)"
    by (simp_all add: demo_iom_def contextResize_def armed_at_def armed_def new_FdContext_def)
  have add: "addEvent 0 1 nullptr INIT 7 EV_READ (Some 42) demo_iom = Inr (m, 0)" "iom_inv m"
    using addEvent_ok [OF demo_iom_inv, where fd = 7 and event = EV_READ and sched = 1 and cb = "Some 42"
        and cur = nullptr and state = INIT and rt = 0] len g na s
    by (simp_all add: m_def e_def)
  have ev: "fc_events (m_fdContexts m ! 7) = 1" and l7: "7 < length (m_fdContexts m)" using len
    by (simp_all add: m_def arm_def set_fd_ctx_def setContext_def Let_def demo_iom_def contextResize_def
        new_FdContext_def)
  have real: "real_events EPOLLHUP (m_fdContexts m ! 7) = 1" by (simp add: real_events_def ev)
  show ?thesis
    using idle_event_fires [OF add(2) l7, of EPOLLHUP 0] add(1)
    by (simp add: Let_def real armed_def ev fire_real_def)
qed

definition wrap32 :: "nat \<Rightarrow> int" where
  "wrap32 n = (int n + 2 ^ 31) mod 2 ^ 32 - 2 ^ 31"

lemma to_int32_wrap: "to_int32 t = wrap32 (unat t)"
proof -
  have "to_int32 t = signed_take_bit 31 (int (unat t))"
    by (simp add: to_int32_def signed_ucast_eq)
  also have "\<dots> = take_bit (Suc 31) (int (unat t) + 2 ^ 31) - 2 ^ 31"
    by (rule signed_take_bit_eq_take_bit_shift)
  finally show ?thesis by (simp only: take_bit_eq_mod wrap32_def) simp
qed

lemma wrap32_small: "n < 2 ^ 31 \<Longrightarrow> wrap32 n = int n"
  by (simp add: wrap32_def)

lemma wrap32_negative: "2 ^ 31 \<le> n mod 2 ^ 32 \<Longrightarrow> wrap32 n < 0"
proof -
  assume r: "2 ^ 31 \<le> n mod 2 ^ 32"
  define q r where "q = n div 2 ^ 32" and "r = n mod 2 ^ 32"
  have "n = q * 2 ^ 32 + r" unfolding q_def r_def by (rule div_mult_mod_eq [symmetric])
  then have n: "int n + 2 ^ 31 = (int r - 2 ^ 31) + 2 ^ 32 * (int q + 1)" by simp
  have "r < 2 ^ 32" "2 ^ 31 \<le> r" using r by (simp_all add: r_def)
  then have "(int r - 2 ^ 31) mod 2 ^ 32 = int r - 2 ^ 31" by simp
  moreover have "(int n + 2 ^ 31) mod 2 ^ 32 = (int r - 2 ^ 31) mod 2 ^ 32"
    unfolding n by (rule mod_mult_self2)
  ultimately have "(int n + 2 ^ 31) mod 2 ^ 32 = int r - 2 ^ 31" by simp
  with \<open>r < 2 ^ 32\<close> show "wrap32 n < 0" by (simp add: wrap32_def)
qed

text \<open>
  C18. What idle passes to epoll_wait: the time to the next timer, at most five seconds, and five
  seconds when there is no timer. The clamp compares the low 32 bits of the time as an int, so
  a timer due in 2^31 ms or more, taken modulo 2^32, gives a negative timeout, which waits
  without limit.
\<close>

theorem epoll_wait_timeout_bounds:
  "(unat t < 2 ^ 31 \<longrightarrow> epoll_wait_timeout t = min (int (unat t)) 5000) \<and>
   epoll_wait_timeout (- 1) = 5000 \<and>
   (t \<noteq> - 1 \<and> 2 ^ 31 \<le> unat t mod 2 ^ 32 \<longrightarrow> epoll_wait_timeout t < 0)"
proof -
  have M: "to_int32 MAX_TIMEOUT = 5000" by (simp add: to_int32_wrap wrap32_small MAX_TIMEOUT_def)
  have "t \<noteq> - 1" if "unat t < 2 ^ 31" using that by (auto simp: unsigned_minus_1_eq_mask mask_eq_exp_minus_1)
  then show ?thesis
    using M wrap32_small [of "unat t"] wrap32_negative [of "unat t"]
    by (auto simp: epoll_wait_timeout_def idle_timeout_def min_def to_int32_wrap)
qed

theorem epoll_wait_timeout_bounds_witness:
  "epoll_wait_timeout 300 = 300 \<and> epoll_wait_timeout 86400000 = 5000 \<and> epoll_wait_timeout 0x80000000 < 0"
  using epoll_wait_timeout_bounds [of 300] epoll_wait_timeout_bounds [of 86400000]
    epoll_wait_timeout_bounds [of "0x80000000"] by simp

lemma io_stopping_empty:
  assumes "iom_inv m" "2 * length (m_fdContexts m) < 2 ^ 64" "0 < now" "io_stopping tm now m = (tm', timeout, True)"
  shows "m_timers tm = [] \<and> (\<forall>c \<in> set (m_fdContexts m). fc_events c = 0) \<and>
    (\<exists>s. io_scheds m (io_this m) = Some s \<and> stopping s)"
proof -
  have st: "snd (getNextTimer tm now) = - 1" "m_pendingEventCount m = 0"
    "\<exists>s. io_scheds m (io_this m) = Some s \<and> stopping s"
    using assms(4) by (auto simp: io_stopping_def Let_def split: prod.splits option.splits)
  have "m_timers tm = []"
  proof (rule ccontr)
    assume "m_timers tm \<noteq> []"
    then obtain p ps where p: "m_timers tm = p # ps" by (cases "m_timers tm") auto
    let ?n = "m_next (tm_heap tm p)"
    have "?n - now = - 1" "now < ?n" using st(1) p by (auto simp: getNextTimer_def not_le split: if_splits)
    then have "?n = now - 1" by (simp add: diff_eq_eq)
    with \<open>now < ?n\<close> assms(3) show False by (simp add: word_less_nat_alt unat_minus_one)
  qed
  moreover have "sum_list (map armed_count cs) \<le> 2 * length cs" for cs :: "'a fd_context list"
    by (induction cs) (auto simp: armed_count_def)
  from this [of "m_fdContexts m"] have "unat (of_nat (sum_list (map armed_count (m_fdContexts m))) :: u64) = sum_list (map armed_count (m_fdContexts m))"
    using assms(2) by (intro unat_of_nat_small) simp
  then have "sum_list (map armed_count (m_fdContexts m)) = 0"
    using assms(1) st(2) by (simp add: iom_inv_def)
  then have "\<forall>c \<in> set (m_fdContexts m). armed_count c = 0" by (simp add: sum_list_eq_0_iff)
  then have "fc_events c = 0" if "c \<in> set (m_fdContexts m)" for c
  proof -
    have "armed_count c = 0" "valid_events (fc_events c)"
      using that assms(1) \<open>\<forall>c \<in> set (m_fdContexts m). armed_count c = 0\<close> by (auto simp: iom_inv_def ctx_ok_def)
    then show ?thesis
      using valid_events_zero [of "fc_events c"] by (simp add: armed_count_def armed_def split: if_splits)
  qed
  ultimately show ?thesis using st(3) by blast
qed

text \<open>
  stopping() of the I/O manager is true only when no timer is left, no event is registered on
  any descriptor, and its scheduler may stop.
\<close>

theorem io_stopping_sound:
  assumes "iom_inv m" "2 * length (m_fdContexts m) < 2 ^ 64" "0 < now" "io_stopping tm now m = (tm', timeout, True)"
  shows "m_timers tm = [] \<and> (\<forall>c \<in> set (m_fdContexts m). fc_events c = 0) \<and>
    (\<exists>s. io_scheds m (io_this m) = Some s \<and> stopping s)"
  by (rule io_stopping_empty [OF assms])

theorem io_stopping_sound_witness:
  "let tm = \<lparr> tm_heap = (\<lambda>_. Timer_ctor_next 0 :: nat timer), m_timers = [], m_tickled = False, m_previouseTime = 0 \<rparr>;
       m = demo_iom\<lparr>io_scheds := [1 \<mapsto> demo_sched\<lparr>m_stopping := True, m_autoStop := True\<rparr>]\<rparr>
   in snd (snd (io_stopping tm 1 m)) \<and> (\<forall>c \<in> set (m_fdContexts m). fc_events c = 0)"
proof -
  let ?tm = "\<lparr> tm_heap = (\<lambda>_. Timer_ctor_next 0 :: nat timer), m_timers = [], m_tickled = False, m_previouseTime = 0 \<rparr>"
  let ?m = "demo_iom\<lparr>io_scheds := [1 \<mapsto> demo_sched\<lparr>m_stopping := True, m_autoStop := True\<rparr>]\<rparr>"
  have inv: "iom_inv ?m"
    by (simp add: demo_iom_def contextResize_def iom_inv_def new_FdContext_ok comp_def)
  have st: "io_stopping ?tm 1 ?m = (?tm, - 1, True)"
    by (simp add: io_stopping_def getNextTimer_def demo_iom_def contextResize_def stopping_def demo_sched_def)
  have len: "2 * length (m_fdContexts ?m) < 2 ^ 64" by (simp add: demo_iom_def contextResize_def)
  show ?thesis using io_stopping_sound [OF inv len _ st] st by (simp add: Let_def)
qed

end
