(* ===== verification/Fd_Manager.thy ===== *)
theory Fd_Manager
  imports Prelude
begin

section \<open>Descriptor contexts\<close>

text \<open>
  \<open>fd_manager.cpp\<close>: what the library knows about a file descriptor, and the table of these contexts.
  A context is a shared object: the table and its users hold pointers to it. The kernel's part of a
  descriptor is its mode and its status flags.
\<close>

unbundle bit_operations_syntax

subsection \<open>The kernel\<close>

text \<open>\<open>None\<close>: the number is not an open descriptor, so that \<open>fstat\<close> and \<open>fcntl\<close> return -1.\<close>

record kernel =
  k_mode :: "int \<rightharpoonup> u32"
  k_flags :: "int \<rightharpoonup> u32"

definition S_IFMT :: u32 where "S_IFMT = 0xF000"
definition S_IFSOCK :: u32 where "S_IFSOCK = 0xC000"
definition O_NONBLOCK :: u32 where "O_NONBLOCK = 0x800"

definition S_ISSOCK :: "u32 \<Rightarrow> bool" where
  "S_ISSOCK m \<longleftrightarrow> m AND S_IFMT = S_IFSOCK"

text \<open>\<open>fcntl(fd, F_GETFL)\<close> is -1 on an error, all ones as an \<open>int\<close>.\<close>

definition F_GETFL :: "kernel \<Rightarrow> int \<Rightarrow> u32" where
  "F_GETFL k fd = (case k_flags k fd of None \<Rightarrow> - 1 | Some f \<Rightarrow> f)"

definition F_SETFL :: "int \<Rightarrow> u32 \<Rightarrow> kernel \<Rightarrow> kernel" where
  "F_SETFL fd f k = (if k_flags k fd = None then k else k\<lparr>k_flags := (k_flags k)(fd \<mapsto> f)\<rparr>)"

subsection \<open>A context\<close>

record fdctx =
  fx_isInit :: bool
  fx_isSocket :: bool
  fx_sysNonblock :: bool
  fx_userNonblock :: bool
  fx_isClosed :: bool
  fx_fd :: int
  fx_recvTimeout :: u64
  fx_sendTimeout :: u64

definition FdCtx_init :: "fdctx \<Rightarrow> kernel \<Rightarrow> fdctx \<times> kernel \<times> bool" where
  "FdCtx_init c k =
     (if fx_isInit c then (c, k, True)
      else
        let c = c\<lparr>fx_recvTimeout := - 1, fx_sendTimeout := - 1\<rparr>;
            c = (case k_mode k (fx_fd c) of
                   None \<Rightarrow> c\<lparr>fx_isInit := False, fx_isSocket := False\<rparr>
                 | Some m \<Rightarrow> c\<lparr>fx_isInit := True, fx_isSocket := S_ISSOCK m\<rparr>);
            (c, k) =
              (if fx_isSocket c then
                 let flags = F_GETFL k (fx_fd c);
                     k = (if flags AND O_NONBLOCK = 0 then F_SETFL (fx_fd c) (flags OR O_NONBLOCK) k else k)
                 in (c\<lparr>fx_sysNonblock := True\<rparr>, k)
               else (c\<lparr>fx_sysNonblock := False\<rparr>, k));
            c = c\<lparr>fx_userNonblock := False, fx_isClosed := False\<rparr>
        in (c, k, fx_isInit c))"

definition FdCtx_ctor :: "int \<Rightarrow> kernel \<Rightarrow> fdctx \<times> kernel" where
  "FdCtx_ctor fd k =
     (let (c, k, _) = FdCtx_init
        \<lparr> fx_isInit = False, fx_isSocket = False, fx_sysNonblock = False, fx_userNonblock = False,
          fx_isClosed = False, fx_fd = fd, fx_recvTimeout = - 1, fx_sendTimeout = - 1 \<rparr> k
      in (c, k))"

text \<open>The socket options that select a timeout.\<close>

definition SO_RCVTIMEO :: int where "SO_RCVTIMEO = 20"
definition SO_SNDTIMEO :: int where "SO_SNDTIMEO = 21"

definition FdCtx_setTimeout :: "int \<Rightarrow> u64 \<Rightarrow> fdctx \<Rightarrow> fdctx" where
  "FdCtx_setTimeout type v c = (if type = SO_RCVTIMEO then c\<lparr>fx_recvTimeout := v\<rparr> else c\<lparr>fx_sendTimeout := v\<rparr>)"

definition FdCtx_getTimeout :: "int \<Rightarrow> fdctx \<Rightarrow> u64" where
  "FdCtx_getTimeout type c = (if type = SO_RCVTIMEO then fx_recvTimeout c else fx_sendTimeout c)"

definition setUserNonblock :: "bool \<Rightarrow> fdctx \<Rightarrow> fdctx" where
  "setUserNonblock v c = c\<lparr>fx_userNonblock := v\<rparr>"

definition setSysNonblock :: "bool \<Rightarrow> fdctx \<Rightarrow> fdctx" where
  "setSysNonblock v c = c\<lparr>fx_sysNonblock := v\<rparr>"

subsection \<open>The table\<close>

text \<open>\<open>fm_next\<close> is the address of the next context \<open>operator new\<close> makes.\<close>

record fd_manager =
  fm_datas :: "ptr list"
  fm_heap :: "ptr \<rightharpoonup> fdctx"
  fm_next :: ptr
  fm_kernel :: kernel

definition FdManager_ctor :: "kernel \<Rightarrow> fd_manager" where
  "FdManager_ctor k = \<lparr> fm_datas = replicate 64 nullptr, fm_heap = Map.empty, fm_next = 1, fm_kernel = k \<rparr>"

text \<open>\<open>m_datas[fd]\<close>: a negative number is a huge index.\<close>

definition fm_slot :: "fd_manager \<Rightarrow> int \<Rightarrow> ptr res" where
  "fm_slot m fd =
     (if fd < 0 \<or> length (fm_datas m) \<le> nat fd then Inl (Undefined ''m_datas index'')
      else Inr (fm_datas m ! nat fd))"

text \<open>
  \<open>get\<close> in its two critical sections. Under the read lock: \<open>Some p\<close> is the result, \<open>None\<close> goes on to
  create a context. Under the write lock the table is not looked at again.
\<close>

definition FdManager_get_read :: "int \<Rightarrow> bool \<Rightarrow> fd_manager \<Rightarrow> ptr option res" where
  "FdManager_get_read fd auto_create m =
     (if fd = - 1 then Inr (Some nullptr)
      else if int (length (fm_datas m)) \<le> fd then
        if \<not> auto_create then Inr (Some nullptr) else Inr None
      else rbind (fm_slot m fd) (\<lambda>p. if p \<noteq> nullptr \<or> \<not> auto_create then Inr (Some p) else Inr None))"

definition FdManager_get_write :: "int \<Rightarrow> fd_manager \<Rightarrow> fd_manager \<times> ptr" where
  "FdManager_get_write fd m =
     (let (ctx, k) = FdCtx_ctor fd (fm_kernel m);
          p = fm_next m;
          datas = (if fd \<ge> int (length (fm_datas m))
                   then fm_datas m @ replicate (nat (fd * 3 div 2) - length (fm_datas m)) nullptr
                   else fm_datas m)
      in (m\<lparr>fm_datas := datas[nat fd := p], fm_heap := (fm_heap m)(p \<mapsto> ctx), fm_next := Suc p, fm_kernel := k\<rparr>, p))"

definition FdManager_get :: "int \<Rightarrow> bool \<Rightarrow> fd_manager \<Rightarrow> (fd_manager \<times> ptr) res" where
  "FdManager_get fd auto_create m =
     rbind (FdManager_get_read fd auto_create m) (\<lambda>r.
       case r of Some p \<Rightarrow> Inr (m, p) | None \<Rightarrow> Inr (FdManager_get_write fd m))"

definition FdManager_del :: "int \<Rightarrow> fd_manager \<Rightarrow> fd_manager res" where
  "FdManager_del fd m =
     (if int (length (fm_datas m)) \<le> fd then Inr m
      else rbind (fm_slot m fd) (\<lambda>_. Inr (m\<lparr>fm_datas := (fm_datas m)[nat fd := nullptr]\<rparr>)))"

text \<open>A context through its pointer.\<close>

definition fd_ctx_of :: "fd_manager \<Rightarrow> ptr \<Rightarrow> fdctx option" where
  "fd_ctx_of m p = (if p = nullptr then None else fm_heap m p)"

definition upd_fdctx :: "ptr \<Rightarrow> (fdctx \<Rightarrow> fdctx) \<Rightarrow> fd_manager \<Rightarrow> fd_manager" where
  "upd_fdctx p f m =
     (case fm_heap m p of None \<Rightarrow> m | Some c \<Rightarrow> m\<lparr>fm_heap := (fm_heap m)(p \<mapsto> f c)\<rparr>)"

subsection \<open>The contexts the table holds\<close>

text \<open>
  A context describes its descriptor: it is filed under it, open as far as the library knows, and
  non-blocking when it is a socket.
\<close>

definition fm_inv :: "fd_manager \<Rightarrow> bool" where
  "fm_inv m \<longleftrightarrow>
     64 \<le> length (fm_datas m) \<and> 0 < fm_next m \<and>
     (\<forall>fd < length (fm_datas m). fm_datas m ! fd \<noteq> nullptr \<longrightarrow>
        (\<exists>c. fm_heap m (fm_datas m ! fd) = Some c \<and> fx_fd c = int fd)) \<and>
     (\<forall>p c. fm_heap m p = Some c \<longrightarrow> 0 < p \<and> p < fm_next m \<and> \<not> fx_isClosed c \<and> fx_sysNonblock c = fx_isSocket c)"

lemma FdCtx_ctor_fields:
  assumes "FdCtx_ctor fd k = (c, k')"
  shows "fx_fd c = fd" "\<not> fx_isClosed c" "\<not> fx_userNonblock c" "fx_sysNonblock c = fx_isSocket c"
    "fx_recvTimeout c = - 1" "fx_sendTimeout c = - 1"
    "fx_isSocket c = (case k_mode k fd of None \<Rightarrow> False | Some m \<Rightarrow> S_ISSOCK m)"
    "fx_isSocket c \<Longrightarrow> F_GETFL k' fd AND O_NONBLOCK \<noteq> 0"
    "k_mode k' = k_mode k" "g \<noteq> fd \<Longrightarrow> k_flags k' g = k_flags k g"
proof -
  have nb: "(f OR O_NONBLOCK) AND O_NONBLOCK \<noteq> 0" for f :: u32
  proof -
    have "(f OR O_NONBLOCK) AND O_NONBLOCK = O_NONBLOCK"
      by (rule bit_eqI) (auto simp: bit_simps)
    then show ?thesis by (simp add: O_NONBLOCK_def)
  qed
  show "fx_fd c = fd" "\<not> fx_isClosed c" "\<not> fx_userNonblock c" "fx_sysNonblock c = fx_isSocket c"
    "fx_recvTimeout c = - 1" "fx_sendTimeout c = - 1"
    "fx_isSocket c = (case k_mode k fd of None \<Rightarrow> False | Some m \<Rightarrow> S_ISSOCK m)"
    "k_mode k' = k_mode k" "g \<noteq> fd \<Longrightarrow> k_flags k' g = k_flags k g"
    using assms
    by (auto simp: FdCtx_ctor_def FdCtx_init_def Let_def F_SETFL_def split: option.splits if_splits)
  show "F_GETFL k' fd AND O_NONBLOCK \<noteq> 0" if "fx_isSocket c"
  proof (cases "F_GETFL k fd AND O_NONBLOCK = 0")
    case True
    then obtain f where f: "k_flags k fd = Some f"
      by (auto simp: F_GETFL_def O_NONBLOCK_def split: option.splits)
    have "k' = F_SETFL fd (F_GETFL k fd OR O_NONBLOCK) k"
      using assms that True
      by (auto simp: FdCtx_ctor_def FdCtx_init_def Let_def split: option.splits if_splits)
    then show ?thesis using f nb by (simp add: F_SETFL_def F_GETFL_def)
  next
    case False
    then have "k' = k"
      using assms that
      by (auto simp: FdCtx_ctor_def FdCtx_init_def Let_def split: option.splits if_splits)
    with False show ?thesis by simp
  qed
qed

text \<open>The table after the write section.\<close>

lemma get_write_table:
  assumes "fm_inv m" "0 \<le> fd" "FdManager_get_write fd m = (m', p)"
  shows "p = fm_next m" "fm_next m' = Suc p" "length (fm_datas m) \<le> length (fm_datas m')"
    "nat fd < length (fm_datas m')"
    "i < length (fm_datas m') \<Longrightarrow> fm_datas m' ! i =
       (if i = nat fd then p else if i < length (fm_datas m) then fm_datas m ! i else nullptr)"
    "\<exists>c. FdCtx_ctor fd (fm_kernel m) = (c, fm_kernel m') \<and> fm_heap m' = (fm_heap m)(p \<mapsto> c)"
proof -
  let ?n = "length (fm_datas m)"
  let ?d = "if fd \<ge> int ?n then fm_datas m @ replicate (nat (fd * 3 div 2) - ?n) nullptr else fm_datas m"
  obtain c k where ck: "FdCtx_ctor fd (fm_kernel m) = (c, k)" by force
  have m': "m' = m\<lparr>fm_datas := ?d[nat fd := p], fm_heap := (fm_heap m)(p \<mapsto> c), fm_next := Suc p, fm_kernel := k\<rparr>"
    and p: "p = fm_next m"
    using assms(3) ck by (auto simp: FdManager_get_write_def Let_def)
  have big: "64 \<le> ?n" using assms(1) by (simp add: fm_inv_def)
  have len: "?n \<le> length ?d" "nat fd < length ?d"
    using big assms(2) by auto
  show "p = fm_next m" by (rule p)
  show "fm_next m' = Suc p" "?n \<le> length (fm_datas m')" "nat fd < length (fm_datas m')"
    using len by (simp_all add: m')
  show "fm_datas m' ! i = (if i = nat fd then p else if i < ?n then fm_datas m ! i else nullptr)"
    if "i < length (fm_datas m')"
    using that len by (auto simp: m' nth_list_update nth_append)
  show "\<exists>c. FdCtx_ctor fd (fm_kernel m) = (c, fm_kernel m') \<and> fm_heap m' = (fm_heap m)(p \<mapsto> c)"
    using ck by (simp add: m')
qed

lemma get_write_inv:
  assumes "fm_inv m" "0 \<le> fd" "FdManager_get_write fd m = (m', p)"
  shows "fm_inv m'"
proof -
  note t = get_write_table [OF assms]
  obtain c where c: "FdCtx_ctor fd (fm_kernel m) = (c, fm_kernel m')" "fm_heap m' = (fm_heap m)(p \<mapsto> c)"
    using t(6) by blast
  note cf = FdCtx_ctor_fields [OF c(1)]
  have old: "p' < p" if "fm_heap m p' = Some c'" for p' c'
    using assms(1) that t(1) by (auto simp: fm_inv_def)
  have "\<exists>c. fm_heap m' (fm_datas m' ! i) = Some c \<and> fx_fd c = int i"
    if "i < length (fm_datas m')" "fm_datas m' ! i \<noteq> nullptr" for i
  proof (cases "i = nat fd")
    case True
    then show ?thesis using t(5) [OF that(1)] c(2) cf(1) assms(2) by simp
  next
    case False
    then have "i < length (fm_datas m)" "fm_datas m' ! i = fm_datas m ! i"
      using t(5) [OF that(1)] that(2) by (auto split: if_splits)
    moreover from this have "fm_datas m ! i \<noteq> nullptr" using that(2) by simp
    ultimately obtain d where "fm_heap m (fm_datas m ! i) = Some d" "fx_fd d = int i"
      using assms(1) unfolding fm_inv_def by metis
    then show ?thesis
      using c(2) old [of "fm_datas m ! i" d] t(5) [OF that(1)] False \<open>i < length (fm_datas m)\<close> by simp
  qed
  moreover have "0 < q \<and> q < fm_next m' \<and> \<not> fx_isClosed d \<and> fx_sysNonblock d = fx_isSocket d"
    if "fm_heap m' q = Some d" for q d
    using that assms(1) c(2) cf t(1,2) by (cases "q = p") (auto simp: fm_inv_def less_Suc_eq)
  ultimately show ?thesis
    using assms(1) t(2,3) by (auto simp: fm_inv_def)
qed

lemma fm_inv_slot:
  assumes "fm_inv m" "fm_datas m ! nat fd \<noteq> nullptr" "0 \<le> fd" "nat fd < length (fm_datas m)"
  shows "\<exists>c. fd_ctx_of m (fm_datas m ! nat fd) = Some c \<and> fx_fd c = fd"
  using assms by (auto simp: fm_inv_def fd_ctx_of_def)

lemma get_create:
  assumes "fm_inv m" "0 \<le> fd" "\<not> (nat fd < length (fm_datas m) \<and> fm_datas m ! nat fd \<noteq> nullptr)"
  shows "FdManager_get fd True m = Inr (FdManager_get_write fd m)"
  using assms by (auto simp: FdManager_get_def FdManager_get_read_def fm_slot_def)

lemma get_existing:
  assumes "0 \<le> fd" "nat fd < length (fm_datas m)" "fm_datas m ! nat fd \<noteq> nullptr"
  shows "FdManager_get fd b m = Inr (m, fm_datas m ! nat fd)"
  using assms by (auto simp: FdManager_get_def FdManager_get_read_def fm_slot_def)

subsection \<open>The contract of the table\<close>

text \<open>
  What the hooked calls rely on: asking for a descriptor with \<open>auto_create\<close> gives a context that
  stays the answer, a plain look-up changes nothing, and the other descriptors keep their contexts.
\<close>

locale fd_contexts =
  fixes get :: "int \<Rightarrow> bool \<Rightarrow> 't \<Rightarrow> ('t \<times> ptr) res"
    and ctx :: "'t \<Rightarrow> ptr \<Rightarrow> fdctx option"
    and inv :: "'t \<Rightarrow> bool"
  assumes get_total: "inv t \<Longrightarrow> 0 \<le> fd \<Longrightarrow>
      \<exists>t' p c. get fd True t = Inr (t', p) \<and> inv t' \<and> ctx t' p = Some c \<and> fx_fd c = fd \<and> \<not> fx_isClosed c"
    and get_again: "inv t \<Longrightarrow> 0 \<le> fd \<Longrightarrow> get fd True t = Inr (t', p) \<Longrightarrow> get fd b t' = Inr (t', p)"
    and get_pure: "get fd False t = Inr (t', p) \<Longrightarrow> t' = t"
    and get_found: "inv t \<Longrightarrow> get fd False t = Inr (t, p) \<Longrightarrow> ctx t p \<noteq> None \<Longrightarrow> get fd True t = Inr (t, p)"
    and get_other: "inv t \<Longrightarrow> 0 \<le> fd \<Longrightarrow> g \<noteq> fd \<Longrightarrow> get fd True t = Inr (t', p) \<Longrightarrow>
      get g False t = Inr (t, q) \<Longrightarrow> get g False t' = Inr (t', q) \<and> ctx t' q = ctx t q"
begin

lemma get_creates:
  assumes "inv t" "0 \<le> fd"
  obtains t' p c where "get fd True t = Inr (t', p)" "inv t'" "ctx t' p = Some c" "fx_fd c = fd"
    "\<not> fx_isClosed c" "\<And>b. get fd b t' = Inr (t', p)"
  using get_total [OF assms] get_again [OF assms] by blast

lemma get_keeps_found:
  assumes "inv t" "0 \<le> fd" "get fd True t = Inr (t', p)" "get g False t = Inr (t, q)" "ctx t q = Some c"
  shows "get g False t' = Inr (t', q) \<and> ctx t' q = Some c"
proof (cases "g = fd")
  case True
  with get_found [OF assms(1), of fd q] assms show ?thesis by simp
next
  case False
  with get_other [OF assms(1,2) False assms(3,4)] assms(5) show ?thesis by simp
qed

end

lemma get_FalseD: "FdManager_get fd False m = Inr (m', p) \<Longrightarrow> m' = m"
  by (auto simp: FdManager_get_def FdManager_get_read_def rbind_def split: if_splits sum.splits option.splits)

lemma get_True_cases:
  assumes "fm_inv m" "0 \<le> fd" "FdManager_get fd True m = Inr (m', p)"
  obtains (old) "m' = m" "p = fm_datas m ! nat fd" "nat fd < length (fm_datas m)" "p \<noteq> nullptr"
  | (new) "FdManager_get_write fd m = (m', p)" "\<not> (nat fd < length (fm_datas m) \<and> fm_datas m ! nat fd \<noteq> nullptr)"
proof (cases "nat fd < length (fm_datas m) \<and> fm_datas m ! nat fd \<noteq> nullptr")
  case True
  then show ?thesis using get_existing [of fd m True] assms by (intro old) simp_all
next
  case False
  then show ?thesis using get_create [OF assms(1,2) False] assms(3) by (intro new) simp_all
qed

lemma get_False_slot:
  assumes "FdManager_get g False m = Inr (m, q)"
  shows "q = nullptr \<or> (0 \<le> g \<and> nat g < length (fm_datas m) \<and> q = fm_datas m ! nat g)"
  using assms
  by (auto simp: FdManager_get_def FdManager_get_read_def fm_slot_def split: if_splits)

lemma get_write_other:
  assumes "fm_inv m" "0 \<le> fd" "g \<noteq> fd" "FdManager_get_write fd m = (m', p)" "FdManager_get g False m = Inr (m, q)"
  shows "FdManager_get g False m' = Inr (m', q) \<and> fd_ctx_of m' q = fd_ctx_of m q"
proof -
  note t = get_write_table [OF assms(1,2,4)]
  obtain c where c: "fm_heap m' = (fm_heap m)(p \<mapsto> c)" using t(6) by blast
  have g: "g = - 1 \<or> 0 \<le> g" using assms(5)
    by (auto simp: FdManager_get_def FdManager_get_read_def fm_slot_def split: if_splits)
  have "q \<noteq> p"
  proof (cases "q = nullptr")
    case True
    then show ?thesis using t(1) assms(1) by (simp add: fm_inv_def)
  next
    case False
    with get_False_slot [OF assms(5)] assms(1) t(1) show ?thesis
      by (fastforce simp: fm_inv_def)
  qed
  then have ctx: "fd_ctx_of m' q = fd_ctx_of m q" by (simp add: fd_ctx_of_def c)
  have "FdManager_get g False m' = Inr (m', q)"
    using g
  proof
    assume "g = - 1"
    then show ?thesis using assms(5) by (auto simp: FdManager_get_def FdManager_get_read_def)
  next
    assume g: "0 \<le> g"
    then have "nat g \<noteq> nat fd" using assms(2,3) by (simp add: nat_eq_iff)
    with g t(3) t(5) [of "nat g"] assms(5) show ?thesis
      by (auto simp: FdManager_get_def FdManager_get_read_def fm_slot_def split: if_splits)
  qed
  with ctx show ?thesis by blast
qed

interpretation fdt: fd_contexts FdManager_get fd_ctx_of fm_inv
proof unfold_locales
  fix t fd t' p b
  assume a: "fm_inv t" "0 \<le> fd" "FdManager_get fd True t = Inr (t', p)"
  show "FdManager_get fd b t' = Inr (t', p)"
    using a(1-3)
  proof (cases rule: get_True_cases)
    case old
    then show ?thesis using get_existing [of fd t b] a(2) by simp
  next
    case new
    note t = get_write_table [OF a(1,2) new(1)]
    show ?thesis using get_existing [of fd t' b] a(1,2) t(1,4,5) by (simp add: fm_inv_def)
  qed
next
  fix t :: fd_manager and fd :: int
  assume a: "fm_inv t" "0 \<le> fd"
  show "\<exists>t' p c. FdManager_get fd True t = Inr (t', p) \<and> fm_inv t' \<and> fd_ctx_of t' p = Some c \<and>
      fx_fd c = fd \<and> \<not> fx_isClosed c"
  proof (cases "nat fd < length (fm_datas t) \<and> fm_datas t ! nat fd \<noteq> nullptr")
    case True
    then obtain c where "fd_ctx_of t (fm_datas t ! nat fd) = Some c" "fx_fd c = fd"
      using fm_inv_slot [OF a(1) _ a(2)] by blast
    moreover from this have "\<not> fx_isClosed c" using a(1) True by (auto simp: fd_ctx_of_def fm_inv_def)
    ultimately show ?thesis using get_existing [of fd t True] a True by simp
  next
    case False
    obtain t' p where w: "FdManager_get_write fd t = (t', p)" by force
    obtain c where c: "FdCtx_ctor fd (fm_kernel t) = (c, fm_kernel t')" "fm_heap t' = (fm_heap t)(p \<mapsto> c)"
      using get_write_table(6) [OF a w] by blast
    have "p \<noteq> nullptr" using get_write_table(1) [OF a w] a(1) by (simp add: fm_inv_def)
    then show ?thesis
      using get_create [OF a False] w get_write_inv [OF a w] c(2) FdCtx_ctor_fields(1,2) [OF c(1)]
      by (simp add: fd_ctx_of_def)
  qed
next
  fix t fd p
  assume "FdManager_get fd False t = Inr (t, p)" "fd_ctx_of t p \<noteq> None"
  with get_False_slot [OF this(1)] show "FdManager_get fd True t = Inr (t, p)"
    using get_existing [of fd t True] by (auto simp: fd_ctx_of_def split: if_splits)
next
  fix t fd g t' p q
  assume a: "fm_inv t" "0 \<le> fd" "g \<noteq> fd" "FdManager_get fd True t = Inr (t', p)" "FdManager_get g False t = Inr (t, q)"
  show "FdManager_get g False t' = Inr (t', q) \<and> fd_ctx_of t' q = fd_ctx_of t q"
    using a(1,2,4)
  proof (cases rule: get_True_cases)
    case old
    with a(5) show ?thesis by simp
  next
    case new
    then show ?thesis using get_write_other [OF a(1,2,3) _ a(5)] by blast
  qed
qed (rule get_FalseD)

subsection \<open>Properties\<close>

text \<open>
  C24. The descriptor table. \<open>get(fd, true)\<close> on a descriptor without a context files a new one, which
  later calls return; the context says whether the descriptor is a socket, a socket is non-blocking
  in the kernel from then on, and the contexts of other descriptors stay. After \<open>del\<close> the descriptor
  has no context. -1 never has one, and a smaller negative number is an index out of bounds.
\<close>

theorem fd_table:
  assumes "fm_inv m"
  shows "(0 \<le> fd \<and> \<not> (nat fd < length (fm_datas m) \<and> fm_datas m ! nat fd \<noteq> nullptr) \<longrightarrow>
      (\<exists>m' p c. FdManager_get fd True m = Inr (m', p) \<and> fm_inv m' \<and> p \<noteq> nullptr \<and>
        fd_ctx_of m' p = Some c \<and> fx_fd c = fd \<and>
        fx_isSocket c = (case k_mode (fm_kernel m) fd of None \<Rightarrow> False | Some md \<Rightarrow> S_ISSOCK md) \<and>
        (fx_isSocket c \<longrightarrow> F_GETFL (fm_kernel m') fd AND O_NONBLOCK \<noteq> 0) \<and>
        (\<forall>b. FdManager_get fd b m' = Inr (m', p)) \<and>
        (\<forall>i < length (fm_datas m). i \<noteq> nat fd \<longrightarrow> fm_datas m' ! i = fm_datas m ! i))) \<and>
    (0 \<le> fd \<longrightarrow> (\<exists>m'. FdManager_del fd m = Inr m' \<and> fm_inv m' \<and> FdManager_get fd False m' = Inr (m', nullptr))) \<and>
    FdManager_get (- 1) b m = Inr (m, nullptr) \<and>
    (fd < - 1 \<longrightarrow> FdManager_get fd b m = Inl (Undefined ''m_datas index''))"
proof (intro conjI impI)
  assume a: "0 \<le> fd \<and> \<not> (nat fd < length (fm_datas m) \<and> fm_datas m ! nat fd \<noteq> nullptr)"
  obtain m' p where g: "FdManager_get_write fd m = (m', p)" by force
  note t = get_write_table [OF assms conjunct1 [OF a] g]
  obtain c where c: "FdCtx_ctor fd (fm_kernel m) = (c, fm_kernel m')" "fm_heap m' = (fm_heap m)(p \<mapsto> c)"
    using t(6) by blast
  note cf = FdCtx_ctor_fields [OF c(1)]
  have p: "p \<noteq> nullptr" using t(1) assms by (simp add: fm_inv_def)
  have slot: "fm_datas m' ! nat fd = p" using t(4,5) by simp
  have others: "\<forall>i < length (fm_datas m). i \<noteq> nat fd \<longrightarrow> fm_datas m' ! i = fm_datas m ! i"
    using t(3,5) by simp
  have again: "FdManager_get fd b m' = Inr (m', p)" for b
    using get_existing [of fd m' b] a t(4) slot p by simp
  show "\<exists>m' p c. FdManager_get fd True m = Inr (m', p) \<and> fm_inv m' \<and> p \<noteq> nullptr \<and>
        fd_ctx_of m' p = Some c \<and> fx_fd c = fd \<and>
        fx_isSocket c = (case k_mode (fm_kernel m) fd of None \<Rightarrow> False | Some md \<Rightarrow> S_ISSOCK md) \<and>
        (fx_isSocket c \<longrightarrow> F_GETFL (fm_kernel m') fd AND O_NONBLOCK \<noteq> 0) \<and>
        (\<forall>b. FdManager_get fd b m' = Inr (m', p)) \<and>
        (\<forall>i < length (fm_datas m). i \<noteq> nat fd \<longrightarrow> fm_datas m' ! i = fm_datas m ! i)"
    using get_create [OF assms conjunct1 [OF a] conjunct2 [OF a]] g get_write_inv [OF assms conjunct1 [OF a] g]
      p c(2) cf(1,7,8) again others
    by (intro exI [of _ m'] exI [of _ p] exI [of _ c]) (simp add: fd_ctx_of_def)
next
  assume fd: "0 \<le> fd"
  show "\<exists>m'. FdManager_del fd m = Inr m' \<and> fm_inv m' \<and> FdManager_get fd False m' = Inr (m', nullptr)"
  proof (cases "nat fd < length (fm_datas m)")
    case True
    let ?m' = "m\<lparr>fm_datas := (fm_datas m)[nat fd := nullptr]\<rparr>"
    have "FdManager_del fd m = Inr ?m'" using True fd by (auto simp: FdManager_del_def fm_slot_def)
    moreover have "fm_inv ?m'"
      using assms True by (auto simp: fm_inv_def nth_list_update split: if_splits)
    moreover have "FdManager_get fd False ?m' = Inr (?m', nullptr)"
      using True fd by (auto simp: FdManager_get_def FdManager_get_read_def fm_slot_def)
    ultimately show ?thesis by blast
  next
    case False
    then show ?thesis
      using fd assms by (auto simp: FdManager_del_def FdManager_get_def FdManager_get_read_def)
  qed
next
  show "FdManager_get (- 1) b m = Inr (m, nullptr)"
    by (simp add: FdManager_get_def FdManager_get_read_def)
next
  assume "fd < - 1"
  then show "FdManager_get fd b m = Inl (Undefined ''m_datas index'')"
    by (simp add: FdManager_get_def FdManager_get_read_def fm_slot_def)
qed

definition demo_kernel :: kernel where
  "demo_kernel = \<lparr> k_mode = [100 \<mapsto> 0xC1FF], k_flags = [100 \<mapsto> 2] \<rparr>"

lemma FdManager_ctor_inv: "fm_inv (FdManager_ctor k)"
  by (simp add: FdManager_ctor_def fm_inv_def)

theorem fd_table_witness:
  "\<exists>m' p c. FdManager_get 100 True (FdManager_ctor demo_kernel) = Inr (m', p) \<and> fd_ctx_of m' p = Some c \<and>
     fx_isSocket c \<and> F_GETFL (fm_kernel m') 100 AND O_NONBLOCK \<noteq> 0"
proof -
  have "0 \<le> (100 :: int) \<and> \<not> (nat 100 < length (fm_datas (FdManager_ctor demo_kernel)) \<and>
      fm_datas (FdManager_ctor demo_kernel) ! nat 100 \<noteq> nullptr)"
    by (simp add: FdManager_ctor_def)
  moreover have "case k_mode (fm_kernel (FdManager_ctor demo_kernel)) 100 of None \<Rightarrow> False | Some md \<Rightarrow> S_ISSOCK md"
    by (simp add: FdManager_ctor_def demo_kernel_def S_ISSOCK_def S_IFMT_def S_IFSOCK_def)
  ultimately show ?thesis
    using fd_table [OF FdManager_ctor_inv, of 100 demo_kernel] by fastforce
qed

text \<open>
  Between the two critical sections of \<open>get\<close> another thread may run: two threads that both find
  no context both create one, the second replaces the first in the table, and what the first thread
  sets on the context it was given is not seen by anyone who asks the table.
\<close>

theorem fd_get_race:
  assumes "fm_inv m" "0 \<le> fd" "FdManager_get_read fd True m = Inr None"
    "FdManager_get_write fd m = (m1, p1)" "FdManager_get_write fd m1 = (m2, p2)"
  shows "p1 \<noteq> p2 \<and> FdManager_get fd True (upd_fdctx p1 (FdCtx_setTimeout type v) m2) =
      Inr (upd_fdctx p1 (FdCtx_setTimeout type v) m2, p2) \<and>
    fd_ctx_of (upd_fdctx p1 (FdCtx_setTimeout type v) m2) p2 = fd_ctx_of m2 p2"
proof -
  note t1 = get_write_table [OF assms(1,2,4)]
  note i1 = get_write_inv [OF assms(1,2,4)]
  note t2 = get_write_table [OF i1 assms(2,5)]
  have "p1 \<noteq> p2" using t1(1,2) t2(1) by simp
  moreover have "p2 \<noteq> nullptr" using t2(1) i1 by (simp add: fm_inv_def)
  moreover have "fm_datas (upd_fdctx p1 f m2) = fm_datas m2" for f
    by (simp add: upd_fdctx_def split: option.splits)
  moreover have "fm_datas m2 ! nat fd = p2" using t2(4,5) by simp
  ultimately show ?thesis
    using get_existing [of fd "upd_fdctx p1 (FdCtx_setTimeout type v) m2" True] assms(2) t2(4)
    by (auto simp: upd_fdctx_def fd_ctx_of_def split: option.splits)
qed

theorem fd_get_race_witness:
  "let m = FdManager_ctor demo_kernel; (m1, p1) = FdManager_get_write 5 m; (m2, p2) = FdManager_get_write 5 m1
   in FdManager_get_read 5 True m = Inr None \<and> p1 \<noteq> p2 \<and>
      fd_ctx_of (upd_fdctx p1 (FdCtx_setTimeout SO_RCVTIMEO 1000) m2) p2 = fd_ctx_of m2 p2"
proof -
  obtain m1 p1 where w1: "FdManager_get_write 5 (FdManager_ctor demo_kernel) = (m1, p1)" by force
  obtain m2 p2 where w2: "FdManager_get_write 5 m1 = (m2, p2)" by force
  have r: "FdManager_get_read 5 True (FdManager_ctor demo_kernel) = Inr None"
    by (simp add: FdManager_get_read_def FdManager_ctor_def fm_slot_def)
  show ?thesis
    using fd_get_race [OF FdManager_ctor_inv _ r w1 w2, of SO_RCVTIMEO 1000] w1 w2 r by (simp add: Let_def)
qed

end
