(* ===== verification/Hook.thy ===== *)
theory Hook
  imports IOManager Fd_Manager
begin

section \<open>Hooked system calls\<close>

text \<open>
  \<open>hook.cpp\<close>: the replacements of the blocking system calls. A call that would block registers the
  fiber with the I/O manager, optionally with a timer, and yields; it is retried when the descriptor
  is ready. What the system calls return and what happens while the fiber is away is a script: the
  list of the environment's answers, in order.
\<close>

subsection \<open>Errors and environment\<close>

definition EINTR :: int where "EINTR = 4"
definition EBADF :: int where "EBADF = 9"
definition EAGAIN :: int where "EAGAIN = 11"
definition ETIMEDOUT :: int where "ETIMEDOUT = 110"
definition EINPROGRESS :: int where "EINPROGRESS = 115"

lemmas errno_defs = EINTR_def EBADF_def EAGAIN_def ETIMEDOUT_def EINPROGRESS_def

text \<open>
  The environment's answers: the original function returned \<open>n\<close> with \<open>errno\<close>; \<open>addEvent\<close> returned
  \<open>rt\<close> with \<open>errno\<close>; the fiber was resumed and found \<open>tinfo->cancelled\<close>; \<open>getsockopt(SO_ERROR)\<close>
  returned \<open>rt\<close>, \<open>errno\<close> and the error of the socket.
\<close>

datatype env_step = Called int int | Added int int | Resumed int | Sockerr int int int

text \<open>What the hook does, in order.\<close>

datatype hook_action = Act_call | Act_timer u64 | Act_event u32 | Act_yield | Act_cancel | Act_getsockopt

text \<open>The return value, \<open>errno\<close> and the actions; \<open>None\<close> when the script ends before the call returns.\<close>

type_synonym hook_result = "(int \<times> int \<times> hook_action list) option"

definition after_actions :: "hook_action list \<Rightarrow> hook_result \<Rightarrow> hook_result" where
  "after_actions acts r = map_option (\<lambda>(n, e, as). (n, e, acts @ as)) r"

lemma after_actions_simps [simp]:
  "after_actions acts None = None"
  "after_actions acts (Some (n, e, as)) = Some (n, e, acts @ as)"
  "after_actions acts r = Some (n, e, as) \<longleftrightarrow> (\<exists>bs. r = Some (n, e, bs) \<and> as = acts @ bs)"
  by (auto simp: after_actions_def)

record hook_state =
  t_hook_enable :: bool
  s_connect_timeout :: u64
  hk_fds :: fd_manager

definition set_hook_enable :: "bool \<Rightarrow> hook_state \<Rightarrow> hook_state" where
  "set_hook_enable flag h = h\<lparr>t_hook_enable := flag\<rparr>"

definition is_hook_enable :: "hook_state \<Rightarrow> bool" where
  "is_hook_enable h = t_hook_enable h"

text \<open>
  The start-up code and the listener of \<open>tcp.connect.timeout\<close>: the \<open>int\<close> value of the variable
  becomes a \<open>uint64_t\<close>.
\<close>

definition init_hook :: "int \<Rightarrow> fd_manager \<Rightarrow> hook_state" where
  "init_hook value fds = \<lparr> t_hook_enable = False, s_connect_timeout = of_int value, hk_fds = fds \<rparr>"

definition connect_timeout_changed :: "int \<Rightarrow> int \<Rightarrow> hook_state \<Rightarrow> hook_state" where
  "connect_timeout_changed old_value new_value h = h\<lparr>s_connect_timeout := of_int new_value\<rparr>"

subsection \<open>I/O\<close>

definition call_origin :: "env_step list \<Rightarrow> hook_result" where
  "call_origin script = (case script of Called n e # _ \<Rightarrow> Some (n, e, [Act_call]) | _ \<Rightarrow> None)"

text \<open>The part of \<open>do_io\<close> from the label \<open>retry\<close>.\<close>

fun do_io_retry :: "u64 \<Rightarrow> u32 \<Rightarrow> env_step list \<Rightarrow> hook_result" where
  "do_io_retry to event (Called n e # script) =
     (if n = - 1 \<and> e = EINTR then after_actions [Act_call] (do_io_retry to event script)
      else if n = - 1 \<and> e = EAGAIN then
        (let timer = (to \<noteq> - 1);
             block = Act_call # (if timer then [Act_timer to] else []) @ [Act_event event];
             unblock = (if timer then [Act_cancel] else [])
         in case script of
              Added rt e' # script' \<Rightarrow>
                if rt = - 1 then Some (- 1, e', block @ unblock)
                else
                  (case script' of
                     Resumed cancelled # script'' \<Rightarrow>
                       if cancelled \<noteq> 0 then Some (- 1, cancelled, block @ Act_yield # unblock)
                       else after_actions (block @ Act_yield # unblock) (do_io_retry to event script'')
                   | _ \<Rightarrow> None)
            | _ \<Rightarrow> None)
      else Some (n, e, [Act_call]))"
| "do_io_retry to event _ = None"

definition do_io :: "hook_state \<Rightarrow> int \<Rightarrow> u32 \<Rightarrow> int \<Rightarrow> env_step list \<Rightarrow> hook_result res" where
  "do_io h fd event timeout_so script =
     (if \<not> t_hook_enable h then Inr (call_origin script)
      else rbind (FdManager_get fd False (hk_fds h)) (\<lambda>(fds, p).
        case fd_ctx_of fds p of
          None \<Rightarrow> Inr (call_origin script)
        | Some ctx \<Rightarrow>
            if fx_isClosed ctx then Inr (Some (- 1, EBADF, []))
            else if \<not> fx_isSocket ctx \<or> fx_userNonblock ctx then Inr (call_origin script)
            else Inr (do_io_retry (FdCtx_getTimeout timeout_so ctx) event script)))"

text \<open>
  The hooked calls: each passes its original function, event and timeout to \<open>do_io\<close>. \<open>accepted fd\<close>
  is what the kernel does to its tables when \<open>accept\<close> returns \<open>fd\<close>.
\<close>

definition upd_kernel :: "(kernel \<Rightarrow> kernel) \<Rightarrow> fd_manager \<Rightarrow> fd_manager" where
  "upd_kernel f m = m\<lparr>fm_kernel := f (fm_kernel m)\<rparr>"

definition hook_accept :: "(int \<Rightarrow> kernel \<Rightarrow> kernel) \<Rightarrow> hook_state \<Rightarrow> int \<Rightarrow> env_step list \<Rightarrow> (hook_state \<times> hook_result) res" where
  "hook_accept accepted h s script =
     rbind (do_io h s EV_READ SO_RCVTIMEO script) (\<lambda>r.
       case r of
         Some (fd, e, acts) \<Rightarrow>
           if fd \<ge> 0 then
             rbind (FdManager_get fd True (upd_kernel (accepted fd) (hk_fds h))) (\<lambda>(fds, _). Inr (h\<lparr>hk_fds := fds\<rparr>, r))
           else Inr (h, r)
       | None \<Rightarrow> Inr (h, r))"

definition hook_read :: "hook_state \<Rightarrow> int \<Rightarrow> env_step list \<Rightarrow> hook_result res" where
  "hook_read h fd script = do_io h fd EV_READ SO_RCVTIMEO script"

definition hook_readv :: "hook_state \<Rightarrow> int \<Rightarrow> env_step list \<Rightarrow> hook_result res" where
  "hook_readv h fd script = do_io h fd EV_READ SO_RCVTIMEO script"

definition hook_recv :: "hook_state \<Rightarrow> int \<Rightarrow> env_step list \<Rightarrow> hook_result res" where
  "hook_recv h sockfd script = do_io h sockfd EV_READ SO_RCVTIMEO script"

definition hook_recvfrom :: "hook_state \<Rightarrow> int \<Rightarrow> env_step list \<Rightarrow> hook_result res" where
  "hook_recvfrom h sockfd script = do_io h sockfd EV_READ SO_RCVTIMEO script"

definition hook_recvmsg :: "hook_state \<Rightarrow> int \<Rightarrow> env_step list \<Rightarrow> hook_result res" where
  "hook_recvmsg h sockfd script = do_io h sockfd EV_READ SO_RCVTIMEO script"

definition hook_write :: "hook_state \<Rightarrow> int \<Rightarrow> env_step list \<Rightarrow> hook_result res" where
  "hook_write h fd script = do_io h fd EV_WRITE SO_SNDTIMEO script"

definition hook_writev :: "hook_state \<Rightarrow> int \<Rightarrow> env_step list \<Rightarrow> hook_result res" where
  "hook_writev h fd script = do_io h fd EV_WRITE SO_SNDTIMEO script"

definition hook_send :: "hook_state \<Rightarrow> int \<Rightarrow> env_step list \<Rightarrow> hook_result res" where
  "hook_send h s script = do_io h s EV_WRITE SO_SNDTIMEO script"

definition hook_sendto :: "hook_state \<Rightarrow> int \<Rightarrow> env_step list \<Rightarrow> hook_result res" where
  "hook_sendto h s script = do_io h s EV_WRITE SO_SNDTIMEO script"

definition hook_sendmsg :: "hook_state \<Rightarrow> int \<Rightarrow> env_step list \<Rightarrow> hook_result res" where
  "hook_sendmsg h s script = do_io h s EV_WRITE SO_SNDTIMEO script"

text \<open>\<open>fd\<close> is what the original \<open>socket\<close> returned.\<close>

definition hook_socket :: "hook_state \<Rightarrow> int \<Rightarrow> (hook_state \<times> int) res" where
  "hook_socket h fd =
     (if \<not> t_hook_enable h then Inr (h, fd)
      else if fd = - 1 then Inr (h, fd)
      else rbind (FdManager_get fd True (hk_fds h)) (\<lambda>(fds, _). Inr (h\<lparr>hk_fds := fds\<rparr>, fd)))"

subsection \<open>connect\<close>

definition connect_finish :: "hook_action list \<Rightarrow> env_step list \<Rightarrow> hook_result" where
  "connect_finish acts script =
     (case script of
        Sockerr rt e err # _ \<Rightarrow>
          if rt = - 1 then Some (- 1, e, acts @ [Act_getsockopt])
          else if err = 0 then Some (0, e, acts @ [Act_getsockopt])
          else Some (- 1, err, acts @ [Act_getsockopt])
      | _ \<Rightarrow> None)"

definition connect_blocking :: "u64 \<Rightarrow> env_step list \<Rightarrow> hook_result" where
  "connect_blocking timeout_ms script =
     (case script of
        Called n e # script1 \<Rightarrow>
          if n = 0 then Some (0, e, [Act_call])
          else if n \<noteq> - 1 \<or> e \<noteq> EINPROGRESS then Some (n, e, [Act_call])
          else
            (let timer = (timeout_ms \<noteq> - 1);
                 block = Act_call # (if timer then [Act_timer timeout_ms] else []) @ [Act_event EV_WRITE];
                 unblock = (if timer then [Act_cancel] else [])
             in case script1 of
                  Added rt e' # script2 \<Rightarrow>
                    if rt = 0 then
                      (case script2 of
                         Resumed cancelled # script3 \<Rightarrow>
                           if cancelled \<noteq> 0 then Some (- 1, cancelled, block @ Act_yield # unblock)
                           else connect_finish (block @ Act_yield # unblock) script3
                       | _ \<Rightarrow> None)
                    else connect_finish (block @ unblock) script2
                | _ \<Rightarrow> None)
      | _ \<Rightarrow> None)"

definition connect_with_timeout :: "hook_state \<Rightarrow> int \<Rightarrow> u64 \<Rightarrow> env_step list \<Rightarrow> hook_result res" where
  "connect_with_timeout h fd timeout_ms script =
     (if \<not> t_hook_enable h then Inr (call_origin script)
      else rbind (FdManager_get fd False (hk_fds h)) (\<lambda>(fds, p).
        case fd_ctx_of fds p of
          None \<Rightarrow> Inr (call_origin script)
        | Some ctx \<Rightarrow>
            if fx_isClosed ctx then Inr (Some (- 1, EBADF, []))
            else if \<not> fx_isSocket ctx then Inr (call_origin script)
            else if fx_userNonblock ctx then Inr (call_origin script)
            else Inr (connect_blocking timeout_ms script)))"

definition hook_connect :: "hook_state \<Rightarrow> int \<Rightarrow> env_step list \<Rightarrow> hook_result res" where
  "hook_connect h sockfd script = connect_with_timeout h sockfd (s_connect_timeout h) script"

subsection \<open>Sleeping\<close>

text \<open>The milliseconds the three sleeping calls pass to \<open>addTimer\<close>, in the arithmetic of their types.\<close>

definition sleep_ms :: "u32 \<Rightarrow> u64" where
  "sleep_ms seconds = ucast (seconds * 1000)"

definition usleep_ms :: "u32 \<Rightarrow> u64" where
  "usleep_ms usec = ucast (usec div 1000)"

text \<open>The sum is converted to \<open>int\<close> and sign-extended.\<close>

definition nanosleep_ms :: "int \<Rightarrow> int \<Rightarrow> u64" where
  "nanosleep_ms tv_sec tv_nsec =
     of_int (sint (of_int (tv_sec * 1000 + c_div (c_div tv_nsec 1000) 1000) :: u32))"

text \<open>
  A hooked sleep adds a one-shot timer whose callback schedules the fiber, and yields; the return
  value is 0. \<open>p\<close> is the address of the timer. Without the hook the original call blocks the thread.
\<close>

definition hook_sleep :: "hook_state \<Rightarrow> u32 \<Rightarrow> ptr \<Rightarrow> 'cb \<Rightarrow> u64 \<Rightarrow> 'cb timer_manager \<Rightarrow>
    (int \<times> 'cb timer_manager \<times> bool) option" where
  "hook_sleep h seconds p cb now M =
     (if \<not> t_hook_enable h then None
      else let (M, tick) = addTimer M p (sleep_ms seconds) (Some (Cb cb)) False now in Some (0, M, tick))"

definition hook_usleep :: "hook_state \<Rightarrow> u32 \<Rightarrow> ptr \<Rightarrow> 'cb \<Rightarrow> u64 \<Rightarrow> 'cb timer_manager \<Rightarrow>
    (int \<times> 'cb timer_manager \<times> bool) option" where
  "hook_usleep h usec p cb now M =
     (if \<not> t_hook_enable h then None
      else let (M, tick) = addTimer M p (usleep_ms usec) (Some (Cb cb)) False now in Some (0, M, tick))"

definition hook_nanosleep :: "hook_state \<Rightarrow> int \<Rightarrow> int \<Rightarrow> ptr \<Rightarrow> 'cb \<Rightarrow> u64 \<Rightarrow> 'cb timer_manager \<Rightarrow>
    (int \<times> 'cb timer_manager \<times> bool) option" where
  "hook_nanosleep h tv_sec tv_nsec p cb now M =
     (if \<not> t_hook_enable h then None
      else let (M, tick) = addTimer M p (nanosleep_ms tv_sec tv_nsec) (Some (Cb cb)) False now
           in Some (0, M, tick))"

subsection \<open>Blocking on the I/O manager\<close>

text \<open>
  What \<open>do_io\<close> and \<open>connect_with_timeout\<close> do to the timers and the I/O manager when a call would
  block: the timer first, then the event. \<open>p\<close> is the timer's address, \<open>weak\<close> the control block of
  \<open>tinfo\<close>, \<open>cb\<close> the timer's callback; \<open>rt\<close> is what \<open>epoll_ctl\<close> returns.
\<close>

definition io_block_timer :: "u64 \<Rightarrow> ptr \<Rightarrow> ptr \<Rightarrow> 'cb \<Rightarrow> u64 \<Rightarrow> 'cb timer_manager \<Rightarrow> 'cb timer_manager" where
  "io_block_timer to p weak cb now M =
     (if to \<noteq> - 1 then fst (addConditionTimer M p to (Some cb) weak False now) else M)"

definition io_block_event :: "int \<Rightarrow> ptr \<Rightarrow> ptr \<Rightarrow> int \<Rightarrow> u32 \<Rightarrow> 'cb iomanager \<Rightarrow> ('cb iomanager \<times> int) res" where
  "io_block_event rt sched fiber fd event m = addEvent rt sched fiber EXEC fd event None m"

text \<open>
  The timer's callback. \<open>tinfo\<close> is the value of \<open>cancelled\<close>, or \<open>None\<close> when the call has returned.
\<close>

definition io_timeout_cb :: "int \<Rightarrow> int \<Rightarrow> u32 \<Rightarrow> int option \<Rightarrow> 'cb iomanager \<Rightarrow> (int option \<times> 'cb iomanager) res" where
  "io_timeout_cb rt fd event tinfo m =
     (case tinfo of
        None \<Rightarrow> Inr (None, m)
      | Some cancelled \<Rightarrow>
          if cancelled \<noteq> 0 then Inr (tinfo, m)
          else rbind (cancelEvent rt fd event m) (\<lambda>(m, _). Inr (Some ETIMEDOUT, m)))"

subsection \<open>The retry loop\<close>

text \<open>
  The rounds of \<open>do_io\<close>: a call that was interrupted, or one that would block and was resumed; and
  its ends: a definite result, an event that could not be added, a wait that was cancelled.
\<close>

datatype io_round = Interrupted | Waited int int

datatype io_end = Definite int int | Refused int | Cancelled int int int

primrec round_ok :: "io_round \<Rightarrow> bool" where
  "round_ok Interrupted = True"
| "round_ok (Waited rt e) = (rt \<noteq> - 1)"

primrec end_ok :: "io_end \<Rightarrow> bool" where
  "end_ok (Definite n e) = (n \<noteq> - 1 \<or> e \<notin> {EINTR, EAGAIN})"
| "end_ok (Refused e) = True"
| "end_ok (Cancelled rt e c) = (rt \<noteq> - 1 \<and> c \<noteq> 0)"

primrec round_script :: "io_round \<Rightarrow> env_step list" where
  "round_script Interrupted = [Called (- 1) EINTR]"
| "round_script (Waited rt e) = [Called (- 1) EAGAIN, Added rt e, Resumed 0]"

primrec end_script :: "io_end \<Rightarrow> env_step list" where
  "end_script (Definite n e) = [Called n e]"
| "end_script (Refused e) = [Called (- 1) EAGAIN, Added (- 1) e]"
| "end_script (Cancelled rt e c) = [Called (- 1) EAGAIN, Added rt e, Resumed c]"

definition wait_begin :: "u64 \<Rightarrow> u32 \<Rightarrow> hook_action list" where
  "wait_begin to event = Act_call # (if to \<noteq> - 1 then [Act_timer to] else []) @ [Act_event event]"

definition wait_end :: "u64 \<Rightarrow> hook_action list" where
  "wait_end to = (if to \<noteq> - 1 then [Act_cancel] else [])"

primrec round_acts :: "u64 \<Rightarrow> u32 \<Rightarrow> io_round \<Rightarrow> hook_action list" where
  "round_acts to event Interrupted = [Act_call]"
| "round_acts to event (Waited rt e) = wait_begin to event @ Act_yield # wait_end to"

primrec end_result :: "u64 \<Rightarrow> u32 \<Rightarrow> io_end \<Rightarrow> int \<times> int \<times> hook_action list" where
  "end_result to event (Definite n e) = (n, e, [Act_call])"
| "end_result to event (Refused e) = (- 1, e, wait_begin to event @ wait_end to)"
| "end_result to event (Cancelled rt e c) = (- 1, c, wait_begin to event @ Act_yield # wait_end to)"

definition io_result :: "u64 \<Rightarrow> u32 \<Rightarrow> io_round list \<Rightarrow> io_end \<Rightarrow> int \<times> int \<times> hook_action list" where
  "io_result to event rs f =
     (let (n, e, acts) = end_result to event f in (n, e, concat (map (round_acts to event) rs) @ acts))"

definition io_script :: "io_round list \<Rightarrow> io_end \<Rightarrow> env_step list" where
  "io_script rs f = concat (map round_script rs) @ end_script f"

lemmas io_eval = wait_begin_def wait_end_def errno_defs Let_def

lemma io_result_Cons:
  "after_actions (round_acts to event r) (Some (io_result to event rs f)) = Some (io_result to event (r # rs) f)"
  by (simp add: io_result_def split: prod.splits)

lemma do_io_retry_round:
  "round_ok r \<Longrightarrow> do_io_retry to event (round_script r @ script) =
     after_actions (round_acts to event r) (do_io_retry to event script)"
  by (cases r) (simp_all add: io_eval)

lemma do_io_retry_end:
  "end_ok f \<Longrightarrow> do_io_retry to event (end_script f @ rest) = Some (end_result to event f)"
  by (cases f) (auto simp: io_eval)

lemma do_io_retry_returns:
  assumes "list_all round_ok rs" "end_ok f"
  shows "do_io_retry to event (io_script rs f @ rest) = Some (io_result to event rs f)"
  using assms
proof (induction rs)
  case Nil
  then show ?case by (simp add: io_script_def io_result_def do_io_retry_end split: prod.splits)
next
  case (Cons r rs)
  then show ?case
    by (simp add: io_script_def do_io_retry_round flip: io_result_Cons)
qed

lemma after_actions_elim:
  assumes "after_actions acts r = Some res"
  obtains res' where "r = Some res'" "Some res = after_actions acts (Some res')"
  using assms by (cases r) auto

text \<open>What one pass through the loop reads from the script.\<close>

lemma do_io_retry_cases:
  assumes "do_io_retry to event script = Some res"
  obtains (finish) f rest where "end_ok f" "script = end_script f @ rest" "res = end_result to event f"
  | (round) r rest res' where "round_ok r" "script = round_script r @ rest"
      "do_io_retry to event rest = Some res'" "Some res = after_actions (round_acts to event r) (Some res')"
proof (cases script)
  case Nil
  with assms show ?thesis by simp
next
  case (Cons s script1)
  with assms obtain n e where s: "s = Called n e" by (cases s) simp_all
  consider (intr) "n = - 1" "e = EINTR" | (again) "n = - 1" "e = EAGAIN" | (done') "n \<noteq> - 1 \<or> e \<notin> {EINTR, EAGAIN}"
    by blast
  then show ?thesis
  proof cases
    case intr
    with assms Cons s have "after_actions [Act_call] (do_io_retry to event script1) = Some res" by simp
    then obtain res' where "do_io_retry to event script1 = Some res'" "Some res = after_actions [Act_call] (Some res')"
      by (rule after_actions_elim)
    with Cons s intr show ?thesis by (intro round [of Interrupted script1 res']) simp_all
  next
    case again
    with assms Cons s obtain rt e' script2 where a: "script1 = Added rt e' # script2"
      by (auto simp: errno_defs Let_def split: list.splits env_step.splits)
    show ?thesis
    proof (cases "rt = - 1")
      case True
      with assms Cons s again a show ?thesis
        by (intro finish [of "Refused e'" script2]) (auto simp: io_eval)
    next
      case False
      with assms Cons s again a obtain c script3 where c: "script2 = Resumed c # script3"
        by (auto simp: errno_defs Let_def split: list.splits env_step.splits)
      show ?thesis
      proof (cases "c = 0")
        case True
        with assms Cons s again a c False
        have "after_actions (round_acts to event (Waited rt e')) (do_io_retry to event script3) = Some res"
          by (simp add: io_eval)
        then obtain res' where "do_io_retry to event script3 = Some res'"
            "Some res = after_actions (round_acts to event (Waited rt e')) (Some res')"
          by (rule after_actions_elim)
        with Cons s again a c False True show ?thesis by (intro round [of "Waited rt e'" script3 res']) simp_all
      next
        case nz: False
        with assms Cons s again a c False show ?thesis
          by (intro finish [of "Cancelled rt e' c" script3]) (auto simp: io_eval)
      qed
    qed
  next
    case done'
    with assms Cons s show ?thesis
      by (intro finish [of "Definite n e" script1]) auto
  qed
qed

lemma do_io_retry_runs:
  assumes "do_io_retry to event script = Some res"
  shows "\<exists>rs f rest. list_all round_ok rs \<and> end_ok f \<and> script = io_script rs f @ rest \<and> res = io_result to event rs f"
  using assms
proof (induction script arbitrary: res rule: length_induct)
  case (1 script)
  from 1(2) show ?case
  proof (cases rule: do_io_retry_cases)
    case (finish f rest)
    then show ?thesis
      by (intro exI [of _ "[]"] exI [of _ f] exI [of _ rest]) (simp add: io_script_def io_result_def split: prod.splits)
  next
    case (round r rest res')
    have "length rest < length script" using round(2) by (cases r) simp_all
    with 1(1) round(3) obtain rs f rest' where ih: "list_all round_ok rs" "end_ok f"
        "rest = io_script rs f @ rest'" "res' = io_result to event rs f"
      by blast
    then show ?thesis
      using round(1,2,4) unfolding ih(4) io_result_Cons
      by (intro exI [of _ "r # rs"] exI [of _ f] exI [of _ rest']) (simp add: io_script_def)
  qed
qed

text \<open>A timer is armed and cancelled in pairs, and no call is made while one is armed.\<close>

fun timers_paired :: "bool \<Rightarrow> hook_action list \<Rightarrow> bool" where
  "timers_paired t [] = (\<not> t)"
| "timers_paired t (a # as) =
     (case a of
        Act_timer _ \<Rightarrow> \<not> t \<and> timers_paired True as
      | Act_cancel \<Rightarrow> t \<and> timers_paired False as
      | Act_call \<Rightarrow> \<not> t \<and> timers_paired False as
      | _ \<Rightarrow> timers_paired t as)"

lemma timers_paired_append: "timers_paired b xs \<Longrightarrow> timers_paired False ys \<Longrightarrow> timers_paired b (xs @ ys)"
  by (induction b xs rule: timers_paired.induct) (auto split: hook_action.splits)

lemma timers_paired_result: "timers_paired False (snd (snd (io_result to event rs f)))"
proof -
  have "timers_paired False (round_acts to event r)" for r
    by (cases r) (auto simp: io_eval)
  then have "timers_paired False (concat (map (round_acts to event) rs) @ ys)"
    if "timers_paired False ys" for ys
    using that by (induction rs) (auto intro: timers_paired_append)
  moreover have "timers_paired False (snd (snd (end_result to event f)))"
    by (cases f) (auto simp: io_eval)
  ultimately show ?thesis by (cases "end_result to event f") (simp add: io_result_def)
qed

subsection \<open>Properties of the hooked calls\<close>

text \<open>
  A descriptor whose calls are rescheduled: the hook is enabled and the table has an open,
  user-blocking socket for it.
\<close>

definition rescheduled :: "hook_state \<Rightarrow> int \<Rightarrow> fdctx \<Rightarrow> bool" where
  "rescheduled h fd c \<longleftrightarrow> t_hook_enable h \<and>
     (\<exists>p. FdManager_get fd False (hk_fds h) = Inr (hk_fds h, p) \<and> fd_ctx_of (hk_fds h) p = Some c) \<and>
     \<not> fx_isClosed c \<and> fx_isSocket c \<and> \<not> fx_userNonblock c"

lemma do_io_rescheduled:
  "rescheduled h fd c \<Longrightarrow> do_io h fd event so script = Inr (do_io_retry (FdCtx_getTimeout so c) event script)"
  by (auto simp: rescheduled_def do_io_def)

lemma io_disabled:
  assumes "\<not> t_hook_enable h"
  shows "do_io h fd event so script = Inr (call_origin script)"
    "connect_with_timeout h fd ms script = Inr (call_origin script)"
  using assms by (simp_all add: do_io_def connect_with_timeout_def)

lemma connect_rescheduled:
  "rescheduled h fd c \<Longrightarrow> connect_with_timeout h fd ms script = Inr (connect_blocking ms script)"
  by (auto simp: rescheduled_def connect_with_timeout_def)

text \<open>
  C22. A hooked I/O call returns exactly when its environment gives it any number of rounds (a call
  interrupted by a signal, or one that would block and whose fiber was resumed without a timeout)
  and then an end: a definite result of the system call, which is returned; an event that could not
  be added, -1 with its \<open>errno\<close>; or a wait that was cancelled, -1 with the error of the timer. It
  makes one system call per round, arms the timer before the event and only when the descriptor has
  a timeout, cancels it after every wait, and makes no call while one is armed.
\<close>

theorem do_io_runs:
  assumes "rescheduled h fd c"
  shows "(do_io h fd event so script = Inr (Some res) \<longleftrightarrow>
      (\<exists>rs f rest. list_all round_ok rs \<and> end_ok f \<and> script = io_script rs f @ rest \<and>
         res = io_result (FdCtx_getTimeout so c) event rs f)) \<and>
    (do_io h fd event so script = Inr (Some (n, e, acts)) \<longrightarrow> timers_paired False acts)"
proof -
  have runs: "do_io h fd event so script = Inr (Some res) \<longleftrightarrow>
      (\<exists>rs f rest. list_all round_ok rs \<and> end_ok f \<and> script = io_script rs f @ rest \<and>
         res = io_result (FdCtx_getTimeout so c) event rs f)" for res
    unfolding do_io_rescheduled [OF assms] using do_io_retry_runs do_io_retry_returns by fastforce
  then show ?thesis
    using timers_paired_result [of "FdCtx_getTimeout so c" event] by (metis snd_conv)
qed

definition demo_hook :: hook_state where
  "demo_hook = (init_hook 5000 (FdManager_ctor demo_kernel))\<lparr>t_hook_enable := True\<rparr>"

definition demo_hook_socket :: hook_state where
  "demo_hook_socket = demo_hook\<lparr>hk_fds :=
     upd_fdctx 1 (FdCtx_setTimeout SO_RCVTIMEO 300) (fst (FdManager_get_write 100 (FdManager_ctor demo_kernel)))\<rparr>"

definition demo_fdctx :: fdctx where
  "demo_fdctx = \<lparr> fx_isInit = True, fx_isSocket = True, fx_sysNonblock = True, fx_userNonblock = False,
     fx_isClosed = False, fx_fd = 100, fx_recvTimeout = 300, fx_sendTimeout = - 1 \<rparr>"

lemma demo_rescheduled: "rescheduled demo_hook_socket 100 demo_fdctx"
  by (simp add: rescheduled_def demo_hook_socket_def demo_hook_def init_hook_def FdManager_get_write_def
      FdManager_ctor_def FdCtx_ctor_def FdCtx_init_def demo_kernel_def S_ISSOCK_def S_IFMT_def S_IFSOCK_def
      F_GETFL_def O_NONBLOCK_def upd_fdctx_def FdManager_get_def FdManager_get_read_def fm_slot_def fd_ctx_of_def
      demo_fdctx_def FdCtx_setTimeout_def SO_RCVTIMEO_def)

theorem do_io_runs_witness:
  "do_io demo_hook_socket 100 EV_READ SO_RCVTIMEO
     [Called (- 1) EINTR, Called (- 1) EAGAIN, Added 0 0, Resumed 0, Called 42 0] =
   Inr (Some (42, 0, [Act_call, Act_call, Act_timer 300, Act_event EV_READ, Act_yield, Act_cancel, Act_call]))"
proof -
  have "list_all round_ok [Interrupted, Waited 0 0] \<and> end_ok (Definite 42 0) \<and>
      [Called (- 1) EINTR, Called (- 1) EAGAIN, Added 0 0, Resumed 0, Called 42 0] =
        io_script [Interrupted, Waited 0 0] (Definite 42 0) @ [] \<and>
      (42, 0, [Act_call, Act_call, Act_timer 300, Act_event EV_READ, Act_yield, Act_cancel, Act_call]) =
        io_result (FdCtx_getTimeout SO_RCVTIMEO demo_fdctx) EV_READ [Interrupted, Waited 0 0] (Definite 42 0)"
    by (simp add: io_script_def io_result_def io_eval FdCtx_getTimeout_def SO_RCVTIMEO_def demo_fdctx_def)
  then show ?thesis
    using do_io_runs [OF demo_rescheduled, of EV_READ SO_RCVTIMEO
        "[Called (- 1) EINTR, Called (- 1) EAGAIN, Added 0 0, Resumed 0, Called 42 0]"
        "(42, 0, [Act_call, Act_call, Act_timer 300, Act_event EV_READ, Act_yield, Act_cancel, Act_call])"]
    by blast
qed

text \<open>
  What \<open>socket\<close> sets up. With the hook enabled, a new socket without a context gets one: it is
  non-blocking in the kernel, every read call waits without a timeout for readability and every
  write call for writability, \<open>connect\<close> waits up to the configured timeout, and the contexts of the
  other descriptors stay as they are. With the hook disabled every call is passed through once.
\<close>

theorem hooked_socket_io:
  assumes "fm_inv (hk_fds h)" "0 \<le> fd" "k_mode (fm_kernel (hk_fds h)) fd = Some md" "S_ISSOCK md"
    and "\<not> (nat fd < length (fm_datas (hk_fds h)) \<and> fm_datas (hk_fds h) ! nat fd \<noteq> nullptr)" "t_hook_enable h"
  shows "\<exists>h'. hook_socket h fd = Inr (h', fd) \<and> fm_inv (hk_fds h') \<and>
    F_GETFL (fm_kernel (hk_fds h')) fd AND O_NONBLOCK \<noteq> 0 \<and>
    (\<forall>script. \<forall>call \<in> {hook_read, hook_readv, hook_recv, hook_recvfrom, hook_recvmsg}.
       call h' fd script = Inr (do_io_retry (- 1) EV_READ script)) \<and>
    (\<forall>script. \<forall>call \<in> {hook_write, hook_writev, hook_send, hook_sendto, hook_sendmsg}.
       call h' fd script = Inr (do_io_retry (- 1) EV_WRITE script)) \<and>
    (\<forall>script. hook_connect h' fd script = Inr (connect_blocking (s_connect_timeout h) script)) \<and>
    (\<forall>g c. g \<noteq> fd \<and> rescheduled h g c \<longrightarrow> rescheduled h' g c) \<and>
    (\<forall>script. hook_read (set_hook_enable False h') fd script = Inr (call_origin script) \<and>
       hook_connect (set_hook_enable False h') fd script = Inr (call_origin script))"
proof -
  obtain m' p where w: "FdManager_get_write fd (hk_fds h) = (m', p)" by force
  note t = get_write_table [OF assms(1,2) w]
  obtain c where c: "FdCtx_ctor fd (fm_kernel (hk_fds h)) = (c, fm_kernel m')" "fm_heap m' = (fm_heap (hk_fds h))(p \<mapsto> c)"
    using t(6) by blast
  note cf = FdCtx_ctor_fields [OF c(1)]
  have sock: "fx_isSocket c" using cf(7) assms(3,4) by simp
  have get: "FdManager_get fd True (hk_fds h) = Inr (m', p)" using get_create [OF assms(1,2,5)] w by simp
  let ?h = "h\<lparr>hk_fds := m'\<rparr>"
  have again: "FdManager_get fd False m' = Inr (m', p)" using fdt.get_again [OF assms(1,2) get] .
  have "fd_ctx_of m' p = Some c" using t(1) assms(1) c(2) by (simp add: fd_ctx_of_def fm_inv_def)
  with again sock cf(2,3) assms(6) have r: "rescheduled ?h fd c" by (simp add: rescheduled_def)
  have to: "FdCtx_getTimeout so c = - 1" for so using cf(5,6) by (simp add: FdCtx_getTimeout_def)
  have keep: "rescheduled ?h g d" if "g \<noteq> fd" "rescheduled h g d" for g d
    using that fdt.get_other [OF assms(1,2) that(1) get] by (fastforce simp: rescheduled_def)
  show ?thesis
  proof (intro exI [of _ ?h] conjI allI)
    show "hook_socket h fd = Inr (?h, fd)" using assms(2,6) get by (simp add: hook_socket_def)
    show "fm_inv (hk_fds ?h)" using get_write_inv [OF assms(1,2) w] by simp
    show "F_GETFL (fm_kernel (hk_fds ?h)) fd AND O_NONBLOCK \<noteq> 0" using cf(8) sock by simp
    show "hook_connect ?h fd script = Inr (connect_blocking (s_connect_timeout h) script)" for script
      using connect_rescheduled [OF r] by (simp add: hook_connect_def)
  qed (use keep in \<open>auto simp: hook_read_def hook_readv_def hook_recv_def hook_recvfrom_def hook_recvmsg_def
      hook_write_def hook_writev_def hook_send_def hook_sendto_def hook_sendmsg_def do_io_rescheduled [OF r] to
      set_hook_enable_def io_disabled hook_connect_def\<close>)
qed

theorem hooked_socket_io_witness:
  "\<exists>h'. hook_socket demo_hook 100 = Inr (h', 100) \<and>
     hook_recv h' 100 [Called (- 1) EAGAIN, Added 0 0, Resumed 0, Called 7 0] =
       Inr (Some (7, 0, [Act_call, Act_event EV_READ, Act_yield, Act_call]))"
proof -
  have a: "fm_inv (hk_fds demo_hook)" "k_mode (fm_kernel (hk_fds demo_hook)) 100 = Some 0xC1FF" "S_ISSOCK 0xC1FF"
    "\<not> (nat 100 < length (fm_datas (hk_fds demo_hook)) \<and> fm_datas (hk_fds demo_hook) ! nat 100 \<noteq> nullptr)"
    "t_hook_enable demo_hook"
    using FdManager_ctor_inv [of demo_kernel]
    by (simp_all add: demo_hook_def init_hook_def FdManager_ctor_def demo_kernel_def S_ISSOCK_def S_IFMT_def S_IFSOCK_def)
  obtain h' where "hook_socket demo_hook 100 = Inr (h', 100)"
      "\<And>script. hook_recv h' 100 script = Inr (do_io_retry (- 1) EV_READ script)"
    using hooked_socket_io [OF a(1) _ a(2-5)] by auto
  then show ?thesis by (auto simp: errno_defs)
qed

text \<open>
  A descriptor number that is used again. Nothing removes a context or marks it closed, so
  \<open>socket\<close> and \<open>accept\<close> find the old one: the table and the kernel's flags stay as they are, a new
  blocking socket stays blocking in the kernel, and the timeouts set on the old socket apply to it.
\<close>

theorem socket_keeps_stale_context:
  assumes "fm_inv (hk_fds h)" "0 \<le> fd" "rescheduled h fd c" "F_GETFL (fm_kernel (hk_fds h)) fd AND O_NONBLOCK = 0"
  shows "\<exists>h'. hook_socket h fd = Inr (h', fd) \<and> F_GETFL (fm_kernel (hk_fds h')) fd AND O_NONBLOCK = 0 \<and>
    hook_read h' fd script = Inr (do_io_retry (fx_recvTimeout c) EV_READ script)"
proof -
  obtain p where p: "FdManager_get fd False (hk_fds h) = Inr (hk_fds h, p)" "fd_ctx_of (hk_fds h) p = Some c"
    using assms(3) by (auto simp: rescheduled_def)
  have "FdManager_get fd True (hk_fds h) = Inr (hk_fds h, p)"
    using fdt.get_found [OF assms(1) p(1)] p(2) by simp
  then have "hook_socket h fd = Inr (h, fd)"
    using assms(2,3) by (simp add: hook_socket_def rescheduled_def)
  then show ?thesis
    using assms(4) do_io_rescheduled [OF assms(3)] by (simp add: hook_read_def FdCtx_getTimeout_def SO_RCVTIMEO_def)
qed

text \<open>Descriptor 100 was closed and opened again: the kernel has a new, blocking socket.\<close>

definition demo_hook_reused :: hook_state where
  "demo_hook_reused = demo_hook_socket\<lparr>hk_fds := (hk_fds demo_hook_socket)\<lparr>fm_kernel := demo_kernel\<rparr>\<rparr>"

theorem socket_keeps_stale_context_witness:
  "\<exists>h'. hook_socket demo_hook_reused 100 = Inr (h', 100) \<and>
   F_GETFL (fm_kernel (hk_fds h')) 100 AND O_NONBLOCK = 0 \<and>
   hook_read h' 100 [Called (- 1) EAGAIN, Added 0 0, Resumed ETIMEDOUT] =
     Inr (Some (- 1, ETIMEDOUT, [Act_call, Act_timer 300, Act_event EV_READ, Act_yield, Act_cancel]))"
proof -
  obtain m p where w: "FdManager_get_write 100 (FdManager_ctor demo_kernel) = (m, p)" by force
  have "fm_inv m" using get_write_inv [OF FdManager_ctor_inv _ w] by simp
  then have "fm_inv (upd_fdctx 1 (FdCtx_setTimeout SO_RCVTIMEO 300) m)"
    by (auto simp: upd_fdctx_def fm_inv_def FdCtx_setTimeout_def split: option.splits)
  then have inv: "fm_inv (hk_fds demo_hook_reused)"
    using w by (simp add: demo_hook_reused_def demo_hook_socket_def fm_inv_def)
  have r: "rescheduled demo_hook_reused 100 demo_fdctx"
    using demo_rescheduled
    by (auto simp: rescheduled_def demo_hook_reused_def FdManager_get_def FdManager_get_read_def fm_slot_def
        fd_ctx_of_def split: if_splits)
  have k: "F_GETFL (fm_kernel (hk_fds demo_hook_reused)) 100 AND O_NONBLOCK = 0"
    by (simp add: demo_hook_reused_def demo_kernel_def F_GETFL_def O_NONBLOCK_def)
  show ?thesis
    using socket_keeps_stale_context [OF inv _ r k, of "[Called (- 1) EAGAIN, Added 0 0, Resumed ETIMEDOUT]"] k
    by (simp add: errno_defs demo_fdctx_def)
qed

text \<open>The timer of a hooked sleep.\<close>

lemma addTimer_listed:
  assumes "timers_ok M" "p \<notin> set (m_timers M)" "p \<noteq> nullptr" "addTimer M p ms (Some cb) False now = (M', tick)"
  shows "timers_ok M' \<and> set (m_timers M') = insert p (set (m_timers M)) \<and>
    tm_heap M' = (tm_heap M)(p := Timer_ctor ms (Some cb) False now) \<and> m_previouseTime M' = m_previouseTime M"
proof -
  let ?M = "upd_timer p (\<lambda>_. Timer_ctor ms (Some cb) False now) M"
  have ok: "timers_ok ?M" "p \<notin> set (m_timers ?M)"
    using assms(2) timers_ok_upd [OF assms(1,2)] by simp_all
  have "M' = fst (addTimer_locked ?M p)" using assms(4) by (simp add: addTimer_def)
  then have "M' = tm_insert p ?M \<or> M' = (tm_insert p ?M)\<lparr>m_tickled := True\<rparr>"
    using addTimer_locked_eq [OF ok assms(3)] by (simp split: if_splits)
  moreover have "timers_ok (tm_insert p ?M)" using timers_ok_insert [OF ok(1) assms(3)] by (simp add: Timer_ctor_def)
  ultimately show ?thesis
    by (auto simp: tc.set_insert)
qed

text \<open>Milliseconds: the wrap-around of \<open>sleep\<close> and the conversions of \<open>nanosleep\<close>.\<close>

lemma unat_sleep_ms: "unat (sleep_ms seconds) = unat seconds * 1000 mod 2 ^ 32"
proof -
  have "unat (sleep_ms seconds) = unat (seconds * 1000)"
    unfolding sleep_ms_def by (rule unat_ucast_widen) simp
  also have "\<dots> = unat seconds * 1000 mod 2 ^ 32"
    by (simp add: unat_word_ariths)
  finally show ?thesis .
qed

lemma unat_usleep_ms: "unat (usleep_ms usec) = unat usec div 1000"
proof -
  have "unat (usleep_ms usec) = unat (usec div 1000)"
    unfolding usleep_ms_def by (rule unat_ucast_widen) simp
  then show ?thesis by (simp add: unat_div)
qed

lemma nanosleep_ms_int:
  assumes "0 \<le> s" "0 \<le> ns"
  shows "nanosleep_ms s ns = of_int (signed_take_bit 31 (s * 1000 + ns div 1000000))"
proof -
  have "c_div (c_div ns 1000) 1000 = ns div 1000000"
    using assms(2) by (simp add: c_div_nonneg pos_imp_zdiv_nonneg_iff zdiv_zmult2_eq [symmetric])
  then show ?thesis by (simp only: nanosleep_ms_def signed_of_int) simp
qed

lemma uint_of_int_64: "0 \<le> k \<Longrightarrow> k < 2 ^ 64 \<Longrightarrow> uint (of_int k :: u64) = k"
  by (simp only: unsigned_of_int) (simp add: take_bit_int_eq_self)

text \<open>
  The milliseconds a hooked sleep asks its timer for. \<open>sleep\<close> multiplies in 32 bits: up to
  4294967 seconds the time is right, beyond it wraps and the fiber wakes early. \<open>usleep\<close> drops what
  is below a millisecond. \<open>nanosleep\<close> converts to \<open>int\<close>: below \<open>2^31\<close> milliseconds the time is
  right, from there to \<open>2^32\<close> the number is negative and, added to the clock, gives a deadline that
  has already passed.
\<close>

theorem sleep_milliseconds:
  "unat (sleep_ms seconds) = unat seconds * 1000 mod 2 ^ 32 \<and>
   (unat (sleep_ms seconds) = unat seconds * 1000 \<longleftrightarrow> unat seconds \<le> 4294967) \<and>
   unat (usleep_ms usec) = unat usec div 1000 \<and>
   (0 \<le> s \<and> 0 \<le> ns \<and> s * 1000 + ns div 1000000 < 2 ^ 31 \<longrightarrow>
     uint (nanosleep_ms s ns) = s * 1000 + ns div 1000000) \<and>
   (0 \<le> s \<and> 0 \<le> ns \<and> 2 ^ 31 \<le> s * 1000 + ns div 1000000 \<and> s * 1000 + ns div 1000000 < 2 ^ 32 \<longrightarrow>
     (\<forall>now. 2 ^ 32 \<le> uint now \<longrightarrow> uint (now + nanosleep_ms s ns) = uint now - (2 ^ 32 - (s * 1000 + ns div 1000000))))"
proof (intro conjI impI allI)
  show "unat (sleep_ms seconds) = unat seconds * 1000 mod 2 ^ 32" by (rule unat_sleep_ms)
  show "unat (sleep_ms seconds) = unat seconds * 1000 \<longleftrightarrow> unat seconds \<le> 4294967"
    unfolding unat_sleep_ms by (auto simp: mod_eq_self_iff_div_eq_0 div_eq_0_iff)
  show "unat (usleep_ms usec) = unat usec div 1000" by (rule unat_usleep_ms)
next
  assume a: "0 \<le> s \<and> 0 \<le> ns \<and> s * 1000 + ns div 1000000 < 2 ^ 31"
  then have "0 \<le> s * 1000 + ns div 1000000" by (simp add: pos_imp_zdiv_nonneg_iff)
  moreover from this a have "signed_take_bit 31 (s * 1000 + ns div 1000000) = s * 1000 + ns div 1000000"
    by (intro signed_take_bit_int_eq_self) simp_all
  ultimately show "uint (nanosleep_ms s ns) = s * 1000 + ns div 1000000"
    using a uint_of_int_64 [of "s * 1000 + ns div 1000000"] by (simp only: nanosleep_ms_int) simp
next
  fix now :: u64
  assume a: "0 \<le> s \<and> 0 \<le> ns \<and> 2 ^ 31 \<le> s * 1000 + ns div 1000000 \<and> s * 1000 + ns div 1000000 < 2 ^ 32"
    and now: "2 ^ 32 \<le> uint now"
  let ?k = "s * 1000 + ns div 1000000"
  have "signed_take_bit 31 ?k = signed_take_bit 31 (?k - 2 ^ 32)"
    unfolding signed_take_bit_eq_iff_take_bit_eq take_bit_eq_mod by (simp add: minus_mod_self2)
  also have "\<dots> = ?k - 2 ^ 32" using a by (intro signed_take_bit_int_eq_self) simp_all
  finally have "nanosleep_ms s ns = of_int (?k - 2 ^ 32)"
    using a by (simp only: nanosleep_ms_int)
  then have "now + nanosleep_ms s ns = of_int (uint now + (?k - 2 ^ 32))"
    by simp
  moreover have "uint now < 2 ^ 64" using uint_lt2p [of now] by simp
  ultimately show "uint (now + nanosleep_ms s ns) = uint now - (2 ^ 32 - ?k)"
    using a now uint_of_int_64 [of "uint now + (?k - 2 ^ 32)"] by simp
qed

theorem sleep_milliseconds_witness:
  "unat (sleep_ms 4294968) = 704 \<and> unat (usleep_ms 1999) = 1 \<and>
   uint (1700000000000 + nanosleep_ms 3000000 0) = 1700000000000 - 1294967296"
proof -
  have "uint (1700000000000 :: u64) = 1700000000000" by simp
  then show ?thesis using sleep_milliseconds [of 4294968 1999 3000000 0] by simp
qed

text \<open>
  A fiber that sleeps is woken, and not too early. With the hook enabled \<open>sleep\<close> adds a one-shot
  timer and returns 0 when resumed; the first pass over the expired timers at or after the deadline
  hands out the callback that schedules the fiber and forgets the timer, and a pass before the
  deadline keeps it. Passes in which the clock check trips are excluded.
\<close>

theorem sleep_wakes:
  assumes "t_hook_enable h" "timers_ok M" "p \<notin> set (m_timers M)" "p \<noteq> nullptr"
    and "a \<notin> insert p (set (m_timers M))" "a \<noteq> nullptr"
    and "unat seconds \<le> 4294967" "unat now + unat seconds * 1000 < 2 ^ 64"
  shows "\<exists>M1 tick. hook_sleep h seconds p cb now M = Some (0, M1, tick) \<and> timers_ok M1 \<and>
    (\<forall>now'. \<not> rolled_over M1 now' \<longrightarrow>
       (\<exists>M2 cbs. listExpiredCb M1 now' a [] = Inr (M2, cbs) \<and>
          (if unat now + unat seconds * 1000 \<le> unat now'
           then Some (Cb cb) \<in> set cbs \<and> p \<notin> set (m_timers M2)
           else p \<in> set (m_timers M2) \<and> tm_heap M2 p = tm_heap M1 p)))"
proof -
  obtain M1 tick where add: "addTimer M p (sleep_ms seconds) (Some (Cb cb)) False now = (M1, tick)" by force
  note M1 = addTimer_listed [OF assms(2-4) add]
  let ?t = "tm_heap M1 p"
  have t: "m_next ?t = now + sleep_ms seconds" "\<not> m_recurring ?t" "m_cb ?t = Some (Cb cb)"
    using M1 by (simp_all add: Timer_ctor_def)
  have ms: "unat (sleep_ms seconds) = unat seconds * 1000"
    using assms(7) by (simp add: unat_sleep_ms)
  then have next_eq: "unat (m_next ?t) = unat now + unat seconds * 1000"
    using assms(8) unat_add_lem [of now "sleep_ms seconds"] by (simp add: t(1))
  have "\<exists>M2 cbs. listExpiredCb M1 now' a [] = Inr (M2, cbs) \<and>
        (if unat now + unat seconds * 1000 \<le> unat now'
         then Some (Cb cb) \<in> set cbs \<and> p \<notin> set (m_timers M2)
         else p \<in> set (m_timers M2) \<and> tm_heap M2 p = ?t)" if no: "\<not> rolled_over M1 now'" for now'
  proof -
    have "a \<notin> set (m_timers M1)" using M1 assms(5) by simp
    with listExpiredCb_normal [OF _ _ assms(6) no, of "[]"] M1 obtain M2 where M2:
        "listExpiredCb M1 now' a [] = Inr (M2, map (\<lambda>q. m_cb (tm_heap M1 q)) (due M1 now'))"
        "set (m_timers M2) = {q \<in> set (m_timers M1). now' < m_next (tm_heap M1 q) \<or> m_recurring (tm_heap M1 q)}"
        "tm_heap M2 = (\<lambda>q. if q \<in> set (due M1 now') then expired_timer now' (tm_heap M1 q) else tm_heap M1 q)"
      by auto
    have due: "p \<in> set (due M1 now') \<longleftrightarrow> unat now + unat seconds * 1000 \<le> unat now'"
      using M1 next_eq by (simp add: due_def word_le_nat_alt)
    have "p \<in> set (m_timers M2) \<longleftrightarrow> \<not> unat now + unat seconds * 1000 \<le> unat now'"
      using M1 M2(2) next_eq t(2) by (auto simp: word_less_nat_alt)
    moreover have "Some (Cb cb) \<in> set (map (\<lambda>q. m_cb (tm_heap M1 q)) (due M1 now'))" if "p \<in> set (due M1 now')"
      using that t(3) by (metis imageI list.set_map)
    ultimately show ?thesis using M2(1,3) due by auto
  qed
  then show ?thesis
    using assms(1) add M1 by (intro exI [of _ M1] exI [of _ tick]) (simp add: hook_sleep_def)
qed

theorem sleep_wakes_witness:
  "\<exists>M1 tick M2 cbs. hook_sleep demo_hook 2 7 (99 :: nat) 45 demo_tm = Some (0, M1, tick) \<and>
     listExpiredCb M1 2045 9 [] = Inr (M2, cbs) \<and> Some (Cb 99) \<in> set cbs"
proof -
  have "\<not> rolled_over M1 2045" if "hook_sleep demo_hook 2 7 99 45 demo_tm = Some (0, M1, tick)" for M1 tick
  proof -
    have "addTimer demo_tm 7 (sleep_ms 2) (Some (Cb 99)) False 45 = (M1, tick)"
      using that by (auto simp: hook_sleep_def demo_hook_def split: prod.splits)
    from addTimer_listed [OF _ _ _ this] demo_ok show ?thesis
      by (simp add: rolled_over_def detectClockRollover_def demo_tm_def)
  qed
  moreover have "t_hook_enable demo_hook" "unat (2 :: u32) = 2" "unat (45 :: u64) = 45" "unat (2045 :: u64) = 2045"
    by (simp_all add: demo_hook_def)
  ultimately show ?thesis
    using sleep_wakes [of demo_hook demo_tm 7 9 2 45 99] demo_ok by fastforce
qed



subsection \<open>The timer of a waiting call\<close>

lemma arm_lookup:
  assumes "valid_fd fd m" "event \<in> {EV_READ, EV_WRITE}"
  shows "armed_at fd event (arm fd event e m)" "slot event (m_fdContexts (arm fd event e m) ! nat fd) = e"
    "valid_fd fd (arm fd event e m)"
proof -
  have "(x OR event) AND event = event" for x by (rule bit_eqI) (auto simp: bit_simps)
  moreover have "event \<noteq> 0" using assms(2) by auto
  ultimately show "armed_at fd event (arm fd event e m)"
    using assms(1) by (simp add: armed_at_def armed_def arm_def set_fd_ctx_def setContext_def valid_fd_def Let_def)
  show "slot event (m_fdContexts (arm fd event e m) ! nat fd) = e" "valid_fd fd (arm fd event e m)"
    using assms by (auto simp: arm_def set_fd_ctx_def setContext_def valid_fd_def slot_def Let_def)
qed

text \<open>A fiber that registers, and the timer that fires afterwards.\<close>

lemma io_block_fires:
  assumes "iom_inv m" "0 \<le> fd" "event \<in> {EV_READ, EV_WRITE}" "valid_fd fd m" "\<not> armed_at fd event m"
    and "sched \<in> dom (io_scheds m)" "fiber \<noteq> nullptr"
  shows "\<exists>m1. io_block_event 0 sched fiber fd event m = Inr (m1, 0) \<and> iom_inv m1 \<and> valid_fd fd m1 \<and>
    armed_at fd event m1 \<and> io_scheds m1 = io_scheds m \<and>
    fc_events (m_fdContexts m1 ! nat fd) = fc_events (m_fdContexts m ! nat fd) OR event \<and>
    io_timeout_cb 0 fd event (Some 0) m1 = Inr (Some ETIMEDOUT, fire fd event m1) \<and> iom_inv (fire fd event m1) \<and>
    io_scheds (fire fd event m1) = push_task sched (FT_fiber fiber (- 1)) (io_scheds m)"
proof -
  let ?e = "\<lparr> ec_schedular = sched, ec_fiber = fiber, ec_cb = None \<rparr>"
  let ?m = "arm fd event ?e m"
  have len: "int (length (m_fdContexts m)) > fd" using assms(4) by (auto simp: valid_fd_def)
  then have g: "grow fd m = m" by (simp add: grow_def)
  have add: "io_block_event 0 sched fiber fd event m = Inr (?m, 0)" "iom_inv ?m"
    using addEvent_ok [OF assms(1-3), of sched None fiber EXEC 0] len g assms(5-7)
    by (simp_all add: io_block_event_def)
  note al = arm_lookup [OF assms(4,3), of ?e]
  have sch: "io_scheds ?m = io_scheds m"
    "fc_events (m_fdContexts ?m ! nat fd) = fc_events (m_fdContexts m ! nat fd) OR event"
    using assms(4) by (simp_all add: arm_def set_fd_ctx_def setContext_def valid_fd_def Let_def)
  have fire: "io_timeout_cb 0 fd event (Some 0) ?m = Inr (Some ETIMEDOUT, fire fd event ?m)" "iom_inv (fire fd event ?m)"
    using cancelEvent_ok [OF add(2) assms(3) al(3), of 0] al(1) by (simp_all add: io_timeout_cb_def)
  have "io_scheds (fire fd event ?m) = push_task sched (FT_fiber fiber (- 1)) (io_scheds m)"
    by (simp add: fire_def Let_def al(2) waiting_def sch)
  then show ?thesis using add al sch fire by blast
qed

text \<open>
  The timeout of a waiting call. When the timer fires after the fiber registered its event, the
  event is removed and the fiber is appended once to the queue of its scheduler, with \<open>ETIMEDOUT\<close> for
  it to find; the timer does nothing when the call has returned or was already cancelled. When the
  timer fires before the event is added, the cancellation finds nothing: the event is added
  afterwards, no task is queued, and the one-shot timer is gone.
\<close>

theorem io_timeout_effect:
  assumes "iom_inv m" "0 \<le> fd" "event \<in> {EV_READ, EV_WRITE}" "valid_fd fd m" "\<not> armed_at fd event m"
    and "sched \<in> dom (io_scheds m)" "fiber \<noteq> nullptr"
  shows "(\<exists>m1 m2. io_block_event 0 sched fiber fd event m = Inr (m1, 0) \<and> armed_at fd event m1 \<and>
      io_timeout_cb 0 fd event (Some 0) m1 = Inr (Some ETIMEDOUT, m2) \<and> iom_inv m2 \<and>
      io_scheds m2 = push_task sched (FT_fiber fiber (- 1)) (io_scheds m)) \<and>
    (\<forall>k. k \<noteq> 0 \<longrightarrow> io_timeout_cb 0 fd event (Some k) m = Inr (Some k, m)) \<and>
    io_timeout_cb 0 fd event None m = Inr (None, m) \<and>
    (\<exists>m1. io_timeout_cb 0 fd event (Some 0) m = Inr (Some ETIMEDOUT, m) \<and>
      io_block_event 0 sched fiber fd event m = Inr (m1, 0) \<and> armed_at fd event m1 \<and> io_scheds m1 = io_scheds m)"
proof -
  obtain m1 where m1: "io_block_event 0 sched fiber fd event m = Inr (m1, 0)" "armed_at fd event m1"
      "io_scheds m1 = io_scheds m" "io_timeout_cb 0 fd event (Some 0) m1 = Inr (Some ETIMEDOUT, fire fd event m1)"
      "iom_inv (fire fd event m1)"
      "io_scheds (fire fd event m1) = push_task sched (FT_fiber fiber (- 1)) (io_scheds m)"
    using io_block_fires [OF assms] by blast
  have "\<exists>m1 m2. io_block_event 0 sched fiber fd event m = Inr (m1, 0) \<and> armed_at fd event m1 \<and>
      io_timeout_cb 0 fd event (Some 0) m1 = Inr (Some ETIMEDOUT, m2) \<and> iom_inv m2 \<and>
      io_scheds m2 = push_task sched (FT_fiber fiber (- 1)) (io_scheds m)"
    using m1 by blast
  moreover have "io_timeout_cb 0 fd event (Some 0) m = Inr (Some ETIMEDOUT, m)"
    using cancelEvent_ok(1) [OF assms(1,3,4), of 0] assms(5) by (simp add: io_timeout_cb_def)
  then have "\<exists>m1. io_timeout_cb 0 fd event (Some 0) m = Inr (Some ETIMEDOUT, m) \<and>
      io_block_event 0 sched fiber fd event m = Inr (m1, 0) \<and> armed_at fd event m1 \<and> io_scheds m1 = io_scheds m"
    using m1(1-3) by blast
  ultimately show ?thesis by (simp add: io_timeout_cb_def)
qed

theorem io_timeout_effect_witness:
  "\<exists>m1 m2. io_block_event 0 1 77 7 EV_READ demo_iom = Inr (m1, 0) \<and>
     io_timeout_cb 0 7 EV_READ (Some 0) m1 = Inr (Some ETIMEDOUT, m2) \<and>
     io_scheds m2 = push_task 1 (FT_fiber 77 (- 1)) (io_scheds demo_iom)"
proof -
  have "valid_fd 7 demo_iom" "\<not> armed_at 7 EV_READ demo_iom" "1 \<in> dom (io_scheds demo_iom)"
    by (simp_all add: demo_iom_def contextResize_def armed_at_def armed_def new_FdContext_def valid_fd_def)
  then show ?thesis
    using io_timeout_effect [OF demo_iom_inv, of 7 EV_READ 1 77] by simp blast
qed

subsection \<open>The original functions\<close>

text \<open>
  The pointers \<open>name_f\<close> to the functions that are hooked, null before the start-up code of \<open>hook.cpp\<close> runs.
  \<open>dlsym\<close> finds a symbol in the libraries that come after the program. \<open>is_init\<close> is never set.
\<close>

type_synonym symbols = "string \<rightharpoonup> ptr"

definition HOOK_Fun :: "string list" where
  "HOOK_Fun = [''sleep'', ''usleep'', ''nanosleep'', ''socket'', ''connect'', ''accept'', ''read'', ''readv'', ''recv'', ''recvfrom'',
     ''recvmsg'', ''write'', ''writev'', ''send'', ''sendto'', ''sendmsg'', ''close'', ''fcntl'', ''ioctl'', ''getsockopt'', ''setsockopt'']"

definition symbols0 :: symbols where
  "symbols0 = Map.empty"

definition init_symbols :: "(string \<Rightarrow> ptr option) \<Rightarrow> bool \<times> symbols \<Rightarrow> bool \<times> symbols" where
  "init_symbols dlsym = (\<lambda>(is_init, fs). if is_init then (is_init, fs) else (is_init, fold (\<lambda>name fs. fs(name := dlsym name)) HOOK_Fun fs))"

definition call_symbol :: "string \<Rightarrow> symbols \<Rightarrow> ptr res" where
  "call_symbol name fs = (case fs name of None \<Rightarrow> Inl (Undefined ''call of a null pointer'') | Some f \<Rightarrow> Inr f)"

lemma fold_symbols: "fold (\<lambda>name fs. fs(name := f name)) names fs = (\<lambda>n. if n \<in> set names then f n else fs n)"
  by (induction names arbitrary: fs) auto

text \<open>
  Every hooked function reaches the function it replaces once the start-up code has run, and calls
  a null pointer before. Running the start-up code again repeats the lookups and finds the same functions.
\<close>

theorem hook_symbols:
  assumes "\<And>name. name \<in> set HOOK_Fun \<Longrightarrow> dlsym name \<noteq> None"
  shows "name \<in> set HOOK_Fun \<Longrightarrow> \<exists>f. dlsym name = Some f \<and> call_symbol name (snd (init_symbols dlsym (False, symbols0))) = Inr f"
    and "call_symbol name symbols0 = Inl (Undefined ''call of a null pointer'')"
    and "init_symbols dlsym (init_symbols dlsym (False, symbols0)) = init_symbols dlsym (False, symbols0)"
  using assms [of name] by (auto simp: init_symbols_def fold_symbols call_symbol_def symbols0_def)

end
