(* ===== verification/Endian.thy ===== *)
theory Endian
  imports Prelude
begin

section \<open>Byte order (Endian.h)\<close>

text \<open>
  The three overloads of \<open>byteswap\<close>, one per width, over the byte reversals of
  \<open><byteswap.h>\<close>, and the two conversions that depend on the byte order the header is compiled
  for. The byte order is an argument, so both branches of the preprocessor conditional are
  modelled.
\<close>

datatype byte_order = Little_Endian | Big_Endian

subsection \<open>Words as bytes\<close>

text \<open>The bytes of a word, least significant first, and the word of such a list.\<close>

definition to_bytes :: "nat \<Rightarrow> 'a::len word \<Rightarrow> u8 list" where
  "to_bytes n x = map (\<lambda>i. ucast (drop_bit (8 * i) x)) [0..<n]"

fun of_bytes :: "u8 list \<Rightarrow> 'a::len word" where
  "of_bytes [] = 0"
| "of_bytes (b # bs) = ucast b OR push_bit 8 (of_bytes bs)"

text \<open>\<open>bswap_16\<close>, \<open>bswap_32\<close>, \<open>bswap_64\<close>: the value with its bytes in reverse order.\<close>

definition bswap_16 :: "u16 \<Rightarrow> u16" where
  "bswap_16 x = of_bytes (rev (to_bytes 2 x))"

definition bswap_32 :: "u32 \<Rightarrow> u32" where
  "bswap_32 x = of_bytes (rev (to_bytes 4 x))"

definition bswap_64 :: "u64 \<Rightarrow> u64" where
  "bswap_64 x = of_bytes (rev (to_bytes 8 x))"

subsection \<open>byteswap and the conditional conversions\<close>

definition byteswap64 :: "u64 \<Rightarrow> u64" where
  "byteswap64 v = bswap_64 v"

definition byteswap32 :: "u32 \<Rightarrow> u32" where
  "byteswap32 v = bswap_32 v"

definition byteswap16 :: "u16 \<Rightarrow> u16" where
  "byteswap16 v = bswap_16 v"

definition byteswapOnLittleEndian16 :: "byte_order \<Rightarrow> u16 \<Rightarrow> u16" where
  "byteswapOnLittleEndian16 bo t = (case bo of Big_Endian \<Rightarrow> t | Little_Endian \<Rightarrow> byteswap16 t)"

definition byteswapOnLittleEndian32 :: "byte_order \<Rightarrow> u32 \<Rightarrow> u32" where
  "byteswapOnLittleEndian32 bo t = (case bo of Big_Endian \<Rightarrow> t | Little_Endian \<Rightarrow> byteswap32 t)"

definition byteswapOnLittleEndian64 :: "byte_order \<Rightarrow> u64 \<Rightarrow> u64" where
  "byteswapOnLittleEndian64 bo t = (case bo of Big_Endian \<Rightarrow> t | Little_Endian \<Rightarrow> byteswap64 t)"

definition byteswapOnBigEndian16 :: "byte_order \<Rightarrow> u16 \<Rightarrow> u16" where
  "byteswapOnBigEndian16 bo t = (case bo of Big_Endian \<Rightarrow> byteswap16 t | Little_Endian \<Rightarrow> t)"

definition byteswapOnBigEndian32 :: "byte_order \<Rightarrow> u32 \<Rightarrow> u32" where
  "byteswapOnBigEndian32 bo t = (case bo of Big_Endian \<Rightarrow> byteswap32 t | Little_Endian \<Rightarrow> t)"

definition byteswapOnBigEndian64 :: "byte_order \<Rightarrow> u64 \<Rightarrow> u64" where
  "byteswapOnBigEndian64 bo t = (case bo of Big_Endian \<Rightarrow> byteswap64 t | Little_Endian \<Rightarrow> t)"

lemmas byteswap_defs =
  byteswap16_def byteswap32_def byteswap64_def
  byteswapOnLittleEndian16_def byteswapOnLittleEndian32_def byteswapOnLittleEndian64_def
  byteswapOnBigEndian16_def byteswapOnBigEndian32_def byteswapOnBigEndian64_def

subsection \<open>Bits of a reversed word\<close>

lemma length_to_bytes [simp]: "length (to_bytes n x) = n"
  by (simp add: to_bytes_def)

lemma to_bytes_nth: "i < n \<Longrightarrow> to_bytes n x ! i = ucast (drop_bit (8 * i) x)"
  by (simp add: to_bytes_def)

lemma bit_of_bytes:
  "bit (of_bytes bs :: 'a::len word) k \<longleftrightarrow>
     k < LENGTH('a) \<and> k < 8 * length bs \<and> bit (bs ! (k div 8)) (k mod 8)"
proof (induction bs arbitrary: k)
  case (Cons b bs)
  show ?case
  proof (cases "k < 8")
    case True
    then show ?thesis by (auto simp: bit_simps)
  next
    case False
    then obtain j where k: "k = j + 8"
      using le_Suc_ex [of 8 k] by (auto simp: not_less add.commute)
    have "\<not> bit b k" using False bit_imp_le_length [of b k] by fastforce
    moreover have "(j + 8) div 8 = Suc (j div 8)" by simp
    ultimately show ?thesis using Cons.IH [of j] by (auto simp: k bit_simps)
  qed
qed simp

lemma bit_rev_bytes:
  assumes "LENGTH('a::len) = 8 * n"
  shows "bit (of_bytes (rev (to_bytes n x)) :: 'a word) k \<longleftrightarrow>
    k < 8 * n \<and> bit (x :: 'a word) (8 * (n - Suc (k div 8)) + k mod 8)"
proof (cases "k < 8 * n")
  case True
  then have "k div 8 < n" by (simp add: div_less_iff_less_mult mult.commute)
  then show ?thesis
    using True assms by (auto simp: bit_of_bytes rev_nth to_bytes_nth bit_simps)
qed (simp add: bit_of_bytes assms)

lemma bytes_rev_twice:
  assumes "LENGTH('a::len) = 8 * n"
  shows "of_bytes (rev (to_bytes n (of_bytes (rev (to_bytes n x)) :: 'a word))) = (x :: 'a word)"
proof (rule bit_word_eqI)
  fix k assume "k < LENGTH('a)"
  then have k: "k < 8 * n" "k div 8 < n"
    using assms by (simp_all add: div_less_iff_less_mult mult.commute)
  let ?j = "8 * (n - Suc (k div 8)) + k mod 8"
  have "n - Suc (k div 8) < n" using k by arith
  then have "?j < 8 * n" "8 * (n - Suc (?j div 8)) + ?j mod 8 = k"
    using k by (simp_all add: Suc_diff_Suc)
  then show "bit (of_bytes (rev (to_bytes n (of_bytes (rev (to_bytes n x)) :: 'a word))) :: 'a word) k = bit x k"
    using k(1) by (simp add: bit_rev_bytes [OF assms])
qed

lemma to_of_bytes:
  assumes "length bs = n" "8 * n \<le> LENGTH('a::len)"
  shows "to_bytes n (of_bytes bs :: 'a word) = bs"
proof (rule nth_equalityI)
  fix i assume "i < length (to_bytes n (of_bytes bs :: 'a word))"
  then have i: "i < n" by simp
  show "to_bytes n (of_bytes bs :: 'a word) ! i = bs ! i"
  proof (rule bit_word_eqI)
    fix k assume "k < LENGTH(8)"
    moreover from this have "(8 * i + k) div 8 = i" "(8 * i + k) mod 8 = k" "8 * i + k < 8 * n"
      using i by auto
    ultimately show "bit (to_bytes n (of_bytes bs :: 'a word) ! i) k = bit (bs ! i) k"
      using i assms by (simp add: to_bytes_nth bit_simps bit_of_bytes)
  qed
qed (simp add: assms)

lemma of_to_bytes:
  assumes "LENGTH('a::len) = 8 * n"
  shows "of_bytes (to_bytes n x) = (x :: 'a word)"
proof (rule bit_word_eqI)
  fix k assume "k < LENGTH('a)"
  then have "k < 8 * n" "k div 8 < n"
    using assms by (simp_all add: div_less_iff_less_mult mult.commute)
  then show "bit (of_bytes (to_bytes n x) :: 'a word) k = bit x k"
    using \<open>k < LENGTH('a)\<close> by (simp add: bit_of_bytes to_bytes_nth bit_simps)
qed

text \<open>How a word lies in memory, lowest address first, and the word read from there.\<close>

definition store :: "byte_order \<Rightarrow> nat \<Rightarrow> 'a::len word \<Rightarrow> u8 list" where
  "store bo n x = (case bo of Little_Endian \<Rightarrow> to_bytes n x | Big_Endian \<Rightarrow> rev (to_bytes n x))"

definition load :: "byte_order \<Rightarrow> u8 list \<Rightarrow> 'a::len word" where
  "load bo bs = (case bo of Little_Endian \<Rightarrow> of_bytes bs | Big_Endian \<Rightarrow> of_bytes (rev bs))"

lemma load_store: "LENGTH('a::len) = 8 * n \<Longrightarrow> load bo (store bo n x) = (x :: 'a word)"
  by (cases bo) (simp_all add: load_def store_def of_to_bytes)

lemma length_store [simp]: "length (store bo n x) = n"
  by (simp add: store_def split: byte_order.split)

lemma bswap_twice [simp]:
  "bswap_16 (bswap_16 x16) = x16" "bswap_32 (bswap_32 x32) = x32" "bswap_64 (bswap_64 x64) = x64"
  by (simp_all add: bswap_16_def bswap_32_def bswap_64_def bytes_rev_twice)

lemma to_bytes_bswap [simp]:
  "to_bytes 2 (bswap_16 x16) = rev (to_bytes 2 x16)"
  "to_bytes 4 (bswap_32 x32) = rev (to_bytes 4 x32)"
  "to_bytes 8 (bswap_64 x64) = rev (to_bytes 8 x64)"
  by (simp_all add: bswap_16_def bswap_32_def bswap_64_def to_of_bytes)

lemma bit_bswap_32: "bit (bswap_32 x) k \<longleftrightarrow> k < 32 \<and> bit x (8 * (3 - k div 8) + k mod 8)"
  using bit_rev_bytes [of 4 x k] by (simp add: bswap_32_def)

text \<open>Reversal commutes with the bitwise operations.\<close>

lemma bswap_32_bitwise:
  "bswap_32 (x OR y) = bswap_32 x OR bswap_32 y"
  "bswap_32 (x AND y) = bswap_32 x AND bswap_32 y"
proof -
  show "bswap_32 (x OR y) = bswap_32 x OR bswap_32 y"
    and "bswap_32 (x AND y) = bswap_32 x AND bswap_32 y"
    by (rule bit_word_eqI; simp add: bit_bswap_32 bit_simps; fail)+
qed

lemma bswap_32_not: "bswap_32 (NOT x) = NOT (bswap_32 x)"
proof (rule bit_word_eqI)
  fix k assume "k < LENGTH(32)"
  moreover have "8 * (3 - k div 8) + k mod 8 < 32"
    using mod_less_divisor [of 8 k] by linarith
  ultimately show "bit (bswap_32 (NOT x)) k = bit (NOT (bswap_32 x)) k"
    by (simp add: bit_bswap_32 bit_simps)
qed

lemma byteswapOnLittleEndian32_simps [simp]:
  "byteswapOnLittleEndian32 bo (byteswapOnLittleEndian32 bo x) = x"
  "byteswapOnLittleEndian32 bo (x OR y) = byteswapOnLittleEndian32 bo x OR byteswapOnLittleEndian32 bo y"
  "byteswapOnLittleEndian32 bo (x AND y) = byteswapOnLittleEndian32 bo x AND byteswapOnLittleEndian32 bo y"
  "byteswapOnLittleEndian32 bo (NOT x) = NOT (byteswapOnLittleEndian32 bo x)"
  by (cases bo; simp add: byteswap_defs bswap_32_bitwise bswap_32_not)+

lemma byteswapOnLittleEndian16_twice [simp]:
  "byteswapOnLittleEndian16 bo (byteswapOnLittleEndian16 bo p) = p"
  by (cases bo) (simp_all add: byteswap_defs)

text \<open>
  On a host of either byte order, storing byteswapOnLittleEndian of a value puts its bytes
  in network order (most significant first), storing byteswapOnBigEndian puts the least
  significant byte first, and each conversion undoes itself, at all three widths.
\<close>

theorem byteswap_gives_network_order:
  "store bo 2 (byteswapOnLittleEndian16 bo x16) = rev (to_bytes 2 x16) \<and>
   store bo 4 (byteswapOnLittleEndian32 bo x32) = rev (to_bytes 4 x32) \<and>
   store bo 8 (byteswapOnLittleEndian64 bo x64) = rev (to_bytes 8 x64) \<and>
   store bo 2 (byteswapOnBigEndian16 bo x16) = to_bytes 2 x16 \<and>
   store bo 4 (byteswapOnBigEndian32 bo x32) = to_bytes 4 x32 \<and>
   store bo 8 (byteswapOnBigEndian64 bo x64) = to_bytes 8 x64 \<and>
   byteswapOnLittleEndian16 bo (byteswapOnLittleEndian16 bo x16) = x16 \<and>
   byteswapOnLittleEndian32 bo (byteswapOnLittleEndian32 bo x32) = x32 \<and>
   byteswapOnLittleEndian64 bo (byteswapOnLittleEndian64 bo x64) = x64 \<and>
   byteswapOnBigEndian16 bo (byteswapOnBigEndian16 bo x16) = x16 \<and>
   byteswapOnBigEndian32 bo (byteswapOnBigEndian32 bo x32) = x32 \<and>
   byteswapOnBigEndian64 bo (byteswapOnBigEndian64 bo x64) = x64"
  by (cases bo) (simp_all add: store_def byteswap_defs)

end
