(* ===== verification/Address.thy ===== *)
theory Address
  imports Endian Text
begin

section \<open>Socket addresses (address.h, address.cpp)\<close>

text \<open>
  The four address classes over the \<open>sockaddr\<close> structures they wrap, with every field at its
  width and the multi-byte fields as the host holds them (\<open>sin_port\<close>, \<open>s_addr\<close> are stored in
  network order, so their host value depends on the byte order, an argument). The virtual
  functions dispatch on the constructor of the datatype \<open>address\<close>. The lookup
  functions of the same file are in the theory \<open>Address_Lookup\<close>.
\<close>

abbreviation (input) AF_UNSPEC :: u16 where "AF_UNSPEC \<equiv> 0"
abbreviation (input) AF_UNIX :: u16 where "AF_UNIX \<equiv> 1"
abbreviation (input) AF_INET :: u16 where "AF_INET \<equiv> 2"
abbreviation (input) AF_INET6 :: u16 where "AF_INET6 \<equiv> 10"

record sockaddr_in =
  sin_family :: u16
  sin_port :: u16
  s_addr :: u32
  sin_zero :: "u8 list"

record sockaddr_in6 =
  sin6_family :: u16
  sin6_port :: u16
  sin6_flowinfo :: u32
  s6_addr :: "u8 list"
  sin6_scope_id :: u32

record sockaddr_un =
  sun_family :: u16
  sun_path :: string

record sockaddr =
  sa_family :: u16
  sa_data :: "u8 list"

datatype address =
    IPv4Address sockaddr_in
  | IPv6Address sockaddr_in6
  | UnixAddress sockaddr_un u32
  | UnknownAddress sockaddr

subsection \<open>CreateMask and CountBytes\<close>

text \<open>
  \<open>(1 << (sizeof(T) * 8 - bits)) - 1\<close> is computed in \<open>int\<close>: the shift count is an unsigned
  64-bit difference, a count of 32 or more is undefined, and at 31 the subtraction overflows.
\<close>

definition shift_mask :: "u64 \<Rightarrow> int res" where
  "shift_mask count =
     (if count \<ge> 31 then Inl (Undefined ''shift or overflow in CreateMask'')
      else Inr (2 ^ unat count - 1))"

definition CreateMask32 :: "u32 \<Rightarrow> u32 res" where
  "CreateMask32 bits = rbind (shift_mask (4 * 8 - ucast bits)) (\<lambda>m. Inr (word_of_int m))"

definition CreateMask8 :: "u32 \<Rightarrow> u8 res" where
  "CreateMask8 bits = rbind (shift_mask (1 * 8 - ucast bits)) (\<lambda>m. Inr (word_of_int m))"

function CountBytes_loop :: "'a::len word \<Rightarrow> u32 \<Rightarrow> u32" where
  "CountBytes_loop v result =
     (if v = 0 then result else CountBytes_loop (v AND (v - 1)) (result + 1))"
  by pat_completeness auto
termination
proof (relation "measure (\<lambda>(v, _). unat v)")
  fix v :: "'a word" and result :: u32
  assume "v \<noteq> 0"
  have "v AND (v - 1) \<le> v - 1" by (rule word_and_le1)
  also have "v - 1 < v"
    using \<open>v \<noteq> 0\<close> by (simp add: word_less_nat_alt unat_minus_one unat_gt_0)
  finally show "((v AND (v - 1), result + 1), (v, result)) \<in> measure (\<lambda>(v, _). unat v)"
    by (simp add: word_less_nat_alt)
qed simp

declare CountBytes_loop.simps [simp del]

definition CountBytes :: "'a::len word \<Rightarrow> u32" where
  "CountBytes v = CountBytes_loop v 0"

text \<open>The number of set bits, by which the loop is specified.\<close>

fun pop_count :: "nat \<Rightarrow> nat" where
  "pop_count n = (if n = 0 then 0 else n mod 2 + pop_count (n div 2))"

declare pop_count.simps [simp del]

lemma pop_count_simps [simp]:
  "pop_count 0 = 0" "pop_count (2 * n) = pop_count n" "pop_count (Suc (2 * n)) = Suc (pop_count n)"
  by (simp_all add: pop_count.simps [of "2 * n"] pop_count.simps [of "Suc (2 * n)"]
      pop_count.simps [of 0])

text \<open>Clearing the lowest set bit: the step of the loop.\<close>

lemma pop_count_clear_lowest: "0 < n \<Longrightarrow> Suc (pop_count (and n (n - 1))) = pop_count n"
proof (induction n rule: less_induct)
  case (less n)
  show ?case
  proof (cases "even n")
    case True
    then obtain m where m: "n = 2 * m" by (elim evenE)
    with less.prems have "0 < m" by simp
    then have "n - 1 = Suc (2 * (m - 1))" using m by simp
    then have "and n (n - 1) = 2 * and m (m - 1)"
      by (simp add: m and_rec [of "2 * m"])
    then show ?thesis using less.IH [of m] \<open>0 < m\<close> m by simp
  next
    case False
    then obtain m where m: "n = Suc (2 * m)" by (auto elim: oddE)
    then have "and n (n - 1) = 2 * m"
      by (simp add: and_rec [of "Suc (2 * m)"])
    then show ?thesis using m by simp
  qed
qed

lemma CountBytes_loop_eq: "CountBytes_loop v r = r + of_nat (pop_count (unat v))"
proof (induction v r rule: CountBytes_loop.induct)
  case (1 v r)
  show ?case
  proof (cases "v = 0")
    case False
    then have "0 < unat v" by (simp add: unat_gt_0)
    have "unat (v AND (v - 1)) = and (unat v) (unat v - 1)"
      using False by (simp add: unsigned_and_eq unat_minus_one)
    then have "pop_count (unat v) = Suc (pop_count (unat (v AND (v - 1))))"
      using pop_count_clear_lowest [OF \<open>0 < unat v\<close>] by simp
    then show ?thesis
      using False 1 by (subst CountBytes_loop.simps) simp
  qed (simp add: CountBytes_loop.simps)
qed

lemma pop_count_mask: "pop_count (2 ^ n - 1) = n"
proof (induction n)
  case (Suc n)
  have "(2::nat) ^ Suc n - 1 = Suc (2 * (2 ^ n - 1))"
    by (cases "(2::nat) ^ n") simp_all
  then show ?case using Suc by simp
qed simp

lemma pop_count_shift: "pop_count (2 ^ k * n) = pop_count n"
  by (induction k) (simp_all add: mult.assoc)

lemma CountBytes_netmask:
  assumes "p \<le> 32"
  shows "CountBytes (NOT (mask (32 - p)) :: u32) = of_nat p"
proof -
  have m: "unat (mask (32 - p) :: u32) = 2 ^ (32 - p) - 1" "(2::nat) ^ (32 - p) - 1 \<le> 2 ^ 32 - 1"
    using diff_le_mono [OF power_increasing [of "32 - p" 32 "2::nat"], of 1]
    by (simp_all add: unat_mask_word)
  have "unat (NOT (mask (32 - p)) :: u32) = unat (- 1 - mask (32 - p) :: u32)"
    by (simp only: not_eq_complement minus_diff_commute)
  also have "\<dots> = 2 ^ 32 - 1 - (2 ^ (32 - p) - 1)"
    using m by (subst unat_sub)
      (simp_all add: word_le_nat_alt unsigned_minus_1_eq_mask mask_eq_exp_minus_1)
  also have "\<dots> = 2 ^ (32 - p) * (2 ^ p - 1)"
    using assms by (simp add: algebra_simps flip: power_add)
  finally show ?thesis
    by (simp only: CountBytes_def CountBytes_loop_eq pop_count_shift pop_count_mask add_0)
qed

text \<open>
  C40. CountBytes stops on every value and returns its number of one bits, at any width; on a
  contiguous netmask of p ones followed by zeros that is the prefix length p.
\<close>

theorem CountBytes_counts_ones:
  "CountBytes (v :: 'a::len word) = of_nat (pop_count (unat v)) \<and>
   (p \<le> 32 \<longrightarrow> CountBytes (NOT (mask (32 - p)) :: u32) = of_nat p)"
  by (simp add: CountBytes_netmask) (simp add: CountBytes_def CountBytes_loop_eq)

theorem CountBytes_counts_ones_witness:
  "(24::nat) \<le> 32 \<and> CountBytes (NOT (mask (32 - 24)) :: u32) = 24"
  using CountBytes_counts_ones [of "0::u32" 24] by auto

subsection \<open>The socket address as memory\<close>

text \<open>
  \<open>getAddr\<close> is the object's \<open>sockaddr\<close> structure, byte by byte in memory order;
  \<open>getAddrLen\<close> its length.
\<close>

fun getAddr :: "byte_order \<Rightarrow> address \<Rightarrow> u8 list" where
  "getAddr bo (IPv4Address a) =
     store bo 2 (sin_family a) @ store bo 2 (sin_port a) @ store bo 4 (s_addr a) @ sin_zero a"
| "getAddr bo (IPv6Address a) =
     store bo 2 (sin6_family a) @ store bo 2 (sin6_port a) @ store bo 4 (sin6_flowinfo a) @
     s6_addr a @ store bo 4 (sin6_scope_id a)"
| "getAddr bo (UnixAddress a len) = store bo 2 (sun_family a) @ map of_char (sun_path a)"
| "getAddr bo (UnknownAddress a) = store bo 2 (sa_family a) @ sa_data a"

fun getAddrLen :: "address \<Rightarrow> u32" where
  "getAddrLen (IPv4Address a) = 16"
| "getAddrLen (IPv6Address a) = 28"
| "getAddrLen (UnixAddress a len) = len"
| "getAddrLen (UnknownAddress a) = 16"

fun getFamily :: "address \<Rightarrow> u16" where
  "getFamily (IPv4Address a) = sin_family a"
| "getFamily (IPv6Address a) = sin6_family a"
| "getFamily (UnixAddress a len) = sun_family a"
| "getFamily (UnknownAddress a) = sa_family a"

text \<open>
  The sizes the structures have in C, and for a Unix address a length that stays inside the
  structure (\<open>setAddlen\<close> takes any value).
\<close>

fun wf_address :: "address \<Rightarrow> bool" where
  "wf_address (IPv4Address a) = (length (sin_zero a) = 8)"
| "wf_address (IPv6Address a) = (length (s6_addr a) = 16)"
| "wf_address (UnixAddress a len) = (length (sun_path a) = 108 \<and> len \<le> 110)"
| "wf_address (UnknownAddress a) = (length (sa_data a) = 14)"

subsection \<open>IPv4Address\<close>

definition IPv4Address_ctor :: "byte_order \<Rightarrow> u32 \<Rightarrow> u16 \<Rightarrow> sockaddr_in" where
  "IPv4Address_ctor bo addr port =
     \<lparr> sin_family = AF_INET,
       sin_port = byteswapOnLittleEndian16 bo port,
       s_addr = byteswapOnLittleEndian32 bo addr,
       sin_zero = replicate 8 0 \<rparr>"

definition IPv4_insert :: "byte_order \<Rightarrow> sockaddr_in \<Rightarrow> string" where
  "IPv4_insert bo a =
     (let addr = s_addr a in
      show_nat (unat (drop_bit 24 addr AND 0xff)) @ ''.'' @
      show_nat (unat (drop_bit 16 addr AND 0xff)) @ ''.'' @
      show_nat (unat (drop_bit 8 addr AND 0xff)) @ ''.'' @
      show_nat (unat (addr AND 0xff)) @
      '':'' @ show_nat (unat (byteswapOnLittleEndian16 bo (sin_port a))))"

definition IPv4_broadcastAddress :: "byte_order \<Rightarrow> sockaddr_in \<Rightarrow> u32 \<Rightarrow> sockaddr_in option res" where
  "IPv4_broadcastAddress bo a prefix_len =
     (if prefix_len > 32 then Inr None
      else rbind (CreateMask32 prefix_len) (\<lambda>m.
        Inr (Some (a\<lparr>s_addr := s_addr a OR byteswapOnLittleEndian32 bo m\<rparr>))))"

definition IPv4_networdAddress :: "byte_order \<Rightarrow> sockaddr_in \<Rightarrow> u32 \<Rightarrow> sockaddr_in option res" where
  "IPv4_networdAddress bo a prefix_len =
     (if prefix_len > 32 then Inr None
      else rbind (CreateMask32 prefix_len) (\<lambda>m.
        Inr (Some (a\<lparr>s_addr := s_addr a AND NOT (byteswapOnLittleEndian32 bo m)\<rparr>))))"

definition IPv4_subnetMask :: "byte_order \<Rightarrow> u32 \<Rightarrow> sockaddr_in option res" where
  "IPv4_subnetMask bo prefix_len =
     rbind (CreateMask32 prefix_len) (\<lambda>m.
       Inr (Some \<lparr> sin_family = AF_INET, sin_port = 0,
                   s_addr = NOT (byteswapOnLittleEndian32 bo m), sin_zero = replicate 8 0 \<rparr>))"

definition IPv4_getPort :: "byte_order \<Rightarrow> sockaddr_in \<Rightarrow> u32" where
  "IPv4_getPort bo a = ucast (byteswapOnLittleEndian16 bo (sin_port a))"

definition IPv4_setPort :: "byte_order \<Rightarrow> u16 \<Rightarrow> sockaddr_in \<Rightarrow> sockaddr_in" where
  "IPv4_setPort bo v a = a\<lparr>sin_port := byteswapOnLittleEndian16 bo v\<rparr>"

subsection \<open>IPv6Address\<close>

definition IPv6Address_default :: sockaddr_in6 where
  "IPv6Address_default =
     \<lparr> sin6_family = AF_INET6, sin6_port = 0, sin6_flowinfo = 0, s6_addr = replicate 16 0,
       sin6_scope_id = 0 \<rparr>"

definition IPv6Address_ctor :: "byte_order \<Rightarrow> u8 list \<Rightarrow> u16 \<Rightarrow> sockaddr_in6" where
  "IPv6Address_ctor bo addr port =
     IPv6Address_default\<lparr>sin6_port := byteswapOnLittleEndian16 bo port, s6_addr := take 16 addr\<rparr>"

text \<open>\<open>data[i]\<close>: two bytes of the address read as a host integer.\<close>

definition load16 :: "byte_order \<Rightarrow> u8 list \<Rightarrow> nat \<Rightarrow> u16" where
  "load16 bo bytes i =
     (let bs = [bytes ! (2 * i), bytes ! (2 * i + 1)] in
      case bo of Little_Endian \<Rightarrow> of_bytes bs | Big_Endian \<Rightarrow> of_bytes (rev bs))"

text \<open>One turn of the printing loop: the text so far and \<open>used_Zero\<close>.\<close>

definition IPv6_insert_step :: "byte_order \<Rightarrow> u16 list \<Rightarrow> nat \<Rightarrow> string \<times> bool \<Rightarrow> string \<times> bool" where
  "IPv6_insert_step bo dat i = (\<lambda>(os, used_Zero).
     if dat ! i = 0 \<and> \<not> used_Zero then (os, used_Zero)
     else
       let (os, used_Zero) =
             (if i \<noteq> 0 \<and> dat ! (i - 1) = 0 \<and> \<not> used_Zero then (os @ '':'', True)
              else (os, used_Zero));
           os = (if i \<noteq> 0 then os @ '':'' else os)
       in (os @ show_base 16 (unat (byteswapOnLittleEndian16 bo (dat ! i))), used_Zero))"

definition IPv6_insert :: "byte_order \<Rightarrow> sockaddr_in6 \<Rightarrow> string" where
  "IPv6_insert bo a =
     (let dat = map (load16 bo (s6_addr a)) [0..<8];
          (os, used_Zero) = fold (IPv6_insert_step bo dat) [0..<8] (''['', False);
          os = (if \<not> used_Zero \<and> dat ! 7 = 0 then os @ ''::'' else os)
      in os @ '']:'' @ show_nat (unat (byteswapOnLittleEndian16 bo (sin6_port a))))"

text \<open>
  The prefix operations index \<open>s6_addr\<close> by \<open>prefix_len / 8\<close> with no bound; the loops run from
  the next byte to the end.
\<close>

definition IPv6_broadcastAddress :: "sockaddr_in6 \<Rightarrow> u32 \<Rightarrow> sockaddr_in6 res" where
  "IPv6_broadcastAddress a prefix_len =
     (let k = unat prefix_len div 8 in
      rbind (CreateMask8 (prefix_len mod 8)) (\<lambda>m.
        if k \<ge> 16 then Inl (Undefined ''s6_addr index'')
        else
          let tmp = (s6_addr a)[k := s6_addr a ! k OR m];
              tmp = fold (\<lambda>i t. t[i := t ! i OR 0xff]) [k + 1..<16] tmp
          in Inr (a\<lparr>s6_addr := tmp\<rparr>)))"

definition IPv6_networdAddress :: "sockaddr_in6 \<Rightarrow> u32 \<Rightarrow> sockaddr_in6 res" where
  "IPv6_networdAddress a prefix_len =
     (let k = unat prefix_len div 8 in
      rbind (CreateMask8 (prefix_len mod 8)) (\<lambda>m.
        if k \<ge> 16 then Inl (Undefined ''s6_addr index'')
        else
          let tmp = (s6_addr a)[k := s6_addr a ! k AND NOT m];
              tmp = fold (\<lambda>i t. t[i := t ! i OR 0x00]) [k + 1..<16] tmp
          in Inr (a\<lparr>s6_addr := tmp\<rparr>)))"

definition IPv6_subnetMask :: "u32 \<Rightarrow> sockaddr_in6 res" where
  "IPv6_subnetMask prefix_len =
     (let k = unat prefix_len div 8 in
      rbind (CreateMask8 (prefix_len mod 8)) (\<lambda>m.
        if k \<ge> 16 then Inl (Undefined ''s6_addr index'')
        else
          let tmp = (replicate 16 0)[k := NOT m];
              tmp = fold (\<lambda>i t. t[i := 0xff]) [0..<k] tmp
          in Inr (IPv6Address_default\<lparr>s6_addr := tmp\<rparr>)))"

definition IPv6_getPort :: "byte_order \<Rightarrow> sockaddr_in6 \<Rightarrow> u32" where
  "IPv6_getPort bo a = ucast (byteswapOnLittleEndian16 bo (sin6_port a))"

definition IPv6_setPort :: "byte_order \<Rightarrow> u16 \<Rightarrow> sockaddr_in6 \<Rightarrow> sockaddr_in6" where
  "IPv6_setPort bo v a = a\<lparr>sin6_port := byteswapOnLittleEndian16 bo v\<rparr>"

subsection \<open>UnixAddress and UnknownAddress\<close>

text \<open>\<open>sun_path\<close> has 108 bytes and starts at offset 2 of the structure.\<close>

definition MAX_PATH_LEN :: nat where
  "MAX_PATH_LEN = 108 - 1"

definition UnixAddress_default :: "sockaddr_un \<times> u32" where
  "UnixAddress_default =
     (\<lparr> sun_family = AF_UNIX, sun_path = replicate 108 NUL \<rparr>, of_nat (2 + MAX_PATH_LEN))"

text \<open>
  \<open>m_length\<close> is a 32-bit \<open>socklen_t\<close>: the length of the path is converted to it.
  \<open>memcpy\<close> reads \<open>m_length\<close> bytes of \<open>path.c_str()\<close>, whose last byte is the terminator.
\<close>

definition UnixAddress_ctor :: "string \<Rightarrow> (sockaddr_un \<times> u32) res" where
  "UnixAddress_ctor path =
     (let m_length = of_nat (length path + 1) :: u32;
          m_length = (if path \<noteq> [] \<and> hd path = NUL then m_length - 1 else m_length)
      in if m_length > 108 then Inl (Logic_error ''path too long'')
         else
           let src = take (unat m_length) (path @ [NUL]);
               sun = src @ drop (length src) (replicate 108 NUL)
           in Inr (\<lparr> sun_family = AF_UNIX, sun_path = sun \<rparr>, m_length + 2))"

definition UnixAddress_setAddlen :: "u32 \<Rightarrow> sockaddr_un \<times> u32 \<Rightarrow> sockaddr_un \<times> u32" where
  "UnixAddress_setAddlen v = (\<lambda>(a, _). (a, v))"

text \<open>\<open>os << m_addr.sun_path\<close> reads up to a NUL, beyond the array when there is none.\<close>

definition UnixAddress_getPath :: "sockaddr_un \<times> u32 \<Rightarrow> string res" where
  "UnixAddress_getPath = (\<lambda>(a, m_length).
     if m_length > 2 \<and> sun_path a ! 0 = NUL then
       (if m_length - 2 - 1 > 107 then Inl (Undefined ''read past sun_path'')
        else Inr ([CHR 0x5C, CHR ''0''] @ take (unat (m_length - 2 - 1)) (drop 1 (sun_path a))))
     else if NUL \<in> set (sun_path a) then Inr (c_str (sun_path a))
     else Inl (Undefined ''read past sun_path''))"

definition UnixAddress_insert :: "sockaddr_un \<times> u32 \<Rightarrow> string res" where
  "UnixAddress_insert = (\<lambda>(a, m_length).
     if m_length > 2 \<and> sun_path a ! 0 = NUL then
       (if m_length - 2 - 1 > 107 then Inl (Undefined ''read past sun_path'')
        else Inr ([CHR 0x5C, CHR ''0''] @ take (unat (m_length - 2 - 1)) (drop 1 (sun_path a))))
     else if NUL \<in> set (sun_path a) then Inr (c_str (sun_path a))
     else Inl (Undefined ''read past sun_path''))"

text \<open>\<open>UnknownAddress(int family)\<close> leaves \<open>sa_data\<close> as the allocation holds it.\<close>

definition UnknownAddress_ctor :: "u8 list \<Rightarrow> u16 \<Rightarrow> sockaddr" where
  "UnknownAddress_ctor garbage family = \<lparr> sa_family = family, sa_data = garbage \<rparr>"

definition UnknownAddress_insert :: "sockaddr \<Rightarrow> string" where
  "UnknownAddress_insert a =
     ''[UnknownAddress family='' @ show_nat (unat (sa_family a)) @ '']''"

subsection \<open>Address\<close>

fun Address_insert :: "byte_order \<Rightarrow> address \<Rightarrow> string res" where
  "Address_insert bo (IPv4Address a) = Inr (IPv4_insert bo a)"
| "Address_insert bo (IPv6Address a) = Inr (IPv6_insert bo a)"
| "Address_insert bo (UnixAddress a len) = UnixAddress_insert (a, len)"
| "Address_insert bo (UnknownAddress a) = Inr (UnknownAddress_insert a)"

definition Address_toString :: "byte_order \<Rightarrow> address \<Rightarrow> string res" where
  "Address_toString bo a = rbind (Address_insert bo a) (\<lambda>ss. Inr ss)"

text \<open>\<open>memcmp\<close>: the sign of the first difference of the first \<open>n\<close> bytes.\<close>

fun mem_sign :: "u8 list \<Rightarrow> u8 list \<Rightarrow> int" where
  "mem_sign (x # xs) (y # ys) = (if x < y then - 1 else if y < x then 1 else mem_sign xs ys)"
| "mem_sign xs ys = 0"

definition memcmp :: "u8 list \<Rightarrow> u8 list \<Rightarrow> nat \<Rightarrow> int res" where
  "memcmp xs ys n =
     (if n > length xs \<or> n > length ys then Inl (Undefined ''memcmp past an object'')
      else Inr (mem_sign (take n xs) (take n ys)))"

definition Address_less :: "byte_order \<Rightarrow> address \<Rightarrow> address \<Rightarrow> bool res" where
  "Address_less bo a b =
     (let minlen = min (getAddrLen a) (getAddrLen b) in
      rbind (memcmp (getAddr bo a) (getAddr bo b) (unat minlen)) (\<lambda>res.
        if res < 0 then Inr True
        else if res > 0 then Inr False
        else if getAddrLen a < getAddrLen b then Inr True
        else Inr False))"

definition Address_eq :: "byte_order \<Rightarrow> address \<Rightarrow> address \<Rightarrow> bool res" where
  "Address_eq bo a b =
     (if getAddrLen a = getAddrLen b then
        rbind (memcmp (getAddr bo a) (getAddr bo b) (unat (getAddrLen a))) (\<lambda>res. Inr (res \<noteq> 0))
      else Inr False)"

definition Address_neq :: "byte_order \<Rightarrow> address \<Rightarrow> address \<Rightarrow> bool res" where
  "Address_neq bo a b = rbind (Address_eq bo a b) (\<lambda>e. Inr (\<not> e))"

subsection \<open>Order and equality\<close>

text \<open>
  The bytes an address compares by: the first \<open>getAddrLen\<close> of its structure. On well-formed
  addresses \<open>operator<\<close> is the lexicographic order of these regions.
\<close>

definition region :: "byte_order \<Rightarrow> address \<Rightarrow> u8 list" where
  "region bo a = take (unat (getAddrLen a)) (getAddr bo a)"

definition mem_less :: "u8 list \<Rightarrow> u8 list \<Rightarrow> bool" where
  "mem_less xs ys =
     (let n = min (length xs) (length ys); r = mem_sign (take n xs) (take n ys)
      in r < 0 \<or> (r = 0 \<and> length xs < length ys))"

lemma mem_less_simps [simp]:
  "\<not> mem_less xs []"
  "mem_less [] (y # ys)"
  "mem_less (x # xs) (y # ys) \<longleftrightarrow> x < y \<or> (x = y \<and> mem_less xs ys)"
  by (auto simp: mem_less_def Let_def)

lemma mem_less_lexordp: "mem_less xs ys \<longleftrightarrow> ord_class.lexordp xs ys"
  by (induction xs arbitrary: ys; case_tac ys) auto

lemma mem_less_linear: "mem_less xs ys \<or> xs = ys \<or> mem_less ys xs"
  by (simp add: mem_less_lexordp lexordp_linear)

interpretation al: total_comparator mem_less
proof
  show "\<not> mem_less x x" for x by (simp add: mem_less_lexordp lexordp_irreflexive')
  show "mem_less x y \<Longrightarrow> mem_less y z \<Longrightarrow> mem_less x z" for x y z
    unfolding mem_less_lexordp by (rule lexordp_trans)
  show "\<not> mem_less x y \<Longrightarrow> \<not> mem_less y x \<Longrightarrow> \<not> mem_less y z \<Longrightarrow> \<not> mem_less z y \<Longrightarrow>
      \<not> mem_less x z \<and> \<not> mem_less z x" for x y z
    using mem_less_linear by metis
  show "\<not> mem_less x y \<Longrightarrow> \<not> mem_less y x \<Longrightarrow> x = y" for x y
    using mem_less_linear by blast
qed

lemma wf_address_length: "wf_address a \<Longrightarrow> unat (getAddrLen a) \<le> length (getAddr bo a)"
  by (cases a) (simp_all add: word_le_nat_alt)

lemma length_region: "wf_address a \<Longrightarrow> length (region bo a) = unat (getAddrLen a)"
  by (simp add: region_def wf_address_length)

lemma memcmp_regions:
  assumes "wf_address a" "wf_address b" "n \<le> unat (getAddrLen a)" "n \<le> unat (getAddrLen b)"
  shows "memcmp (getAddr bo a) (getAddr bo b) n =
    Inr (mem_sign (take n (region bo a)) (take n (region bo b)))"
  using assms wf_address_length [of a bo] wf_address_length [of b bo]
  by (simp add: memcmp_def region_def min_absorb1)

lemma Address_less_region:
  assumes "wf_address a" "wf_address b"
  shows "Address_less bo a b = Inr (mem_less (region bo a) (region bo b))"
proof -
  have m: "unat (min (getAddrLen a) (getAddrLen b)) = min (unat (getAddrLen a)) (unat (getAddrLen b))"
    by (simp add: min_def word_le_nat_alt)
  show ?thesis
    unfolding Address_less_def Let_def m
    using assms by (subst memcmp_regions)
      (auto simp: mem_less_def Let_def length_region word_less_nat_alt)
qed

lemma mem_sign_zero: "length xs = length ys \<Longrightarrow> mem_sign xs ys = 0 \<longleftrightarrow> xs = ys"
  by (induction xs ys rule: list_induct2) auto

text \<open>
  On well-formed addresses operator< never reads outside the two structures and is a strict
  order under which exactly the addresses with the same bytes are equivalent, whatever mixture
  of IPv4, IPv6, Unix and unknown addresses is compared: it is fit to be the order of a
  std::map or std::set.
\<close>

theorem Address_less_strict_order:
  assumes "wf_address a" "wf_address b" "wf_address c"
  shows "(\<exists>r. Address_less bo a b = Inr r) \<and>
    Address_less bo a a = Inr False \<and>
    (Address_less bo a b = Inr True \<longrightarrow> Address_less bo b c = Inr True \<longrightarrow>
       Address_less bo a c = Inr True) \<and>
    (Address_less bo a b = Inr False \<and> Address_less bo b a = Inr False \<longleftrightarrow>
       region bo a = region bo b)"
  using assms al.lt_total al.lt_irrefl al.lt_trans by (auto simp: Address_less_region)

theorem Address_less_strict_order_witness:
  "let a = IPv4Address (IPv4Address_ctor Little_Endian 0x7f000001 80);
       b = IPv6Address IPv6Address_default; c = UnixAddress (fst UnixAddress_default) 109
   in Address_less Little_Endian a a = Inr False"
proof -
  have wf: "wf_address (IPv4Address (IPv4Address_ctor Little_Endian 0x7f000001 80))"
    "wf_address (IPv6Address IPv6Address_default)"
    "wf_address (UnixAddress (fst UnixAddress_default) 109)"
    by (simp_all add: IPv4Address_ctor_def IPv6Address_default_def UnixAddress_default_def)
  show ?thesis
    using Address_less_strict_order [OF wf, of Little_Endian] by (simp add: Let_def)
qed

text \<open>
  operator== tests memcmp for a non-zero result: two well-formed addresses compare equal
  exactly when they have the same length and different bytes, so no address equals itself, and
  operator!= is the negation of that.
\<close>

theorem Address_eq_inverted:
  assumes "wf_address a" "wf_address b"
  shows "Address_eq bo a b = Inr (getAddrLen a = getAddrLen b \<and> region bo a \<noteq> region bo b) \<and>
    Address_neq bo a b = Inr (getAddrLen a \<noteq> getAddrLen b \<or> region bo a = region bo b) \<and>
    Address_eq bo a a = Inr False"
proof -
  have eq: "Address_eq bo a b = Inr (getAddrLen a = getAddrLen b \<and> region bo a \<noteq> region bo b)"
    if "wf_address a" "wf_address b" for a b
    using that by (auto simp: Address_eq_def memcmp_regions mem_sign_zero length_region)
  show ?thesis using assms by (auto simp: eq Address_neq_def)
qed

theorem Address_eq_inverted_witness:
  "let a = IPv6Address IPv6Address_default in Address_eq Little_Endian a a = Inr False"
proof -
  have wf: "wf_address (IPv6Address IPv6Address_default)" by (simp add: IPv6Address_default_def)
  show ?thesis using Address_eq_inverted [OF wf wf, of Little_Endian] by (simp add: Let_def)
qed

subsection \<open>IPv4 prefixes\<close>

text \<open>The address as a number, and a number split at a prefix.\<close>

definition ip_of :: "byte_order \<Rightarrow> sockaddr_in \<Rightarrow> u32" where
  "ip_of bo a = byteswapOnLittleEndian32 bo (s_addr a)"

lemma unat_word_split:
  fixes x :: "'a::len word"
  assumes "k \<le> LENGTH('a)"
  shows "unat (x AND NOT (mask k)) = unat x - unat x mod 2 ^ k"
    and "unat (x OR mask k) = unat x - unat x mod 2 ^ k + (2 ^ k - 1)"
proof -
  have "(x AND NOT (mask k)) + (x AND mask k) = x"
    by (subst disjunctive_add_eq_or) (auto simp: bit_eq_iff bit_simps)
  moreover have "unat (x AND mask k) = unat x mod 2 ^ k"
    unfolding take_bit_eq_mask [symmetric] unsigned_take_bit_eq by (simp only: take_bit_eq_mod)
  moreover have "unat (x AND NOT (mask k)) \<le> unat x"
    by (simp add: word_and_le2 flip: word_le_nat_alt)
  moreover have "x AND mask k = x - (x AND NOT (mask k))"
    using calculation(1) by (metis add_diff_cancel_left')
  ultimately have "unat x mod 2 ^ k = unat x - unat (x AND NOT (mask k))"
    by (simp add: unat_sub word_le_nat_alt)
  then show nt: "unat (x AND NOT (mask k)) = unat x - unat x mod 2 ^ k"
    using \<open>unat (x AND NOT (mask k)) \<le> unat x\<close> by simp
  have "x OR mask k = (x AND NOT (mask k)) + mask k"
    by (subst disjunctive_add_eq_or) (auto simp: bit_eq_iff bit_simps)
  moreover have "unat (x AND NOT (mask k)) + unat (mask k :: 'a word) < 2 ^ LENGTH('a)"
  proof -
    have "2 ^ k dvd unat x - unat x mod 2 ^ k" "2 ^ k dvd (2::nat) ^ LENGTH('a)"
      using assms by (simp_all add: dvd_minus_mod le_imp_power_dvd)
    moreover have "unat x - unat x mod 2 ^ k < 2 ^ LENGTH('a)"
      using unsigned_less [of x] by (simp add: less_imp_diff_less)
    ultimately have "unat x - unat x mod 2 ^ k + 2 ^ k \<le> 2 ^ LENGTH('a)"
      by (rule dvd_next_le)
    then show ?thesis
      using assms zero_less_power [of "2::nat" k]
      unfolding nt unat_mask_word min_absorb2 [OF assms] by linarith
  qed
  ultimately show "unat (x OR mask k) = unat x - unat x mod 2 ^ k + (2 ^ k - 1)"
    using assms by (simp add: unat_word_ariths nt unat_mask_word min_absorb2)
qed

lemma CreateMask32_mask:
  assumes "2 \<le> p" "p \<le> 32"
  shows "CreateMask32 p = Inr (mask (32 - unat p))"
proof -
  have "unat (ucast p :: u64) = unat p" by (simp add: unat_ucast_widen)
  moreover have "unat p \<le> 32" "2 \<le> unat p" using assms by (simp_all add: word_le_nat_alt)
  ultimately have "unat (4 * 8 - ucast p :: u64) = 32 - unat p"
    by (simp add: unat_sub word_le_nat_alt)
  with \<open>2 \<le> unat p\<close> show ?thesis
    by (simp add: CreateMask32_def shift_mask_def word_le_nat_alt mask_eq_exp_minus_1)
qed

lemma CreateMask32_undefined: "p < 2 \<Longrightarrow> \<exists>e. CreateMask32 p = Inl (Undefined e)"
proof -
  assume "p < 2"
  then have "p = 0 \<or> p = 1" by (auto simp: word_less_nat_alt word_unat_eq_iff)
  then show ?thesis by (auto simp: CreateMask32_def shift_mask_def)
qed

lemmas IPv4_prefix_defs = IPv4_networdAddress_def IPv4_broadcastAddress_def IPv4_subnetMask_def

text \<open>
  C38. For a prefix length from 2 to 32, networdAddress, broadcastAddress and subnetMask return
  the first address of the prefix's block, its last address (2^(32-p) - 1 above the first) and
  the netmask, whose conjunction with the address is the first one; port and family of the
  address are kept. Above 32 the first two return a null pointer, and for 0 and 1 all three
  shift or overflow an int out of range, although the guards accept these lengths.
\<close>

theorem IPv4_prefix_block:
  "(2 \<le> p \<and> p \<le> 32 \<longrightarrow> (\<exists>n b m.
      IPv4_networdAddress bo a p = Inr (Some n) \<and> IPv4_broadcastAddress bo a p = Inr (Some b) \<and>
      IPv4_subnetMask bo p = Inr (Some m) \<and>
      unat (ip_of bo n) = unat (ip_of bo a) - unat (ip_of bo a) mod 2 ^ (32 - unat p) \<and>
      unat (ip_of bo b) = unat (ip_of bo n) + (2 ^ (32 - unat p) - 1) \<and>
      ip_of bo n = ip_of bo a AND ip_of bo m \<and>
      CountBytes (ip_of bo m) = p \<and>
      n = a\<lparr>s_addr := s_addr n\<rparr> \<and> b = a\<lparr>s_addr := s_addr b\<rparr>)) \<and>
   (32 < p \<longrightarrow> IPv4_networdAddress bo a p = Inr None \<and> IPv4_broadcastAddress bo a p = Inr None) \<and>
   (p < 2 \<longrightarrow> (\<exists>e. IPv4_networdAddress bo a p = Inl (Undefined e) \<and>
      IPv4_broadcastAddress bo a p = Inl (Undefined e) \<and> IPv4_subnetMask bo p = Inl (Undefined e)))"
proof (intro conjI impI)
  assume p: "2 \<le> p \<and> p \<le> 32"
  then have "unat p \<le> 32" by (simp add: word_le_nat_alt)
  then have "CountBytes (NOT (mask (32 - unat p)) :: u32) = p"
    by (simp add: CountBytes_netmask)
  then show "\<exists>n b m.
      IPv4_networdAddress bo a p = Inr (Some n) \<and> IPv4_broadcastAddress bo a p = Inr (Some b) \<and>
      IPv4_subnetMask bo p = Inr (Some m) \<and>
      unat (ip_of bo n) = unat (ip_of bo a) - unat (ip_of bo a) mod 2 ^ (32 - unat p) \<and>
      unat (ip_of bo b) = unat (ip_of bo n) + (2 ^ (32 - unat p) - 1) \<and>
      ip_of bo n = ip_of bo a AND ip_of bo m \<and>
      CountBytes (ip_of bo m) = p \<and>
      n = a\<lparr>s_addr := s_addr n\<rparr> \<and> b = a\<lparr>s_addr := s_addr b\<rparr>"
    using p by (auto simp: IPv4_prefix_defs CreateMask32_mask ip_of_def unat_word_split)
next
  assume "32 < p"
  then show "IPv4_networdAddress bo a p = Inr None" "IPv4_broadcastAddress bo a p = Inr None"
    by (simp_all add: IPv4_prefix_defs)
next
  assume "p < 2"
  then obtain e where "CreateMask32 p = Inl (Undefined e)" using CreateMask32_undefined by blast
  moreover have "\<not> 32 < p" using \<open>p < 2\<close> by (simp add: word_less_nat_alt)
  ultimately show "\<exists>e. IPv4_networdAddress bo a p = Inl (Undefined e) \<and>
      IPv4_broadcastAddress bo a p = Inl (Undefined e) \<and> IPv4_subnetMask bo p = Inl (Undefined e)"
    by (simp add: IPv4_prefix_defs)
qed

theorem IPv4_prefix_block_witness:
  "(2 \<le> (24::u32) \<and> (24::u32) \<le> 32) \<and> (32 < (33::u32)) \<and> ((0::u32) < 2) \<and>
   (\<exists>n. IPv4_networdAddress Little_Endian (IPv4Address_ctor Little_Endian 0xC0A80A17 80) 24
        = Inr (Some n) \<and> unat (ip_of Little_Endian n) = 0xC0A80A00) \<and>
   IPv4_networdAddress Little_Endian (IPv4Address_ctor Little_Endian 0xC0A80A17 80) 33 = Inr None \<and>
   (\<exists>e. IPv4_subnetMask Little_Endian 0 = Inl (Undefined e))"
proof -
  let ?a = "IPv4Address_ctor Little_Endian 0xC0A80A17 80"
  have "unat (ip_of Little_Endian ?a) = 0xC0A80A17"
    by (simp add: ip_of_def IPv4Address_ctor_def)
  then show ?thesis
    using IPv4_prefix_block [of 24 Little_Endian ?a] IPv4_prefix_block [of 33 Little_Endian ?a]
      IPv4_prefix_block [of 0 Little_Endian ?a]
    by auto
qed

subsection \<open>IPv4 text and ports\<close>

lemma octet_nth: "i < 4 \<Longrightarrow> unat (to_bytes 4 (x :: u32) ! i) = unat (drop_bit (8 * i) x AND 0xff)"
proof -
  assume "i < 4"
  have "(0xff :: u32) = mask 8" by (simp add: mask_eq_exp_minus_1)
  moreover have "unat (ucast (drop_bit (8 * i) x) :: u8) = unat (take_bit 8 (drop_bit (8 * i) x))"
    by (simp only: unsigned_ucast_eq unsigned_take_bit_eq) simp
  ultimately show ?thesis
    using \<open>i < 4\<close> by (simp add: to_bytes_nth take_bit_eq_mask)
qed

lemma octets: "map unat (to_bytes 4 (x :: u32)) =
    [unat (x AND 0xff), unat (drop_bit 8 x AND 0xff), unat (drop_bit 16 x AND 0xff),
     unat (drop_bit 24 x AND 0xff)]"
proof -
  have "map unat (to_bytes 4 x) = map (\<lambda>i. unat (drop_bit (8 * i) x AND 0xff)) [0..<4]"
    by (rule nth_equalityI) (simp_all add: octet_nth)
  then show ?thesis by (simp add: upt_rec)
qed

text \<open>
  The text of an IPv4 address made from a number and a port is the four octets joined by
  dots, a colon and the port in decimal. On a big-endian host the octets come most significant
  first, as dotted-quad text has them; on a little-endian host insert reads the network-order
  word without converting it and the octets come out in reverse.
\<close>

theorem IPv4_insert_octets:
  "IPv4_insert bo (IPv4Address_ctor bo x port) =
     join ''.'' (map (\<lambda>b. show_nat (unat b))
       (case bo of Big_Endian \<Rightarrow> rev (to_bytes 4 x) | Little_Endian \<Rightarrow> to_bytes 4 x)) @
     '':'' @ show_nat (unat port) \<and>
   IPv4_getPort bo (IPv4Address_ctor bo x port) = ucast port"
proof -
  have m: "map (\<lambda>b. show_nat (unat b)) bs = map show_nat (map unat bs)" for bs :: "u8 list"
    by simp
  show ?thesis
  proof (cases bo)
    case Little_Endian
    have "map unat (to_bytes 4 x) = rev (map unat (to_bytes 4 (bswap_32 x)))"
      by (simp add: rev_map)
    also have "\<dots> = rev [unat (bswap_32 x AND 0xff), unat (drop_bit 8 (bswap_32 x) AND 0xff),
        unat (drop_bit 16 (bswap_32 x) AND 0xff), unat (drop_bit 24 (bswap_32 x) AND 0xff)]"
      by (simp only: octets)
    finally have e: "map show_nat (map unat (to_bytes 4 x)) = map show_nat (rev
        [unat (bswap_32 x AND 0xff), unat (drop_bit 8 (bswap_32 x) AND 0xff),
         unat (drop_bit 16 (bswap_32 x) AND 0xff), unat (drop_bit 24 (bswap_32 x) AND 0xff)])"
      by simp
    show ?thesis
      unfolding m Little_Endian byte_order.case e
      by (simp add: IPv4_insert_def IPv4Address_ctor_def IPv4_getPort_def byteswap_defs Let_def)
  next
    case Big_Endian
    then show ?thesis
      unfolding m by (simp add: IPv4_insert_def IPv4Address_ctor_def IPv4_getPort_def octets
          byteswap_defs Let_def flip: rev_map)
  qed
qed

subsection \<open>IPv6 text\<close>

text \<open>
  The eight groups as numbers, the text with the first run of zero groups written \<open>::\<close>, and
  the reader of that text. The groups printed so far determine the state of the loop.
\<close>

definition ipv6_groups :: "sockaddr_in6 \<Rightarrow> nat list" where
  "ipv6_groups a = map (\<lambda>i. 256 * unat (s6_addr a ! (2 * i)) + unat (s6_addr a ! (2 * i + 1))) [0..<8]"

abbreviation hex_join :: "nat list \<Rightarrow> string" where
  "hex_join gs \<equiv> join '':'' (map (show_base 16) gs)"

definition groups_before :: "nat list \<Rightarrow> nat list" where
  "groups_before gs = takeWhile (\<lambda>g. g \<noteq> 0) gs"

definition groups_after :: "nat list \<Rightarrow> nat list" where
  "groups_after gs = dropWhile (\<lambda>g. g = 0) (dropWhile (\<lambda>g. g \<noteq> 0) gs)"

definition ipv6_text :: "nat list \<Rightarrow> string" where
  "ipv6_text gs =
     (if 0 \<in> set gs then hex_join (groups_before gs) @ ''::'' @ hex_join (groups_after gs)
      else hex_join gs)"

definition read_ipv6 :: "string \<Rightarrow> nat list" where
  "read_ipv6 s =
     (let fs = split_at_char CHR '':'' s;
          pre = takeWhile (\<lambda>f. f \<noteq> []) fs;
          post = filter (\<lambda>f. f \<noteq> []) (drop (length pre) fs)
      in map (read_base 16) pre @ replicate (8 - length pre - length post) 0 @
         map (read_base 16) post)"

definition printed_prefix :: "nat list \<Rightarrow> string" where
  "printed_prefix gs = hex_join (groups_before gs) @
     (if groups_after gs = [] then [] else ''::'' @ hex_join (groups_after gs))"

lemma groups_snoc:
  "groups_before (gs @ [g]) = (if 0 \<in> set gs \<or> g = 0 then groups_before gs else gs @ [g])"
  "groups_after (gs @ [g]) =
     (if groups_after gs \<noteq> [] then groups_after gs @ [g]
      else if 0 \<in> set gs \<and> g \<noteq> 0 then [g] else [])"
proof -
  show "groups_before (gs @ [g]) = (if 0 \<in> set gs \<or> g = 0 then groups_before gs else gs @ [g])"
    by (induction gs) (auto simp: groups_before_def)
  have "dropWhile (\<lambda>g. g \<noteq> 0) (gs @ [g]) =
      (if 0 \<in> set gs then dropWhile (\<lambda>g. g \<noteq> 0) gs @ [g] else if g = 0 then [0] else [])"
    by (induction gs) simp_all
  moreover have "dropWhile (\<lambda>g. g = 0) (xs @ [g]) =
      (if dropWhile (\<lambda>g. g = 0) xs \<noteq> [] then dropWhile (\<lambda>g. g = 0) xs @ [g]
       else if g = 0 then [] else [g])" for xs
    by (induction xs) auto
  moreover have "dropWhile (\<lambda>g. g \<noteq> 0) gs = []" if "0 \<notin> set gs"
    using that by (induction gs) simp_all
  ultimately show "groups_after (gs @ [g]) =
     (if groups_after gs \<noteq> [] then groups_after gs @ [g]
      else if 0 \<in> set gs \<and> g \<noteq> 0 then [g] else [])"
    by (cases "0 \<in> set gs") (simp_all add: groups_after_def del: dropWhile_eq_Nil_conv)
qed

lemma groups_no_zero: "0 \<notin> set gs \<Longrightarrow> groups_before gs = gs \<and> groups_after gs = []"
  by (induction gs) (auto simp: groups_before_def groups_after_def)

lemma groups_after_Nil: "groups_after gs = [] \<Longrightarrow> 0 \<in> set gs \<Longrightarrow> last gs = 0"
  by (induction gs rule: rev_induct) (auto simp: groups_snoc split: if_splits)

lemma groups_split:
  "0 \<in> set gs \<Longrightarrow> groups_before gs @
     replicate (length gs - length (groups_before gs) - length (groups_after gs)) 0 @
     groups_after gs = gs"
proof (induction gs)
  case (Cons g gs)
  show ?case
  proof (cases "g = 0")
    case True
    have "replicate (length gs - length (dropWhile (\<lambda>g. g = 0) gs)) 0 @ dropWhile (\<lambda>g. g = 0) gs = gs"
      for gs :: "nat list"
      by (induction gs) (auto simp: Suc_diff_le length_dropWhile_le)
    with True show ?thesis
      by (simp add: groups_before_def groups_after_def Suc_diff_le length_dropWhile_le)
  qed (use Cons in \<open>simp add: groups_before_def groups_after_def\<close>)
qed simp

lemma hex_free: "CHR '':'' \<notin> set (show_base 16 n)" "show_base 16 n \<noteq> []"
proof -
  have "digit_char d \<noteq> CHR '':''" if "d < 16" for d using digit_char_hex [OF that] by auto
  then show "CHR '':'' \<notin> set (show_base 16 n)" using show_base_digits [of 16 n] by fastforce
qed (simp add: show_base_nonempty)

lemma read_ipv6_text:
  assumes "length gs = 8"
  shows "read_ipv6 (ipv6_text gs) = gs"
proof (cases "0 \<in> set gs")
  case True
  define pre post where "pre = map (show_base 16) (groups_before gs)"
    and "post = map (show_base 16) (groups_after gs)"
  let ?pre = "if pre = [] then [[]] else pre" and ?post = "if post = [] then [[]] else post"
  have ne: "[] \<notin> set pre" "[] \<notin> set post" and fr: "\<forall>s \<in> set (?pre @ [[]] @ ?post). CHR '':'' \<notin> set s"
    by (auto simp: pre_def post_def hex_free hex_free(2) [symmetric])
  have "ipv6_text gs = join '':'' (?pre @ [[]] @ ?post)"
    using True by (cases "pre = []"; cases "post = []")
      (auto simp: ipv6_text_def join_append join_Nil_Cons simp flip: pre_def post_def)
  then have f: "split_at_char CHR '':'' (ipv6_text gs) = ?pre @ [[]] @ ?post"
    using fr split_join [of "?pre @ [[]] @ ?post" "CHR '':''"] by simp
  have w: "takeWhile (\<lambda>f. f \<noteq> []) (?pre @ [[]] @ ?post) = pre"
    using ne by (auto simp: takeWhile_append)
  have "filter (\<lambda>f. f \<noteq> []) (drop (length pre) (?pre @ [[]] @ ?post)) = post"
    using ne by (auto simp: filter_id_conv)
  then have "read_ipv6 (ipv6_text gs) = map (read_base 16) pre @
      replicate (8 - length pre - length post) 0 @ map (read_base 16) post"
    unfolding read_ipv6_def f Let_def w by simp
  also have "\<dots> = gs"
    using groups_split [OF True] assms by (simp add: pre_def post_def read_show_base comp_def)
  finally show ?thesis .
next
  case False
  have f: "split_at_char CHR '':'' (hex_join gs) = map (show_base 16) gs"
    using assms by (intro split_join) (auto simp: hex_free)
  have t: "takeWhile (\<lambda>f. f \<noteq> []) (map (show_base 16) gs) = map (show_base 16) gs"
    by (simp add: takeWhile_eq_all_conv hex_free)
  show ?thesis
    unfolding read_ipv6_def ipv6_text_def if_not_P [OF False] f Let_def t
    using assms by (simp add: comp_def read_show_base)
qed

lemma unat_byteswap_load16:
  "unat (byteswapOnLittleEndian16 bo (load16 bo bytes i)) =
     256 * unat (bytes ! (2 * i)) + unat (bytes ! (2 * i + 1))"
proof -
  let ?x = "bytes ! (2 * i)" and ?y = "bytes ! (2 * i + 1)"
  have "byteswapOnLittleEndian16 bo (load16 bo bytes i) = of_bytes [?y, ?x]"
    by (cases bo) (simp_all add: load16_def byteswap_defs bswap_16_def to_of_bytes Let_def
        del: of_bytes.simps)
  also have "of_bytes [?y, ?x] = push_bit 8 (ucast ?x) + (ucast ?y :: u16)"
    by (subst disjunctive_add_eq_or)
      (auto simp: bit_eq_iff bit_simps or.commute dest: bit_imp_le_length)
  also have "unat \<dots> = 256 * unat ?x + unat ?y"
    using unat_u8 [of ?x] unat_u8 [of ?y]
    by (simp add: push_bit_eq_mult unat_word_ariths unat_ucast_widen)
  finally show ?thesis .
qed

lemma ipv6_groups_nth:
  "i < 8 \<Longrightarrow> unat (byteswapOnLittleEndian16 bo (load16 bo (s6_addr a) i)) = ipv6_groups a ! i"
  by (simp add: ipv6_groups_def unat_byteswap_load16)

lemma byteswap16_zero [simp]: "byteswapOnLittleEndian16 bo x = 0 \<longleftrightarrow> x = 0"
proof -
  have "byteswapOnLittleEndian16 bo 0 = 0"
    by (cases bo) (simp_all add: byteswap_defs bswap_16_def to_bytes_def upt_rec)
  then show ?thesis by (metis byteswapOnLittleEndian16_twice)
qed

lemma IPv6_insert_step_printed:
  assumes g: "dat ! n = 0 \<longleftrightarrow> g = 0" "unat (byteswapOnLittleEndian16 bo (dat ! n)) = g"
    and n: "n = 0 \<longleftrightarrow> xs = []" and l: "xs \<noteq> [] \<Longrightarrow> dat ! (n - 1) = 0 \<longleftrightarrow> last xs = 0"
  shows "IPv6_insert_step bo dat n (''['' @ printed_prefix xs, groups_after xs \<noteq> []) =
    (''['' @ printed_prefix (xs @ [g]), groups_after (xs @ [g]) \<noteq> [])"
proof (cases "groups_after xs = []")
  case False
  then have "0 \<in> set xs" "xs \<noteq> []" using groups_no_zero by auto
  then show ?thesis
    using False g n by (simp add: IPv6_insert_step_def printed_prefix_def groups_snoc join_snoc)
next
  case after: True
  consider "g = 0" | "g \<noteq> 0" "0 \<in> set xs" | "g \<noteq> 0" "0 \<notin> set xs" by blast
  then show ?thesis
  proof cases
    case 1
    then show ?thesis
      using after g by (simp add: IPv6_insert_step_def printed_prefix_def groups_snoc)
  next
    case 2
    then have "xs \<noteq> []" by auto
    then have "dat ! (n - 1) = 0" using 2 l groups_after_Nil [OF after] by simp
    with \<open>xs \<noteq> []\<close> show ?thesis
      using 2 after g n by (simp add: IPv6_insert_step_def printed_prefix_def groups_snoc)
  next
    case 3
    then have "xs \<noteq> [] \<Longrightarrow> last xs \<noteq> 0" using last_in_set by metis
    then show ?thesis
      using 3 groups_no_zero [OF 3(2)] groups_no_zero [of "[g]"] g n l
      by (cases "xs = []") (simp_all add: IPv6_insert_step_def printed_prefix_def groups_snoc join_snoc)
  qed
qed

lemma IPv6_insert_loop:
  assumes "n \<le> 8"
  shows "fold (IPv6_insert_step bo (map (load16 bo (s6_addr a)) [0..<8])) [0..<n] (''['', False) =
    (''['' @ printed_prefix (take n (ipv6_groups a)), groups_after (take n (ipv6_groups a)) \<noteq> [])"
  using assms
proof (induction n)
  case 0
  then show ?case by (simp add: printed_prefix_def groups_before_def groups_after_def)
next
  case (Suc n)
  let ?gs = "ipv6_groups a" and ?d = "map (load16 bo (s6_addr a)) [0..<8]"
  have len: "length ?gs = 8" "?gs \<noteq> []" by (simp_all add: ipv6_groups_def)
  have d: "?d ! i = 0 \<longleftrightarrow> ?gs ! i = 0" "unat (byteswapOnLittleEndian16 bo (?d ! i)) = ?gs ! i" if "i < 8" for i
  proof -
    show e: "unat (byteswapOnLittleEndian16 bo (?d ! i)) = ?gs ! i"
      using that ipv6_groups_nth [OF that, of bo a] by simp
    have "?d ! i = 0 \<longleftrightarrow> unat (byteswapOnLittleEndian16 bo (?d ! i)) = 0"
      by (simp only: unat_eq_0 byteswap16_zero)
    then show "?d ! i = 0 \<longleftrightarrow> ?gs ! i = 0" by (simp only: e)
  qed
  have tk: "take (Suc n) ?gs = take n ?gs @ [?gs ! n]"
    using Suc.prems len by (simp add: take_Suc_conv_app_nth)
  have pr: "n \<noteq> 0 \<Longrightarrow> ?gs ! (n - 1) = last (take n ?gs)" "n \<noteq> 0 \<longleftrightarrow> take n ?gs \<noteq> []"
    using Suc.prems len last_conv_nth [of "take n ?gs"] by (auto simp: min_absorb2)
  have "IPv6_insert_step bo ?d n (''['' @ printed_prefix (take n ?gs), groups_after (take n ?gs) \<noteq> []) =
      (''['' @ printed_prefix (take n ?gs @ [?gs ! n]), groups_after (take n ?gs @ [?gs ! n]) \<noteq> [])"
    using Suc.prems pr d(1) [of "n - 1"] by (intro IPv6_insert_step_printed d) auto
  then show ?case
    unfolding tk using Suc by simp
qed

text \<open>
  C39. The printed form of an IPv6 address is its groups in lower-case hexadecimal without
  leading zeros, most significant first on a host of either byte order, with the first run of
  zero groups (of any length) replaced by a double colon, in brackets and followed by the port
  in decimal. Reading the bracketed text back gives the eight groups.
\<close>

theorem IPv6_insert_roundtrip:
  "IPv6_insert bo a = ''['' @ ipv6_text (ipv6_groups a) @ '']:'' @
     show_nat (unat (byteswapOnLittleEndian16 bo (sin6_port a))) \<and>
   read_ipv6 (ipv6_text (ipv6_groups a)) = ipv6_groups a"
proof
  have len: "length (ipv6_groups a) = 8" by (simp add: ipv6_groups_def)
  then show "read_ipv6 (ipv6_text (ipv6_groups a)) = ipv6_groups a" by (rule read_ipv6_text)
  have "ipv6_groups a ! 7 = last (ipv6_groups a)"
    using len last_conv_nth [of "ipv6_groups a"] by fastforce
  moreover have "load16 bo (s6_addr a) 7 = 0 \<longleftrightarrow>
      unat (byteswapOnLittleEndian16 bo (load16 bo (s6_addr a) 7)) = 0"
    by (simp only: unat_eq_0 byteswap16_zero)
  ultimately have seven: "map (load16 bo (s6_addr a)) [0..<8] ! 7 = 0 \<longleftrightarrow> last (ipv6_groups a) = 0"
    by (simp add: ipv6_groups_nth)
  have "last (ipv6_groups a) \<noteq> 0" if "0 \<notin> set (ipv6_groups a)"
    using len last_in_set [of "ipv6_groups a"] that by (metis length_0_conv zero_neq_numeral)
  then show "IPv6_insert bo a = ''['' @ ipv6_text (ipv6_groups a) @ '']:'' @
     show_nat (unat (byteswapOnLittleEndian16 bo (sin6_port a)))"
    unfolding IPv6_insert_def Let_def IPv6_insert_loop [of 8 bo a, simplified] prod.case seven
    using groups_after_Nil [of "ipv6_groups a"] groups_no_zero [of "ipv6_groups a"] len
    by (cases "0 \<in> set (ipv6_groups a)"; cases "groups_after (ipv6_groups a) = []")
      (simp_all add: ipv6_text_def printed_prefix_def)
qed

subsection \<open>IPv6 prefixes\<close>

lemma CreateMask8_mask: "CreateMask8 (p mod 8) = Inr (mask (8 - unat p mod 8))"
proof -
  have "unat (p mod 8) = unat p mod 8" by (simp add: unat_mod)
  then have "unat (ucast (p mod 8) :: u64) = unat p mod 8" by (simp add: unat_ucast_widen)
  then have "unat (1 * 8 - ucast (p mod 8) :: u64) = 8 - unat p mod 8"
    by (simp add: unat_sub word_le_nat_alt)
  then show ?thesis
    by (simp add: CreateMask8_def shift_mask_def word_le_nat_alt mask_eq_exp_minus_1)
qed

text \<open>
  For a prefix length below 128, subnetMask has ones exactly in the first p bits;
  broadcastAddress sets every host bit and keeps the network bits; networdAddress clears the
  host bits of the byte the prefix ends in only, and leaves every later byte as it was, since
  its loop ors with zero. From 128 on all three index s6_addr out of range, the full prefix 128
  included.
\<close>

theorem IPv6_prefix_ops:
  assumes "length (s6_addr a) = 16"
  shows "(unat p < 128 \<longrightarrow> (\<exists>n b m.
      IPv6_networdAddress a p = Inr n \<and> IPv6_broadcastAddress a p = Inr b \<and>
      IPv6_subnetMask p = Inr m \<and>
      (\<forall>j < 16.
         s6_addr m ! j = (if j < unat p div 8 then 0xff
           else if j = unat p div 8 then NOT (mask (8 - unat p mod 8)) else 0) \<and>
         s6_addr b ! j = s6_addr a ! j OR NOT (s6_addr m ! j) \<and>
         s6_addr n ! j = (if j \<le> unat p div 8 then s6_addr a ! j AND s6_addr m ! j
           else s6_addr a ! j)) \<and>
      n = a\<lparr>s6_addr := s6_addr n\<rparr> \<and> b = a\<lparr>s6_addr := s6_addr b\<rparr>)) \<and>
    (128 \<le> unat p \<longrightarrow> (\<exists>e. IPv6_networdAddress a p = Inl (Undefined e) \<and>
      IPv6_broadcastAddress a p = Inl (Undefined e) \<and> IPv6_subnetMask p = Inl (Undefined e)))"
proof (intro conjI impI)
  let ?k = "unat p div 8" and ?m = "mask (8 - unat p mod 8) :: u8"
  assume "unat p < 128"
  then have k: "?k < 16" by (simp add: div_less_iff_less_mult)
  define n b m where
    "n = fold (\<lambda>i t. t[i := t ! i OR 0x00]) [?k + 1..<16] ((s6_addr a)[?k := s6_addr a ! ?k AND NOT ?m])"
    and "b = fold (\<lambda>i t. t[i := t ! i OR 0xff]) [?k + 1..<16] ((s6_addr a)[?k := s6_addr a ! ?k OR ?m])"
    and "m = fold (\<lambda>i t. t[i := 0xff]) [0..<?k] ((replicate 16 0)[?k := NOT ?m])"
  have ff: "(0xff :: u8) = - 1" by simp
  have m: "m ! j = (if j < ?k then 0xff else if j = ?k then NOT ?m else 0)" if "j < 16" for j
    unfolding m_def using that k nth_fold_update [where f = "\<lambda>_. 0xff :: u8" and k = 0 and n = ?k]
    by (auto simp: nth_list_update)
  have "b ! j = s6_addr a ! j OR NOT (m ! j)" if "j < 16" for j
    unfolding b_def using that assms k
    by (subst nth_fold_update) (auto simp: nth_list_update m ff)
  moreover have "n ! j = (if j \<le> ?k then s6_addr a ! j AND m ! j else s6_addr a ! j)" if "j < 16" for j
    unfolding n_def using that assms k
    by (subst nth_fold_update) (auto simp: nth_list_update m ff)
  moreover have "IPv6_networdAddress a p = Inr (a\<lparr>s6_addr := n\<rparr>)"
    "IPv6_broadcastAddress a p = Inr (a\<lparr>s6_addr := b\<rparr>)"
    "IPv6_subnetMask p = Inr (IPv6Address_default\<lparr>s6_addr := m\<rparr>)"
    using k by (simp_all add: IPv6_networdAddress_def IPv6_broadcastAddress_def IPv6_subnetMask_def
        CreateMask8_mask n_def b_def m_def Let_def)
  ultimately show "\<exists>n b m.
      IPv6_networdAddress a p = Inr n \<and> IPv6_broadcastAddress a p = Inr b \<and>
      IPv6_subnetMask p = Inr m \<and>
      (\<forall>j < 16.
         s6_addr m ! j = (if j < ?k then 0xff else if j = ?k then NOT ?m else 0) \<and>
         s6_addr b ! j = s6_addr a ! j OR NOT (s6_addr m ! j) \<and>
         s6_addr n ! j = (if j \<le> ?k then s6_addr a ! j AND s6_addr m ! j else s6_addr a ! j)) \<and>
      n = a\<lparr>s6_addr := s6_addr n\<rparr> \<and> b = a\<lparr>s6_addr := s6_addr b\<rparr>"
    by (intro exI [of _ "a\<lparr>s6_addr := n\<rparr>"] exI [of _ "a\<lparr>s6_addr := b\<rparr>"]
        exI [of _ "IPv6Address_default\<lparr>s6_addr := m\<rparr>"]) (simp add: m)
next
  assume "128 \<le> unat p"
  then have "16 \<le> unat p div 8" by (simp add: less_eq_div_iff_mult_less_eq)
  then show "\<exists>e. IPv6_networdAddress a p = Inl (Undefined e) \<and>
      IPv6_broadcastAddress a p = Inl (Undefined e) \<and> IPv6_subnetMask p = Inl (Undefined e)"
    by (simp add: IPv6_networdAddress_def IPv6_broadcastAddress_def IPv6_subnetMask_def
        CreateMask8_mask)
qed

theorem IPv6_prefix_ops_witness:
  "length (s6_addr IPv6Address_default) = 16 \<and> unat (32::u32) < 128 \<and> 128 \<le> unat (128::u32) \<and>
   (\<exists>e. IPv6_subnetMask 128 = Inl (Undefined e)) \<and>
   (\<exists>m. IPv6_subnetMask 32 = Inr m \<and> s6_addr m ! 0 = 0xff)"
proof -
  have len: "length (s6_addr IPv6Address_default) = 16" by (simp add: IPv6Address_default_def)
  have "\<exists>m. IPv6_subnetMask 32 = Inr m \<and> s6_addr m ! 0 = 0xff"
    using IPv6_prefix_ops [OF len, of 32] by (auto dest: spec [where x = 0])
  then show ?thesis using IPv6_prefix_ops [OF len, of 128] len by auto
qed

subsection \<open>Unix paths\<close>

text \<open>
  The bytes of \<open>sun_path\<close> a path takes: with its terminator, except for an abstract name.
\<close>

definition unix_len :: "string \<Rightarrow> nat" where
  "unix_len path = (if path \<noteq> [] \<and> hd path = NUL then length path else length path + 1)"

lemma UnixAddress_ctor_eq:
  assumes "length path < 2 ^ 32 - 1"
  shows "UnixAddress_ctor path =
    (if unix_len path > 108 then Inl (Logic_error ''path too long'')
     else Inr (\<lparr> sun_family = AF_UNIX,
       sun_path = take (unix_len path) (path @ [NUL]) @ replicate (108 - unix_len path) NUL \<rparr>,
       of_nat (unix_len path + 2)))"
proof -
  have w: "(if path \<noteq> [] \<and> hd path = NUL then of_nat (length path + 1) - 1
      else of_nat (length path + 1) :: u32) = of_nat (unix_len path)"
    by (simp add: unix_len_def)
  have "unix_len path < 2 ^ 32" using assms by (simp add: unix_len_def)
  then have u: "unat (of_nat (unix_len path) :: u32) = unix_len path" by (simp add: unat_of_nat_small)
  have "length (take (unix_len path) (path @ [NUL])) = unix_len path"
    by (simp add: unix_len_def)
  then have d: "drop (length (take (unix_len path) (path @ [NUL]))) (replicate 108 NUL) =
      replicate (108 - unix_len path) NUL"
    by (simp only: drop_replicate)
  show ?thesis
    unfolding UnixAddress_ctor_def Let_def w u d using u by (simp add: word_less_nat_alt)
qed

text \<open>
  UnixAddress(path) accepts exactly the paths that fit in sun_path with their terminator
  (107 characters), or, when they start with NUL and name an abstract socket, without one (108),
  and throws std::logic_error otherwise. The address it builds is well formed, its length is
  the part of the structure used, and getPath and insert return the path; an abstract name is
  written with a backslash and a zero in place of its NUL. The empty path prints like an
  abstract name with no characters.
\<close>

theorem UnixAddress_roundtrip:
  assumes "length path < 2 ^ 32 - 1"
  shows "(unix_len path > 108 \<longrightarrow> UnixAddress_ctor path = Inl (Logic_error ''path too long'')) \<and>
    (unix_len path \<le> 108 \<longrightarrow> (\<exists>sun len. UnixAddress_ctor path = Inr (sun, len) \<and>
      wf_address (UnixAddress sun len) \<and> unat len = 2 + unix_len path \<and>
      UnixAddress_insert (sun, len) = UnixAddress_getPath (sun, len) \<and>
      (path \<noteq> [] \<and> NUL \<notin> set path \<longrightarrow> UnixAddress_getPath (sun, len) = Inr path) \<and>
      (\<forall>name. path = NUL # name \<longrightarrow>
         UnixAddress_getPath (sun, len) = Inr ([CHR 0x5C, CHR ''0''] @ name)) \<and>
      (path = [] \<longrightarrow> UnixAddress_getPath (sun, len) = Inr [CHR 0x5C, CHR ''0''])))"
proof (intro conjI impI)
  show "unix_len path > 108 \<Longrightarrow> UnixAddress_ctor path = Inl (Logic_error ''path too long'')"
    using assms by (simp add: UnixAddress_ctor_eq)
  assume n: "unix_len path \<le> 108"
  define p where "p = take (unix_len path) (path @ [NUL]) @ replicate (108 - unix_len path) NUL"
  define sun len where "sun = \<lparr>sun_family = AF_UNIX, sun_path = p\<rparr>"
    and "len = (of_nat (unix_len path + 2) :: u32)"
  have len: "unat len = unix_len path + 2"
    unfolding len_def using n by (intro unat_of_nat_small) simp
  have n0: "0 < unix_len path" by (simp add: unix_len_def)
  have "len - 2 - 1 = of_nat (unix_len path - 1)" using n0 by (simp add: len_def of_nat_diff)
  then have k: "unat (len - 2 - 1) = unix_len path - 1"
    using n by (simp add: unat_of_nat_small)
  have bounds: "len > 2" "len \<le> 110" "\<not> len - 2 - 1 > 107"
    unfolding word_less_nat_alt word_le_nat_alt k len using n n0 by auto
  have plain: "p = path @ NUL # replicate (107 - length path) NUL" if "NUL \<notin> set path"
    using that n by (cases path) (auto simp: p_def unix_len_def)
  have "length p = 108" using n by (auto simp: p_def unix_len_def split: if_splits)
  moreover have "p ! 0 = hd (path @ [NUL])"
    using n0 by (cases path) (auto simp: p_def nth_append take_Cons' unix_len_def)
  moreover have "NUL \<notin> set path \<Longrightarrow> NUL \<in> set p \<and> c_str p = path"
    using plain by (auto simp: c_str_def takeWhile_tail)
  ultimately have p: "length p = 108" "p ! 0 = hd (path @ [NUL])"
    "NUL \<notin> set path \<Longrightarrow> NUL \<in> set p \<and> c_str p = path" by blast+
  have get: "UnixAddress_getPath (sun, len) =
      (if hd (path @ [NUL]) = NUL then Inr ([CHR 0x5C, CHR ''0''] @ take (unix_len path - 1) (drop 1 p))
       else if NUL \<in> set p then Inr (c_str p) else Inl (Undefined ''read past sun_path''))"
    "UnixAddress_insert (sun, len) = UnixAddress_getPath (sun, len)"
    unfolding UnixAddress_getPath_def UnixAddress_insert_def prod.case k using bounds
    by (simp_all add: sun_def p(2))
  have "UnixAddress_ctor path = Inr (sun, len)"
    using assms n by (simp add: UnixAddress_ctor_eq sun_def p_def len_def)
  moreover have "path \<noteq> [] \<Longrightarrow> NUL \<notin> set path \<Longrightarrow> UnixAddress_getPath (sun, len) = Inr path"
    using p(3) by (cases path) (auto simp: get)
  moreover have "UnixAddress_getPath (sun, len) = Inr ([CHR 0x5C, CHR ''0''] @ name)"
    if "path = NUL # name" for name
    using that n by (simp add: get p_def unix_len_def)
  moreover have "path = [] \<Longrightarrow> UnixAddress_getPath (sun, len) = Inr [CHR 0x5C, CHR ''0'']"
    by (simp add: get unix_len_def)
  ultimately show "\<exists>sun len. UnixAddress_ctor path = Inr (sun, len) \<and>
      wf_address (UnixAddress sun len) \<and> unat len = 2 + unix_len path \<and>
      UnixAddress_insert (sun, len) = UnixAddress_getPath (sun, len) \<and>
      (path \<noteq> [] \<and> NUL \<notin> set path \<longrightarrow> UnixAddress_getPath (sun, len) = Inr path) \<and>
      (\<forall>name. path = NUL # name \<longrightarrow>
         UnixAddress_getPath (sun, len) = Inr ([CHR 0x5C, CHR ''0''] @ name)) \<and>
      (path = [] \<longrightarrow> UnixAddress_getPath (sun, len) = Inr [CHR 0x5C, CHR ''0''])"
    using p(1) bounds(2) len get(2) by (intro exI [of _ sun] exI [of _ len]) (simp add: sun_def)
qed

theorem UnixAddress_roundtrip_witness:
  "length ''/tmp/s'' < 2 ^ 32 - 1 \<and> unix_len ''/tmp/s'' \<le> 108 \<and>
   (\<exists>sun len. UnixAddress_ctor ''/tmp/s'' = Inr (sun, len) \<and>
      UnixAddress_getPath (sun, len) = Inr ''/tmp/s'')"
  using UnixAddress_roundtrip [of "''/tmp/s''"] by (auto simp: unix_len_def)

end
