(* ===== verification/Address_Lookup.thy ===== *)
theory Address_Lookup
  imports Address "HOL-Library.Char_ord"
begin

section \<open>Creating and looking up addresses (address.cpp)\<close>

text \<open>
  The functions that make \<open>Address\<close> objects from what the system returns. A \<open>sockaddr*\<close> is the
  memory it points to, a byte list, or \<open>None\<close> for a null pointer. \<open>getaddrinfo\<close>,
  \<open>getifaddrs\<close> and \<open>inet_pton\<close> are parameters.
\<close>

type_synonym raw_sockaddr = "u8 list option"

subsection \<open>Address::Create\<close>

definition load_sockaddr_in :: "byte_order \<Rightarrow> u8 list \<Rightarrow> sockaddr_in" where
  "load_sockaddr_in bo m =
     \<lparr> sin_family = load bo (take 2 m), sin_port = load bo (take 2 (drop 2 m)),
       s_addr = load bo (take 4 (drop 4 m)), sin_zero = take 8 (drop 8 m) \<rparr>"

definition load_sockaddr_in6 :: "byte_order \<Rightarrow> u8 list \<Rightarrow> sockaddr_in6" where
  "load_sockaddr_in6 bo m =
     \<lparr> sin6_family = load bo (take 2 m), sin6_port = load bo (take 2 (drop 2 m)),
       sin6_flowinfo = load bo (take 4 (drop 4 m)), s6_addr = take 16 (drop 8 m),
       sin6_scope_id = load bo (take 4 (drop 24 m)) \<rparr>"

definition load_sockaddr :: "byte_order \<Rightarrow> u8 list \<Rightarrow> sockaddr" where
  "load_sockaddr bo m = \<lparr> sa_family = load bo (take 2 m), sa_data = take 14 (drop 2 m) \<rparr>"

text \<open>Copying a structure from memory that is too short for it reads past the object.\<close>

definition deref :: "nat \<Rightarrow> u8 list \<Rightarrow> 'a \<Rightarrow> 'a res" where
  "deref n m a = (if length m < n then Inl (Undefined ''sockaddr read past its memory'') else Inr a)"

definition Address_Create :: "byte_order \<Rightarrow> raw_sockaddr \<Rightarrow> address option res" where
  "Address_Create bo addr =
     (case addr of
        None \<Rightarrow> Inr None
      | Some m \<Rightarrow>
          rbind (deref 2 m (load bo (take 2 m) :: u16)) (\<lambda>family.
            if family = AF_INET then
              rbind (deref 16 m (load_sockaddr_in bo m)) (\<lambda>a. Inr (Some (IPv4Address a)))
            else if family = AF_INET6 then
              rbind (deref 28 m (load_sockaddr_in6 bo m)) (\<lambda>a. Inr (Some (IPv6Address a)))
            else rbind (deref 16 m (load_sockaddr bo m)) (\<lambda>a. Inr (Some (UnknownAddress a)))))"

subsection \<open>Address::Lookup\<close>

text \<open>
  The node and the service of a host text. \<open>service\<close> is a pointer into \<open>host.c_str()\<close>: the
  text from there on, or \<open>None\<close>. Each definition is one of the three blocks that set the two
  variables.
\<close>

definition Lookup_bracketed :: "string \<Rightarrow> string \<times> string option" where
  "Lookup_bracketed host =
     (if host \<noteq> [] \<and> hd host = CHR ''['' then
        case index_of (CHR '']'') (drop 1 host) of
          None \<Rightarrow> ([], None)
        | Some j \<Rightarrow>
            (take j (drop 1 host),
             if j + 2 < length host \<and> host ! (j + 2) = CHR '':'' then Some (drop (j + 3) host) else None)
      else ([], None))"

definition Lookup_node_service :: "string \<Rightarrow> string \<times> string option \<Rightarrow> string \<times> string option" where
  "Lookup_node_service host = (\<lambda>(node, service).
     if node = [] then
       case index_of (CHR '':'') host of
         None \<Rightarrow> (node, None)
       | Some i \<Rightarrow>
           if index_of (CHR '':'') (drop (i + 1) host) = None then (take i host, Some (drop (i + 1) host))
           else (node, Some (drop i host))
     else (node, service))"

definition Lookup_parse :: "string \<Rightarrow> string \<times> string option" where
  "Lookup_parse host =
     (let (node, service) = Lookup_node_service host (Lookup_bracketed host)
      in (if node = [] then host else node, service))"

text \<open>
  \<open>getaddrinfo\<close>: the node and service as C strings, then family, socket type and protocol; an
  error code or the addresses of the result list.
\<close>

type_synonym getaddrinfo = "string \<Rightarrow> string option \<Rightarrow> int \<Rightarrow> int \<Rightarrow> int \<Rightarrow> int + raw_sockaddr list"

fun Create_all :: "byte_order \<Rightarrow> raw_sockaddr list \<Rightarrow> address option list \<Rightarrow> address option list res" where
  "Create_all bo [] result = Inr result"
| "Create_all bo (r # rs) result =
     rbind (Address_Create bo r) (\<lambda>a. Create_all bo rs (result @ [a]))"

definition Lookup :: "getaddrinfo \<Rightarrow> byte_order \<Rightarrow> address option list \<Rightarrow> string \<Rightarrow> int \<Rightarrow> int \<Rightarrow> int \<Rightarrow>
    (bool \<times> address option list) res" where
  "Lookup gai bo result host family type protocol =
     (let (node, service) = Lookup_parse host in
      case gai (c_str node) (map_option c_str service) family type protocol of
        Inl err \<Rightarrow> Inr (False, result)
      | Inr results \<Rightarrow>
          rbind (Create_all bo results result) (\<lambda>result. Inr (result \<noteq> [], result)))"

definition LookupAny :: "getaddrinfo \<Rightarrow> byte_order \<Rightarrow> string \<Rightarrow> int \<Rightarrow> int \<Rightarrow> int \<Rightarrow> address option res" where
  "LookupAny gai bo host family type protocol =
     rbind (Lookup gai bo [] host family type protocol) (\<lambda>(ok, result).
       if ok then Inr (result ! 0) else Inr None)"

text \<open>\<open>dynamic_pointer_cast<IPAddress>\<close>: the pointer when the object is an IPv4 or IPv6 address.\<close>

fun to_IPAddress :: "address option \<Rightarrow> address option" where
  "to_IPAddress (Some (IPv4Address a)) = Some (IPv4Address a)"
| "to_IPAddress (Some (IPv6Address a)) = Some (IPv6Address a)"
| "to_IPAddress _ = None"

fun first_IPAddress :: "address option list \<Rightarrow> address option" where
  "first_IPAddress [] = None"
| "first_IPAddress (i # results) =
     (case to_IPAddress i of Some v \<Rightarrow> Some v | None \<Rightarrow> first_IPAddress results)"

definition LookupAnyIPAddress :: "getaddrinfo \<Rightarrow> byte_order \<Rightarrow> string \<Rightarrow> int \<Rightarrow> int \<Rightarrow> int \<Rightarrow>
    address option res" where
  "LookupAnyIPAddress gai bo host family type protocol =
     rbind (Lookup gai bo [] host family type protocol) (\<lambda>(ok, results).
       if ok then Inr (first_IPAddress results) else Inr None)"

subsection \<open>Address::GetInterfaceAddresses\<close>

record ifaddrs =
  ifa_name :: string
  ifa_addr :: raw_sockaddr
  ifa_netmask :: raw_sockaddr

type_synonym iface_map = "(string \<times> address \<times> u32) list"

text \<open>\<open>std::multimap\<close> in iteration order: an insertion goes after the entries of an equal key.\<close>

fun multimap_insert :: "string \<Rightarrow> 'v \<Rightarrow> (string \<times> 'v) list \<Rightarrow> (string \<times> 'v) list" where
  "multimap_insert k v [] = [(k, v)]"
| "multimap_insert k v ((k', v') # m) =
     (if ord_class.lexordp k k' then (k, v) # (k', v') # m else (k', v') # multimap_insert k v m)"

definition equal_range :: "string \<Rightarrow> (string \<times> 'v) list \<Rightarrow> 'v list" where
  "equal_range k m = map snd (takeWhile (\<lambda>(k', _). k' = k) (dropWhile (\<lambda>(k', _). k' \<noteq> k) m))"

definition deref_ptr :: "raw_sockaddr \<Rightarrow> nat \<Rightarrow> (u8 list \<Rightarrow> 'a) \<Rightarrow> 'a res" where
  "deref_ptr p n f =
     (case p of None \<Rightarrow> Inl (Undefined ''null pointer dereferenced'') | Some m \<Rightarrow> deref n m (f m))"

text \<open>The address and prefix length of one interface: \<open>None\<close> when it is skipped.\<close>

definition iface_entry :: "byte_order \<Rightarrow> int \<Rightarrow> ifaddrs \<Rightarrow> (address \<times> u32) option res" where
  "iface_entry bo family next =
     rbind (deref_ptr (ifa_addr next) 2 (\<lambda>m. load bo (take 2 m) :: u16)) (\<lambda>sa_family.
       if family \<noteq> uint (AF_UNSPEC :: u16) \<and> family \<noteq> uint sa_family then Inr None
       else if sa_family = AF_INET then
         rbind (Address_Create bo (ifa_addr next)) (\<lambda>addr.
         rbind (deref_ptr (ifa_netmask next) 8 (\<lambda>m. s_addr (load_sockaddr_in bo m))) (\<lambda>netmask.
           Inr (map_option (\<lambda>a. (a, CountBytes netmask)) addr)))
       else if sa_family = AF_INET6 then
         rbind (Address_Create bo (ifa_addr next)) (\<lambda>addr.
         rbind (deref_ptr (ifa_netmask next) 24 (\<lambda>m. s6_addr (load_sockaddr_in6 bo m))) (\<lambda>netmask.
           Inr (map_option (\<lambda>a. (a, fold (\<lambda>i n. n + CountBytes (netmask ! i)) [0..<16] 0)) addr)))
       else Inr None)"

fun iface_loop :: "byte_order \<Rightarrow> int \<Rightarrow> ifaddrs list \<Rightarrow> iface_map \<Rightarrow> iface_map res" where
  "iface_loop bo family [] result = Inr result"
| "iface_loop bo family (next # rest) result =
     rbind (iface_entry bo family next) (\<lambda>e.
       iface_loop bo family rest
         (case e of None \<Rightarrow> result | Some v \<Rightarrow> multimap_insert (ifa_name next) v result))"

text \<open>\<open>getifaddrs\<close> fails (\<open>None\<close>) or returns the list of interfaces.\<close>

definition GetInterfaceAddresses_all :: "ifaddrs list option \<Rightarrow> byte_order \<Rightarrow> iface_map \<Rightarrow> int \<Rightarrow>
    (bool \<times> iface_map) res" where
  "GetInterfaceAddresses_all getifaddrs bo result family =
     (case getifaddrs of
        None \<Rightarrow> Inr (False, result)
      | Some results \<Rightarrow>
          rbind (iface_loop bo family results result) (\<lambda>result. Inr (result \<noteq> [], result)))"

definition GetInterfaceAddresses :: "ifaddrs list option \<Rightarrow> byte_order \<Rightarrow> (address \<times> u32) list \<Rightarrow> string \<Rightarrow>
    int \<Rightarrow> (bool \<times> (address \<times> u32) list) res" where
  "GetInterfaceAddresses getifaddrs bo result iface family =
     (if iface = [] \<or> iface = ''*'' then
        let result = (if family = uint (AF_INET :: u16) \<or> family = uint (AF_UNSPEC :: u16)
              then result @ [(IPv4Address (IPv4Address_ctor bo 0 0), 0)] else result);
            result = (if family = uint (AF_INET6 :: u16) \<or> family = uint (AF_UNSPEC :: u16)
              then result @ [(IPv6Address IPv6Address_default, 0)] else result)
        in Inr (True, result)
      else
        rbind (GetInterfaceAddresses_all getifaddrs bo [] family) (\<lambda>(ok, results).
          if \<not> ok then Inr (False, result)
          else let result = result @ equal_range iface results in Inr (result \<noteq> [], result)))"

subsection \<open>Create from text\<close>

fun set_port :: "byte_order \<Rightarrow> u16 \<Rightarrow> address \<Rightarrow> address" where
  "set_port bo v (IPv4Address a) = IPv4Address (IPv4_setPort bo v a)"
| "set_port bo v (IPv6Address a) = IPv6Address (IPv6_setPort bo v a)"
| "set_port bo v a = a"

fun get_port :: "byte_order \<Rightarrow> address \<Rightarrow> u32 option" where
  "get_port bo (IPv4Address a) = Some (IPv4_getPort bo a)"
| "get_port bo (IPv6Address a) = Some (IPv6_getPort bo a)"
| "get_port bo _ = None"

text \<open>\<open>IPAddress::Create\<close>: only the first result of \<open>getaddrinfo\<close> is used.\<close>

definition IPAddress_Create :: "(string \<Rightarrow> int + raw_sockaddr list) \<Rightarrow> byte_order \<Rightarrow> string \<Rightarrow> u16 \<Rightarrow>
    address option res" where
  "IPAddress_Create gai_numeric bo addr port =
     (case gai_numeric addr of
        Inl err \<Rightarrow> Inr None
      | Inr [] \<Rightarrow> Inl (Undefined ''null addrinfo dereferenced'')
      | Inr (r # _) \<Rightarrow>
          rbind (Address_Create bo r) (\<lambda>a.
            Inr (map_option (set_port bo port) (to_IPAddress a))))"

text \<open>
  \<open>inet_pton\<close> returns 1 and writes the address, 0 for text that is not an address, and a
  negative number for an unsupported family. \<open>IPv6Address::Create\<close> passes the address of its own
  16-byte \<open>shared_ptr\<close>: a valid text overwrites the pointer, which is then destroyed.
\<close>

definition IPv4Address_Create :: "(string \<Rightarrow> int \<times> u32) \<Rightarrow> byte_order \<Rightarrow> string \<Rightarrow> u16 \<Rightarrow>
    sockaddr_in option" where
  "IPv4Address_Create inet_pton bo addr port =
     (let res = IPv4Address_ctor bo 0 0;
          res = res\<lparr>sin_port := byteswapOnLittleEndian16 bo port, sin_family := AF_INET\<rparr>;
          (rt, written) = inet_pton addr;
          res = (if rt = 1 then res\<lparr>s_addr := written\<rparr> else res)
      in if rt < 0 then None else Some res)"

definition IPv6Address_Create :: "(string \<Rightarrow> int \<times> u8 list) \<Rightarrow> string \<Rightarrow> u16 \<Rightarrow> sockaddr_in6 option res" where
  "IPv6Address_Create inet_pton addr port =
     (let (error, written) = inet_pton addr
      in if error = 1 then Inl (Undefined ''shared_ptr overwritten by inet_pton'')
         else if error < 0 then Inr None
         else Inr None)"

subsection \<open>Properties\<close>

lemma load_sockaddr_getAddr:
  "wf_address (IPv4Address a) \<Longrightarrow> load_sockaddr_in bo (getAddr bo (IPv4Address a)) = a"
  "wf_address (IPv6Address b) \<Longrightarrow> load_sockaddr_in6 bo (getAddr bo (IPv6Address b)) = b"
  "wf_address (UnknownAddress c) \<Longrightarrow> load_sockaddr bo (getAddr bo (UnknownAddress c)) = c"
  by (simp_all add: load_sockaddr_in_def load_sockaddr_in6_def load_sockaddr_def load_store)

text \<open>
  Address::Create on the memory of a socket address rebuilds the address: every well-formed
  IPv4 and IPv6 address with its family set comes back from its own getAddr, so does an address
  of another family, as an UnknownAddress, and a null pointer gives a null pointer.
\<close>

theorem Create_getAddr_roundtrip:
  "(wf_address (IPv4Address a) \<and> sin_family a = AF_INET \<longrightarrow>
      Address_Create bo (Some (getAddr bo (IPv4Address a))) = Inr (Some (IPv4Address a))) \<and>
   (wf_address (IPv6Address b) \<and> sin6_family b = AF_INET6 \<longrightarrow>
      Address_Create bo (Some (getAddr bo (IPv6Address b))) = Inr (Some (IPv6Address b))) \<and>
   (wf_address (UnknownAddress c) \<and> sa_family c \<notin> {AF_INET, AF_INET6} \<longrightarrow>
      Address_Create bo (Some (getAddr bo (UnknownAddress c))) = Inr (Some (UnknownAddress c))) \<and>
   Address_Create bo None = Inr None"
proof (intro conjI impI)
  assume "wf_address (IPv4Address a) \<and> sin_family a = AF_INET"
  then show "Address_Create bo (Some (getAddr bo (IPv4Address a))) = Inr (Some (IPv4Address a))"
    using load_sockaddr_getAddr(1) [of a bo] by (simp add: Address_Create_def deref_def load_store)
next
  assume "wf_address (IPv6Address b) \<and> sin6_family b = AF_INET6"
  then show "Address_Create bo (Some (getAddr bo (IPv6Address b))) = Inr (Some (IPv6Address b))"
    using load_sockaddr_getAddr(2) [of b bo] by (simp add: Address_Create_def deref_def load_store)
next
  assume "wf_address (UnknownAddress c) \<and> sa_family c \<notin> {AF_INET, AF_INET6}"
  then show "Address_Create bo (Some (getAddr bo (UnknownAddress c))) = Inr (Some (UnknownAddress c))"
    using load_sockaddr_getAddr(3) [of c bo] by (simp add: Address_Create_def deref_def load_store)
qed (simp add: Address_Create_def)

theorem Create_getAddr_roundtrip_witness:
  "let a = IPv4Address_ctor Little_Endian 0x7f000001 80; b = IPv6Address_default;
       c = UnknownAddress_ctor (replicate 14 0) 1 in
   wf_address (IPv4Address a) \<and> sin_family a = AF_INET \<and>
   wf_address (IPv6Address b) \<and> sin6_family b = AF_INET6 \<and>
   wf_address (UnknownAddress c) \<and> sa_family c \<notin> {AF_INET, AF_INET6} \<and>
   Address_Create Little_Endian (Some (getAddr Little_Endian (IPv4Address a))) = Inr (Some (IPv4Address a))"
  using Create_getAddr_roundtrip [of "IPv4Address_ctor Little_Endian 0x7f000001 80" Little_Endian
      IPv6Address_default "UnknownAddress_ctor (replicate 14 0) 1"]
  by (simp add: Let_def IPv4Address_ctor_def IPv6Address_default_def UnknownAddress_ctor_def)

text \<open>
  How Lookup splits a host text: "node:service" at its only colon, "[v6]:service" and "[v6]"
  at the brackets, and a text without colon or leading bracket is the node alone. A text with
  two or more colons and no bracket, a bare IPv6 address, is the node as a whole, but its
  service is left pointing at the first colon, so getaddrinfo is asked for a service that
  starts with a colon.
\<close>

theorem Lookup_parse_forms:
  assumes "node \<noteq> []" "CHR '':'' \<notin> set node" "hd node \<noteq> CHR ''[''" "CHR '':'' \<notin> set service"
    "CHR '']'' \<notin> set v6" "v6 \<noteq> []"
  shows "Lookup_parse (node @ '':'' @ service) = (node, Some service) \<and>
    Lookup_parse (''['' @ v6 @ '']:'' @ any) = (v6, Some any) \<and>
    Lookup_parse (''['' @ v6 @ '']'') = (v6, None) \<and>
    Lookup_parse node = (node, None) \<and>
    Lookup_parse (node @ '':'' @ any @ '':'' @ tl2) =
      (node @ '':'' @ any @ '':'' @ tl2, Some ('':'' @ any @ '':'' @ tl2))"
proof (intro conjI)
  obtain c cs where node: "node = c # cs" using assms(1) by (cases node) auto
  have b: "Lookup_bracketed (node @ s) = ([], None)" for s
    using assms(3) by (simp add: Lookup_bracketed_def node)
  have i: "index_of (CHR '':'') (node @ CHR '':'' # s) = Some (length node)" for s
    using assms(2) by (rule index_of_append)
  show "Lookup_parse (node @ '':'' @ service) = (node, Some service)"
    unfolding Lookup_parse_def b Lookup_node_service_def using assms
    by (simp add: i index_of_None)
  show "Lookup_parse (node @ '':'' @ any @ '':'' @ tl2) =
      (node @ '':'' @ any @ '':'' @ tl2, Some ('':'' @ any @ '':'' @ tl2))"
    unfolding Lookup_parse_def b Lookup_node_service_def by (simp add: i index_of_None)
  have "Lookup_bracketed node = ([], None)" using b [of "[]"] by simp
  then show "Lookup_parse node = (node, None)"
    using assms index_of_None [of "CHR '':''" node] by (simp add: Lookup_parse_def Lookup_node_service_def)
  have j: "index_of (CHR '']'') (v6 @ CHR '']'' # s) = Some (length v6)" for s
    using assms(5) by (rule index_of_append)
  show "Lookup_parse (''['' @ v6 @ '']:'' @ any) = (v6, Some any)"
    "Lookup_parse (''['' @ v6 @ '']'') = (v6, None)"
    using assms(6)
    by (simp_all add: Lookup_parse_def Lookup_bracketed_def Lookup_node_service_def j nth_append
        numeral_3_eq_3)
qed

theorem Lookup_parse_forms_witness:
  "Lookup_parse ''www.sylar.top:80'' = (''www.sylar.top'', Some ''80'')"
  using Lookup_parse_forms [of "''www.sylar.top''" "''80''" "''::1''"] by simp

text \<open>When the system's structures are whole, the loops collect one address per structure.\<close>

lemma Create_all_eq:
  "list_all2 (\<lambda>r a. Address_Create bo r = Inr a) rs as \<Longrightarrow> Create_all bo rs result = Inr (result @ as)"
  by (induction arbitrary: result rule: list_all2_induct) auto

lemma first_IPAddress_find:
  "first_IPAddress as = (case find (\<lambda>a. to_IPAddress a \<noteq> None) as of None \<Rightarrow> None | Some a \<Rightarrow> a)"
proof (induction as)
  case (Cons a as)
  then show ?case by (cases a rule: to_IPAddress.cases) auto
qed simp

text \<open>
  When getaddrinfo returns structures that Create can read, Lookup appends their addresses in
  the order of the list and reports whether there are any; LookupAny returns the first and
  LookupAnyIPAddress the first that is an IPv4 or IPv6 address. When getaddrinfo fails, Lookup
  leaves the vector as it was and reports false, and the other two return a null pointer.
\<close>

theorem Lookup_first_match:
  assumes "Lookup_parse host = (node, service)"
  shows "(gai (c_str node) (map_option c_str service) family type protocol = Inr rs \<and>
      list_all2 (\<lambda>r a. Address_Create bo r = Inr a) rs as \<longrightarrow>
      Lookup gai bo result host family type protocol = Inr (result @ as \<noteq> [], result @ as) \<and>
      LookupAny gai bo host family type protocol = Inr (if as = [] then None else hd as) \<and>
      LookupAnyIPAddress gai bo host family type protocol =
        Inr (case find (\<lambda>a. to_IPAddress a \<noteq> None) as of None \<Rightarrow> None | Some a \<Rightarrow> a)) \<and>
    (gai (c_str node) (map_option c_str service) family type protocol = Inl err \<longrightarrow>
      Lookup gai bo result host family type protocol = Inr (False, result) \<and>
      LookupAny gai bo host family type protocol = Inr None \<and>
      LookupAnyIPAddress gai bo host family type protocol = Inr None)"
proof (intro conjI impI)
  assume *: "gai (c_str node) (map_option c_str service) family type protocol = Inr rs \<and>
      list_all2 (\<lambda>r a. Address_Create bo r = Inr a) rs as"
  have L: "Lookup gai bo res host family type protocol = Inr (res @ as \<noteq> [], res @ as)" for res
    using assms * by (simp add: Lookup_def Create_all_eq)
  show "Lookup gai bo result host family type protocol = Inr (result @ as \<noteq> [], result @ as)"
    by (rule L)
  show "LookupAny gai bo host family type protocol = Inr (if as = [] then None else hd as)"
    by (cases as) (simp_all add: LookupAny_def L)
  show "LookupAnyIPAddress gai bo host family type protocol =
        Inr (case find (\<lambda>a. to_IPAddress a \<noteq> None) as of None \<Rightarrow> None | Some a \<Rightarrow> a)"
    by (cases "as = []") (simp_all add: LookupAnyIPAddress_def L first_IPAddress_find)
next
  assume *: "gai (c_str node) (map_option c_str service) family type protocol = Inl err"
  have L: "Lookup gai bo res host family type protocol = Inr (False, res)" for res
    using assms * by (simp add: Lookup_def)
  show "Lookup gai bo result host family type protocol = Inr (False, result)"
    "LookupAny gai bo host family type protocol = Inr None"
    "LookupAnyIPAddress gai bo host family type protocol = Inr None"
    by (simp_all add: L LookupAny_def LookupAnyIPAddress_def)
qed

theorem Lookup_first_match_witness:
  "let raw = getAddr Little_Endian (IPv4Address (IPv4Address_ctor Little_Endian 0x7f000001 80));
       gai = (\<lambda>node service family type protocol.
                if node = ''localhost'' \<and> service = Some ''80'' then Inr [Some raw] else Inl (-2))
   in LookupAnyIPAddress gai Little_Endian ''localhost:80'' 2 0 0 =
        Inr (Some (IPv4Address (IPv4Address_ctor Little_Endian 0x7f000001 80))) \<and>
      LookupAny gai Little_Endian ''nohost:80'' 2 0 0 = Inr None"
proof -
  let ?a = "IPv4Address (IPv4Address_ctor Little_Endian 0x7f000001 80)"
  let ?raw = "getAddr Little_Endian ?a"
  let ?gai = "\<lambda>node service family type protocol.
     if node = ''localhost'' \<and> service = Some ''80'' then Inr [Some ?raw] else Inl (-2)"
  have wf: "wf_address ?a" by (simp add: IPv4Address_ctor_def)
  have c: "Address_Create Little_Endian (Some ?raw) = Inr (Some ?a)"
    using load_sockaddr_getAddr(1) [OF wf, of Little_Endian]
    by (simp add: Address_Create_def deref_def load_store IPv4Address_ctor_def)
  have p: "Lookup_parse ''localhost:80'' = (''localhost'', Some ''80'')"
    "Lookup_parse ''nohost:80'' = (''nohost'', Some ''80'')"
    by code_simp+
  have "LookupAnyIPAddress ?gai Little_Endian ''localhost:80'' 2 0 0 = Inr (Some ?a)"
    using Lookup_first_match [OF p(1), of ?gai 2 0 0 "[Some ?raw]" Little_Endian "[Some ?a]"] c
    by (simp add: c_str_def)
  moreover have "LookupAny ?gai Little_Endian ''nohost:80'' 2 0 0 = Inr None"
    using Lookup_first_match [OF p(2), of ?gai 2 0 0 _ Little_Endian] by (simp add: c_str_def)
  ultimately show ?thesis unfolding Let_def by (rule conjI)
qed

abbreviation key_sorted :: "(string \<times> 'v) list \<Rightarrow> bool" where
  "key_sorted m \<equiv> sorted_wrt (\<lambda>a b. \<not> ord_class.lexordp (fst b) (fst a)) m"

lemma set_multimap_insert: "set (multimap_insert k v m) = insert (k, v) (set m)"
  by (induction k v m rule: multimap_insert.induct) auto

lemma key_sorted_insert: "key_sorted m \<Longrightarrow> key_sorted (multimap_insert k v m)"
proof (induction k v m rule: multimap_insert.induct)
  case (2 k v k' v' m)
  show ?case
  proof (cases "ord_class.lexordp k k'")
    case True
    then have "\<not> ord_class.lexordp (fst x) k" if "x \<in> set ((k', v') # m)" for x
      using that 2(2) lexordp_trans [of "fst x" k k'] by (auto dest: lexordp_antisym)
    with True 2(2) show ?thesis by auto
  qed (use 2 in \<open>auto simp: set_multimap_insert\<close>)
qed simp

lemma filter_multimap_insert:
  "key_sorted m \<Longrightarrow> filter (\<lambda>(k', _). k' = q) (multimap_insert k v m) =
     filter (\<lambda>(k', _). k' = q) m @ (if k = q then [(k, v)] else [])"
proof (induction k v m rule: multimap_insert.induct)
  case (2 k v k' v' m)
  show ?case
  proof (cases "ord_class.lexordp k k'")
    case True
    then have "fst x \<noteq> k" if "x \<in> set ((k', v') # m)" for x
      using that 2(2) by (auto simp: lexordp_irreflexive')
    then have "filter (\<lambda>(k', _). k' = k) ((k', v') # m) = []" by (force simp: filter_empty_conv)
    with True show ?thesis by auto
  qed (use 2 in auto)
qed simp

lemma equal_range_filter: "key_sorted m \<Longrightarrow> equal_range k m = map snd (filter (\<lambda>(k', _). k' = k) m)"
proof (induction m)
  case (Cons x m)
  show ?case
  proof (cases "fst x = k")
    case True
    have "takeWhile (\<lambda>(k', _). k' = k) m = filter (\<lambda>(k', _). k' = k) m"
      if "key_sorted m" "\<forall>b \<in> set m. \<not> ord_class.lexordp (fst b) k" for m :: "(string \<times> 'a) list"
      using that
    proof (induction m)
      case (Cons y m)
      then show ?case
      proof (cases "fst y = k")
        case False
        then have "ord_class.lexordp k (fst y)" using Cons.prems(2) lexordp_linear by auto
        then have "fst b \<noteq> k" if "b \<in> set m" for b
          using that Cons.prems(1) by auto
        then have "filter (\<lambda>(k', _). k' = k) m = []" by (force simp: filter_empty_conv)
        with False show ?thesis by (auto split: prod.split)
      qed (auto split: prod.splits)
    qed simp
    with True Cons.prems show ?thesis by (auto simp: equal_range_def split: prod.splits)
  next
    case False
    with Cons show ?thesis by (auto simp: equal_range_def split: prod.splits)
  qed
qed (simp add: equal_range_def)

lemma iface_loop_filter:
  assumes "list_all2 (\<lambda>n e. iface_entry bo family n = Inr e) ifs es" "key_sorted m"
  shows "\<exists>m'. iface_loop bo family ifs m = Inr m' \<and> key_sorted m' \<and>
    map snd (filter (\<lambda>(k, _). k = q) m') = map snd (filter (\<lambda>(k, _). k = q) m) @
      map (\<lambda>(n, e). the e) (filter (\<lambda>(n, e). ifa_name n = q \<and> e \<noteq> None) (zip ifs es))"
  using assms
proof (induction arbitrary: m rule: list_all2_induct)
  case (Cons n ns e es)
  let ?m = "case e of None \<Rightarrow> m | Some v \<Rightarrow> multimap_insert (ifa_name n) v m"
  have "key_sorted ?m" using Cons.prems by (auto simp: key_sorted_insert split: option.split)
  with Cons.IH obtain m' where m': "iface_loop bo family ns ?m = Inr m'" "key_sorted m'"
    "map snd (filter (\<lambda>(k, _). k = q) m') = map snd (filter (\<lambda>(k, _). k = q) ?m) @
      map (\<lambda>(n, e). the e) (filter (\<lambda>(n, e). ifa_name n = q \<and> e \<noteq> None) (zip ns es))" by blast
  then show ?case
    using Cons.prems Cons.hyps(1) by (cases e) (auto simp: filter_multimap_insert)
qed auto

text \<open>
  GetInterfaceAddresses for a named interface returns, in the order getifaddrs lists them,
  the address and prefix length of every structure of that name whose family is wanted, and
  reports whether there is one; the prefix length of an IPv4 interface is the number of one bits
  of its netmask. An interface without an address makes it dereference a null pointer.
\<close>

theorem GetInterfaceAddresses_named:
  assumes "iface \<noteq> []" "iface \<noteq> ''*''"
  shows "(list_all2 (\<lambda>n e. iface_entry bo family n = Inr e) ifs es \<longrightarrow>
      (let vs = map (\<lambda>(n, e). the e) (filter (\<lambda>(n, e). ifa_name n = iface \<and> e \<noteq> None) (zip ifs es))
       in GetInterfaceAddresses (Some ifs) bo [] iface family = Inr (vs \<noteq> [], vs))) \<and>
    (ifa_addr n = Some (getAddr bo (IPv4Address a)) \<and> wf_address (IPv4Address a) \<and>
      sin_family a = AF_INET \<and> ifa_netmask n = Some (getAddr bo (IPv4Address m)) \<and>
      wf_address (IPv4Address m) \<and> family \<in> {0, 2} \<longrightarrow>
      iface_entry bo family n = Inr (Some (IPv4Address a, CountBytes (s_addr m)))) \<and>
    (ifa_addr n = None \<longrightarrow> (\<exists>e. GetInterfaceAddresses (Some [n]) bo [] iface family = Inl (Undefined e)))"
proof (intro conjI impI)
  assume "list_all2 (\<lambda>n e. iface_entry bo family n = Inr e) ifs es"
  from iface_loop_filter [OF this, of "[]" iface]
  obtain m' where m': "iface_loop bo family ifs [] = Inr m'" "key_sorted m'"
    "map snd (filter (\<lambda>(k, _). k = iface) m') =
      map (\<lambda>(n, e). the e) (filter (\<lambda>(n, e). ifa_name n = iface \<and> e \<noteq> None) (zip ifs es))"
    by auto
  then show "let vs = map (\<lambda>(n, e). the e) (filter (\<lambda>(n, e). ifa_name n = iface \<and> e \<noteq> None) (zip ifs es))
       in GetInterfaceAddresses (Some ifs) bo [] iface family = Inr (vs \<noteq> [], vs)"
    using assms
    by (cases "m' = []") (simp_all add: GetInterfaceAddresses_def GetInterfaceAddresses_all_def Let_def
        equal_range_filter)
next
  assume *: "ifa_addr n = Some (getAddr bo (IPv4Address a)) \<and> wf_address (IPv4Address a) \<and>
      sin_family a = AF_INET \<and> ifa_netmask n = Some (getAddr bo (IPv4Address m)) \<and>
      wf_address (IPv4Address m) \<and> family \<in> {0, 2}"
  then show "iface_entry bo family n = Inr (Some (IPv4Address a, CountBytes (s_addr m)))"
    using load_sockaddr_getAddr(1) [of a bo] load_sockaddr_getAddr(1) [of m bo]
    by (auto simp: iface_entry_def deref_ptr_def deref_def Address_Create_def load_store)
next
  assume "ifa_addr n = None"
  then show "\<exists>e. GetInterfaceAddresses (Some [n]) bo [] iface family = Inl (Undefined e)"
    using assms by (simp add: GetInterfaceAddresses_def GetInterfaceAddresses_all_def iface_entry_def
        deref_ptr_def)
qed

theorem GetInterfaceAddresses_named_witness:
  "let a = IPv4Address_ctor Little_Endian 0xC0A80A0A 0; m = IPv4Address_ctor Little_Endian 0xFFFFFF00 0;
       n = \<lparr>ifa_name = ''eth0'', ifa_addr = Some (getAddr Little_Endian (IPv4Address a)),
            ifa_netmask = Some (getAddr Little_Endian (IPv4Address m))\<rparr>
   in iface_entry Little_Endian 2 n = Inr (Some (IPv4Address a, CountBytes (s_addr m))) \<and>
      GetInterfaceAddresses (Some [n]) Little_Endian [] ''eth0'' 2 =
        Inr (True, [(IPv4Address a, CountBytes (s_addr m))]) \<and>
      (\<exists>e. GetInterfaceAddresses (Some [n\<lparr>ifa_addr := None\<rparr>]) Little_Endian [] ''eth0'' 2 =
        Inl (Undefined e))"
proof -
  define a m where "a = IPv4Address_ctor Little_Endian 0xC0A80A0A 0"
    and "m = IPv4Address_ctor Little_Endian 0xFFFFFF00 0"
  define n where "n = \<lparr>ifa_name = ''eth0'', ifa_addr = Some (getAddr Little_Endian (IPv4Address a)),
            ifa_netmask = Some (getAddr Little_Endian (IPv4Address m))\<rparr>"
  have ne: "''eth0'' \<noteq> []" "''eth0'' \<noteq> ''*''" by simp_all
  note named = GetInterfaceAddresses_named [OF ne, of Little_Endian 2]
  have e: "iface_entry Little_Endian 2 n = Inr (Some (IPv4Address a, CountBytes (s_addr m)))"
    using named [of "[]" "[]" n a m] by (simp add: n_def a_def m_def IPv4Address_ctor_def)
  moreover have "GetInterfaceAddresses (Some [n]) Little_Endian [] ''eth0'' 2 =
        Inr (True, [(IPv4Address a, CountBytes (s_addr m))])"
    using named [of "[n]" "[Some (IPv4Address a, CountBytes (s_addr m))]" n a m] e
    by (simp add: n_def)
  moreover have "\<exists>e. GetInterfaceAddresses (Some [n\<lparr>ifa_addr := None\<rparr>]) Little_Endian [] ''eth0'' 2 =
        Inl (Undefined e)"
    using named [of "[]" "[]" "n\<lparr>ifa_addr := None\<rparr>" a m] by simp
  ultimately show ?thesis unfolding Let_def n_def a_def m_def by blast
qed

lemma port_roundtrip:
  "IPv4_getPort bo (IPv4_setPort bo v a) = ucast v" "IPv6_getPort bo (IPv6_setPort bo v b) = ucast v"
  by (simp_all add: IPv4_getPort_def IPv4_setPort_def IPv6_getPort_def IPv6_setPort_def)

lemma setPort_family:
  "sin_family (IPv4_setPort bo v a) = sin_family a" "sin6_family (IPv6_setPort bo v b) = sin6_family b"
  by (simp_all add: IPv4_setPort_def IPv6_setPort_def)

text \<open>
  The three ways to make an address from text. IPAddress::Create returns the first resolved
  address with the requested port when it is an IP address, a null pointer when it is not or
  the resolver fails. IPv4Address::Create returns the parsed address with the port for valid
  text, but for text that is no address (inet_pton returns 0) it returns 0.0.0.0 with the port
  and not the null pointer its comment promises; IPv6Address::Create returns an address for no
  text at all.
\<close>

theorem Create_from_text:
  "(gai t = Inr (r # rs) \<and> Address_Create bo r = Inr a \<longrightarrow>
      (\<exists>b. IPAddress_Create gai bo t port = Inr b \<and>
        (b = None \<longleftrightarrow> to_IPAddress a = None) \<and>
        (\<forall>x. b = Some x \<longrightarrow> get_port bo x = Some (ucast port) \<and> getFamily x = getFamily (the a)))) \<and>
   (gai t = Inl err \<longrightarrow> IPAddress_Create gai bo t port = Inr None) \<and>
   (pton t = (1, ip) \<longrightarrow> IPv4Address_Create pton bo t port =
      Some ((IPv4Address_ctor bo 0 port)\<lparr>s_addr := ip\<rparr>)) \<and>
   (pton t = (0, ip) \<longrightarrow> IPv4Address_Create pton bo t port = Some (IPv4Address_ctor bo 0 port)) \<and>
   (pton t = (- 1, ip) \<longrightarrow> IPv4Address_Create pton bo t port = None) \<and>
   \<not> (\<exists>x. IPv6Address_Create pton6 t port = Inr (Some x))"
proof (intro conjI impI)
  assume *: "gai t = Inr (r # rs) \<and> Address_Create bo r = Inr a"
  show "\<exists>b. IPAddress_Create gai bo t port = Inr b \<and> (b = None \<longleftrightarrow> to_IPAddress a = None) \<and>
        (\<forall>x. b = Some x \<longrightarrow> get_port bo x = Some (ucast port) \<and> getFamily x = getFamily (the a))"
    using * by (cases a rule: to_IPAddress.cases)
      (auto simp: IPAddress_Create_def port_roundtrip setPort_family)
qed (auto simp: IPAddress_Create_def IPv4Address_Create_def IPv4Address_ctor_def IPv6Address_Create_def
    Let_def split: prod.split if_splits)

theorem Create_from_text_witness:
  "let raw = getAddr Little_Endian (IPv4Address (IPv4Address_ctor Little_Endian 0x7f000001 0));
       gai = (\<lambda>t. if t = ''127.0.0.1'' then Inr [Some raw] else Inl (-2));
       pton = (\<lambda>t. if t = ''127.0.0.1'' then (1, 0x0100007f) else if t = ''x'' then (0, 0) else (-1, 0))
   in (\<exists>x. IPAddress_Create gai Little_Endian ''127.0.0.1'' 80 = Inr (Some x) \<and>
         get_port Little_Endian x = Some 80) \<and>
      IPAddress_Create gai Little_Endian ''x'' 80 = Inr None \<and>
      IPv4Address_Create pton Little_Endian ''x'' 80 = Some (IPv4Address_ctor Little_Endian 0 80) \<and>
      IPv4Address_Create pton Little_Endian ''127.0.0.1'' 80 =
        Some ((IPv4Address_ctor Little_Endian 0 80)\<lparr>s_addr := 0x0100007f\<rparr>) \<and>
      IPv4Address_Create pton Little_Endian ''y'' 80 = None"
proof -
  let ?a = "IPv4Address (IPv4Address_ctor Little_Endian 0x7f000001 0)"
  let ?raw = "getAddr Little_Endian ?a"
  let ?gai = "\<lambda>t. if t = ''127.0.0.1'' then Inr [Some ?raw] else Inl (-2)"
  let ?pton = "\<lambda>t. if t = ''127.0.0.1'' then (1, 0x0100007f) else if t = ''x'' then (0, 0) else (-1, 0)"
  have wf: "wf_address ?a" by (simp add: IPv4Address_ctor_def)
  have c: "Address_Create Little_Endian (Some ?raw) = Inr (Some ?a)"
    using load_sockaddr_getAddr(1) [OF wf, of Little_Endian]
    by (simp add: Address_Create_def deref_def load_store IPv4Address_ctor_def)
  note from_text = Create_from_text [where bo = Little_Endian and port = 80 and gai = ?gai and pton = ?pton]
  have "\<exists>x. IPAddress_Create ?gai Little_Endian ''127.0.0.1'' 80 = Inr (Some x) \<and>
         get_port Little_Endian x = Some 80"
    using from_text [of "''127.0.0.1''" "Some ?raw" "[]" "Some ?a", THEN conjunct1] c by auto
  moreover have "IPAddress_Create ?gai Little_Endian ''x'' 80 = Inr None"
    "IPv4Address_Create ?pton Little_Endian ''x'' 80 = Some (IPv4Address_ctor Little_Endian 0 80)"
    using from_text [of "''x''"] by auto
  moreover have "IPv4Address_Create ?pton Little_Endian ''127.0.0.1'' 80 =
      Some ((IPv4Address_ctor Little_Endian 0 80)\<lparr>s_addr := 0x0100007f\<rparr>)"
    "IPv4Address_Create ?pton Little_Endian ''y'' 80 = None"
    using from_text [of "''127.0.0.1''"] from_text [of "''y''"] by auto
  ultimately show ?thesis unfolding Let_def by blast
qed

end
