(* ===== verification/Socket.thy ===== *)
theory Socket
  imports Hook Address_Lookup
begin

section \<open>Sockets (socket.h, socket.cpp)\<close>

text \<open>
  The class \<open>Socket\<close> over the hooked system calls. A socket is a record; its addresses are values,
  since nothing changes an address object a socket holds. The system calls that are not hooked are
  the functions of a record \<open>sock_os\<close>, an argument; the hooked ones run on the descriptor table of
  the theory \<open>Hook\<close> with a script of the environment's answers, and \<open>None\<close> is a call that has not
  returned when the script ends. The log lines of the error branches are left out.
\<close>

subsection \<open>State and environment\<close>

record sock =
  m_sock :: int
  m_family :: int
  m_type :: int
  m_protocol :: int
  m_localAddress :: "address option"
  m_remoteAddress :: "address option"
  m_isconnected :: bool

text \<open>
  \<open>os_socket\<close> returns the descriptor, or -1, and the kernel afterwards; \<open>os_accepted\<close> is the kernel
  once \<open>accept\<close> has returned a descriptor; \<open>os_close\<close> the result and the kernel afterwards.
  \<open>os_getsockname\<close> and \<open>os_getpeername\<close> give the bytes of the name, or nothing on an error;
  \<open>os_getsockopt\<close> the result and the value of an option. \<open>os_heap\<close> are the 14 bytes an
  \<open>UnknownAddress\<close> finds in its memory, \<open>os_order\<close> the byte order of the host.
\<close>

record sock_os =
  os_order :: byte_order
  os_socket :: "int \<Rightarrow> int \<Rightarrow> int \<Rightarrow> kernel \<Rightarrow> int \<times> kernel"
  os_accepted :: "int \<Rightarrow> kernel \<Rightarrow> kernel"
  os_close :: "int \<Rightarrow> kernel \<Rightarrow> int \<times> kernel"
  os_bind :: "int \<Rightarrow> u8 list \<Rightarrow> u32 \<Rightarrow> int"
  os_listen :: "int \<Rightarrow> int \<Rightarrow> int"
  os_getsockname :: "int \<Rightarrow> u8 list option"
  os_getpeername :: "int \<Rightarrow> u8 list option"
  os_getsockopt :: "int \<Rightarrow> int \<Rightarrow> int \<Rightarrow> int \<times> int"
  os_setsockopt :: "int \<Rightarrow> int \<Rightarrow> int \<Rightarrow> int"
  os_heap :: "u8 list"

text \<open>The hooks with their descriptor table, and the options that were set, oldest first.\<close>

record sock_world =
  sw_hook :: hook_state
  sw_opts :: "(int \<times> int \<times> int \<times> int list) list"

abbreviation sw_fds :: "sock_world \<Rightarrow> fd_manager" where
  "sw_fds w \<equiv> hk_fds (sw_hook w)"

definition set_fds :: "fd_manager \<Rightarrow> sock_world \<Rightarrow> sock_world" where
  "set_fds fds w = w\<lparr>sw_hook := (sw_hook w)\<lparr>hk_fds := fds\<rparr>\<rparr>"

definition set_kernel :: "kernel \<Rightarrow> sock_world \<Rightarrow> sock_world" where
  "set_kernel k w = set_fds (upd_kernel (\<lambda>_. k) (sw_fds w)) w"

text \<open>A call that may not have returned.\<close>

definition obind :: "'a option res \<Rightarrow> ('a \<Rightarrow> 'b option res) \<Rightarrow> 'b option res" where
  "obind r f = rbind r (\<lambda>x. case x of None \<Rightarrow> Inr None | Some a \<Rightarrow> f a)"

lemma obind_simps [simp]:
  "obind (Inl e) f = Inl e" "obind (Inr None) f = Inr None" "obind (Inr (Some a)) f = f a"
  by (simp_all add: obind_def)

definition SOL_SOCKET :: int where "SOL_SOCKET = 1"
definition SO_REUSEADDR :: int where "SO_REUSEADDR = 2"
definition SO_ERROR :: int where "SO_ERROR = 4"
definition IPPROTO_TCP :: int where "IPPROTO_TCP = 6"
definition TCP_NODELAY :: int where "TCP_NODELAY = 1"
definition SOCK_STREAM :: int where "SOCK_STREAM = 1"
definition SOCK_DGRAM :: int where "SOCK_DGRAM = 2"
definition PF_UNIX :: int where "PF_UNIX = 1"
definition PF_INET :: int where "PF_INET = 2"
definition PF_INET6 :: int where "PF_INET6 = 10"

lemmas sock_consts = SOL_SOCKET_def SO_REUSEADDR_def SO_ERROR_def IPPROTO_TCP_def TCP_NODELAY_def
  SOCK_STREAM_def SOCK_DGRAM_def PF_UNIX_def PF_INET_def PF_INET6_def

subsection \<open>Construction and options\<close>

definition Socket_ctor :: "int \<Rightarrow> int \<Rightarrow> int \<Rightarrow> sock" where
  "Socket_ctor family type protocol =
     \<lparr> m_sock = - 1, m_family = family, m_type = type, m_protocol = protocol,
       m_localAddress = None, m_remoteAddress = None, m_isconnected = False \<rparr>"

definition isValid :: "sock \<Rightarrow> bool" where
  "isValid s \<longleftrightarrow> m_sock s \<noteq> - 1"

text \<open>A context's timeout is unsigned, the result signed.\<close>

definition get_timeout :: "int \<Rightarrow> sock \<Rightarrow> sock_world \<Rightarrow> int res" where
  "get_timeout type s w =
     rbind (FdManager_get (m_sock s) False (sw_fds w)) (\<lambda>(fds, p).
       case fd_ctx_of fds p of None \<Rightarrow> Inr (- 1) | Some ctx \<Rightarrow> Inr (sint (FdCtx_getTimeout type ctx)))"

definition getSendTimeout :: "sock \<Rightarrow> sock_world \<Rightarrow> int res" where
  "getSendTimeout s w = get_timeout SO_SNDTIMEO s w"

definition getRecvTimeout :: "sock \<Rightarrow> sock_world \<Rightarrow> int res" where
  "getRecvTimeout s w = get_timeout SO_RCVTIMEO s w"

text \<open>Both return \<open>true\<close> whatever the system call returns.\<close>

definition getOption :: "sock_os \<Rightarrow> int \<Rightarrow> int \<Rightarrow> int \<Rightarrow> sock \<Rightarrow> int \<times> bool" where
  "getOption os level option result s =
     (let (res, value) = os_getsockopt os (m_sock s) level option
      in (if res = 0 then value else result, True))"

definition setOption :: "sock_os \<Rightarrow> int \<Rightarrow> int \<Rightarrow> int list \<Rightarrow> sock \<Rightarrow> sock_world \<Rightarrow> sock_world \<times> bool" where
  "setOption os level option value s w =
     (let res = os_setsockopt os (m_sock s) level option
      in (if res = 0 then w\<lparr>sw_opts := sw_opts w @ [(m_sock s, level, option, value)]\<rparr> else w, True))"

definition int32 :: "int \<Rightarrow> int" where
  "int32 n = sint (of_int n :: u32)"

text \<open>\<open>timeval{int(v / 1000), int(v % 1000 * 1000)}\<close>\<close>

definition timeval_of :: "int \<Rightarrow> int list" where
  "timeval_of v = [int32 (c_div v 1000), int32 ((v - c_div v 1000 * 1000) * 1000)]"

definition set_timeout :: "sock_os \<Rightarrow> int \<Rightarrow> int \<Rightarrow> sock \<Rightarrow> sock_world \<Rightarrow> sock_world res" where
  "set_timeout os type v s w =
     (let (w, _) = setOption os SOL_SOCKET type (timeval_of v) s w in
      rbind (FdManager_get (m_sock s) False (sw_fds w)) (\<lambda>(fds, p).
        case fd_ctx_of fds p of
          None \<Rightarrow> Inr w
        | Some _ \<Rightarrow> Inr (set_fds (upd_fdctx p (FdCtx_setTimeout type (of_int v)) fds) w)))"

definition setSendTimeout :: "sock_os \<Rightarrow> int \<Rightarrow> sock \<Rightarrow> sock_world \<Rightarrow> sock_world res" where
  "setSendTimeout os v s w = set_timeout os SO_SNDTIMEO v s w"

definition setRecvTimeout :: "sock_os \<Rightarrow> int \<Rightarrow> sock \<Rightarrow> sock_world \<Rightarrow> sock_world res" where
  "setRecvTimeout os v s w = set_timeout os SO_RCVTIMEO v s w"

definition getError :: "sock_os \<Rightarrow> int \<Rightarrow> sock \<Rightarrow> int" where
  "getError os errno s =
     (let error = 0; (error, ok) = getOption os SOL_SOCKET SO_ERROR error s
      in if \<not> ok then errno else error)"

definition initSock :: "sock_os \<Rightarrow> sock \<Rightarrow> sock_world \<Rightarrow> sock_world" where
  "initSock os s w =
     (let (w, _) = setOption os SOL_SOCKET SO_REUSEADDR [1] s w
      in if m_type s = SOCK_STREAM then fst (setOption os IPPROTO_TCP TCP_NODELAY [1] s w) else w)"

definition newSock :: "sock_os \<Rightarrow> sock \<Rightarrow> sock_world \<Rightarrow> (sock \<times> sock_world) res" where
  "newSock os s w =
     (let (fd, k) = os_socket os (m_family s) (m_type s) (m_protocol s) (fm_kernel (sw_fds w));
          w = set_kernel k w
      in rbind (hook_socket (sw_hook w) fd) (\<lambda>(h, fd).
           let s = s\<lparr>m_sock := fd\<rparr>; w = w\<lparr>sw_hook := h\<rparr>
           in if fd \<noteq> - 1 then Inr (s, initSock os s w) else Inr (s, w)))"

definition Socket_close :: "sock_os \<Rightarrow> sock \<Rightarrow> sock_world \<Rightarrow> sock \<times> sock_world \<times> bool" where
  "Socket_close os s w =
     (if \<not> m_isconnected s \<and> m_sock s = - 1 then (s, w, True)
      else
        let s = s\<lparr>m_isconnected := False\<rparr> in
        if m_sock s \<noteq> - 1 then
          let (res, k) = os_close os (m_sock s) (fm_kernel (sw_fds w)); w = set_kernel k w
          in if res = 0 then (s\<lparr>m_sock := - 1\<rparr>, w, True) else (s, w, False)
        else (s, w, False))"

definition Socket_dtor :: "sock_os \<Rightarrow> sock \<Rightarrow> sock_world \<Rightarrow> sock_world" where
  "Socket_dtor os s w = fst (snd (Socket_close os s w))"

subsection \<open>Names\<close>

text \<open>The address object of a family, and what a system call writes into its structure.\<close>

definition new_address :: "sock_os \<Rightarrow> int \<Rightarrow> address" where
  "new_address os family =
     (if family = PF_INET then IPv4Address (IPv4Address_ctor (os_order os) 0 0)
      else if family = PF_INET6 then IPv6Address IPv6Address_default
      else if family = PF_UNIX then (case UnixAddress_default of (a, len) \<Rightarrow> UnixAddress a len)
      else UnknownAddress (UnknownAddress_ctor (os_heap os) (of_int family)))"

definition load_sockaddr_un :: "byte_order \<Rightarrow> u8 list \<Rightarrow> sockaddr_un" where
  "load_sockaddr_un bo m = \<lparr> sun_family = load bo (take 2 m), sun_path = map (\<lambda>b. char_of (unat b)) (take 108 (drop 2 m)) \<rparr>"

definition write_address :: "byte_order \<Rightarrow> u8 list \<Rightarrow> address \<Rightarrow> address res" where
  "write_address bo name a =
     (let bytes = take (unat (getAddrLen a)) name; m = getAddr bo a
      in if length m < length bytes then Inl (Undefined ''sockaddr written past its memory'')
         else let m = bytes @ drop (length bytes) m in
           case a of
             IPv4Address _ \<Rightarrow> Inr (IPv4Address (load_sockaddr_in bo m))
           | IPv6Address _ \<Rightarrow> Inr (IPv6Address (load_sockaddr_in6 bo m))
           | UnixAddress _ len \<Rightarrow> Inr (UnixAddress (load_sockaddr_un bo m) len)
           | UnknownAddress _ \<Rightarrow> Inr (UnknownAddress (load_sockaddr bo m)))"

text \<open>The common part of \<open>getLocalAddress\<close> and \<open>getRemoteAdress\<close>: the name, and whether to keep it.\<close>

definition query_address :: "sock_os \<Rightarrow> int \<Rightarrow> u8 list option \<Rightarrow> (address \<times> bool) res" where
  "query_address os family answer =
     (case answer of
        None \<Rightarrow> Inr (UnknownAddress (UnknownAddress_ctor (os_heap os) (of_int family)), False)
      | Some name \<Rightarrow>
          rbind (write_address (os_order os) name (new_address os family)) (\<lambda>result.
            Inr (case result of
                   UnixAddress a _ \<Rightarrow> UnixAddress a (of_nat (length name))
                 | _ \<Rightarrow> result, True)))"

definition getLocalAddress :: "sock_os \<Rightarrow> sock \<Rightarrow> (sock \<times> address) res" where
  "getLocalAddress os s =
     (case m_localAddress s of
        Some a \<Rightarrow> Inr (s, a)
      | None \<Rightarrow>
          rbind (query_address os (m_family s) (os_getsockname os (m_sock s))) (\<lambda>(result, keep).
            Inr (if keep then s\<lparr>m_localAddress := Some result\<rparr> else s, result)))"

definition getRemoteAdress :: "sock_os \<Rightarrow> sock \<Rightarrow> (sock \<times> address) res" where
  "getRemoteAdress os s =
     (case m_remoteAddress s of
        Some a \<Rightarrow> Inr (s, a)
      | None \<Rightarrow>
          rbind (query_address os (m_family s) (os_getpeername os (m_sock s))) (\<lambda>(result, keep).
            Inr (if keep then s\<lparr>m_remoteAddress := Some result\<rparr> else s, result)))"

subsection \<open>Connections\<close>

definition Socket_init :: "sock_os \<Rightarrow> int \<Rightarrow> sock \<Rightarrow> sock_world \<Rightarrow> (sock \<times> sock_world \<times> bool) res" where
  "Socket_init os fd s w =
     rbind (FdManager_get fd False (sw_fds w)) (\<lambda>(fds, p).
       case fd_ctx_of fds p of
         None \<Rightarrow> Inr (s, w, False)
       | Some ctx \<Rightarrow>
           if fx_isSocket ctx \<and> \<not> fx_isClosed ctx then
             let s = s\<lparr>m_sock := fd, m_isconnected := True\<rparr>; w = initSock os s w in
             rbind (getLocalAddress os s) (\<lambda>(s, _).
             rbind (getRemoteAdress os s) (\<lambda>(s, _). Inr (s, w, True)))
           else Inr (s, w, False))"

text \<open>The new socket is destroyed when it is not returned.\<close>

definition Socket_accept ::
  "sock_os \<Rightarrow> env_step list \<Rightarrow> sock \<Rightarrow> sock_world \<Rightarrow> (sock option \<times> sock_world) option res" where
  "Socket_accept os script s w =
     (let sock = Socket_ctor (m_family s) (m_type s) (m_protocol s) in
      rbind (hook_accept (os_accepted os) (sw_hook w) (m_sock s) script) (\<lambda>(h, r).
        let w = w\<lparr>sw_hook := h\<rparr> in
        case r of
          None \<Rightarrow> Inr None
        | Some (newsock, _) \<Rightarrow>
            if newsock = - 1 then Inr (Some (None, Socket_dtor os sock w))
            else
              rbind (Socket_init os newsock sock w) (\<lambda>(sock, w, ok).
                if ok then Inr (Some (Some sock, w)) else Inr (Some (None, Socket_dtor os sock w)))))"

definition valid_or_new :: "sock_os \<Rightarrow> sock \<Rightarrow> sock_world \<Rightarrow> (sock \<times> sock_world) res" where
  "valid_or_new os s w = (if \<not> isValid s then newSock os s w else Inr (s, w))"

definition Socket_connect ::
  "sock_os \<Rightarrow> env_step list \<Rightarrow> address \<Rightarrow> u64 \<Rightarrow> sock \<Rightarrow> sock_world \<Rightarrow> (sock \<times> sock_world \<times> bool) option res" where
  "Socket_connect os script address timeout_ms s w =
     (let s = s\<lparr>m_remoteAddress := Some address\<rparr> in
      rbind (valid_or_new os s w) (\<lambda>(s, w).
        if \<not> isValid s then Inr (Some (s, w, False))
        else if uint (getFamily address) \<noteq> m_family s then Inr (Some (s, w, False))
        else
          obind (if timeout_ms = - 1 then hook_connect (sw_hook w) (m_sock s) script
                 else connect_with_timeout (sw_hook w) (m_sock s) timeout_ms script) (\<lambda>(rt, _).
            if rt \<noteq> 0 then let (s, w, _) = Socket_close os s w in Inr (Some (s, w, False))
            else
              let s = s\<lparr>m_isconnected := True\<rparr> in
              rbind (getRemoteAdress os s) (\<lambda>(s, _).
              rbind (getLocalAddress os s) (\<lambda>(s, _). Inr (Some (s, w, True)))))))"

definition reconnect ::
  "sock_os \<Rightarrow> env_step list \<Rightarrow> u64 \<Rightarrow> sock \<Rightarrow> sock_world \<Rightarrow> (sock \<times> sock_world \<times> bool) option res" where
  "reconnect os script timeout_ms s w =
     (case m_remoteAddress s of
        None \<Rightarrow> Inr (Some (s, w, False))
      | Some a \<Rightarrow> Socket_connect os script a timeout_ms (s\<lparr>m_localAddress := None\<rparr>) w)"

definition CreateUnixTCPSocket :: sock where
  "CreateUnixTCPSocket = Socket_ctor PF_UNIX SOCK_STREAM 0"

text \<open>
  For a Unix address \<open>bind\<close> first connects a socket of its own to it, with \<open>script\<close> the answers this
  connect gets; that socket is destroyed when it goes out of scope.
\<close>

definition bind_probe :: "sock_os \<Rightarrow> env_step list \<Rightarrow> address \<Rightarrow> sock_world \<Rightarrow> (sock_world \<times> bool) option res" where
  "bind_probe os script uaddr w =
     obind (Socket_connect os script uaddr (- 1) CreateUnixTCPSocket w) (\<lambda>(sock, w, ok).
       Inr (Some (Socket_dtor os sock w, ok)))"

definition Socket_bind ::
  "sock_os \<Rightarrow> env_step list \<Rightarrow> address \<Rightarrow> sock \<Rightarrow> sock_world \<Rightarrow> (sock \<times> sock_world \<times> bool) option res" where
  "Socket_bind os script address s w =
     rbind (valid_or_new os s w) (\<lambda>(s, w).
       if \<not> isValid s then Inr (Some (s, w, False))
       else if uint (getFamily address) \<noteq> m_family s then Inr (Some (s, w, False))
       else
         obind (case address of
                  UnixAddress _ _ \<Rightarrow> bind_probe os script address w
                | _ \<Rightarrow> Inr (Some (w, False))) (\<lambda>(w, in_use).
           if in_use then Inr (Some (s, w, False))
           else if os_bind os (m_sock s) (getAddr (os_order os) address) (getAddrLen address) = 0 then
             Inr (Some (s, w, False))
           else rbind (getLocalAddress os s) (\<lambda>(s, _). Inr (Some (s, w, True)))))"

definition Socket_listen :: "sock_os \<Rightarrow> int \<Rightarrow> sock \<Rightarrow> bool" where
  "Socket_listen os backlog s =
     (if \<not> isValid s then False else if os_listen os (m_sock s) backlog \<noteq> 0 then False else True)"

subsection \<open>Input and output\<close>

text \<open>
  Every call tests \<open>isconnectd\<close> first; the \<open>ssize_t\<close> of the system call becomes the \<open>int\<close> result.
  The result is the number with what the hooked call did, \<open>None\<close> while it has not returned.
\<close>

type_synonym io_answer = "(int \<times> hook_action list) option"

definition gated :: "sock \<Rightarrow> hook_result res \<Rightarrow> io_answer res" where
  "gated s r =
     (if m_isconnected s then rbind r (\<lambda>x. Inr (map_option (\<lambda>(n, _, acts). (int32 n, acts)) x))
      else Inr (Some (- 1, [])))"

definition Socket_send :: "env_step list \<Rightarrow> sock \<Rightarrow> sock_world \<Rightarrow> io_answer res" where
  "Socket_send script s w = gated s (hook_send (sw_hook w) (m_sock s) script)"

definition Socket_send_iov :: "env_step list \<Rightarrow> sock \<Rightarrow> sock_world \<Rightarrow> io_answer res" where
  "Socket_send_iov script s w = gated s (hook_sendmsg (sw_hook w) (m_sock s) script)"

definition Socket_sendTo :: "env_step list \<Rightarrow> sock \<Rightarrow> sock_world \<Rightarrow> io_answer res" where
  "Socket_sendTo script s w = gated s (hook_sendto (sw_hook w) (m_sock s) script)"

definition Socket_sendTo_iov :: "env_step list \<Rightarrow> sock \<Rightarrow> sock_world \<Rightarrow> io_answer res" where
  "Socket_sendTo_iov script s w = gated s (hook_sendmsg (sw_hook w) (m_sock s) script)"

definition Socket_recv :: "env_step list \<Rightarrow> sock \<Rightarrow> sock_world \<Rightarrow> io_answer res" where
  "Socket_recv script s w = gated s (hook_recv (sw_hook w) (m_sock s) script)"

definition Socket_recv_iov :: "env_step list \<Rightarrow> sock \<Rightarrow> sock_world \<Rightarrow> io_answer res" where
  "Socket_recv_iov script s w = gated s (hook_recvmsg (sw_hook w) (m_sock s) script)"

text \<open>\<open>name\<close> is the sender's name, written into \<open>from\<close> by a call that received something.\<close>

definition gated_from ::
  "sock_os \<Rightarrow> u8 list \<Rightarrow> address \<Rightarrow> sock \<Rightarrow> hook_result res \<Rightarrow> (io_answer \<times> address) res" where
  "gated_from os name from_addr s r =
     (if m_isconnected s then
        rbind r (\<lambda>x.
          case x of
            None \<Rightarrow> Inr (None, from_addr)
          | Some (n, _, acts) \<Rightarrow>
              rbind (if n \<ge> 0 then write_address (os_order os) name from_addr else Inr from_addr) (\<lambda>a.
                Inr (Some (int32 n, acts), a)))
      else Inr (Some (- 1, []), from_addr))"

definition Socket_recvFrom ::
  "sock_os \<Rightarrow> env_step list \<Rightarrow> u8 list \<Rightarrow> address \<Rightarrow> sock \<Rightarrow> sock_world \<Rightarrow> (io_answer \<times> address) res" where
  "Socket_recvFrom os script name from_addr s w =
     gated_from os name from_addr s (hook_recvfrom (sw_hook w) (m_sock s) script)"

definition Socket_recvFrom_iov ::
  "sock_os \<Rightarrow> env_step list \<Rightarrow> u8 list \<Rightarrow> address \<Rightarrow> sock \<Rightarrow> sock_world \<Rightarrow> (io_answer \<times> address) res" where
  "Socket_recvFrom_iov os script name from_addr s w =
     gated_from os name from_addr s (hook_recvmsg (sw_hook w) (m_sock s) script)"

subsection \<open>Cancelling\<close>

text \<open>On the I/O manager of the calling thread; \<open>rt\<close> is what \<open>epoll_ctl\<close> returns.\<close>

definition cancelRead :: "int \<Rightarrow> sock \<Rightarrow> 'cb iomanager \<Rightarrow> ('cb iomanager \<times> bool) res" where
  "cancelRead rt s m = cancelEvent rt (m_sock s) EV_READ m"

definition cancelWrite :: "int \<Rightarrow> sock \<Rightarrow> 'cb iomanager \<Rightarrow> ('cb iomanager \<times> bool) res" where
  "cancelWrite rt s m = cancelEvent rt (m_sock s) EV_WRITE m"

definition Socket_cancelAll :: "int \<Rightarrow> sock \<Rightarrow> 'cb iomanager \<Rightarrow> ('cb iomanager \<times> bool) res" where
  "Socket_cancelAll rt s m = cancelAll rt (m_sock s) m"

definition cancelAccept :: "int \<Rightarrow> sock \<Rightarrow> 'cb iomanager \<Rightarrow> ('cb iomanager \<times> bool) res" where
  "cancelAccept rt s m = cancelEvent rt (m_sock s) EV_READ m"

subsection \<open>Text and factories\<close>

definition dump_address :: "byte_order \<Rightarrow> string \<Rightarrow> address option \<Rightarrow> string res" where
  "dump_address bo label a =
     (case a of None \<Rightarrow> Inr [] | Some a \<Rightarrow> rbind (Address_toString bo a) (\<lambda>t. Inr (label @ t)))"

definition Socket_dump :: "byte_order \<Rightarrow> sock \<Rightarrow> string res" where
  "Socket_dump bo s =
     rbind (dump_address bo '' local_address='' (m_localAddress s)) (\<lambda>l.
     rbind (dump_address bo '' remote_address='' (m_remoteAddress s)) (\<lambda>r.
       Inr (''[Socket sock='' @ show_int (m_sock s) @
            '' is_connected='' @ show_int (if m_isconnected s then 1 else 0) @
            '' family='' @ show_int (m_family s) @ '' type='' @ show_int (m_type s) @
            '' protocol='' @ show_int (m_protocol s) @ l @ r @ '']'')))"

definition Socket_toString :: "byte_order \<Rightarrow> sock \<Rightarrow> string res" where
  "Socket_toString bo s = Socket_dump bo s"

definition CreateTCP :: "address \<Rightarrow> sock" where
  "CreateTCP a = Socket_ctor (uint (getFamily a)) SOCK_STREAM 0"

definition new_udp :: "sock_os \<Rightarrow> int \<Rightarrow> sock_world \<Rightarrow> (sock \<times> sock_world) res" where
  "new_udp os family w =
     rbind (newSock os (Socket_ctor family SOCK_DGRAM 0) w) (\<lambda>(s, w). Inr (s\<lparr>m_isconnected := True\<rparr>, w))"

definition CreateUDP :: "sock_os \<Rightarrow> address \<Rightarrow> sock_world \<Rightarrow> (sock \<times> sock_world) res" where
  "CreateUDP os a w = new_udp os (uint (getFamily a)) w"

definition CreateTCPSocket :: sock where
  "CreateTCPSocket = Socket_ctor PF_INET SOCK_STREAM 0"

definition CreateUDPSocket :: "sock_os \<Rightarrow> sock_world \<Rightarrow> (sock \<times> sock_world) res" where
  "CreateUDPSocket os w = new_udp os PF_INET w"

definition CreateTCPSocket6 :: sock where
  "CreateTCPSocket6 = Socket_ctor PF_INET6 SOCK_STREAM 0"

definition CreateUDPSocket6 :: "sock_os \<Rightarrow> sock_world \<Rightarrow> (sock \<times> sock_world) res" where
  "CreateUDPSocket6 os w = new_udp os PF_INET6 w"

definition CreateUnixUDPSocket :: sock where
  "CreateUnixUDPSocket = Socket_ctor PF_UNIX SOCK_DGRAM 0"

subsection \<open>The descriptor table under the socket operations\<close>

lemma get_inv:
  assumes "fm_inv m" "FdManager_get fd b m = Inr (m', p)"
  shows "fm_inv m'"
proof (cases b)
  case True
  consider "fd = - 1" | "fd < - 1" | "0 \<le> fd" by linarith
  then show ?thesis
  proof cases
    assume "0 \<le> fd"
    then show ?thesis using fdt.get_total [OF assms(1), of fd] assms(2) True by auto
  qed (use assms in \<open>auto simp: FdManager_get_def FdManager_get_read_def fm_slot_def\<close>)
next
  case False
  then show ?thesis using get_FalseD [of fd m m' p] assms by simp
qed

lemma fm_inv_kernel [simp]: "fm_inv (upd_kernel f m) = fm_inv m" "fm_inv (m\<lparr>fm_kernel := k\<rparr>) = fm_inv m"
  by (simp_all add: fm_inv_def upd_kernel_def)

lemma fm_inv_setTimeout: "fm_inv m \<Longrightarrow> fm_inv (upd_fdctx p (FdCtx_setTimeout type v) m)"
  by (auto simp: upd_fdctx_def fm_inv_def FdCtx_setTimeout_def split: option.splits) (metis option.inject)

lemma sw_fds_simps [simp]:
  "sw_fds (set_fds fds w) = fds" "sw_fds (set_kernel k w) = upd_kernel (\<lambda>_. k) (sw_fds w)"
  "sw_fds (w\<lparr>sw_opts := xs\<rparr>) = sw_fds w" "sw_fds (fst (setOption os l opt v s w)) = sw_fds w"
  "sw_fds (initSock os s w) = sw_fds w"
  by (simp_all add: set_fds_def set_kernel_def setOption_def initSock_def Let_def split: prod.splits)

lemma hook_socket_inv: "fm_inv (hk_fds h) \<Longrightarrow> hook_socket h fd = Inr (h', fd') \<Longrightarrow> fm_inv (hk_fds h') \<and> fd' = fd"
  using get_inv by (auto simp: hook_socket_def split: if_splits)

lemma newSock_facts:
  assumes "fm_inv (sw_fds w)" "newSock os s w = Inr (s', w')"
  shows "fm_inv (sw_fds w') \<and> s' = s\<lparr>m_sock := m_sock s'\<rparr>"
proof -
  obtain fd k where k: "os_socket os (m_family s) (m_type s) (m_protocol s) (fm_kernel (sw_fds w)) = (fd, k)" by force
  obtain h where h: "hook_socket (sw_hook (set_kernel k w)) fd = Inr (h, fd)" "fm_inv (hk_fds h)"
      "s' = s\<lparr>m_sock := fd\<rparr>" "w' = (set_kernel k w)\<lparr>sw_hook := h\<rparr> \<or>
        w' = initSock os (s\<lparr>m_sock := fd\<rparr>) ((set_kernel k w)\<lparr>sw_hook := h\<rparr>)"
    using assms k hook_socket_inv [of "sw_hook (set_kernel k w)" fd]
    by (auto simp: newSock_def Let_def split: if_splits)
  then show ?thesis by auto
qed

lemma valid_or_new_facts:
  assumes "fm_inv (sw_fds w)" "valid_or_new os s w = Inr (s', w')"
  shows "fm_inv (sw_fds w') \<and> s' = s\<lparr>m_sock := m_sock s'\<rparr> \<and> (isValid s \<longrightarrow> s' = s \<and> w' = w)"
  using assms newSock_facts by (auto simp: valid_or_new_def split: if_splits)

lemma close_facts:
  assumes "Socket_close os s w = (s', w', ok)"
  shows "fm_inv (sw_fds w) \<longrightarrow> fm_inv (sw_fds w')" "\<not> m_isconnected s'"
    "s' = s\<lparr>m_isconnected := False, m_sock := m_sock s'\<rparr>" "m_sock s' \<in> {m_sock s, - 1}"
  using assms by (auto simp: Socket_close_def Let_def split: if_splits prod.splits)

subsection \<open>Names\<close>

text \<open>What the system is relied on for: names that fit their structures.\<close>

definition os_ok :: "sock_os \<Rightarrow> bool" where
  "os_ok os \<longleftrightarrow> length (os_heap os) = 14 \<and>
     (\<forall>fd nm. os_getsockname os fd = Some nm \<or> os_getpeername os fd = Some nm \<longrightarrow> length nm \<le> 110)"

lemma wf_new_address: "os_ok os \<Longrightarrow> wf_address (new_address os family)"
  by (simp add: os_ok_def new_address_def IPv4Address_ctor_def IPv6Address_default_def UnixAddress_default_def
      UnknownAddress_ctor_def MAX_PATH_LEN_def)

lemma write_address_total:
  assumes "wf_address a"
  shows "\<exists>a'. write_address bo name a = Inr a' \<and> wf_address a' \<and>
    (\<forall>x len. a = UnixAddress x len \<longrightarrow> (\<exists>y. a' = UnixAddress y len))"
proof -
  define bytes where "bytes = take (unat (getAddrLen a)) name"
  define m where "m = bytes @ drop (length bytes) (getAddr bo a)"
  have len: "length bytes \<le> length (getAddr bo a)"
    using assms by (cases a) (auto simp: word_le_nat_alt bytes_def)
  then have m: "length m = length (getAddr bo a)" by (simp add: m_def)
  have w: "write_address bo name a =
      (case a of
         IPv4Address _ \<Rightarrow> Inr (IPv4Address (load_sockaddr_in bo m))
       | IPv6Address _ \<Rightarrow> Inr (IPv6Address (load_sockaddr_in6 bo m))
       | UnixAddress _ len \<Rightarrow> Inr (UnixAddress (load_sockaddr_un bo m) len)
       | UnknownAddress _ \<Rightarrow> Inr (UnknownAddress (load_sockaddr bo m)))"
    using len by (simp add: write_address_def Let_def flip: bytes_def m_def)
  show ?thesis
    using assms m unfolding w
    by (cases a) (simp_all add: load_sockaddr_in_def load_sockaddr_in6_def load_sockaddr_un_def load_sockaddr_def)
qed

lemma same_name [simp]:
  "m_localAddress s = l \<Longrightarrow> s\<lparr>m_localAddress := l\<rparr> = s" "m_remoteAddress s = l \<Longrightarrow> s\<lparr>m_remoteAddress := l\<rparr> = s"
  by auto

lemma query_address_total:
  assumes "os_ok os" "\<And>nm. answer = Some nm \<Longrightarrow> length nm \<le> 110"
  shows "\<exists>a. query_address os family answer = Inr (a, answer \<noteq> None) \<and> wf_address a"
proof (cases answer)
  case None
  then show ?thesis using assms(1) by (simp add: query_address_def os_ok_def UnknownAddress_ctor_def)
next
  case (Some nm)
  obtain a where a: "write_address (os_order os) nm (new_address os family) = Inr a" "wf_address a"
    using write_address_total [OF wf_new_address [OF assms(1)]] by blast
  have "(of_nat (length nm) :: u32) \<le> 110"
    using assms(2) [OF Some] by (simp add: word_le_nat_alt unat_of_nat_small)
  with a Some show ?thesis by (cases a) (simp_all add: query_address_def)
qed

text \<open>The two queries: they return, and change the socket at most by the name they found.\<close>

lemma getLocalAddress_total:
  assumes "os_ok os" "\<And>a. m_localAddress s = Some a \<Longrightarrow> wf_address a"
  shows "\<exists>a l. getLocalAddress os s = Inr (s\<lparr>m_localAddress := l\<rparr>, a) \<and> wf_address a \<and>
    (l = Some a \<or> l = None \<and> os_getsockname os (m_sock s) = None) \<and> (m_localAddress s \<noteq> None \<longrightarrow> l = m_localAddress s)"
proof (cases "m_localAddress s")
  case None
  obtain a where "query_address os (m_family s) (os_getsockname os (m_sock s)) =
      Inr (a, os_getsockname os (m_sock s) \<noteq> None)" "wf_address a"
    using query_address_total [OF assms(1)] assms(1) unfolding os_ok_def by metis
  then show ?thesis
    using None by (cases "os_getsockname os (m_sock s)") (auto simp: getLocalAddress_def intro: exI [of _ None])
next
  case (Some a)
  then show ?thesis using assms(2) by (auto simp: getLocalAddress_def)
qed

lemma getRemoteAdress_total:
  assumes "os_ok os" "\<And>a. m_remoteAddress s = Some a \<Longrightarrow> wf_address a"
  shows "\<exists>a r. getRemoteAdress os s = Inr (s\<lparr>m_remoteAddress := r\<rparr>, a) \<and> wf_address a \<and>
    (r = Some a \<or> r = None \<and> os_getpeername os (m_sock s) = None) \<and> (m_remoteAddress s \<noteq> None \<longrightarrow> r = m_remoteAddress s)"
proof (cases "m_remoteAddress s")
  case None
  obtain a where "query_address os (m_family s) (os_getpeername os (m_sock s)) =
      Inr (a, os_getpeername os (m_sock s) \<noteq> None)" "wf_address a"
    using query_address_total [OF assms(1)] assms(1) unfolding os_ok_def by metis
  then show ?thesis
    using None by (cases "os_getpeername os (m_sock s)") (auto simp: getRemoteAdress_def intro: exI [of _ None])
next
  case (Some a)
  then show ?thesis using assms(2) by (auto simp: getRemoteAdress_def)
qed

subsection \<open>An invariant of sockets\<close>

text \<open>
  A connected socket has a descriptor, and the addresses a socket holds are well-formed. The sockets
  of the datagram factories are left out: they are marked connected even when \<open>socket\<close> failed.
\<close>

definition sock_ok :: "sock \<Rightarrow> bool" where
  "sock_ok s \<longleftrightarrow> (m_isconnected s \<longrightarrow> isValid s) \<and>
     (\<forall>a. m_localAddress s = Some a \<or> m_remoteAddress s = Some a \<longrightarrow> wf_address a)"

definition same_kind :: "sock \<Rightarrow> sock \<Rightarrow> bool" where
  "same_kind s s' \<longleftrightarrow> m_family s' = m_family s \<and> m_type s' = m_type s \<and> m_protocol s' = m_protocol s"

lemma sock_ok_names:
  assumes "os_ok os" "sock_ok s"
  shows "\<exists>s' a. getLocalAddress os s = Inr (s', a) \<and> sock_ok s' \<and> same_kind s s' \<and> m_sock s' = m_sock s \<and>
      m_isconnected s' = m_isconnected s \<and> m_remoteAddress s' = m_remoteAddress s \<and>
      (m_localAddress s \<noteq> None \<longrightarrow> s' = s)"
    "\<exists>s' a. getRemoteAdress os s = Inr (s', a) \<and> sock_ok s' \<and> same_kind s s' \<and> m_sock s' = m_sock s \<and>
      m_isconnected s' = m_isconnected s \<and> m_localAddress s' = m_localAddress s \<and>
      (m_remoteAddress s \<noteq> None \<longrightarrow> s' = s)"
proof -
  obtain a l where "getLocalAddress os s = Inr (s\<lparr>m_localAddress := l\<rparr>, a)" "wf_address a" "l = Some a \<or> l = None"
      "m_localAddress s \<noteq> None \<longrightarrow> l = m_localAddress s"
    using getLocalAddress_total [OF assms(1)] assms(2) unfolding sock_ok_def by blast
  then show "\<exists>s' a. getLocalAddress os s = Inr (s', a) \<and> sock_ok s' \<and> same_kind s s' \<and> m_sock s' = m_sock s \<and>
      m_isconnected s' = m_isconnected s \<and> m_remoteAddress s' = m_remoteAddress s \<and>
      (m_localAddress s \<noteq> None \<longrightarrow> s' = s)"
    using assms(2) by (auto simp: sock_ok_def same_kind_def isValid_def)
  obtain a r where "getRemoteAdress os s = Inr (s\<lparr>m_remoteAddress := r\<rparr>, a)" "wf_address a" "r = Some a \<or> r = None"
      "m_remoteAddress s \<noteq> None \<longrightarrow> r = m_remoteAddress s"
    using getRemoteAdress_total [OF assms(1)] assms(2) unfolding sock_ok_def by blast
  then show "\<exists>s' a. getRemoteAdress os s = Inr (s', a) \<and> sock_ok s' \<and> same_kind s s' \<and> m_sock s' = m_sock s \<and>
      m_isconnected s' = m_isconnected s \<and> m_localAddress s' = m_localAddress s \<and>
      (m_remoteAddress s \<noteq> None \<longrightarrow> s' = s)"
    using assms(2) by (auto simp: sock_ok_def same_kind_def isValid_def)
qed

lemma close_ok:
  assumes "sock_ok s" "Socket_close os s w = (s', w', b)"
  shows "sock_ok s' \<and> same_kind s s' \<and> (fm_inv (sw_fds w) \<longrightarrow> fm_inv (sw_fds w'))"
proof -
  note c = close_facts [OF assms(2)]
  obtain fd where "s' = s\<lparr>m_isconnected := False, m_sock := fd\<rparr>" using c(3) by blast
  then show ?thesis using assms(1) c(1) by (simp add: sock_ok_def same_kind_def)
qed

text \<open>The end of \<open>connect\<close>, once the socket is valid and the families agree.\<close>

definition connect_result :: "sock_os \<Rightarrow> int \<Rightarrow> sock \<Rightarrow> sock_world \<Rightarrow> (sock \<times> sock_world \<times> bool) res" where
  "connect_result os rt s w =
     (if rt \<noteq> 0 then let (s, w, _) = Socket_close os s w in Inr (s, w, False)
      else
        let s = s\<lparr>m_isconnected := True\<rparr> in
        rbind (getRemoteAdress os s) (\<lambda>(s, _). rbind (getLocalAddress os s) (\<lambda>(s, _). Inr (s, w, True))))"

lemma connect_result_ok:
  assumes "os_ok os" "sock_ok s" "isValid s" "fm_inv (sw_fds w)" "m_remoteAddress s = Some a"
  shows "\<exists>s' w'. connect_result os rt s w = Inr (s', w', rt = 0) \<and> sock_ok s' \<and> same_kind s s' \<and>
    fm_inv (sw_fds w') \<and> m_remoteAddress s' = Some a \<and> m_isconnected s' = (rt = 0) \<and>
    (m_localAddress s \<noteq> None \<longrightarrow> m_localAddress s' = m_localAddress s) \<and>
    (rt = 0 \<longrightarrow> m_sock s' = m_sock s \<and> w' = w) \<and>
    (rt \<noteq> 0 \<and> fst (os_close os (m_sock s) (fm_kernel (sw_fds w))) = 0 \<longrightarrow> m_sock s' = - 1)"
proof (cases "rt = 0")
  case True
  let ?s = "s\<lparr>m_isconnected := True\<rparr>"
  have ok: "sock_ok ?s" using assms(2,3) by (simp add: sock_ok_def isValid_def)
  obtain r where "getRemoteAdress os ?s = Inr (?s, r)"
    using sock_ok_names(2) [OF assms(1) ok] assms(5) by auto
  moreover obtain s' l where "getLocalAddress os ?s = Inr (s', l)" "sock_ok s'" "same_kind ?s s'" "m_sock s' = m_sock s"
      "m_isconnected s'" "m_remoteAddress s' = Some a" "m_localAddress s \<noteq> None \<longrightarrow> m_localAddress s' = m_localAddress s"
    using sock_ok_names(1) [OF assms(1) ok] assms(5) by auto
  ultimately show ?thesis
    using True assms(4) by (simp add: connect_result_def same_kind_def)
next
  case False
  obtain s' w' b where c: "Socket_close os s w = (s', w', b)" by (cases "Socket_close os s w") auto
  obtain fd where "s' = s\<lparr>m_isconnected := False, m_sock := fd\<rparr>" using close_facts(3) [OF c] by blast
  moreover have "m_sock s' = - 1" if "fst (os_close os (m_sock s) (fm_kernel (sw_fds w))) = 0"
    using c that by (auto simp: Socket_close_def Let_def split: if_splits prod.splits)
  ultimately show ?thesis
    using False c close_ok [OF assms(2) c] assms(4,5) by (simp add: connect_result_def)
qed

lemma Socket_connect_eq:
  "Socket_connect os script a ms s w =
     rbind (valid_or_new os (s\<lparr>m_remoteAddress := Some a\<rparr>) w) (\<lambda>(s, w).
       if \<not> isValid s \<or> uint (getFamily a) \<noteq> m_family s then Inr (Some (s, w, False))
       else obind (connect_with_timeout (sw_hook w) (m_sock s)
           (if ms = - 1 then s_connect_timeout (sw_hook w) else ms) script) (\<lambda>(rt, _).
         rbind (connect_result os rt s w) (\<lambda>r. Inr (Some r))))"
proof -
  have "(if rt \<noteq> 0 then let (s, w, _) = Socket_close os s w in Inr (Some (s, w, False))
      else let s = s\<lparr>m_isconnected := True\<rparr> in rbind (getRemoteAdress os s) (\<lambda>(s, _).
         rbind (getLocalAddress os s) (\<lambda>(s, _). Inr (Some (s, w, True))))) =
      rbind (connect_result os rt s w) (\<lambda>r. Inr (Some r))" for rt s w
    by (auto simp: connect_result_def Let_def rbind_def split: prod.splits sum.splits)
  then have "(if \<not> isValid s then Inr (Some (s, w, False))
      else if uint (getFamily a) \<noteq> m_family s then Inr (Some (s, w, False))
      else obind (if ms = - 1 then hook_connect (sw_hook w) (m_sock s) script
           else connect_with_timeout (sw_hook w) (m_sock s) ms script) (\<lambda>(rt, _).
        if rt \<noteq> 0 then let (s, w, _) = Socket_close os s w in Inr (Some (s, w, False))
        else let s = s\<lparr>m_isconnected := True\<rparr> in rbind (getRemoteAdress os s) (\<lambda>(s, _).
           rbind (getLocalAddress os s) (\<lambda>(s, _). Inr (Some (s, w, True)))))) =
      (if \<not> isValid s \<or> uint (getFamily a) \<noteq> m_family s then Inr (Some (s, w, False))
       else obind (connect_with_timeout (sw_hook w) (m_sock s)
           (if ms = - 1 then s_connect_timeout (sw_hook w) else ms) script) (\<lambda>(rt, _).
         rbind (connect_result os rt s w) (\<lambda>r. Inr (Some r))))" for s w
    by (simp only: hook_connect_def) simp
  note body = this
  show ?thesis unfolding Socket_connect_def body by (simp only: Let_def)
qed

lemma connect_ok:
  assumes "os_ok os" "sock_ok s" "fm_inv (sw_fds w)" "wf_address a"
    and "Socket_connect os script a ms s w = Inr (Some (s', w', b))"
  shows "sock_ok s' \<and> same_kind s s' \<and> fm_inv (sw_fds w') \<and> m_remoteAddress s' = Some a \<and> (b \<longrightarrow> m_isconnected s')"
proof -
  let ?s = "s\<lparr>m_remoteAddress := Some a\<rparr>"
  obtain s1 w1 where v: "valid_or_new os ?s w = Inr (s1, w1)"
    using assms(5) unfolding Socket_connect_eq by auto
  note f = valid_or_new_facts [OF assms(3) v]
  obtain fd where fd: "s1 = ?s\<lparr>m_sock := fd\<rparr>" using f by blast
  have "fd \<noteq> - 1" if "m_isconnected s"
  proof -
    have "isValid s" using assms(2) that by (simp add: sock_ok_def)
    then have "m_sock s1 = m_sock s" using f by (simp add: isValid_def)
    with fd \<open>isValid s\<close> show ?thesis by (simp add: isValid_def)
  qed
  then have s1: "sock_ok s1" "same_kind s s1" "m_remoteAddress s1 = Some a"
    using assms(2,4) by (auto simp: sock_ok_def isValid_def same_kind_def fd)
  show ?thesis
  proof (cases "\<not> isValid s1 \<or> uint (getFamily a) \<noteq> m_family s1")
    case True
    then show ?thesis using assms(5) v s1 f unfolding Socket_connect_eq by auto
  next
    case False
    then obtain rt where "connect_result os rt s1 w1 = Inr (s', w', b)"
      using assms(5) v unfolding Socket_connect_eq
      by (auto simp: obind_def split: option.splits)
    with connect_result_ok [OF assms(1) s1(1) _ _ s1(3), of w1 rt] False f s1(2) show ?thesis
      by (auto simp: same_kind_def)
  qed
qed

lemma ctor_ok: "sock_ok (Socket_ctor family type protocol)"
  by (simp add: Socket_ctor_def sock_ok_def)

lemma init_ok:
  assumes "os_ok os" "sock_ok s" "fm_inv (sw_fds w)" "fd \<noteq> - 1" "Socket_init os fd s w = Inr (s', w', b)"
  shows "sock_ok s' \<and> same_kind s s' \<and> fm_inv (sw_fds w') \<and>
    (if b then m_isconnected s' \<and> m_sock s' = fd else s' = s \<and> w' = w)"
proof -
  let ?s = "s\<lparr>m_sock := fd, m_isconnected := True\<rparr>"
  have ok: "sock_ok ?s" using assms(2,4) by (simp add: sock_ok_def isValid_def)
  obtain s1 a where l: "getLocalAddress os ?s = Inr (s1, a)" "sock_ok s1" "same_kind ?s s1" "m_sock s1 = fd" "m_isconnected s1"
    using sock_ok_names(1) [OF assms(1) ok] by auto
  obtain s2 r where r: "getRemoteAdress os s1 = Inr (s2, r)" "sock_ok s2" "same_kind s1 s2" "m_sock s2 = fd" "m_isconnected s2"
    using sock_ok_names(2) [OF assms(1) l(2)] l(4,5) by auto
  have "(s' = s \<and> w' = w \<and> \<not> b) \<or> (s' = s2 \<and> w' = initSock os ?s w \<and> b)"
    using assms(5) l(1) r(1)
    by (auto simp: Socket_init_def Let_def split: option.splits if_splits)
  then show ?thesis
    using l r assms(2,3) by (auto simp: same_kind_def)
qed

lemma hook_accept_inv:
  assumes "fm_inv (hk_fds h)" "hook_accept acc h fd script = Inr (h', r)"
  shows "fm_inv (hk_fds h')"
  using assms(1,2) get_inv [of "upd_kernel (acc n) (hk_fds h)" n True for n]
  by (auto simp: hook_accept_def split: option.splits if_splits)

lemma accept_ok:
  assumes "os_ok os" "fm_inv (sw_fds w)" "Socket_accept os script s w = Inr (Some (r, w'))"
  shows "fm_inv (sw_fds w') \<and> (\<forall>s'. r = Some s' \<longrightarrow> sock_ok s' \<and> same_kind s s' \<and> m_isconnected s')"
proof -
  let ?new = "Socket_ctor (m_family s) (m_type s) (m_protocol s)"
  obtain h n e acts where a: "hook_accept (os_accepted os) (sw_hook w) (m_sock s) script = Inr (h, Some (n, e, acts))"
    using assms(3) by (auto simp: Socket_accept_def Let_def split: option.splits)
  have inv: "fm_inv (sw_fds (w\<lparr>sw_hook := h\<rparr>))" using hook_accept_inv [OF assms(2) a] by simp
  have dtor: "fm_inv (sw_fds (Socket_dtor os s1 w1))" if "fm_inv (sw_fds w1)" for s1 w1
    using that close_facts(1) [of os s1 w1] unfolding Socket_dtor_def
    by (cases "Socket_close os s1 w1") auto
  show ?thesis
  proof (cases "n = - 1")
    case True
    then show ?thesis using assms(3) a dtor [OF inv] by (auto simp: Socket_accept_def Let_def)
  next
    case False
    then obtain s1 w1 b where i: "Socket_init os n ?new (w\<lparr>sw_hook := h\<rparr>) = Inr (s1, w1, b)"
      using assms(3) a by (auto simp: Socket_accept_def Let_def)
    note ok = init_ok [OF assms(1) ctor_ok inv False i]
    have "(r, w') = (if b then (Some s1, w1) else (None, Socket_dtor os s1 w1))"
      using assms(3) a False i by (auto simp: Socket_accept_def Let_def split: if_splits)
    then show ?thesis
      using ok dtor by (auto simp: same_kind_def Socket_ctor_def split: if_splits)
  qed
qed

lemma probe_ok:
  assumes "os_ok os" "fm_inv (sw_fds w)" "wf_address a" "bind_probe os script a w = Inr (Some (w', b))"
  shows "fm_inv (sw_fds w')"
proof -
  obtain s1 w1 where c: "Socket_connect os script a (- 1) CreateUnixTCPSocket w = Inr (Some (s1, w1, b))"
      and w': "w' = Socket_dtor os s1 w1"
    using assms(4) by (auto simp: bind_probe_def obind_def split: option.splits)
  have "fm_inv (sw_fds w1)"
    using connect_ok [OF assms(1) _ assms(2,3) c] ctor_ok by (simp add: CreateUnixTCPSocket_def)
  then show ?thesis
    using close_facts(1) [of os s1 w1] unfolding w' Socket_dtor_def by (cases "Socket_close os s1 w1") auto
qed

lemma bind_ok:
  assumes "os_ok os" "sock_ok s" "fm_inv (sw_fds w)" "wf_address a"
    and "Socket_bind os script a s w = Inr (Some (s', w', b))"
  shows "sock_ok s' \<and> same_kind s s' \<and> fm_inv (sw_fds w')"
proof -
  obtain s1 w1 where v: "valid_or_new os s w = Inr (s1, w1)"
    using assms(5) unfolding Socket_bind_def by auto
  note f = valid_or_new_facts [OF assms(3) v]
  obtain fd where fd: "s1 = s\<lparr>m_sock := fd\<rparr>" using f by blast
  have "fd \<noteq> - 1" if "m_isconnected s"
  proof -
    have "isValid s" using assms(2) that by (simp add: sock_ok_def)
    then have "m_sock s1 = m_sock s" using f by simp
    with fd \<open>isValid s\<close> show ?thesis by (simp add: isValid_def)
  qed
  then have s1: "sock_ok s1" "same_kind s s1"
    using assms(2) by (auto simp: sock_ok_def isValid_def same_kind_def fd)
  obtain s2 l where l: "getLocalAddress os s1 = Inr (s2, l)" "sock_ok s2" "same_kind s1 s2"
    using sock_ok_names(1) [OF assms(1) s1(1)] by auto
  have "s' \<in> {s1, s2} \<and> (w' = w1 \<or> (\<exists>b. bind_probe os script a w1 = Inr (Some (w', b))))"
    using assms(5) v l(1)
    by (cases a) (auto simp: Socket_bind_def obind_def split: if_splits option.splits)
  then show ?thesis
    using s1 l f probe_ok [OF assms(1) _ assms(4)] by (auto simp: same_kind_def)
qed

lemma set_timeout_inv:
  assumes "fm_inv (sw_fds w)" "set_timeout os type v s w = Inr w'"
  shows "fm_inv (sw_fds w')"
proof -
  obtain w1 b where w1: "setOption os SOL_SOCKET type (timeval_of v) s w = (w1, b)" by force
  then have "sw_fds w1 = sw_fds w" using sw_fds_simps(4) [of os SOL_SOCKET type "timeval_of v" s w] by simp
  then show ?thesis
    using assms w1 get_inv [of "sw_fds w" "m_sock s" False] fm_inv_setTimeout
    by (auto simp: set_timeout_def split: option.splits)
qed

text \<open>
  A stream socket (or a Unix datagram socket) from its factory or from \<open>accept\<close>, under any sequence of
  its operations; between them other fibers may change the world.
\<close>

inductive sock_reach :: "sock_os \<Rightarrow> sock \<Rightarrow> sock_world \<Rightarrow> bool" for os where
  create: "s \<in> {CreateTCP a, CreateTCPSocket, CreateTCPSocket6, CreateUnixTCPSocket, CreateUnixUDPSocket} \<Longrightarrow>
    fm_inv (sw_fds w) \<Longrightarrow> sock_reach os s w"
| accepted: "sock_reach os s w \<Longrightarrow> Socket_accept os script s w = Inr (Some (Some s', w')) \<Longrightarrow> sock_reach os s' w'"
| connects: "sock_reach os s w \<Longrightarrow> wf_address a \<Longrightarrow> Socket_connect os script a ms s w = Inr (Some (s', w', b)) \<Longrightarrow>
    sock_reach os s' w'"
| reconnects: "sock_reach os s w \<Longrightarrow> reconnect os script ms s w = Inr (Some (s', w', b)) \<Longrightarrow> sock_reach os s' w'"
| binds: "sock_reach os s w \<Longrightarrow> wf_address a \<Longrightarrow> Socket_bind os script a s w = Inr (Some (s', w', b)) \<Longrightarrow>
    sock_reach os s' w'"
| closes: "sock_reach os s w \<Longrightarrow> Socket_close os s w = (s', w', b) \<Longrightarrow> sock_reach os s' w'"
| local_name: "sock_reach os s w \<Longrightarrow> getLocalAddress os s = Inr (s', a) \<Longrightarrow> sock_reach os s' w"
| remote_name: "sock_reach os s w \<Longrightarrow> getRemoteAdress os s = Inr (s', a) \<Longrightarrow> sock_reach os s' w"
| send_timeout: "sock_reach os s w \<Longrightarrow> setSendTimeout os v s w = Inr w' \<Longrightarrow> sock_reach os s w'"
| recv_timeout: "sock_reach os s w \<Longrightarrow> setRecvTimeout os v s w = Inr w' \<Longrightarrow> sock_reach os s w'"
| others: "sock_reach os s w \<Longrightarrow> fm_inv (sw_fds w') \<Longrightarrow> sock_reach os s w'"

lemma sock_reach_ok:
  assumes "os_ok os" "sock_reach os s w"
  shows "sock_ok s \<and> fm_inv (sw_fds w)"
  using assms(2)
proof (induction rule: sock_reach.induct)
  case (create s a w)
  then show ?case
    using ctor_ok
    by (auto simp: CreateTCP_def CreateTCPSocket_def CreateTCPSocket6_def CreateUnixTCPSocket_def CreateUnixUDPSocket_def)
next
  case (accepted s w script s' w')
  then show ?case using accept_ok [OF assms(1)] by blast
next
  case (connects s w a script ms s' w' b)
  then show ?case using connect_ok [OF assms(1)] by blast
next
  case (reconnects s w script ms s' w' b)
  show ?case
  proof (cases "m_remoteAddress s")
    case None
    then show ?thesis using reconnects by (simp add: reconnect_def)
  next
    case (Some a)
    have "sock_ok (s\<lparr>m_localAddress := None\<rparr>)" "wf_address a"
      using reconnects(3) Some by (auto simp: sock_ok_def isValid_def)
    then show ?thesis
      using connect_ok [OF assms(1), of "s\<lparr>m_localAddress := None\<rparr>" w a script ms s' w' b] reconnects Some
      by (simp add: reconnect_def)
  qed
next
  case (binds s w a script s' w' b)
  then show ?case using bind_ok [OF assms(1)] by blast
next
  case (closes s w s' w' b)
  then show ?case using close_ok by blast
next
  case (local_name s w s' a)
  then show ?case using sock_ok_names(1) [OF assms(1)] by fastforce
next
  case (remote_name s w s' a)
  then show ?case using sock_ok_names(2) [OF assms(1)] by fastforce
next
  case (send_timeout s w v w')
  then show ?case using set_timeout_inv unfolding setSendTimeout_def by blast
next
  case (recv_timeout s w v w')
  then show ?case using set_timeout_inv unfolding setRecvTimeout_def by blast
qed simp

subsection \<open>Properties\<close>


definition demo_os :: sock_os where
  "demo_os =
     \<lparr> os_order = Little_Endian,
       os_socket = (\<lambda>_ _ _ k. (100, k\<lparr>k_mode := (k_mode k)(100 \<mapsto> 0xC1FF), k_flags := (k_flags k)(100 \<mapsto> 2)\<rparr>)),
       os_accepted = (\<lambda>fd k. k\<lparr>k_mode := (k_mode k)(fd \<mapsto> 0xC1FF), k_flags := (k_flags k)(fd \<mapsto> 2)\<rparr>),
       os_close = (\<lambda>fd k. (0, k\<lparr>k_mode := (k_mode k)(fd := None), k_flags := (k_flags k)(fd := None)\<rparr>)),
       os_bind = (\<lambda>_ _ _. 0), os_listen = (\<lambda>_ _. 0),
       os_getsockname = (\<lambda>_. Some [2, 0, 0x1F, 0x90, 127, 0, 0, 1, 0, 0, 0, 0, 0, 0, 0, 0]),
       os_getpeername = (\<lambda>_. Some [2, 0, 0x00, 0x50, 10, 0, 0, 1, 0, 0, 0, 0, 0, 0, 0, 0]),
       os_getsockopt = (\<lambda>_ _ _. (0, 0)), os_setsockopt = (\<lambda>_ _ _. 0), os_heap = replicate 14 0 \<rparr>"

lemma demo_os_ok: "os_ok demo_os"
  by (auto simp: os_ok_def demo_os_def)

definition demo_sw :: sock_world where
  "demo_sw = \<lparr> sw_hook = demo_hook_socket, sw_opts = [] \<rparr>"

definition demo_tcp :: sock where
  "demo_tcp = CreateTCPSocket\<lparr>m_sock := 100\<rparr>"

definition demo_address :: address where
  "demo_address = IPv4Address (IPv4Address_ctor Little_Endian 0x0A000001 80)"

lemma demo_sw_inv: "fm_inv (sw_fds demo_sw)"
proof -
  obtain m p where w: "FdManager_get_write 100 (FdManager_ctor demo_kernel) = (m, p)" by force
  have "fm_inv m" using get_write_inv [OF FdManager_ctor_inv _ w] by simp
  then show ?thesis using w fm_inv_setTimeout by (simp add: demo_sw_def demo_hook_socket_def)
qed

lemma demo_facts:
  "rescheduled (sw_hook demo_sw) 100 demo_fdctx" "m_sock demo_tcp = 100" "isValid demo_tcp" "sock_ok demo_tcp"
  "wf_address demo_address" "uint (getFamily demo_address) = m_family demo_tcp" "s_connect_timeout (sw_hook demo_sw) = 5000"
  using demo_rescheduled
  by (simp_all add: demo_sw_def demo_tcp_def isValid_def sock_ok_def CreateTCPSocket_def Socket_ctor_def demo_address_def
      IPv4Address_ctor_def PF_INET_def demo_hook_socket_def demo_hook_def init_hook_def)


text \<open>
  \<open>connect\<close> on a valid socket of the address's family. Its result is that of the hooked connect,
  with the given timeout or the configured one: on success the socket is connected and keeps its
  descriptor; on failure it is closed, and its descriptor is gone when the system call succeeds. Either
  way it remembers the address, for \<open>reconnect\<close>. A local address it already had is kept, also that of
  an earlier connection.
\<close>

theorem socket_connect_spec:
  assumes "os_ok os" "sock_ok s" "isValid s" "fm_inv (sw_fds w)" "wf_address a" "uint (getFamily a) = m_family s"
    and "rescheduled (sw_hook w) (m_sock s) c"
    and "connect_blocking (if ms = - 1 then s_connect_timeout (sw_hook w) else ms) script = Some (rt, e, acts)"
  shows "\<exists>s' w'. Socket_connect os script a ms s w = Inr (Some (s', w', rt = 0)) \<and>
    m_isconnected s' = (rt = 0) \<and> m_remoteAddress s' = Some a \<and> sock_ok s' \<and> same_kind s s' \<and>
    (m_localAddress s \<noteq> None \<longrightarrow> m_localAddress s' = m_localAddress s) \<and>
    (rt = 0 \<longrightarrow> m_sock s' = m_sock s \<and> w' = w) \<and>
    (rt \<noteq> 0 \<and> fst (os_close os (m_sock s) (fm_kernel (sw_fds w))) = 0 \<longrightarrow> m_sock s' = - 1)"
proof -
  let ?s = "s\<lparr>m_remoteAddress := Some a\<rparr>"
  have s: "sock_ok ?s" "isValid ?s" using assms(2,3,5) by (auto simp: sock_ok_def isValid_def)
  then have v: "valid_or_new os ?s w = Inr (?s, w)" by (simp add: valid_or_new_def)
  obtain s' w' where r: "connect_result os rt ?s w = Inr (s', w', rt = 0)" "sock_ok s'" "same_kind ?s s'"
      "m_remoteAddress s' = Some a" "m_isconnected s' = (rt = 0)"
      "m_localAddress s \<noteq> None \<longrightarrow> m_localAddress s' = m_localAddress s"
      "rt = 0 \<longrightarrow> m_sock s' = m_sock s \<and> w' = w"
      "rt \<noteq> 0 \<and> fst (os_close os (m_sock s) (fm_kernel (sw_fds w))) = 0 \<longrightarrow> m_sock s' = - 1"
    using connect_result_ok [OF assms(1) s assms(4), of a rt] by auto
  have "Socket_connect os script a ms s w = Inr (Some (s', w', rt = 0))"
    unfolding Socket_connect_eq v using s(2) assms(6,8) r(1) connect_rescheduled [OF assms(7)] by simp
  with r show ?thesis by (intro exI [of _ s'] exI [of _ w']) (simp add: same_kind_def)
qed

theorem socket_connect_spec_witness:
  "\<exists>s' w'. Socket_connect demo_os [Called (- 1) EINPROGRESS, Added 0 0, Resumed ETIMEDOUT] demo_address (- 1)
       demo_tcp demo_sw = Inr (Some (s', w', False)) \<and>
     \<not> m_isconnected s' \<and> m_sock s' = - 1 \<and> m_remoteAddress s' = Some demo_address"
proof -
  have "connect_blocking (if (- 1 :: u64) = - 1 then s_connect_timeout (sw_hook demo_sw) else - 1)
      [Called (- 1) EINPROGRESS, Added 0 0, Resumed ETIMEDOUT] =
      Some (- 1, ETIMEDOUT, [Act_call, Act_timer 5000, Act_event EV_WRITE, Act_yield, Act_cancel])"
    by (simp add: connect_blocking_def demo_facts errno_defs)
  from socket_connect_spec [OF demo_os_ok demo_facts(4,3) demo_sw_inv demo_facts(5,6) _ this]
  show ?thesis using demo_facts(1,2) by (simp add: demo_os_def) blast
qed

text \<open>
  \<open>bind\<close> tests the result of the system call the wrong way round: on a valid socket of the
  address's family, not a Unix one, it returns false when the socket was bound, and true, having
  asked for the local address, when the system call failed.
\<close>

theorem socket_bind_inverted:
  assumes "os_ok os" "sock_ok s" "isValid s" "uint (getFamily a) = m_family s" "\<forall>x len. a \<noteq> UnixAddress x len"
  shows "(os_bind os (m_sock s) (getAddr (os_order os) a) (getAddrLen a) = 0 \<longrightarrow>
      Socket_bind os script a s w = Inr (Some (s, w, False))) \<and>
    (os_bind os (m_sock s) (getAddr (os_order os) a) (getAddrLen a) \<noteq> 0 \<longrightarrow>
      (\<exists>s'. Socket_bind os script a s w = Inr (Some (s', w, True)) \<and> m_sock s' = m_sock s))"
proof -
  have probe: "(case a of UnixAddress _ _ \<Rightarrow> bind_probe os script a w | _ \<Rightarrow> Inr (Some (w, False))) = Inr (Some (w, False))"
    using assms(5) by (cases a) simp_all
  obtain s' l where "getLocalAddress os s = Inr (s', l)" "m_sock s' = m_sock s"
    using sock_ok_names(1) [OF assms(1,2)] by blast
  then show ?thesis
    using assms(3,4) by (simp add: Socket_bind_def valid_or_new_def probe)
qed

theorem socket_bind_inverted_witness:
  "os_bind demo_os 100 (getAddr Little_Endian demo_address) (getAddrLen demo_address) = 0 \<and>
   Socket_bind demo_os [] demo_address demo_tcp demo_sw = Inr (Some (demo_tcp, demo_sw, False))"
proof -
  have "\<forall>x len. demo_address \<noteq> UnixAddress x len" by (simp add: demo_address_def)
  moreover have "os_bind demo_os fd m l = 0" for fd m l by (simp add: demo_os_def)
  ultimately show ?thesis
    using socket_bind_inverted [OF demo_os_ok demo_facts(4,3,6)] by simp
qed

lemma rescheduled_setTimeout:
  fixes type :: int and v :: u64
  assumes "rescheduled h fd c" "FdManager_get fd False (hk_fds h) = Inr (hk_fds h, p)"
  defines "h' \<equiv> h\<lparr>hk_fds := upd_fdctx p (FdCtx_setTimeout type v) (hk_fds h)\<rparr>"
  shows "rescheduled h' fd (FdCtx_setTimeout type v c)" "FdManager_get fd False (hk_fds h') = Inr (hk_fds h', p)"
    "fd_ctx_of (hk_fds h') p = Some (FdCtx_setTimeout type v c)"
proof -
  have c: "fd_ctx_of (hk_fds h) p = Some c" using assms(1,2) by (auto simp: rescheduled_def)
  show get: "FdManager_get fd False (hk_fds h') = Inr (hk_fds h', p)"
    using assms(2) by (auto simp: h'_def upd_fdctx_def FdManager_get_def FdManager_get_read_def fm_slot_def
        split: option.splits if_splits)
  show ctx: "fd_ctx_of (hk_fds h') p = Some (FdCtx_setTimeout type v c)"
    using c by (auto simp: h'_def upd_fdctx_def fd_ctx_of_def split: if_splits)
  show "rescheduled h' fd (FdCtx_setTimeout type v c)"
    using get ctx assms(1) by (auto simp: rescheduled_def h'_def FdCtx_setTimeout_def)
qed

lemma int64_of_word: "- (2 ^ 63) \<le> v \<Longrightarrow> v < 2 ^ 63 \<Longrightarrow> sint (of_int v :: u64) = v"
  by (simp only: signed_of_int) (simp add: signed_take_bit_int_eq_self)

lemma set_timeout_eq:
  assumes "rescheduled (sw_hook w) (m_sock s) c"
  shows "\<exists>w'. set_timeout os type v s w = Inr w' \<and>
    rescheduled (sw_hook w') (m_sock s) (FdCtx_setTimeout type (of_int v) c)"
proof -
  obtain w1 b where w1: "setOption os SOL_SOCKET type (timeval_of v) s w = (w1, b)" by force
  then have h: "sw_hook w1 = sw_hook w" by (auto simp: setOption_def Let_def split: if_splits)
  obtain p where p: "FdManager_get (m_sock s) False (sw_fds w) = Inr (sw_fds w, p)" "fd_ctx_of (sw_fds w) p = Some c"
    using assms by (auto simp: rescheduled_def)
  show ?thesis
    using rescheduled_setTimeout(1) [OF assms p(1), of type "of_int v"] w1 h p
    by (simp add: set_timeout_def set_fds_def)
qed

lemma get_timeout_eq:
  "rescheduled (sw_hook w) (m_sock s) c \<Longrightarrow> get_timeout type s w = Inr (sint (FdCtx_getTimeout type c))"
  by (auto simp: rescheduled_def get_timeout_def)

text \<open>
  The timeouts of a socket: what \<open>setRecvTimeout\<close> stores is what \<open>getRecvTimeout\<close> returns, for
  every 64-bit value, it is the time a blocked \<open>recv\<close> waits for, -1 being no limit, and the send
  timeout stays; and the other way round.
\<close>

theorem socket_timeouts:
  assumes "rescheduled (sw_hook w) (m_sock s) c" "- (2 ^ 63) \<le> v" "v < 2 ^ 63" "m_isconnected s"
  shows "\<exists>w1 w2. setRecvTimeout os v s w = Inr w1 \<and> getRecvTimeout s w1 = Inr v \<and>
      getSendTimeout s w1 = getSendTimeout s w \<and>
      (\<forall>script. Socket_recv script s w1 = gated s (Inr (do_io_retry (of_int v) EV_READ script))) \<and>
      setSendTimeout os v s w = Inr w2 \<and> getSendTimeout s w2 = Inr v \<and>
      getRecvTimeout s w2 = getRecvTimeout s w \<and>
      (\<forall>script. Socket_send script s w2 = gated s (Inr (do_io_retry (of_int v) EV_WRITE script)))"
proof -
  obtain w1 w2 where w1: "setRecvTimeout os v s w = Inr w1"
      "rescheduled (sw_hook w1) (m_sock s) (FdCtx_setTimeout SO_RCVTIMEO (of_int v) c)"
    and w2: "setSendTimeout os v s w = Inr w2"
      "rescheduled (sw_hook w2) (m_sock s) (FdCtx_setTimeout SO_SNDTIMEO (of_int v) c)"
    using set_timeout_eq [OF assms(1)] unfolding setRecvTimeout_def setSendTimeout_def by metis
  note to = FdCtx_setTimeout_def FdCtx_getTimeout_def SO_RCVTIMEO_def SO_SNDTIMEO_def
  note get = getRecvTimeout_def getSendTimeout_def get_timeout_eq [OF w1(2)] get_timeout_eq [OF w2(2)]
    get_timeout_eq [OF assms(1)] int64_of_word [OF assms(2,3)]
  have "getRecvTimeout s w1 = Inr v" "getSendTimeout s w1 = getSendTimeout s w"
    "getSendTimeout s w2 = Inr v" "getRecvTimeout s w2 = getRecvTimeout s w"
    by (simp_all only: get) (simp_all add: to int64_of_word [OF assms(2,3)])
  moreover have "Socket_recv script s w1 = gated s (Inr (do_io_retry (of_int v) EV_READ script))"
    "Socket_send script s w2 = gated s (Inr (do_io_retry (of_int v) EV_WRITE script))" for script
    using do_io_rescheduled [OF w1(2)] do_io_rescheduled [OF w2(2)]
    by (simp_all add: Socket_recv_def Socket_send_def hook_recv_def hook_send_def to)
  ultimately show ?thesis using w1(1) w2(1) by blast
qed

theorem socket_timeouts_witness:
  "\<exists>w1. setRecvTimeout demo_os 250 (demo_tcp\<lparr>m_isconnected := True\<rparr>) demo_sw = Inr w1 \<and>
     getRecvTimeout (demo_tcp\<lparr>m_isconnected := True\<rparr>) w1 = Inr 250"
proof -
  have "rescheduled (sw_hook demo_sw) (m_sock (demo_tcp\<lparr>m_isconnected := True\<rparr>)) demo_fdctx"
    using demo_facts(1,2) by simp
  from socket_timeouts [OF this, of 250 demo_os] show ?thesis by auto
qed

text \<open>
  C26. \<open>accept\<close> on a hooked listening socket, when the system call finally returns a descriptor that
  the kernel has as a socket and the table does not know: the result is a connected socket of the
  same kind with that descriptor; the descriptor gets a context, is non-blocking and has no timeout,
  so that its calls are rescheduled too, and the listening socket keeps its context.
\<close>

theorem accept_registers:
  assumes "os_ok os" "fm_inv (sw_fds w)" "rescheduled (sw_hook w) (m_sock s) c"
    and "do_io_retry (fx_recvTimeout c) EV_READ script = Some (n, e, acts)" "0 \<le> n" "n \<noteq> m_sock s"
    and "k_mode (os_accepted os n (fm_kernel (sw_fds w))) n = Some md" "S_ISSOCK md"
    and "\<not> (nat n < length (fm_datas (sw_fds w)) \<and> fm_datas (sw_fds w) ! nat n \<noteq> nullptr)"
  shows "\<exists>s' w' c'. Socket_accept os script s w = Inr (Some (Some s', w')) \<and>
    m_sock s' = n \<and> m_isconnected s' \<and> same_kind s s' \<and> sock_ok s' \<and>
    rescheduled (sw_hook w') n c' \<and> fx_recvTimeout c' = - 1 \<and> fx_sendTimeout c' = - 1 \<and>
    F_GETFL (fm_kernel (sw_fds w')) n AND O_NONBLOCK \<noteq> 0 \<and> rescheduled (sw_hook w') (m_sock s) c"
proof -
  let ?m = "upd_kernel (os_accepted os n) (sw_fds w)"
  have inv: "fm_inv ?m" using assms(2) by simp
  have free: "\<not> (nat n < length (fm_datas ?m) \<and> fm_datas ?m ! nat n \<noteq> nullptr)"
    using assms(9) by (simp add: upd_kernel_def)
  obtain m' p where wr: "FdManager_get_write n ?m = (m', p)" by force
  note t = get_write_table [OF inv assms(5) wr]
  obtain d where d: "FdCtx_ctor n (fm_kernel ?m) = (d, fm_kernel m')" "fm_heap m' = (fm_heap ?m)(p \<mapsto> d)"
    using t(6) by blast
  note df = FdCtx_ctor_fields [OF d(1)]
  have sock: "fx_isSocket d" using df(7) assms(7,8) by (simp add: upd_kernel_def)
  have get: "FdManager_get n True ?m = Inr (m', p)" using get_create [OF inv assms(5) free] wr by simp
  have again: "FdManager_get n False m' = Inr (m', p)" using fdt.get_again [OF inv assms(5) get] .
  have ctx: "fd_ctx_of m' p = Some d" using t(1) inv d(2) by (simp add: fd_ctx_of_def fm_inv_def)
  let ?h = "(sw_hook w)\<lparr>hk_fds := m'\<rparr>" let ?w = "w\<lparr>sw_hook := ?h\<rparr>"
  let ?new = "Socket_ctor (m_family s) (m_type s) (m_protocol s)"
  have en: "t_hook_enable (sw_hook w)" using assms(3) by (simp add: rescheduled_def)
  have r: "rescheduled ?h n d" using again ctx sock df(2,3) en by (simp add: rescheduled_def)
  have keep: "rescheduled ?h (m_sock s) c"
  proof -
    obtain q where "FdManager_get (m_sock s) False (sw_fds w) = Inr (sw_fds w, q)" "fd_ctx_of (sw_fds w) q = Some c"
      using assms(3) by (auto simp: rescheduled_def)
    then have "FdManager_get (m_sock s) False ?m = Inr (?m, q)" "fd_ctx_of ?m q = Some c"
      by (auto simp: FdManager_get_def FdManager_get_read_def fm_slot_def upd_kernel_def fd_ctx_of_def split: if_splits)
    with fdt.get_other [OF inv assms(5) assms(6) [symmetric] get] show ?thesis
      using assms(3) by (simp add: rescheduled_def)
  qed
  have acc: "hook_accept (os_accepted os) (sw_hook w) (m_sock s) script = Inr (?h, Some (n, e, acts))"
    using do_io_rescheduled [OF assms(3)] assms(4,5) get
    by (simp add: hook_accept_def FdCtx_getTimeout_def)
  obtain s' where i: "Socket_init os n ?new ?w = Inr (s', initSock os (?new\<lparr>m_sock := n, m_isconnected := True\<rparr>) ?w, True)"
  proof -
    let ?s = "?new\<lparr>m_sock := n, m_isconnected := True\<rparr>"
    have ok: "sock_ok ?s" using assms(5) by (simp add: sock_ok_def isValid_def Socket_ctor_def)
    obtain s1 a where l: "getLocalAddress os ?s = Inr (s1, a)" "sock_ok s1"
      using sock_ok_names(1) [OF assms(1) ok] by blast
    obtain s2 b where "getRemoteAdress os s1 = Inr (s2, b)" using sock_ok_names(2) [OF assms(1) l(2)] by blast
    then show ?thesis using l(1) again ctx sock df(2) that by (simp add: Socket_init_def Let_def)
  qed
  have "fm_inv (sw_fds ?w)" using get_write_inv [OF inv assms(5) wr] by simp
  moreover have "n \<noteq> - 1" using assms(5) by simp
  ultimately have s': "sock_ok s' \<and> same_kind ?new s' \<and> m_isconnected s' \<and> m_sock s' = n"
    using init_ok [OF assms(1) ctor_ok _ _ i] by simp
  have hook: "sw_hook (initSock os x ?w) = ?h" for x
    by (simp add: initSock_def setOption_def Let_def)
  have "Socket_accept os script s w = Inr (Some (Some s', initSock os (?new\<lparr>m_sock := n, m_isconnected := True\<rparr>) ?w))"
    using acc i \<open>n \<noteq> - 1\<close> by (simp add: Socket_accept_def Let_def)
  then show ?thesis
    using s' r keep df(5,6,8) sock
    by (intro exI [of _ s'] exI [of _ "initSock os (?new\<lparr>m_sock := n, m_isconnected := True\<rparr>) ?w"] exI [of _ d])
      (simp add: hook same_kind_def Socket_ctor_def)
qed

theorem accept_registers_witness:
  "\<exists>s' w'. Socket_accept demo_os [Called (- 1) EAGAIN, Added 0 0, Resumed 0, Called 7 0] demo_tcp demo_sw =
       Inr (Some (Some s', w')) \<and> m_sock s' = 7 \<and> m_isconnected s'"
proof -
  let ?script = "[Called (- 1) EAGAIN, Added 0 0, Resumed 0, Called 7 0]"
  have r: "rescheduled (sw_hook demo_sw) (m_sock demo_tcp) demo_fdctx" using demo_facts(1,2) by simp
  have io: "do_io_retry (fx_recvTimeout demo_fdctx) EV_READ ?script =
      Some (7, 0, [Act_call, Act_timer 300, Act_event EV_READ, Act_yield, Act_cancel, Act_call])"
    by (simp add: errno_defs demo_fdctx_def)
  have k: "k_mode (os_accepted demo_os 7 (fm_kernel (sw_fds demo_sw))) 7 = Some 0xC1FF" "S_ISSOCK 0xC1FF"
    by (simp_all add: demo_os_def S_ISSOCK_def S_IFMT_def S_IFSOCK_def)
  have "fm_datas (sw_fds demo_sw) ! 7 = nullptr"
    by (simp add: demo_sw_def demo_hook_socket_def upd_fdctx_def FdManager_get_write_def FdManager_ctor_def Let_def
        nth_append split: option.splits prod.splits)
  then show ?thesis
    using accept_registers [OF demo_os_ok demo_sw_inv r io _ _ k] demo_facts(2) by simp blast
qed

end
