(* ===== verification/Log_Format.thy ===== *)
theory Log_Format
  imports Text
begin

section \<open>Log levels, events and the pattern language\<close>

text \<open>
  The first half of \<open>qlc_log.cpp\<close>: the levels, the event record, the format items and
  \<open>LogFormatter\<close>, whose \<open>init\<close> parses a pattern such as \<open>%d{%H:%M} [%p] %m%n\<close> into items.
  The parser is modelled on indices into the pattern, as it is written, and proved equal to a
  grammar-like reading of the pattern; printing a list of segments and parsing it is the identity.
\<close>

subsection \<open>Levels\<close>

text \<open>The enumerators of \<open>LogLevel::Level\<close>, and the value of the cast \<open>(LogLevel::Level)100\<close>.\<close>

datatype Level = UNKNOW | DEBUG | INFO | WARN | ERROR | FATAL | LEVEL_100

fun level_num :: "Level \<Rightarrow> nat" where
  "level_num UNKNOW = 0"
| "level_num DEBUG = 1"
| "level_num INFO = 2"
| "level_num WARN = 3"
| "level_num ERROR = 4"
| "level_num FATAL = 5"
| "level_num LEVEL_100 = 100"

lemma level_num_inj: "level_num a = level_num b \<Longrightarrow> a = b"
  by (cases a; cases b) simp_all

instantiation Level :: linorder
begin

definition less_eq_Level :: "Level \<Rightarrow> Level \<Rightarrow> bool" where
  "a \<le> b \<longleftrightarrow> level_num a \<le> level_num b"

definition less_Level :: "Level \<Rightarrow> Level \<Rightarrow> bool" where
  "a < b \<longleftrightarrow> level_num a < level_num b"

instance
  by intro_classes (auto simp: less_eq_Level_def less_Level_def intro: level_num_inj)

end

lemmas level_order = less_eq_Level_def less_Level_def

definition LogLevel_ToString :: "Level \<Rightarrow> string" where
  "LogLevel_ToString level =
     (case level of DEBUG \<Rightarrow> ''DEBUG'' | INFO \<Rightarrow> ''INFO'' | WARN \<Rightarrow> ''WARN'' | ERROR \<Rightarrow> ''ERROR''
      | FATAL \<Rightarrow> ''FATAL'' | _ \<Rightarrow> ''UNKNOW'')"

definition LogLevel_FromString :: "string \<Rightarrow> Level" where
  "LogLevel_FromString str =
     (if str = ''debug'' then DEBUG else if str = ''info'' then INFO
      else if str = ''warn'' then WARN else if str = ''error'' then ERROR
      else if str = ''fatal'' then FATAL
      else if str = ''DEBUG'' then DEBUG else if str = ''INFO'' then INFO
      else if str = ''WARN'' then WARN else if str = ''ERROR'' then ERROR
      else if str = ''FATAL'' then FATAL else UNKNOW)"

subsection \<open>Events\<close>

text \<open>\<open>ev_logger\<close> is the address of the logger the event belongs to.\<close>

record log_event =
  ev_file :: string
  ev_line :: int
  ev_elapse :: u32
  ev_threadId :: u32
  ev_fiberId :: u32
  ev_time :: u64
  ev_ss :: string
  ev_logger :: ptr
  ev_level :: Level
  ev_threadName :: string

definition LogEvent_ctor ::
  "ptr \<Rightarrow> Level \<Rightarrow> string \<Rightarrow> int \<Rightarrow> u32 \<Rightarrow> u32 \<Rightarrow> u32 \<Rightarrow> u64 \<Rightarrow> string \<Rightarrow> log_event" where
  "LogEvent_ctor logger level file line elapse threadId fiberId time thread_name =
     \<lparr> ev_file = file, ev_line = line, ev_elapse = elapse, ev_threadId = threadId,
       ev_fiberId = fiberId, ev_time = time, ev_ss = '''', ev_logger = logger, ev_level = level,
       ev_threadName = thread_name \<rparr>"

text \<open>
  \<open>LogEvent::format\<close>: \<open>printed\<close> is what \<open>vasprintf\<close> produced, \<open>None\<close> when it returned -1.
\<close>

definition LogEvent_format :: "string option \<Rightarrow> log_event \<Rightarrow> log_event" where
  "LogEvent_format printed e =
     (case printed of None \<Rightarrow> e | Some buf \<Rightarrow> e\<lparr>ev_ss := ev_ss e @ buf\<rparr>)"

subsection \<open>Format items\<close>

datatype format_item =
    MessageFormatItem
  | LevelFormatItem
  | ThreadNameFormatItem
  | ElapseFormatItem
  | NameFormatItem
  | ThreadIdFormatItem
  | FiberFormatItem
  | DataTimeFormatItem string
  | FileNameFormatItem
  | LineFormatItem
  | NewLineFormatItem
  | TabFormatItem
  | StringFormatItem string
  | FiberIdFormatItem

definition DataTimeFormatItem_ctor :: "string \<Rightarrow> format_item" where
  "DataTimeFormatItem_ctor fmt =
     DataTimeFormatItem (if fmt = [] then ''%Y-%m-%d %H:%M:%S'' else fmt)"

text \<open>
  \<open>strftime(buf, 64, fmt, localtime(time))\<close>. \<open>strf fmt time\<close> is the full expansion of the format
  in the process's time zone; when it does not fit in the buffer with its NUL, the buffer has no
  specified contents and printing it reads indeterminate bytes.
\<close>

definition strftime64 :: "(string \<Rightarrow> u64 \<Rightarrow> string) \<Rightarrow> string \<Rightarrow> u64 \<Rightarrow> string res" where
  "strftime64 strf fmt time =
     (let s = strf (c_str fmt) time
      in if length s < 64 then Inr s else Inl (Undefined ''strftime buffer''))"

fun FormatItem_format :: "(string \<Rightarrow> u64 \<Rightarrow> string) \<Rightarrow> string \<Rightarrow> Level \<Rightarrow> log_event \<Rightarrow> format_item \<Rightarrow> string res"
  where
  "FormatItem_format strf logger level e MessageFormatItem = Inr (ev_ss e)"
| "FormatItem_format strf logger level e LevelFormatItem = Inr (LogLevel_ToString level)"
| "FormatItem_format strf logger level e ThreadNameFormatItem = Inr (ev_threadName e)"
| "FormatItem_format strf logger level e ElapseFormatItem = Inr (show_nat (unat (ev_elapse e)))"
| "FormatItem_format strf logger level e NameFormatItem = Inr logger"
| "FormatItem_format strf logger level e ThreadIdFormatItem = Inr (show_nat (unat (ev_threadId e)))"
| "FormatItem_format strf logger level e FiberFormatItem = Inr (show_nat (unat (ev_fiberId e)))"
| "FormatItem_format strf logger level e (DataTimeFormatItem fmt) = strftime64 strf fmt (ev_time e)"
| "FormatItem_format strf logger level e FileNameFormatItem = Inr (ev_file e)"
| "FormatItem_format strf logger level e LineFormatItem = Inr (show_int (ev_line e))"
| "FormatItem_format strf logger level e NewLineFormatItem = Inr [CHR 0x0A]"
| "FormatItem_format strf logger level e TabFormatItem = Inr [CHR 0x09]"
| "FormatItem_format strf logger level e (StringFormatItem s) = Inr s"
| "FormatItem_format strf logger level e FiberIdFormatItem = Inr (show_nat (unat (ev_fiberId e)))"

subsection \<open>The pattern parser\<close>

record log_formatter =
  fm_pattern :: string
  fm_error :: bool
  fm_items :: "format_item list"

text \<open>\<open>LogFormatter::format\<close> writes the items one after the other.\<close>

fun format_items :: "(string \<Rightarrow> u64 \<Rightarrow> string) \<Rightarrow> string \<Rightarrow> Level \<Rightarrow> log_event \<Rightarrow> format_item list \<Rightarrow> string res"
  where
  "format_items strf logger level e [] = Inr ''''"
| "format_items strf logger level e (it # items) =
     rbind (FormatItem_format strf logger level e it) (\<lambda>s.
     rbind (format_items strf logger level e items) (\<lambda>t. Inr (s @ t)))"

definition LogFormatter_format :: "(string \<Rightarrow> u64 \<Rightarrow> string) \<Rightarrow> string \<Rightarrow> Level \<Rightarrow> log_event \<Rightarrow> log_formatter \<Rightarrow> string res"
  where
  "LogFormatter_format strf logger level e f = format_items strf logger level e (fm_items f)"

definition substr :: "string \<Rightarrow> nat \<Rightarrow> nat \<Rightarrow> string" where
  "substr s pos len = take len (drop pos s)"

text \<open>
  The inner \<open>while\<close> of \<open>init\<close>: \<open>i\<close> is the position of the percent sign, \<open>n\<close> the position it
  reads; the result is \<open>(n, format_status, str, fmt)\<close> when the loop is left.
\<close>

function format_scan ::
  "string \<Rightarrow> nat \<Rightarrow> nat \<Rightarrow> nat \<Rightarrow> nat \<Rightarrow> string \<Rightarrow> string \<Rightarrow> nat \<times> nat \<times> string \<times> string" where
  "format_scan p i n format_status format_begin str fmt =
     (if n < length p then
        if format_status = 0 \<and> \<not> isalpha (p ! n) \<and> p ! n \<noteq> CHR ''{'' \<and> p ! n \<noteq> CHR ''}'' then
          (n, format_status, substr p (i + 1) (n - i - 1), fmt)
        else if format_status = 0 \<and> p ! n = CHR ''{'' then
          format_scan p i (n + 1) 1 n (substr p (i + 1) (n - i - 1)) fmt
        else if format_status = 1 \<and> p ! n = CHR ''}'' then
          (n + 1, 0, str, substr p (format_begin + 1) (n - format_begin - 1))
        else
          format_scan p i (n + 1) format_status format_begin
            (if n + 1 = length p \<and> str = [] then drop (i + 1) p else str) fmt
      else (n, format_status, str, fmt))"
  by pat_completeness auto

termination
  by (relation "measure (\<lambda>(p, i, n, _). length p - n)") auto

declare format_scan.simps [simp del]

lemma format_scan_ge_fst: "n \<le> fst (format_scan p i n st fb str fmt)"
proof (induction "length p - n" arbitrary: n st fb str rule: less_induct)
  case less
  have "n \<le> fst (format_scan p i (n + 1) st' fb' str' fmt)" if "n < length p" for st' fb' str'
    by (rule order_trans [OF _ less]) (use that in auto)
  then show ?case by (subst format_scan.simps) simp
qed

lemma format_scan_ge: "format_scan p i n st fb str fmt = (n', r) \<Longrightarrow> n \<le> n'"
  using format_scan_ge_fst [of n p i st fb str fmt] by simp

text \<open>
  The outer \<open>for\<close> of \<open>init\<close>. A triple of \<open>vec\<close> is literal text (0) or a conversion (1); the result
  is \<open>(nstr, vec, m_error)\<close>.
\<close>

type_synonym pattern_tuple = "string \<times> string \<times> nat"

function init_loop :: "string \<Rightarrow> nat \<Rightarrow> string \<Rightarrow> pattern_tuple list \<Rightarrow> bool \<Rightarrow> string \<times> pattern_tuple list \<times> bool"
  where
  "init_loop p i nstr vec m_error =
     (if i < length p then
        if p ! i \<noteq> CHR ''%'' then init_loop p (i + 1) (nstr @ [p ! i]) vec m_error
        else if i + 1 < length p \<and> p ! (i + 1) = CHR ''%'' then
          init_loop p (i + 2) (nstr @ ''%'') vec m_error
        else
          (case format_scan p i (i + 1) 0 0 [] [] of (n, format_status, str, fmt) \<Rightarrow>
             if format_status = 0 then
               init_loop p n [] ((if nstr \<noteq> [] then vec @ [(nstr, [], 0)] else vec) @ [(str, fmt, 1)]) m_error
             else if format_status = 1 then
               init_loop p (i + 1) nstr (vec @ [(''pattern error'', fmt, 0)]) True
             else init_loop p (i + 1) nstr vec m_error)
      else (nstr, vec, m_error))"
  by pat_completeness auto

termination
proof (relation "measure (\<lambda>(p, i, _). length p - i)", goal_cases)
  case (4 p i nstr vec err x n y st str fmt)
  from 4(4) [symmetric] have "i + 1 \<le> x" by (rule format_scan_ge)
  with 4(1) show ?case by simp
qed auto

declare init_loop.simps [simp del]

definition s_format_item :: "string \<Rightarrow> (string \<Rightarrow> format_item) option" where
  "s_format_item =
     map_of [(''m'', \<lambda>_. MessageFormatItem), (''p'', \<lambda>_. LevelFormatItem), (''r'', \<lambda>_. ElapseFormatItem),
             (''c'', \<lambda>_. NameFormatItem), (''t'', \<lambda>_. ThreadIdFormatItem), (''n'', \<lambda>_. NewLineFormatItem),
             (''d'', DataTimeFormatItem_ctor), (''f'', \<lambda>_. FileNameFormatItem),
             (''l'', \<lambda>_. LineFormatItem), (''T'', \<lambda>_. TabFormatItem), (''F'', \<lambda>_. FiberIdFormatItem),
             (''N'', \<lambda>_. ThreadNameFormatItem)]"

fun init_items :: "pattern_tuple list \<Rightarrow> bool \<Rightarrow> format_item list \<times> bool" where
  "init_items [] m_error = ([], m_error)"
| "init_items ((str, fmt, ty) # vec) m_error =
     (if ty = 0 then
        let (items, e) = init_items vec m_error in (StringFormatItem str # items, e)
      else
        (case s_format_item str of
           None \<Rightarrow>
             let (items, e) = init_items vec True
             in (StringFormatItem (''error format'' @ '' '' @ str) # items, e)
         | Some mk \<Rightarrow> let (items, e) = init_items vec m_error in (mk fmt # items, e)))"

definition LogFormatter_ctor :: "string \<Rightarrow> log_formatter" where
  "LogFormatter_ctor pattern =
     (let (nstr, vec, err) = init_loop pattern 0 [] [] False;
          vec = (if nstr \<noteq> [] then vec @ [(nstr, [], 0)] else vec);
          (items, err) = init_items vec err
      in \<lparr> fm_pattern = pattern, fm_error = err, fm_items = items \<rparr>)"

subsection \<open>The language the parser reads\<close>

text \<open>
  A conversion: letters and closing braces up to another character, then an argument in braces if
  that character opens one. \<open>None\<close>: the argument is not closed.
\<close>

definition read_conversion :: "string \<Rightarrow> (string \<times> string \<times> string) option" where
  "read_conversion s =
     (let key = takeWhile (\<lambda>c. isalpha c \<or> c = CHR ''}'') s;
          rest = dropWhile (\<lambda>c. isalpha c \<or> c = CHR ''}'') s
      in case rest of
           [] \<Rightarrow> Some (key, [], [])
         | c # arg \<Rightarrow>
             if c \<noteq> CHR ''{'' then Some (key, [], rest)
             else if CHR ''}'' \<in> set arg then
               Some (key, takeWhile (\<lambda>c. c \<noteq> CHR ''}'') arg, tl (dropWhile (\<lambda>c. c \<noteq> CHR ''}'') arg))
             else None)"

lemma read_conversion_shorter:
  assumes "read_conversion s = Some (key, arg, rest)"
  shows "length rest \<le> length s"
proof -
  have "length (dropWhile P xs) \<le> length xs" for P and xs :: string
    by (rule length_dropWhile_le)
  note le = this [of "\<lambda>c. isalpha c \<or> c = CHR ''}''" s]
  show ?thesis
  proof (cases "dropWhile (\<lambda>c. isalpha c \<or> c = CHR ''}'') s")
    case Nil
    with assms show ?thesis by (auto simp: read_conversion_def Let_def)
  next
    case (Cons c xs)
    have "length (tl (dropWhile (\<lambda>c. c \<noteq> CHR ''}'') xs)) \<le> length xs"
      using length_dropWhile_le [of "\<lambda>c. c \<noteq> CHR ''}''" xs] by simp
    moreover have "length (c # xs) \<le> length s"
      using le unfolding Cons .
    ultimately show ?thesis
      using assms le unfolding read_conversion_def Let_def Cons by (auto split: if_splits)
  qed
qed

text \<open>
  The tokens of a pattern. \<open>lit\<close> is the literal text collected so far: a conversion flushes it,
  an argument that is not closed is reported in front of it, and reading goes on behind the percent
  sign. \<open>True\<close> in the result: some argument is not closed.
\<close>

function pattern_tokens :: "string \<Rightarrow> string \<Rightarrow> pattern_tuple list \<times> bool" where
  "pattern_tokens lit [] = (if lit \<noteq> [] then [(lit, [], 0)] else [], False)"
| "pattern_tokens lit (c # s) =
     (if c \<noteq> CHR ''%'' then pattern_tokens (lit @ [c]) s
      else if s \<noteq> [] \<and> hd s = CHR ''%'' then pattern_tokens (lit @ ''%'') (tl s)
      else
        (case read_conversion s of
           Some (key, arg, rest) \<Rightarrow>
             let (ts, e) = pattern_tokens [] rest
             in ((if lit \<noteq> [] then [(lit, [], 0)] else []) @ (key, arg, 1) # ts, e)
         | None \<Rightarrow>
             let (ts, e) = pattern_tokens lit s in ((''pattern error'', [], 0) # ts, True)))"
  by pat_completeness auto

termination
  by (relation "measure (\<lambda>(_, s). length s)") (auto dest: read_conversion_shorter)

declare pattern_tokens.simps [simp del]

lemma isalpha_braces [simp]: "\<not> isalpha (CHR ''{'')" "\<not> isalpha (CHR ''}'')" "\<not> isalpha (CHR ''%'')"
  by (simp_all add: isalpha_def of_char_def)

lemma read_conversion_Nil [simp]: "read_conversion [] = Some ([], [], [])"
  by (simp add: read_conversion_def)

lemma read_conversion_key [simp]:
  "isalpha c \<or> c = CHR ''}'' \<Longrightarrow>
     read_conversion (c # s) = map_option (\<lambda>(key, arg, rest). (c # key, arg, rest)) (read_conversion s)"
  by (auto simp: read_conversion_def Let_def simp del: dropWhile_eq_Nil_conv split: list.splits)

lemma read_conversion_open [simp]:
  "read_conversion (CHR ''{'' # s) =
     (if CHR ''}'' \<in> set s
      then Some ([], takeWhile (\<lambda>c. c \<noteq> CHR ''}'') s, tl (dropWhile (\<lambda>c. c \<noteq> CHR ''}'') s)) else None)"
  by (auto simp: read_conversion_def)

lemma read_conversion_stop [simp]:
  "\<not> isalpha c \<Longrightarrow> c \<noteq> CHR ''{'' \<Longrightarrow> c \<noteq> CHR ''}'' \<Longrightarrow> read_conversion (c # s) = Some ([], [], c # s)"
  by (auto simp: read_conversion_def)

lemma drop_Cons:
  assumes "drop n p = x # xs"
  shows "n < length p" "p ! n = x" "drop (Suc n) p = xs"
  using assms by (auto simp: drop_Suc tl_drop [symmetric] nth_via_drop intro: ccontr)

lemma substr_grow:
  assumes "drop n p = x # xs" "i < n"
  shows "substr p (Suc i) (Suc n - i - 1) = substr p (Suc i) (n - i - 1) @ [x]"
proof -
  have "Suc n - i - 1 = Suc (n - i - 1)" using assms(2) by simp
  moreover have "n - i - 1 < length (drop (Suc i) p)"
    using drop_Cons(1) [OF assms(1)] assms(2) by simp
  moreover have "drop (Suc i) p ! (n - i - 1) = x"
    using drop_Cons(1,2) [OF assms(1)] assms(2) by simp
  ultimately show ?thesis by (simp add: substr_def take_Suc_conv_app_nth)
qed

text \<open>The scan inside braces, from the position \<open>n\<close>.\<close>

lemma format_scan_arg:
  assumes "drop n p = xs" "fb < n"
  shows "if CHR ''}'' \<in> set xs
    then \<exists>n'. drop n' p = tl (dropWhile (\<lambda>c. c \<noteq> CHR ''}'') xs) \<and>
      format_scan p i n 1 fb str fmt =
        (n', 0, str, substr p (Suc fb) (n - fb - 1) @ takeWhile (\<lambda>c. c \<noteq> CHR ''}'') xs)
    else \<exists>n' str'. format_scan p i n 1 fb str fmt = (n', 1, str', fmt)"
  using assms
proof (induction xs arbitrary: n str)
  case Nil
  then show ?case by (subst format_scan.simps) simp
next
  case (Cons x xs)
  note d = drop_Cons [OF Cons.prems(1)]
  show ?case
  proof (cases "x = CHR ''}''")
    case True
    then show ?thesis
      using d by (subst format_scan.simps) (auto intro: exI [of _ "Suc n"])
  next
    case False
    have step: "format_scan p i n 1 fb str fmt =
        format_scan p i (Suc n) 1 fb (if Suc n = length p \<and> str = [] then drop (Suc i) p else str) fmt"
      using d False by (subst format_scan.simps) simp
    have closed: "Suc n \<noteq> length p" if "CHR ''}'' \<in> set xs"
      using that d(3) by auto
    show ?thesis
      unfolding step using Cons.IH [OF d(3), of "if Suc n = length p \<and> str = [] then drop (Suc i) p else str"]
        Cons.prems(2) False closed substr_grow [OF Cons.prems]
      by (auto split: if_splits)
  qed
qed

text \<open>The scan of a whole conversion.\<close>

lemma format_scan_conversion:
  assumes "drop n p = xs" "i < n" "str = (if xs = [] then drop (Suc i) p else [])"
  shows "case read_conversion xs of
      Some (key, arg, rest) \<Rightarrow> \<exists>n'. drop n' p = rest \<and>
        format_scan p i n 0 fb str [] = (n', 0, substr p (Suc i) (n - i - 1) @ key, arg)
    | None \<Rightarrow> \<exists>n' str'. format_scan p i n 0 fb str [] = (n', 1, str', [])"
  using assms
proof (induction xs arbitrary: n str)
  case Nil
  then have "length p \<le> n" by simp
  then have "substr p (Suc i) (n - i - 1) = drop (Suc i) p" by (simp add: substr_def)
  with Nil show ?case by (subst format_scan.simps) simp
next
  case (Cons x xs)
  note d = drop_Cons [OF Cons.prems(1)]
  consider "x = CHR ''{''" | "isalpha x \<or> x = CHR ''}''"
    | "\<not> isalpha x" "x \<noteq> CHR ''{''" "x \<noteq> CHR ''}''" by blast
  then show ?case
  proof cases
    case 1
    have "format_scan p i n 0 fb str [] = format_scan p i (Suc n) 1 n (substr p (Suc i) (n - i - 1)) []"
      using d 1 by (subst format_scan.simps) simp
    then show ?thesis
      using format_scan_arg [OF d(3), of n i "substr p (Suc i) (n - i - 1)" "[]"] 1
      by (auto simp: substr_def)
  next
    case 2
    then have "x \<noteq> CHR ''{''" by auto
    with 2 d Cons.prems(3) have step: "format_scan p i n 0 fb str [] =
        format_scan p i (Suc n) 0 fb (if xs = [] then drop (Suc i) p else []) []"
      by (subst format_scan.simps) auto
    show ?thesis
      unfolding step using Cons.IH [OF d(3) _ refl] Cons.prems(2) 2 substr_grow [OF Cons.prems(1,2)]
      by (auto split: option.splits)
  next
    case 3
    then show ?thesis
      using d Cons.prems(1) by (subst format_scan.simps) auto
  qed
qed

text \<open>The loop of \<open>init\<close> collects the tokens of the rest of the pattern.\<close>

lemma init_loop_tokens:
  assumes "drop i p = xs"
  shows "case init_loop p i lit vec err of (nstr, vec', err') \<Rightarrow>
    vec' @ (if nstr \<noteq> [] then [(nstr, [], 0)] else []) = vec @ fst (pattern_tokens lit xs) \<and>
    err' = (err \<or> snd (pattern_tokens lit xs))"
  using assms
proof (induction lit xs arbitrary: i vec err rule: pattern_tokens.induct)
  case (1 lit)
  then show ?case
    by (subst init_loop.simps) (simp add: pattern_tokens.simps)
next
  case (2 lit c s)
  note d = drop_Cons [OF "2.prems"]
  have nxt: "(i + 1 < length p \<and> p ! (i + 1) = CHR ''%'') = (s \<noteq> [] \<and> hd s = CHR ''%'')"
    using d(3) by (auto simp: hd_drop_conv_nth)
  consider "c \<noteq> CHR ''%''" | "c = CHR ''%''" "s \<noteq> [] \<and> hd s = CHR ''%''"
    | "c = CHR ''%''" "\<not> (s \<noteq> [] \<and> hd s = CHR ''%'')" by blast
  then show ?case
  proof cases
    case 1
    then show ?thesis
      using "2.IH"(1) [of "Suc i"] d by (subst init_loop.simps) (simp add: pattern_tokens.simps)
  next
    case 2
    have "drop (i + 2) p = tl s" using d(3) by (metis add_2_eq_Suc' drop_Suc tl_drop)
    then show ?thesis
      using "2.IH"(2) [of "i + 2"] d nxt 2 by (subst init_loop.simps) (simp add: pattern_tokens.simps)
  next
    case 3
    have "[] = (if s = [] then drop (Suc i) p else [])" using d(3) by simp
    note scan = format_scan_conversion [OF d(3) lessI this, of 0]
    show ?thesis
    proof (cases "read_conversion s")
      case None
      with scan obtain n' str' where "format_scan p i (Suc i) 0 0 [] [] = (n', 1, str', [])"
        using d(3) by auto
      then show ?thesis
        using "2.IH"(3) [of "Suc i" "vec @ [(''pattern error'', [], 0)]" True] None d nxt 3
        by (subst init_loop.simps) (auto simp: pattern_tokens.simps split: prod.splits)
    next
      case (Some r)
      obtain key arg rest where r: "r = (key, arg, rest)" by (cases r)
      with scan Some obtain n' where n': "drop n' p = rest"
        and sc: "format_scan p i (Suc i) 0 0 [] [] = (n', 0, key, arg)"
        using d(3) by (auto simp: substr_def)
      let ?V = "(if lit \<noteq> [] then vec @ [(lit, [], 0)] else vec) @ [(key, arg, 1)]"
      have "init_loop p i lit vec err = init_loop p n' [] ?V err"
        using sc d nxt 3 by (subst init_loop.simps) auto
      moreover have "pattern_tokens lit (c # s) =
          ((if lit \<noteq> [] then [(lit, [], 0)] else []) @ (key, arg, 1) # fst (pattern_tokens [] rest),
           snd (pattern_tokens [] rest))"
        using 3 Some r by (subst pattern_tokens.simps) (auto simp: split_beta)
      moreover have "case init_loop p n' [] ?V err of (nstr, vec', err') \<Rightarrow>
          vec' @ (if nstr \<noteq> [] then [(nstr, [], 0)] else []) = ?V @ fst (pattern_tokens [] rest) \<and>
          err' = (err \<or> snd (pattern_tokens [] rest))"
        by (rule "2.IH"(4) [of r key "(arg, rest)" arg rest]) (use 3 Some r n' in simp_all)
      ultimately show ?thesis by (simp add: split_beta)
    qed
  qed
qed

text \<open>The formatter of a pattern, by the tokens the pattern reads as.\<close>

definition conversion_item :: "pattern_tuple \<Rightarrow> format_item" where
  "conversion_item = (\<lambda>(str, fmt, ty).
     if ty = 0 then StringFormatItem str
     else case s_format_item str of None \<Rightarrow> StringFormatItem (''error format '' @ str) | Some mk \<Rightarrow> mk fmt)"

definition unknown_conversion :: "pattern_tuple \<Rightarrow> bool" where
  "unknown_conversion = (\<lambda>(str, fmt, ty). ty \<noteq> 0 \<and> s_format_item str = None)"

lemma init_items_map:
  "init_items v e = (map conversion_item v, e \<or> (\<exists>t \<in> set v. unknown_conversion t))"
  by (induction v e rule: init_items.induct)
     (auto simp: conversion_item_def unknown_conversion_def split: option.splits)

lemma LogFormatter_ctor_tokens:
  "LogFormatter_ctor p =
     \<lparr> fm_pattern = p,
       fm_error = (snd (pattern_tokens [] p) \<or> (\<exists>t \<in> set (fst (pattern_tokens [] p)). unknown_conversion t)),
       fm_items = map conversion_item (fst (pattern_tokens [] p)) \<rparr>"
proof -
  obtain nstr vec err where l: "init_loop p 0 [] [] False = (nstr, vec, err)"
    by (cases "init_loop p 0 [] [] False")
  have "vec @ (if nstr \<noteq> [] then [(nstr, [], 0)] else []) = fst (pattern_tokens [] p)"
    and err: "err = snd (pattern_tokens [] p)"
    using init_loop_tokens [of 0 p p "[]" "[]" False] l by simp_all
  then have "(if nstr \<noteq> [] then vec @ [(nstr, [], 0)] else vec) = fst (pattern_tokens [] p)"
    by (simp split: if_splits)
  with l err show ?thesis
    by (simp only: LogFormatter_ctor_def init_items_map Let_def prod.case)
qed

subsection \<open>Printing a pattern\<close>

text \<open>Segments of a pattern: literal text, and a conversion with or without an argument.\<close>

datatype segment = Lit string | Conv string "string option"

definition escape :: "string \<Rightarrow> string" where
  "escape s = concat (map (\<lambda>c. if c = CHR ''%'' then ''%%'' else [c]) s)"

fun print_segment :: "segment \<Rightarrow> string" where
  "print_segment (Lit s) = escape s"
| "print_segment (Conv key None) = CHR ''%'' # key"
| "print_segment (Conv key (Some arg)) = CHR ''%'' # key @ ''{'' @ arg @ ''}''"

definition print_pattern :: "segment list \<Rightarrow> string" where
  "print_pattern segs = concat (map print_segment segs)"

text \<open>
  Two literals are not adjacent, keys are letters, an argument has no closing brace, and the text
  behind a conversion without an argument does not continue it.
\<close>

fun wf_segments :: "segment list \<Rightarrow> bool" where
  "wf_segments [] = True"
| "wf_segments (Lit s # segs) =
     (s \<noteq> [] \<and> (case segs of Lit _ # _ \<Rightarrow> False | _ \<Rightarrow> True) \<and> wf_segments segs)"
| "wf_segments (Conv key None # segs) =
     (key \<noteq> [] \<and> list_all isalpha key \<and> s_format_item key \<noteq> None \<and>
      (case segs of Lit (c # _) # _ \<Rightarrow> \<not> isalpha c \<and> c \<noteq> CHR ''{'' \<and> c \<noteq> CHR ''}'' | _ \<Rightarrow> True) \<and>
      wf_segments segs)"
| "wf_segments (Conv key (Some arg) # segs) =
     (key \<noteq> [] \<and> list_all isalpha key \<and> s_format_item key \<noteq> None \<and> CHR ''}'' \<notin> set arg \<and> wf_segments segs)"

fun segment_item :: "segment \<Rightarrow> format_item" where
  "segment_item (Lit s) = StringFormatItem s"
| "segment_item (Conv key arg) = the (s_format_item key) (case arg of None \<Rightarrow> [] | Some a \<Rightarrow> a)"

fun segment_tuple :: "segment \<Rightarrow> pattern_tuple" where
  "segment_tuple (Lit s) = (s, [], 0)"
| "segment_tuple (Conv key arg) = (key, case arg of None \<Rightarrow> [] | Some a \<Rightarrow> a, 1)"

text \<open>The segments of the pattern every logger starts with.\<close>

definition default_segments :: "segment list" where
  "default_segments =
     [Conv ''d'' (Some ''%Y-%m-%d %H:%M:%S''), Conv ''T'' None, Conv ''t'' None, Conv ''T'' None,
      Conv ''N'' None, Conv ''T'' None, Conv ''F'' None, Conv ''T'' None, Lit ''['', Conv ''p'' None,
      Lit '']'', Conv ''T'' None, Lit ''['', Conv ''c'' None, Lit '']'', Conv ''T'' None, Conv ''f'' None,
      Lit '':'', Conv ''l'' None, Conv ''T'' None, Conv ''m'' None, Conv ''n'' None]"

lemma escape_simps [simp]:
  "escape [] = []" "escape (c # s) = (if c = CHR ''%'' then ''%%'' else [c]) @ escape s"
  by (simp_all add: escape_def)

lemma print_pattern_simps [simp]:
  "print_pattern [] = []" "print_pattern (x # xs) = print_segment x @ print_pattern xs"
  by (simp_all add: print_pattern_def)

lemma tokens_escape: "pattern_tokens lit (escape s @ rest) = pattern_tokens (lit @ s) rest"
proof (induction s arbitrary: lit)
  case (Cons c s)
  then show ?case by (cases "c = CHR ''%''") (simp_all add: pattern_tokens.simps(2))
qed simp

lemma read_conversion_letters:
  "list_all isalpha key \<Longrightarrow>
     read_conversion (key @ s) = map_option (\<lambda>(k, a, r). (key @ k, a, r)) (read_conversion s)"
  by (induction key) (cases "read_conversion s"; force)+

text \<open>What follows a conversion without argument stops the scan.\<close>

lemma read_conversion_print:
  assumes "wf_segments segs"
    "case segs of Lit (c # _) # _ \<Rightarrow> \<not> isalpha c \<and> c \<noteq> CHR ''{'' \<and> c \<noteq> CHR ''}'' | _ \<Rightarrow> True"
  shows "read_conversion (print_pattern segs) = Some ([], [], print_pattern segs)"
proof (cases segs)
  case (Cons x xs)
  show ?thesis
  proof (cases x)
    case (Lit s)
    then obtain c t where "s = c # t" using assms(1) Cons by (cases s) auto
    then show ?thesis using assms(2) Cons Lit by simp
  next
    case (Conv key arg)
    then show ?thesis using Cons by (cases arg) simp_all
  qed
qed simp

lemma tokens_conversion:
  assumes "list_all isalpha key" "key \<noteq> []" "read_conversion s = Some ([], arg, rest)"
  shows "pattern_tokens lit (CHR ''%'' # key @ s) =
    ((if lit \<noteq> [] then [(lit, [], 0)] else []) @ (key, arg, 1) # fst (pattern_tokens [] rest),
     snd (pattern_tokens [] rest))"
proof -
  obtain c key' where key: "key = c # key'" using assms(2) by (cases key) auto
  then have "c \<noteq> CHR ''%''" using assms(1) by auto
  then show ?thesis
    using assms read_conversion_letters [OF assms(1), of s] key
    by (auto simp: pattern_tokens.simps(2) split_beta)
qed

lemma tokens_print:
  assumes "wf_segments segs" "lit = [] \<or> (case segs of Lit _ # _ \<Rightarrow> False | _ \<Rightarrow> True)"
  shows "pattern_tokens lit (print_pattern segs) =
    ((if lit \<noteq> [] then [(lit, [], 0)] else []) @ map segment_tuple segs, False)"
  using assms
proof (induction segs arbitrary: lit rule: wf_segments.induct)
  case 1
  then show ?case by (simp add: pattern_tokens.simps)
next
  case (2 s segs)
  then show ?case by (simp add: tokens_escape)
next
  case (3 key segs)
  then show ?case
    using read_conversion_print [of segs] by (simp add: tokens_conversion)
next
  case (4 key arg segs)
  then have "read_conversion (''{'' @ arg @ ''}'' @ print_pattern segs) = Some ([], arg, print_pattern segs)"
    by (simp add: takeWhile_until dropWhile_until)
  with 4 show ?case
    using tokens_conversion [of key "''{'' @ arg @ ''}'' @ print_pattern segs"] by simp
qed

lemma segment_tuple_item:
  "wf_segments segs \<Longrightarrow> map (conversion_item \<circ> segment_tuple) segs = map segment_item segs \<and>
     (\<forall>x \<in> set segs. \<not> unknown_conversion (segment_tuple x))"
  by (induction segs rule: wf_segments.induct)
     (auto simp: conversion_item_def unknown_conversion_def split: option.splits)

lemma level_roundtrip: "l \<noteq> LEVEL_100 \<Longrightarrow> LogLevel_FromString (LogLevel_ToString l) = l"
  by (cases l) (simp_all add: LogLevel_FromString_def LogLevel_ToString_def)

subsection \<open>Properties\<close>

text \<open>
  C36. The index-based parser of \<open>LogFormatter::init\<close> reads every pattern as the tokens of the
  pattern language: literal text with doubled percent signs, conversions with an optional
  argument, and an error mark for an argument that is not closed. \<open>isError()\<close> is true exactly
  when an argument is not closed or a conversion is unknown.
\<close>

theorem LogFormatter_reads_language:
  "LogFormatter_ctor p =
     \<lparr> fm_pattern = p,
       fm_error = (snd (pattern_tokens [] p) \<or> (\<exists>t \<in> set (fst (pattern_tokens [] p)). unknown_conversion t)),
       fm_items = map conversion_item (fst (pattern_tokens [] p)) \<rparr>"
  by (rule LogFormatter_ctor_tokens)

text \<open>
  A printed list of segments parses back into exactly its items, without an error: a pattern
  means what its author wrote, percent signs and arguments included.
\<close>

theorem log_pattern_roundtrip:
  assumes "wf_segments segs"
  shows "LogFormatter_ctor (print_pattern segs) =
    \<lparr> fm_pattern = print_pattern segs, fm_error = False, fm_items = map segment_item segs \<rparr>"
  using tokens_print [OF assms, of "[]"] segment_tuple_item [OF assms]
  by (simp add: LogFormatter_ctor_tokens)

theorem log_pattern_roundtrip_witness:
  "wf_segments default_segments \<and>
   LogFormatter_ctor (print_pattern default_segments) =
     \<lparr> fm_pattern = print_pattern default_segments, fm_error = False,
       fm_items = map segment_item default_segments \<rparr>"
proof -
  have wf: "wf_segments default_segments"
    by (simp add: default_segments_def s_format_item_def isalpha_def of_char_def)
  then show ?thesis
    using log_pattern_roundtrip by blast
qed

end
