(* ===== verification/Log.thy ===== *)
theory Log
  imports Log_Format "HOL-Library.Char_ord" "HOL-Library.List_Lexorder"
begin

section \<open>Appenders, loggers and the logger manager\<close>

text \<open>
  The second half of \<open>qlc_log.cpp\<close>: the two appenders, \<open>Logger\<close>, \<open>LoggerManager\<close>,
  \<open>LogEventWrap\<close> and the logging macros. Loggers and appenders are objects of a store, since a
  logger shares its appenders and every logger shares the root. \<open>w_stdout\<close> is what the appenders
  wrote to \<open>std::cout\<close>; the diagnostics the code prints there itself are left out.
\<close>

subsection \<open>State\<close>

text \<open>A \<open>std::ofstream\<close>: is a file attached, is the stream failed, and the write position.\<close>

record ofstream =
  fs_open :: bool
  fs_fail :: bool
  fs_pos :: nat

record file_part =
  m_filename :: string
  m_filestream :: ofstream
  m_lastTime :: u64

datatype appender_class = StdoutAppender | FileAppender file_part

text \<open>A null formatter pointer is \<open>None\<close>. A formatter does not change once it is built.\<close>

record appender =
  ap_hasFormatter :: bool
  ap_level :: Level
  ap_formatter :: "log_formatter option"
  ap_class :: appender_class

record logger =
  lg_name :: string
  lg_level :: Level
  lg_appenders :: "ptr list"
  lg_root :: ptr
  lg_formater :: "log_formatter option"

text \<open>
  The store, the files and standard output, and the fields of the \<open>LoggerManager\<close> singleton.
  \<open>w_next\<close> is the next address \<open>operator new\<close> returns. \<open>m_loggers\<close> is a \<open>std::map\<close> in key order.
\<close>

record log_world =
  w_loggers :: "ptr \<rightharpoonup> logger"
  w_appenders :: "ptr \<rightharpoonup> appender"
  w_next :: ptr
  w_stdout :: string
  w_files :: "string \<rightharpoonup> string"
  m_loggers :: "(string \<times> ptr) list"
  m_root :: ptr

text \<open>
  The environment: the expansion of \<open>strftime\<close>, the files that can be opened for writing, and the
  files whose device takes the bytes written.
\<close>

record log_env =
  env_strf :: "string \<Rightarrow> u64 \<Rightarrow> string"
  env_openable :: "string \<Rightarrow> bool"
  env_accepts :: "string \<Rightarrow> bool"

definition deref :: "(ptr \<rightharpoonup> 'a) \<Rightarrow> ptr \<Rightarrow> 'a res" where
  "deref h p = (case h p of None \<Rightarrow> Inl (Undefined ''null pointer'') | Some x \<Rightarrow> Inr x)"

lemma deref_Some [simp]: "h p = Some x \<Longrightarrow> deref h p = Inr x"
  by (simp add: deref_def)

lemma deref_eq_Inr [simp]: "deref h p = Inr x \<longleftrightarrow> h p = Some x"
  by (simp add: deref_def split: option.splits)

lemma deref_None [simp]: "h p = None \<Longrightarrow> deref h p = Inl (Undefined ''null pointer'')"
  by (simp add: deref_def)

subsection \<open>Appenders\<close>

definition stdoutAppender_ctor :: appender where
  "stdoutAppender_ctor =
     \<lparr> ap_hasFormatter = False, ap_level = DEBUG, ap_formatter = None, ap_class = StdoutAppender \<rparr>"

text \<open>
  \<open>close\<close> sets the fail bit when no file is attached; \<open>open\<close> fails when one is, and otherwise
  truncates the file and clears the state.
\<close>

definition fs_close :: "ofstream \<Rightarrow> ofstream" where
  "fs_close s = (if fs_open s then s\<lparr>fs_open := False\<rparr> else s\<lparr>fs_fail := True\<rparr>)"

definition fs_open_out :: "log_env \<Rightarrow> string \<Rightarrow> ofstream \<Rightarrow> (string \<rightharpoonup> string) \<Rightarrow> ofstream \<times> (string \<rightharpoonup> string)" where
  "fs_open_out env name s files =
     (if fs_open s \<or> \<not> env_openable env name then (s\<lparr>fs_fail := True\<rparr>, files)
      else (\<lparr> fs_open = True, fs_fail = False, fs_pos = 0 \<rparr>, files(name \<mapsto> '''')))"

definition reopen :: "log_env \<Rightarrow> file_part \<Rightarrow> (string \<rightharpoonup> string) \<Rightarrow> file_part \<times> (string \<rightharpoonup> string) \<times> bool" where
  "reopen env f files =
     (let s = m_filestream f;
          s = (if \<not> fs_fail s then fs_close s else s);
          (s, files) = fs_open_out env (m_filename f) s files
      in (f\<lparr>m_filestream := s\<rparr>, files, \<not> fs_fail s))"

definition fileAppender_ctor :: "log_env \<Rightarrow> string \<Rightarrow> (string \<rightharpoonup> string) \<Rightarrow> appender \<times> (string \<rightharpoonup> string)" where
  "fileAppender_ctor env filename files =
     (let (f, files, _) = reopen env
            \<lparr> m_filename = filename,
              m_filestream = \<lparr> fs_open = False, fs_fail = False, fs_pos = 0 \<rparr>, m_lastTime = 0 \<rparr> files
      in (\<lparr> ap_hasFormatter = False, ap_level = DEBUG, ap_formatter = None, ap_class = FileAppender f \<rparr>,
          files))"

text \<open>Bytes written at the position, over what is there; a gap reads as NUL.\<close>

definition write_at :: "nat \<Rightarrow> string \<Rightarrow> string \<Rightarrow> string" where
  "write_at pos s old = take pos (old @ replicate (pos - length old) NUL) @ s @ drop (pos + length s) old"

definition fs_write :: "log_env \<Rightarrow> string \<Rightarrow> string \<Rightarrow> ofstream \<Rightarrow> (string \<rightharpoonup> string) \<Rightarrow> ofstream \<times> (string \<rightharpoonup> string)" where
  "fs_write env name txt s files =
     (if fs_fail s then (s, files)
      else if \<not> fs_open s \<or> \<not> env_accepts env name then (s\<lparr>fs_fail := True\<rparr>, files)
      else (s\<lparr>fs_pos := fs_pos s + length txt\<rparr>,
            files(name \<mapsto> write_at (fs_pos s) txt (case files name of None \<Rightarrow> '''' | Some c \<Rightarrow> c))))"

text \<open>\<open>Log\<close> of the two classes; the result holds the updated object and the new outputs.\<close>

definition stdoutAppender_Log ::
  "log_env \<Rightarrow> string \<Rightarrow> Level \<Rightarrow> log_event \<Rightarrow> appender \<Rightarrow> string \<Rightarrow> string res" where
  "stdoutAppender_Log env logger level e a out =
     (if ap_level a \<le> level then
        (case ap_formatter a of
           None \<Rightarrow> Inl (Undefined ''null pointer'')
         | Some fmt \<Rightarrow> rbind (LogFormatter_format (env_strf env) logger level e fmt) (\<lambda>s. Inr (out @ s)))
      else Inr out)"

definition fileAppender_Log ::
  "log_env \<Rightarrow> string \<Rightarrow> Level \<Rightarrow> log_event \<Rightarrow> appender \<Rightarrow> file_part \<Rightarrow> (string \<rightharpoonup> string)
     \<Rightarrow> (file_part \<times> (string \<rightharpoonup> string)) res" where
  "fileAppender_Log env logger level e a f files =
     (if ap_level a \<le> level then
        (let now = ev_time e;
             (f, files) =
               (if now \<ge> m_lastTime f + 3 then
                  let (f, files, _) = reopen env f files in (f\<lparr>m_lastTime := now\<rparr>, files)
                else (f, files))
         in case ap_formatter a of
              None \<Rightarrow> Inl (Undefined ''null pointer'')
            | Some fmt \<Rightarrow>
                rbind (LogFormatter_format (env_strf env) logger level e fmt) (\<lambda>s.
                  let (st, files) = fs_write env (m_filename f) s (m_filestream f) files
                  in Inr (f\<lparr>m_filestream := st\<rparr>, files)))
      else Inr (f, files))"

definition Appender_Log :: "log_env \<Rightarrow> string \<Rightarrow> Level \<Rightarrow> log_event \<Rightarrow> ptr \<Rightarrow> log_world \<Rightarrow> log_world res" where
  "Appender_Log env logger level e p w =
     rbind (deref (w_appenders w) p) (\<lambda>a.
       case ap_class a of
         StdoutAppender \<Rightarrow>
           rbind (stdoutAppender_Log env logger level e a (w_stdout w)) (\<lambda>out. Inr (w\<lparr>w_stdout := out\<rparr>))
       | FileAppender f \<Rightarrow>
           rbind (fileAppender_Log env logger level e a f (w_files w)) (\<lambda>(f, files).
             Inr (w\<lparr>w_appenders := (w_appenders w)(p \<mapsto> a\<lparr>ap_class := FileAppender f\<rparr>),
                    w_files := files\<rparr>)))"

definition LogAppender_setFormatter :: "log_formatter option \<Rightarrow> appender \<Rightarrow> appender" where
  "LogAppender_setFormatter val a = a\<lparr>ap_formatter := val, ap_hasFormatter := val \<noteq> None\<rparr>"

definition LogAppender_setLevel :: "Level \<Rightarrow> appender \<Rightarrow> appender" where
  "LogAppender_setLevel level a = a\<lparr>ap_level := level\<rparr>"

subsection \<open>Loggers\<close>

definition default_pattern :: string where
  "default_pattern = ''%d{%Y-%m-%d %H:%M:%S}%T%t%T%N%T%F%T[%p]%T[%c]%T%f:%l%T%m%n''"

definition Logger_ctor :: "string \<Rightarrow> logger" where
  "Logger_ctor name =
     \<lparr> lg_name = name, lg_level = DEBUG, lg_appenders = [], lg_root = nullptr,
       lg_formater = Some (LogFormatter_ctor default_pattern) \<rparr>"

fun log_appenders :: "log_env \<Rightarrow> string \<Rightarrow> Level \<Rightarrow> log_event \<Rightarrow> ptr list \<Rightarrow> log_world \<Rightarrow> log_world res" where
  "log_appenders env logger level e [] w = Inr w"
| "log_appenders env logger level e (p # ps) w =
     rbind (Appender_Log env logger level e p w) (log_appenders env logger level e ps)"

text \<open>
  \<open>Logger::Log\<close>. \<open>fuel\<close> bounds the chain of roots; the manager never builds a chain longer than two.
\<close>

fun Logger_Log :: "nat \<Rightarrow> log_env \<Rightarrow> ptr \<Rightarrow> Level \<Rightarrow> log_event \<Rightarrow> log_world \<Rightarrow> log_world res" where
  "Logger_Log 0 env p level e w = Inl (Undefined ''m_root chain'')"
| "Logger_Log (Suc fuel) env p level e w =
     rbind (deref (w_loggers w) p) (\<lambda>l.
       if lg_level l \<le> level then
         if lg_appenders l \<noteq> [] then log_appenders env (lg_name l) level e (lg_appenders l) w
         else Logger_Log fuel env (lg_root l) level e w
       else Inr w)"

definition upd_logger :: "ptr \<Rightarrow> (logger \<Rightarrow> logger) \<Rightarrow> log_world \<Rightarrow> log_world res" where
  "upd_logger p f w =
     rbind (deref (w_loggers w) p) (\<lambda>l. Inr (w\<lparr>w_loggers := (w_loggers w)(p \<mapsto> f l)\<rparr>))"

definition Logger_addAppender :: "ptr \<Rightarrow> ptr \<Rightarrow> log_world \<Rightarrow> log_world res" where
  "Logger_addAppender p ap w =
     rbind (deref (w_loggers w) p) (\<lambda>l.
     rbind (deref (w_appenders w) ap) (\<lambda>a.
       let w = (if ap_formatter a = None
                then w\<lparr>w_appenders := (w_appenders w)(ap \<mapsto> a\<lparr>ap_formatter := lg_formater l\<rparr>)\<rparr> else w)
       in upd_logger p (\<lambda>l. l\<lparr>lg_appenders := lg_appenders l @ [ap]\<rparr>) w))"

definition Logger_delAppender :: "ptr \<Rightarrow> ptr \<Rightarrow> log_world \<Rightarrow> log_world res" where
  "Logger_delAppender p ap = upd_logger p (\<lambda>l. l\<lparr>lg_appenders := remove1 ap (lg_appenders l)\<rparr>)"

definition Logger_clearAppenders :: "ptr \<Rightarrow> log_world \<Rightarrow> log_world res" where
  "Logger_clearAppenders p = upd_logger p (\<lambda>l. l\<lparr>lg_appenders := []\<rparr>)"

definition Logger_setLevel :: "ptr \<Rightarrow> Level \<Rightarrow> log_world \<Rightarrow> log_world res" where
  "Logger_setLevel p level = upd_logger p (\<lambda>l. l\<lparr>lg_level := level\<rparr>)"

fun inherit_formatter :: "log_formatter option \<Rightarrow> ptr list \<Rightarrow> (ptr \<rightharpoonup> appender) \<Rightarrow> (ptr \<rightharpoonup> appender) res" where
  "inherit_formatter val [] h = Inr h"
| "inherit_formatter val (p # ps) h =
     rbind (deref h p) (\<lambda>a.
       inherit_formatter val ps
         (if \<not> ap_hasFormatter a then h(p \<mapsto> a\<lparr>ap_formatter := val\<rparr>) else h))"

definition Logger_setFormatter :: "ptr \<Rightarrow> log_formatter option \<Rightarrow> log_world \<Rightarrow> log_world res" where
  "Logger_setFormatter p val w =
     rbind (deref (w_loggers w) p) (\<lambda>l.
     rbind (inherit_formatter val (lg_appenders l) (w_appenders w)) (\<lambda>h.
       Inr (w\<lparr>w_loggers := (w_loggers w)(p \<mapsto> l\<lparr>lg_formater := val\<rparr>), w_appenders := h\<rparr>)))"

definition Logger_setFormatter_string :: "ptr \<Rightarrow> string \<Rightarrow> log_world \<Rightarrow> log_world res" where
  "Logger_setFormatter_string p val w =
     (let formatter = LogFormatter_ctor val
      in if fm_error formatter then Inr w else Logger_setFormatter p (Some formatter) w)"

subsection \<open>The manager\<close>

definition new_logger :: "logger \<Rightarrow> log_world \<Rightarrow> ptr \<times> log_world" where
  "new_logger l w = (w_next w, w\<lparr>w_loggers := (w_loggers w)(w_next w \<mapsto> l), w_next := Suc (w_next w)\<rparr>)"

definition new_appender :: "appender \<Rightarrow> log_world \<Rightarrow> ptr \<times> log_world" where
  "new_appender a w = (w_next w, w\<lparr>w_appenders := (w_appenders w)(w_next w \<mapsto> a), w_next := Suc (w_next w)\<rparr>)"

definition key_less :: "string \<times> 'a \<Rightarrow> string \<times> 'a \<Rightarrow> bool" where
  "key_less x y \<longleftrightarrow> fst x < fst y"

text \<open>The world before the singleton is built: \<open>files\<close> is what the file system holds.\<close>

definition empty_world :: "(string \<rightharpoonup> string) \<Rightarrow> log_world" where
  "empty_world files =
     \<lparr> w_loggers = Map.empty, w_appenders = Map.empty, w_next = 1, w_stdout = '''', w_files = files,
       m_loggers = [], m_root = nullptr \<rparr>"

definition LoggerManager_ctor :: "log_world \<Rightarrow> log_world res" where
  "LoggerManager_ctor w =
     (let (root, w) = new_logger (Logger_ctor ''root'') w;
          (ap, w) = new_appender stdoutAppender_ctor (w\<lparr>m_root := root\<rparr>)
      in rbind (Logger_addAppender root ap w) (\<lambda>w.
           Inr (w\<lparr>m_loggers := oset_insert key_less (''root'', root) (m_loggers w)\<rparr>)))"

definition getLogger :: "string \<Rightarrow> log_world \<Rightarrow> ptr \<times> log_world" where
  "getLogger name w =
     (case map_of (m_loggers w) name of
        Some p \<Rightarrow> (p, w)
      | None \<Rightarrow>
          let (p, w) = new_logger ((Logger_ctor name)\<lparr>lg_root := m_root w\<rparr>) w
          in (p, w\<lparr>m_loggers := oset_insert key_less (name, p) (m_loggers w)\<rparr>))"

subsection \<open>Logging an event\<close>

definition log_fuel :: nat where
  "log_fuel = 2"

text \<open>The shorthands with a fixed level.\<close>

definition Logger_debug :: "log_env \<Rightarrow> ptr \<Rightarrow> log_event \<Rightarrow> log_world \<Rightarrow> log_world res" where
  "Logger_debug env p e w = Logger_Log log_fuel env p DEBUG e w"

definition Logger_info :: "log_env \<Rightarrow> ptr \<Rightarrow> log_event \<Rightarrow> log_world \<Rightarrow> log_world res" where
  "Logger_info env p e w = Logger_Log log_fuel env p INFO e w"

definition Logger_warn :: "log_env \<Rightarrow> ptr \<Rightarrow> log_event \<Rightarrow> log_world \<Rightarrow> log_world res" where
  "Logger_warn env p e w = Logger_Log log_fuel env p WARN e w"

definition Logger_error :: "log_env \<Rightarrow> ptr \<Rightarrow> log_event \<Rightarrow> log_world \<Rightarrow> log_world res" where
  "Logger_error env p e w = Logger_Log log_fuel env p ERROR e w"

definition Logger_fatal :: "log_env \<Rightarrow> ptr \<Rightarrow> log_event \<Rightarrow> log_world \<Rightarrow> log_world res" where
  "Logger_fatal env p e w = Logger_Log log_fuel env p FATAL e w"

text \<open>\<open>~LogEventWrap\<close> hands the event to its logger.\<close>

definition LogEventWrap_dtor :: "log_env \<Rightarrow> log_event \<Rightarrow> log_world \<Rightarrow> log_world res" where
  "LogEventWrap_dtor env e w = Logger_Log log_fuel env (ev_logger e) (ev_level e) e w"

text \<open>
  \<open>QLC_LOG_LEVEL(logger, level) << txt\<close> at \<open>file:line\<close>, with the thread, the fiber, the time and
  the thread's name as the macro reads them.
\<close>

definition QLC_LOG_LEVEL ::
  "log_env \<Rightarrow> ptr \<Rightarrow> Level \<Rightarrow> string \<Rightarrow> int \<Rightarrow> u32 \<Rightarrow> u32 \<Rightarrow> u64 \<Rightarrow> string \<Rightarrow> string \<Rightarrow> log_world \<Rightarrow> log_world res" where
  "QLC_LOG_LEVEL env logger level file line tid fid time tname txt w =
     rbind (deref (w_loggers w) logger) (\<lambda>l.
       if lg_level l \<le> level then
         let e = LogEvent_ctor logger level file line 0 tid fid time tname
         in LogEventWrap_dtor env (e\<lparr>ev_ss := ev_ss e @ txt\<rparr>) w
       else Inr w)"

text \<open>The same with \<open>LogEvent::format\<close>; \<open>printed\<close> is what \<open>vasprintf\<close> made of the arguments.\<close>

definition QLC_LOG_FMT_LEVEL ::
  "log_env \<Rightarrow> ptr \<Rightarrow> Level \<Rightarrow> string \<Rightarrow> int \<Rightarrow> u32 \<Rightarrow> u32 \<Rightarrow> u64 \<Rightarrow> string \<Rightarrow> string option \<Rightarrow> log_world \<Rightarrow> log_world res" where
  "QLC_LOG_FMT_LEVEL env logger level file line tid fid time tname printed w =
     rbind (deref (w_loggers w) logger) (\<lambda>l.
       if lg_level l \<le> level then
         LogEventWrap_dtor env
           (LogEvent_format printed (LogEvent_ctor logger level file line 0 tid fid time tname)) w
       else Inr w)"

subsection \<open>What logging changes\<close>

text \<open>The part of an appender that logging does not change.\<close>

definition appender_view :: "appender \<Rightarrow> bool \<times> Level \<times> log_formatter option \<times> bool" where
  "appender_view a = (ap_hasFormatter a, ap_level a, ap_formatter a, ap_class a = StdoutAppender)"

definition same_loggers :: "log_world \<Rightarrow> log_world \<Rightarrow> bool" where
  "same_loggers w w' \<longleftrightarrow>
     w_loggers w' = w_loggers w \<and> w_next w' = w_next w \<and> m_loggers w' = m_loggers w \<and> m_root w' = m_root w \<and>
     (\<forall>q. map_option appender_view (w_appenders w' q) = map_option appender_view (w_appenders w q))"

lemma same_loggers_refl [simp]: "same_loggers w w"
  by (simp add: same_loggers_def)

lemma same_loggers_trans: "same_loggers u v \<Longrightarrow> same_loggers v w \<Longrightarrow> same_loggers u w"
  by (simp add: same_loggers_def)

lemma Appender_Log_same: "Appender_Log env n level e p w = Inr w' \<Longrightarrow> same_loggers w w'"
  by (cases "w_appenders w p")
     (auto simp: Appender_Log_def same_loggers_def appender_view_def split: appender_class.splits)

lemma log_appenders_same: "log_appenders env n level e ps w = Inr w' \<Longrightarrow> same_loggers w w'"
  by (induction env n level e ps w rule: log_appenders.induct)
     (auto intro: same_loggers_trans dest: Appender_Log_same)

lemma Logger_Log_same: "Logger_Log fuel env p level e w = Inr w' \<Longrightarrow> same_loggers w w'"
  by (induction fuel env p level e w rule: Logger_Log.induct)
     (auto dest: log_appenders_same split: if_splits)

text \<open>The line an appender writes for an event, and the appenders an event reaches.\<close>

definition appender_line :: "log_env \<Rightarrow> string \<Rightarrow> Level \<Rightarrow> log_event \<Rightarrow> appender \<Rightarrow> string res" where
  "appender_line env n level e a =
     (case ap_formatter a of None \<Rightarrow> Inl (Undefined ''null pointer'')
      | Some fmt \<Rightarrow> LogFormatter_format (env_strf env) n level e fmt)"

definition stdout_text :: "log_env \<Rightarrow> string \<Rightarrow> Level \<Rightarrow> log_event \<Rightarrow> appender option \<Rightarrow> string" where
  "stdout_text env n level e x =
     (case x of None \<Rightarrow> ''''
      | Some a \<Rightarrow> if ap_class a = StdoutAppender \<and> ap_level a \<le> level
                 then projr (appender_line env n level e a) else '''')"

lemma stdout_text_view:
  "map_option appender_view x = map_option appender_view y \<Longrightarrow>
     stdout_text env n level e x = stdout_text env n level e y"
  by (cases x; cases y) (auto simp: appender_view_def stdout_text_def appender_line_def)

lemma Appender_Log_stdout:
  assumes "Appender_Log env n level e p w = Inr w'"
  shows "w_stdout w' = w_stdout w @ stdout_text env n level e (w_appenders w p)"
proof (cases "w_appenders w p")
  case (Some a)
  then show ?thesis
    using assms
    by (auto simp: Appender_Log_def stdout_text_def appender_line_def stdoutAppender_Log_def
        split: appender_class.splits option.splits if_splits)
qed (use assms in \<open>simp add: Appender_Log_def\<close>)

lemma log_appenders_stdout:
  assumes "log_appenders env n level e ps w = Inr w'"
  shows "w_stdout w' = w_stdout w @ concat (map (\<lambda>p. stdout_text env n level e (w_appenders w p)) ps)"
  using assms
proof (induction ps arbitrary: w)
  case (Cons p ps)
  then obtain v where v: "Appender_Log env n level e p w = Inr v" "log_appenders env n level e ps v = Inr w'"
    by auto
  then have "map_option appender_view (w_appenders v q) = map_option appender_view (w_appenders w q)" for q
    using Appender_Log_same by (auto simp: same_loggers_def)
  then have "(\<lambda>q. stdout_text env n level e (w_appenders v q)) = (\<lambda>q. stdout_text env n level e (w_appenders w q))"
    by (intro ext stdout_text_view)
  then show ?case
    using Cons.IH [OF v(2)] Appender_Log_stdout [OF v(1)] by simp
qed simp

subsection \<open>Invariant\<close>

text \<open>
  The store is well formed: the root and the registered loggers exist, every other logger points to
  the root, appenders have formatters once they are attached. \<open>log_inv\<close> adds that the root, on which
  the others fall back, has an appender.
\<close>

definition log_wf :: "log_world \<Rightarrow> bool" where
  "log_wf w \<longleftrightarrow>
     (\<exists>r. w_loggers w (m_root w) = Some r) \<and>
     (\<forall>p l. w_loggers w p = Some l \<longrightarrow>
        p < w_next w \<and> lg_formater l \<noteq> None \<and> p \<noteq> nullptr \<and> lg_root l = (if p = m_root w then nullptr else m_root w) \<and>
        (\<forall>a \<in> set (lg_appenders l). \<exists>x. w_appenders w a = Some x \<and> ap_formatter x \<noteq> None)) \<and>
     (\<forall>a x. w_appenders w a = Some x \<longrightarrow> a < w_next w \<and> (ap_hasFormatter x \<longrightarrow> ap_formatter x \<noteq> None)) \<and>
     (\<forall>(n, p) \<in> set (m_loggers w). \<exists>l. w_loggers w p = Some l \<and> lg_name l = n) \<and>
     map_of (m_loggers w) ''root'' = Some (m_root w)"

lemma log_wfI:
  assumes "\<exists>r. w_loggers w (m_root w) = Some r"
    and "\<And>p l. w_loggers w p = Some l \<Longrightarrow>
        p < w_next w \<and> lg_formater l \<noteq> None \<and> p \<noteq> nullptr \<and> lg_root l = (if p = m_root w then nullptr else m_root w) \<and>
        (\<forall>a \<in> set (lg_appenders l). \<exists>x. w_appenders w a = Some x \<and> ap_formatter x \<noteq> None)"
    and "\<And>a x. w_appenders w a = Some x \<Longrightarrow> a < w_next w \<and> (ap_hasFormatter x \<longrightarrow> ap_formatter x \<noteq> None)"
    and "\<And>n p. (n, p) \<in> set (m_loggers w) \<Longrightarrow> \<exists>l. w_loggers w p = Some l \<and> lg_name l = n"
    and "map_of (m_loggers w) ''root'' = Some (m_root w)"
  shows "log_wf w"
  unfolding log_wf_def using assms by (intro conjI) blast+

lemma log_wf_logger:
  assumes "log_wf w" "w_loggers w p = Some l"
  shows "p < w_next w" "lg_formater l \<noteq> None" "p \<noteq> nullptr" "lg_root l = (if p = m_root w then nullptr else m_root w)"
    "a \<in> set (lg_appenders l) \<Longrightarrow> \<exists>x. w_appenders w a = Some x \<and> ap_formatter x \<noteq> None"
  using assms unfolding log_wf_def by blast+

lemma log_wf_appender:
  assumes "log_wf w" "w_appenders w a = Some x"
  shows "a < w_next w" "ap_hasFormatter x \<Longrightarrow> ap_formatter x \<noteq> None"
  using assms unfolding log_wf_def by blast+

lemma log_wf_root:
  assumes "log_wf w"
  obtains r where "w_loggers w (m_root w) = Some r"
  using assms unfolding log_wf_def by blast

lemma log_wf_table:
  assumes "log_wf w"
  shows "(n, p) \<in> set (m_loggers w) \<Longrightarrow> \<exists>l. w_loggers w p = Some l \<and> lg_name l = n"
    "map_of (m_loggers w) ''root'' = Some (m_root w)"
  using assms unfolding log_wf_def by blast+

lemma same_loggers_inv:
  assumes "log_wf w" "same_loggers w w'"
  shows "log_wf w'"
proof -
  have eq: "w_loggers w' = w_loggers w" "w_next w' = w_next w" "m_loggers w' = m_loggers w" "m_root w' = m_root w"
    and view: "\<And>q. map_option appender_view (w_appenders w' q) = map_option appender_view (w_appenders w q)"
    using assms(2) by (auto simp: same_loggers_def)
  have old: "\<exists>y. w_appenders w a = Some y \<and> ap_formatter x = ap_formatter y \<and> ap_hasFormatter x = ap_hasFormatter y"
    if "w_appenders w' a = Some x" for a x
    using view [of a] that by (cases "w_appenders w a") (auto simp: appender_view_def)
  have new: "\<exists>x. w_appenders w' a = Some x \<and> ap_formatter x = ap_formatter y"
    if "w_appenders w a = Some y" for a y
    using view [of a] that by (auto simp: appender_view_def)
  show ?thesis
  proof (rule log_wfI, goal_cases)
    case 1
    then show ?case using assms(1) by (auto simp: eq elim: log_wf_root)
  next
    case (2 p l)
    then show ?case
      using log_wf_logger [OF assms(1)] new unfolding eq by metis
  next
    case (3 a x)
    then show ?case using log_wf_appender [OF assms(1)] old unfolding eq by metis
  next
    case (4 n p)
    then show ?case using log_wf_table [OF assms(1)] unfolding eq by blast
  next
    case 5
    then show ?case using log_wf_table [OF assms(1)] unfolding eq by blast
  qed
qed

lemma inv_upd_logger:
  assumes "log_wf w" "w_loggers w p = Some l"
    "lg_name l' = lg_name l" "lg_root l' = lg_root l" "lg_formater l' \<noteq> None"
    "\<And>a. a \<in> set (lg_appenders l') \<Longrightarrow> \<exists>x. w_appenders w a = Some x \<and> ap_formatter x \<noteq> None"
  shows "log_wf (w\<lparr>w_loggers := (w_loggers w)(p \<mapsto> l')\<rparr>)"
proof (rule log_wfI, goal_cases)
  case 1
  then show ?case using assms(1) by (auto elim: log_wf_root)
next
  case (2 q k)
  then show ?case
    using log_wf_logger [OF assms(1)] assms by (cases "q = p") auto
next
  case (3 a x)
  then show ?case using log_wf_appender [OF assms(1)] by auto
next
  case (4 n q)
  then show ?case using log_wf_table(1) [OF assms(1), of n q] assms(2,3) by auto
next
  case 5
  then show ?case using log_wf_table(2) [OF assms(1)] by simp
qed

lemma inv_upd_appender:
  assumes "log_wf w" "a < w_next w" "ap_formatter x' \<noteq> None"
  shows "log_wf (w\<lparr>w_appenders := (w_appenders w)(a \<mapsto> x')\<rparr>)"
proof (rule log_wfI, goal_cases)
  case 1
  then show ?case using assms(1) by (auto elim: log_wf_root)
next
  case (2 q k)
  then show ?case using log_wf_logger [OF assms(1)] assms by auto
next
  case (3 b y)
  then show ?case using log_wf_appender [OF assms(1)] assms by (cases "b = a") auto
next
  case (4 n q)
  then show ?case using log_wf_table(1) [OF assms(1), of n q] by auto
next
  case 5
  then show ?case using log_wf_table(2) [OF assms(1)] by simp
qed

lemma inv_new_appender:
  assumes "log_wf w" "ap_hasFormatter a \<Longrightarrow> ap_formatter a \<noteq> None" "new_appender a w = (p, w')"
  shows "log_wf w'" "w_appenders w' p = Some a" "w_loggers w' = w_loggers w" "m_root w' = m_root w"
proof -
  have fresh: "w_appenders w (w_next w) = None"
    using log_wf_appender(1) [OF assms(1), of "w_next w"] by (cases "w_appenders w (w_next w)") auto
  show "w_appenders w' p = Some a" "w_loggers w' = w_loggers w" "m_root w' = m_root w"
    using assms(3) by (auto simp: new_appender_def)
  have w': "w' = w\<lparr>w_appenders := (w_appenders w)(w_next w \<mapsto> a), w_next := Suc (w_next w)\<rparr>"
    using assms(3) by (auto simp: new_appender_def)
  show "log_wf w'"
    unfolding w'
  proof (rule log_wfI, goal_cases)
    case 1
    then show ?case using assms(1) by (auto elim: log_wf_root)
  next
    case (2 q k)
    then have "q < w_next w" "lg_formater k \<noteq> None" "q \<noteq> nullptr"
      "lg_root k = (if q = m_root w then nullptr else m_root w)"
      using log_wf_logger [OF assms(1)] by auto
    moreover have "\<exists>x. ((w_appenders w)(w_next w \<mapsto> a)) b = Some x \<and> ap_formatter x \<noteq> None"
      if "b \<in> set (lg_appenders k)" for b
      using log_wf_logger(5) [OF assms(1), of q k b] 2 that fresh by auto
    ultimately show ?case by auto
  next
    case (3 b y)
    then show ?case
      using log_wf_appender [OF assms(1), of b y] assms(2) by (auto split: if_splits)
  next
    case (4 n q)
    then show ?case using log_wf_table(1) [OF assms(1), of n q] by auto
  next
    case 5
    then show ?case using log_wf_table(2) [OF assms(1)] by simp
  qed
qed

lemma upd_logger_Inr:
  "upd_logger p f w = Inr w' \<longleftrightarrow>
     (\<exists>l. w_loggers w p = Some l \<and> w' = w\<lparr>w_loggers := (w_loggers w)(p \<mapsto> f l)\<rparr>)"
  by (cases "w_loggers w p") (auto simp: upd_logger_def)

lemma map_of_oset_insert:
  assumes "map_of xs k = None"
  shows "map_of (oset_insert key_less (k, v) xs) = (map_of xs)(k \<mapsto> v)"
  using assms by (induction xs) (auto simp: key_less_def fun_eq_iff split: if_splits)

lemma inv_getLogger:
  assumes "log_wf w" "getLogger name w = (p, w')"
  shows "log_wf w'" "\<exists>l. w_loggers w' p = Some l \<and> lg_name l = name"
    "map_of (m_loggers w') name = Some p" "m_root w' = m_root w"
proof -
  have "log_wf w' \<and> (\<exists>l. w_loggers w' p = Some l \<and> lg_name l = name) \<and>
    map_of (m_loggers w') name = Some p \<and> m_root w' = m_root w"
  proof (cases "map_of (m_loggers w) name")
    case (Some q)
    then show ?thesis
      using assms log_wf_table(1) [OF assms(1) map_of_SomeD [OF Some]] by (auto simp: getLogger_def)
  next
    case None
    let ?l = "(Logger_ctor name)\<lparr>lg_root := m_root w\<rparr>"
    have w': "w' = w\<lparr>w_loggers := (w_loggers w)(w_next w \<mapsto> ?l), w_next := Suc (w_next w),
        m_loggers := oset_insert key_less (name, w_next w) (m_loggers w)\<rparr>" and p: "p = w_next w"
      using assms(2) None by (auto simp: getLogger_def new_logger_def)
    have fresh: "q < w_next w" if "w_loggers w q = Some l" for q l
      using log_wf_logger(1) [OF assms(1) that] .
    have tab: "map_of (m_loggers w') = (map_of (m_loggers w))(name \<mapsto> p)"
      using None w' p by (simp add: map_of_oset_insert)
    have "log_wf w'"
    proof (rule log_wfI, goal_cases)
      case 1
      then show ?case
        using assms(1) by (auto simp: w' elim!: log_wf_root dest: fresh)
    next
      case (2 q k)
      have "m_root w < w_next w"
        using log_wf_root [OF assms(1)] log_wf_logger(1) [OF assms(1)] by blast
      with 2 show ?case
        using log_wf_logger [OF assms(1), of q k]
        by (cases "q = w_next w") (auto simp: w' Logger_ctor_def)
    next
      case (3 b y)
      then show ?case
        using log_wf_appender [OF assms(1), of b y] by (auto simp: w')
    next
      case (4 n q)
      then have "(n, q) = (name, p) \<or> (n, q) \<in> set (m_loggers w)"
        using oset_insert_subset [of key_less "(name, p)" "m_loggers w"] w' p by auto
      then show ?case
        using log_wf_table(1) [OF assms(1), of n q] fresh by (auto simp: w' p Logger_ctor_def)
    next
      case 5
      have "name \<noteq> ''root''" using None log_wf_table(2) [OF assms(1)] by auto
      then show ?case using log_wf_table(2) [OF assms(1)] unfolding tab by (simp add: w')
    qed
    then show ?thesis using tab by (auto simp: w' p Logger_ctor_def)
  qed
  then show "log_wf w'" "\<exists>l. w_loggers w' p = Some l \<and> lg_name l = name"
    "map_of (m_loggers w') name = Some p" "m_root w' = m_root w" by auto
qed

lemma inv_addAppender:
  assumes "log_wf w" "Logger_addAppender p ap w = Inr w'"
  shows "log_wf w'" "m_root w' = m_root w" "\<exists>l. w_loggers w' p = Some l \<and> lg_appenders l \<noteq> []"
proof -
  obtain l a where l: "w_loggers w p = Some l" and a: "w_appenders w ap = Some a"
    using assms(2) by (auto simp: Logger_addAppender_def)
  let ?v = "if ap_formatter a = None
    then w\<lparr>w_appenders := (w_appenders w)(ap \<mapsto> a\<lparr>ap_formatter := lg_formater l\<rparr>)\<rparr> else w"
  have v: "log_wf ?v"
    using inv_upd_appender [OF assms(1) log_wf_appender(1) [OF assms(1) a],
        of "a\<lparr>ap_formatter := lg_formater l\<rparr>"] log_wf_logger(2) [OF assms(1) l] assms(1)
    by simp
  have w': "w' = ?v\<lparr>w_loggers := (w_loggers ?v)(p \<mapsto> l\<lparr>lg_appenders := lg_appenders l @ [ap]\<rparr>)\<rparr>"
    using assms(2) l a by (auto simp: Logger_addAppender_def upd_logger_Inr)
  have lv: "w_loggers ?v p = Some l" using l by simp
  have av: "\<exists>x. w_appenders ?v ap = Some x \<and> ap_formatter x \<noteq> None"
    using a log_wf_logger(2) [OF assms(1) l] by auto
  show "log_wf w'"
    unfolding w'
  proof (rule inv_upd_logger [OF v lv], goal_cases)
    case (4 b)
    then show ?case using av log_wf_logger(5) [OF v lv, of b] by auto
  qed (use log_wf_logger(2) [OF v lv] in auto)
  show "m_root w' = m_root w" "\<exists>l. w_loggers w' p = Some l \<and> lg_appenders l \<noteq> []"
    using w' by simp_all
qed

lemma inherit_formatter_Inr:
  assumes "inherit_formatter (Some f) ps h = Inr h'"
  shows "h' q = (case h q of None \<Rightarrow> None
    | Some a \<Rightarrow> Some (if q \<in> set ps \<and> \<not> ap_hasFormatter a then a\<lparr>ap_formatter := Some f\<rparr> else a))"
  using assms
proof (induction ps arbitrary: h)
  case (Cons p ps)
  then obtain a where a: "h p = Some a"
    and rest: "inherit_formatter (Some f) ps
      (if \<not> ap_hasFormatter a then h(p \<mapsto> a\<lparr>ap_formatter := Some f\<rparr>) else h) = Inr h'"
    by (cases "h p") auto
  show ?case
    using Cons.IH [OF rest] a by (cases "q = p") (auto split: option.splits)
qed (auto split: option.splits)

lemma inherit_formatter_total:
  "(\<And>p. p \<in> set ps \<Longrightarrow> h p \<noteq> None) \<Longrightarrow> \<exists>h'. inherit_formatter val ps h = Inr h'"
proof (induction ps arbitrary: h)
  case (Cons p ps)
  then obtain a where a: "h p = Some a" by fastforce
  have "\<exists>h'. inherit_formatter val ps (if \<not> ap_hasFormatter a then h(p \<mapsto> a\<lparr>ap_formatter := val\<rparr>) else h) = Inr h'"
    by (rule Cons.IH) (use Cons.prems in \<open>auto split: if_splits\<close>)
  with a show ?case by (simp del: split_paired_Ex)
qed simp

lemma inv_setFormatter:
  assumes "log_wf w" "Logger_setFormatter p (Some f) w = Inr w'"
  shows "log_wf w'" "m_root w' = m_root w"
proof -
  obtain l where l: "w_loggers w p = Some l"
    using assms(2) by (cases "w_loggers w p") (auto simp: Logger_setFormatter_def)
  then obtain h where h: "inherit_formatter (Some f) (lg_appenders l) (w_appenders w) = Inr h"
    and w': "w' = w\<lparr>w_loggers := (w_loggers w)(p \<mapsto> l\<lparr>lg_formater := Some f\<rparr>), w_appenders := h\<rparr>"
    using assms(2) by (auto simp: Logger_setFormatter_def)
  note hq = inherit_formatter_Inr [OF h]
  have keep: "\<exists>x. h a = Some x \<and> ap_formatter x \<noteq> None"
    if "\<exists>x. w_appenders w a = Some x \<and> ap_formatter x \<noteq> None" for a
    using that by (auto simp: hq)
  show "log_wf w'"
  proof (rule log_wfI, goal_cases)
    case 1
    then show ?case using assms(1) l by (auto simp: w' elim: log_wf_root)
  next
    case (2 q k)
    then show ?case
      using log_wf_logger [OF assms(1)] l keep by (cases "q = p") (auto simp: w')
  next
    case (3 a x)
    then obtain y where "w_appenders w a = Some y" "ap_hasFormatter x = ap_hasFormatter y"
      "ap_formatter x = ap_formatter y \<or> ap_formatter x \<noteq> None"
      by (auto simp: w' hq split: option.splits if_splits)
    then show ?case using log_wf_appender [OF assms(1)] by (auto simp: w')
  next
    case (4 n q)
    then show ?case using log_wf_table(1) [OF assms(1), of n q] l by (auto simp: w')
  next
    case 5
    then show ?case using log_wf_table(2) [OF assms(1)] by (simp add: w')
  qed
  show "m_root w' = m_root w" by (simp add: w')
qed

lemma inv_setLevel:
  assumes "log_wf w" "Logger_setLevel p lv w = Inr w'"
  shows "log_wf w'" "m_root w' = m_root w"
  using assms log_wf_logger [OF assms(1)] log_wf_root [OF assms(1)]
  by (auto simp: Logger_setLevel_def upd_logger_Inr intro!: inv_upd_logger)

lemma inv_delAppender:
  assumes "log_wf w" "Logger_delAppender p ap w = Inr w'"
  shows "log_wf w'"
proof -
  obtain l where l: "w_loggers w p = Some l"
    and w': "w' = w\<lparr>w_loggers := (w_loggers w)(p \<mapsto> l\<lparr>lg_appenders := remove1 ap (lg_appenders l)\<rparr>)\<rparr>"
    using assms(2) by (auto simp: Logger_delAppender_def upd_logger_Inr)
  show ?thesis
    unfolding w'
    by (rule inv_upd_logger [OF assms(1) l])
       (use log_wf_logger [OF assms(1) l] set_remove1_subset [of ap "lg_appenders l"] in auto)
qed

lemma inv_clearAppenders:
  assumes "log_wf w" "Logger_clearAppenders p w = Inr w'"
  shows "log_wf w'" "m_root w' = m_root w"
  using assms log_wf_logger [OF assms(1)]
  by (auto simp: Logger_clearAppenders_def upd_logger_Inr intro!: inv_upd_logger)

definition root_appends :: "log_world \<Rightarrow> bool" where
  "root_appends w \<longleftrightarrow> (\<exists>r. w_loggers w (m_root w) = Some r \<and> lg_appenders r \<noteq> [])"

definition log_inv :: "log_world \<Rightarrow> bool" where
  "log_inv w \<longleftrightarrow> log_wf w \<and> root_appends w"

text \<open>Operations that keep the root's appenders.\<close>

lemma root_appends_ops:
  assumes "root_appends w"
  shows "same_loggers w w' \<Longrightarrow> root_appends w'"
    "log_wf w \<Longrightarrow> getLogger name w = (p, w') \<Longrightarrow> root_appends w'"
    "Logger_setLevel p level w = Inr w' \<Longrightarrow> root_appends w'"
    "new_appender x w = (p, w') \<Longrightarrow> root_appends w'"
    "log_wf w \<Longrightarrow> Logger_addAppender p a w = Inr w' \<Longrightarrow> root_appends w'"
    "p \<noteq> m_root w \<Longrightarrow> Logger_delAppender p a w = Inr w' \<Longrightarrow> root_appends w'"
    "p \<noteq> m_root w \<Longrightarrow> Logger_clearAppenders p w = Inr w' \<Longrightarrow> root_appends w'"
    "Logger_setFormatter p val w = Inr w' \<Longrightarrow> root_appends w'"
proof -
  show "root_appends w'" if "same_loggers w w'"
    using assms that by (simp add: root_appends_def same_loggers_def)
  show "root_appends w'" if "log_wf w" "getLogger name w = (p, w')"
    using assms that log_wf_logger(1) [OF that(1), of "w_next w"]
    by (auto simp: root_appends_def getLogger_def new_logger_def split: option.splits)
  show "root_appends w'" if "log_wf w" "Logger_addAppender p a w = Inr w'"
    using assms that
    by (auto simp: root_appends_def Logger_addAppender_def upd_logger_Inr Let_def split: if_splits)
qed (use assms in \<open>auto simp: root_appends_def Logger_setLevel_def upd_logger_Inr new_appender_def
    Logger_delAppender_def Logger_clearAppenders_def Logger_setFormatter_def\<close>)

lemma inv_LoggerManager_ctor:
  assumes "LoggerManager_ctor (empty_world files) = Inr w"
  shows "log_wf w \<and> root_appends w"
  using assms
  by (auto simp: LoggerManager_ctor_def new_logger_def new_appender_def empty_world_def Logger_addAppender_def
      upd_logger_def Logger_ctor_def stdoutAppender_ctor_def log_wf_def root_appends_def split: if_splits)

subsection \<open>Logging does not fail\<close>

definition strf_fits :: "log_env \<Rightarrow> bool" where
  "strf_fits env \<longleftrightarrow> (\<forall>fmt t. length (env_strf env fmt t) < 64)"

lemma format_items_total:
  "(\<And>fmt t. length (strf fmt t) < 64) \<Longrightarrow> \<exists>s. format_items strf n level e items = Inr s"
proof (induction items)
  case (Cons it items)
  then have "\<exists>s. FormatItem_format strf n level e it = Inr s"
    by (cases it) (simp_all add: strftime64_def)
  with Cons show ?case by auto
qed simp

lemma Appender_Log_total:
  assumes "strf_fits env" "w_appenders w p = Some a" "ap_formatter a \<noteq> None"
  shows "\<exists>w'. Appender_Log env n level e p w = Inr w'"
proof -
  obtain fmt where fmt: "ap_formatter a = Some fmt" using assms(3) by blast
  moreover obtain s where "LogFormatter_format (env_strf env) n level e fmt = Inr s"
    using format_items_total assms(1) unfolding LogFormatter_format_def strf_fits_def by blast
  ultimately show ?thesis
    using assms(2)
    by (cases "ap_class a")
       (auto simp: Appender_Log_def stdoutAppender_Log_def fileAppender_Log_def Let_def split: prod.splits)
qed

lemma log_appenders_total:
  assumes "strf_fits env" "\<And>p. p \<in> set ps \<Longrightarrow> \<exists>a. w_appenders w p = Some a \<and> ap_formatter a \<noteq> None"
  shows "\<exists>w'. log_appenders env n level e ps w = Inr w'"
  using assms(2)
proof (induction ps arbitrary: w)
  case (Cons p ps)
  then obtain v where v: "Appender_Log env n level e p w = Inr v"
    using Appender_Log_total [OF assms(1), of w p] by fastforce
  have "\<exists>a. w_appenders v q = Some a \<and> ap_formatter a \<noteq> None" if "q \<in> set ps" for q
  proof -
    have "map_option appender_view (w_appenders v q) = map_option appender_view (w_appenders w q)"
      using Appender_Log_same [OF v] by (simp add: same_loggers_def)
    then show ?thesis
      using Cons.prems [of q] that by (auto simp: appender_view_def)
  qed
  with Cons.IH [of v] v show ?case by auto
qed simp

text \<open>The name an event is printed under and the appenders it is handed to.\<close>

definition log_targets :: "log_world \<Rightarrow> ptr \<Rightarrow> Level \<Rightarrow> string \<times> ptr list" where
  "log_targets w p level =
     (let l = the (w_loggers w p); r = the (w_loggers w (m_root w))
      in if \<not> lg_level l \<le> level then (lg_name l, [])
         else if lg_appenders l \<noteq> [] then (lg_name l, lg_appenders l)
         else if \<not> lg_level r \<le> level then (lg_name r, []) else (lg_name r, lg_appenders r))"

lemma Logger_Log_delivers:
  assumes "log_inv w" "strf_fits env" "w_loggers w p = Some l"
  shows "\<exists>w'. Logger_Log log_fuel env p level e w = Inr w' \<and> same_loggers w w' \<and>
    w_stdout w' = w_stdout w @
      concat (map (\<lambda>q. stdout_text env (fst (log_targets w p level)) level e (w_appenders w q))
        (snd (log_targets w p level)))"
proof -
  obtain r where r: "w_loggers w (m_root w) = Some r" "lg_appenders r \<noteq> []"
    using assms(1) by (auto simp: log_inv_def root_appends_def)
  have wf: "log_wf w" using assms(1) by (simp add: log_inv_def)
  have run: "\<exists>w'. log_appenders env n level e (lg_appenders k) w = Inr w' \<and> same_loggers w w' \<and>
      w_stdout w' = w_stdout w @ concat (map (\<lambda>q. stdout_text env n level e (w_appenders w q)) (lg_appenders k))"
    if "w_loggers w q = Some k" for n q k
    using log_appenders_total [OF assms(2) log_wf_logger(5) [OF wf that]]
      log_appenders_same log_appenders_stdout by metis
  consider "\<not> lg_level l \<le> level" | "lg_level l \<le> level" "lg_appenders l \<noteq> []"
    | "lg_level l \<le> level" "lg_appenders l = []" by blast
  then show ?thesis
  proof cases
    case 1
    then show ?thesis using assms(3) by (simp add: log_fuel_def numeral_2_eq_2 log_targets_def)
  next
    case 2
    then show ?thesis
      using run [OF assms(3)] assms(3) by (simp add: log_fuel_def numeral_2_eq_2 log_targets_def)
  next
    case 3
    then have "p \<noteq> m_root w" using r assms(3) by auto
    then have "lg_root l = m_root w" using log_wf_logger(4) [OF wf assms(3)] by simp
    then show ?thesis
      using 3 run [OF r(1)] r assms(3)
      by (cases "lg_level r \<le> level") (simp_all add: log_fuel_def numeral_2_eq_2 log_targets_def)
  qed
qed

subsection \<open>Reachable states\<close>

text \<open>
  The operations on the loggers, in any order. Appenders are taken off every logger but the root,
  which the other loggers fall back on.
\<close>

inductive log_reach :: "log_env \<Rightarrow> (string \<rightharpoonup> string) \<Rightarrow> log_world \<Rightarrow> bool" for env files where
  init: "LoggerManager_ctor (empty_world files) = Inr w \<Longrightarrow> log_reach env files w"
| getLogger: "log_reach env files w \<Longrightarrow> getLogger name w = (p, w') \<Longrightarrow> log_reach env files w'"
| setLevel: "log_reach env files w \<Longrightarrow> Logger_setLevel p level w = Inr w' \<Longrightarrow> log_reach env files w'"
| newStdout: "log_reach env files w \<Longrightarrow>
    new_appender (LogAppender_setFormatter fmt (LogAppender_setLevel level stdoutAppender_ctor)) w = (p, w') \<Longrightarrow>
    log_reach env files w'"
| newFile: "log_reach env files w \<Longrightarrow> fileAppender_ctor env name (w_files w) = (a, fs) \<Longrightarrow>
    new_appender (LogAppender_setFormatter fmt (LogAppender_setLevel level a)) (w\<lparr>w_files := fs\<rparr>) = (p, w') \<Longrightarrow>
    log_reach env files w'"
| addAppender: "log_reach env files w \<Longrightarrow> Logger_addAppender p a w = Inr w' \<Longrightarrow> log_reach env files w'"
| delAppender: "log_reach env files w \<Longrightarrow> p \<noteq> m_root w \<Longrightarrow> Logger_delAppender p a w = Inr w' \<Longrightarrow>
    log_reach env files w'"
| clearAppenders: "log_reach env files w \<Longrightarrow> p \<noteq> m_root w \<Longrightarrow> Logger_clearAppenders p w = Inr w' \<Longrightarrow>
    log_reach env files w'"
| setFormatter: "log_reach env files w \<Longrightarrow> Logger_setFormatter_string p pattern w = Inr w' \<Longrightarrow>
    log_reach env files w'"
| log: "log_reach env files w \<Longrightarrow> LogEventWrap_dtor env e w = Inr w' \<Longrightarrow> log_reach env files w'"

lemma same_loggers_files: "same_loggers w (w\<lparr>w_files := fs\<rparr>)"
  by (simp add: same_loggers_def)

lemma setFormatter_has:
  "ap_hasFormatter (LogAppender_setFormatter fmt a) \<Longrightarrow> ap_formatter (LogAppender_setFormatter fmt a) \<noteq> None"
  by (simp add: LogAppender_setFormatter_def)

lemma log_reach_inv: "log_reach env files w \<Longrightarrow> log_inv w"
  unfolding log_inv_def
proof (induction rule: log_reach.induct)
  case (init w)
  then show ?case using inv_LoggerManager_ctor by blast
next
  case (newFile w name a fs fmt level p w')
  note wf = same_loggers_inv [OF _ same_loggers_files] and root = root_appends_ops(1) [OF _ same_loggers_files]
  show ?case
    using newFile inv_new_appender(1) [OF wf setFormatter_has newFile(3)] root_appends_ops(4) [OF root newFile(3)]
    by blast
next
  case (newStdout w fmt level p w')
  then show ?case using inv_new_appender(1) [OF _ setFormatter_has newStdout(2)] root_appends_ops(4) by blast
next
  case (setFormatter w p pattern w')
  then show ?case
    using inv_setFormatter(1) root_appends_ops(8)
    by (auto simp: Logger_setFormatter_string_def Let_def split: if_splits)
next
  case (log w e w')
  then show ?case
    using same_loggers_inv root_appends_ops(1) Logger_Log_same unfolding LogEventWrap_dtor_def by blast
next
  case (getLogger w name p w')
  then show ?case using inv_getLogger(1) root_appends_ops(2) by blast
next
  case (setLevel w p level w')
  then show ?case using inv_setLevel(1) root_appends_ops(3) by blast
next
  case (addAppender w p a w')
  then show ?case using inv_addAppender(1) root_appends_ops(5) by blast
next
  case (delAppender w p a w')
  then show ?case using inv_delAppender root_appends_ops(6) by blast
next
  case (clearAppenders w p w')
  then show ?case using inv_clearAppenders(1) root_appends_ops(7) by blast
qed

subsection \<open>Log files\<close>

text \<open>
  The lines logged through a file appender, and what the file holds: \<open>reopen\<close> truncates it.
\<close>

fun file_log_run ::
  "log_env \<Rightarrow> string \<Rightarrow> Level \<Rightarrow> appender \<Rightarrow> log_event list \<Rightarrow> file_part \<times> (string \<rightharpoonup> string)
     \<Rightarrow> (file_part \<times> (string \<rightharpoonup> string)) res" where
  "file_log_run env n level a [] s = Inr s"
| "file_log_run env n level a (e # es) s =
     rbind (fileAppender_Log env n level e a (fst s) (snd s)) (file_log_run env n level a es)"

fun log_window :: "(u64 \<times> string) list \<Rightarrow> u64 \<times> string \<Rightarrow> u64 \<times> string" where
  "log_window [] s = s"
| "log_window ((t, line) # ls) (last_t, c) =
     log_window ls (if t \<ge> last_t + 3 then (t, line) else (last_t, c @ line))"

definition file_healthy :: "file_part \<Rightarrow> (string \<rightharpoonup> string) \<Rightarrow> string \<Rightarrow> bool" where
  "file_healthy f files c \<longleftrightarrow>
     fs_open (m_filestream f) \<and> \<not> fs_fail (m_filestream f) \<and> files (m_filename f) = Some c \<and>
     fs_pos (m_filestream f) = length c"

lemma write_at_end [simp]: "write_at (length c) s c = c @ s" "write_at 0 s [] = s"
  by (simp_all add: write_at_def)

lemma reopen_healthy:
  assumes "file_healthy f files c" "env_openable env (m_filename f)"
  shows "reopen env f files =
    (f\<lparr>m_filestream := \<lparr> fs_open = True, fs_fail = False, fs_pos = 0 \<rparr>\<rparr>, files(m_filename f \<mapsto> ''''), True)"
  using assms by (simp add: reopen_def fs_close_def fs_open_out_def file_healthy_def)

lemma fileAppender_Log_healthy:
  assumes "file_healthy f files c" "env_openable env (m_filename f)" "env_accepts env (m_filename f)"
    "ap_level a \<le> level" "ap_formatter a = Some fmt"
    "LogFormatter_format (env_strf env) n level e fmt = Inr line"
  shows "\<exists>f' files'. fileAppender_Log env n level e a f files = Inr (f', files') \<and>
    m_filename f' = m_filename f \<and>
    file_healthy f' files' (if ev_time e \<ge> m_lastTime f + 3 then line else c @ line) \<and>
    m_lastTime f' = (if ev_time e \<ge> m_lastTime f + 3 then ev_time e else m_lastTime f) \<and>
    (\<forall>name. name \<noteq> m_filename f \<longrightarrow> files' name = files name)"
proof (cases "ev_time e \<ge> m_lastTime f + 3")
  case True
  then show ?thesis
    using assms reopen_healthy [OF assms(1,2)]
    by (simp add: fileAppender_Log_def fs_write_def file_healthy_def)
next
  case False
  then show ?thesis
    using assms by (simp add: fileAppender_Log_def fs_write_def file_healthy_def)
qed

lemma file_log_window:
  assumes "ap_level a \<le> level" "ap_formatter a = Some fmt" "env_openable env (m_filename f)"
    "env_accepts env (m_filename f)" "file_healthy f files c"
    "\<And>e. e \<in> set es \<Longrightarrow> LogFormatter_format (env_strf env) n level e fmt = Inr (line e)"
  shows "\<exists>f' files'. file_log_run env n level a es (f, files) = Inr (f', files') \<and>
    m_filename f' = m_filename f \<and>
    file_healthy f' files' (snd (log_window (map (\<lambda>e. (ev_time e, line e)) es) (m_lastTime f, c))) \<and>
    (\<forall>name. name \<noteq> m_filename f \<longrightarrow> files' name = files name)"
  using assms(3-)
proof (induction es arbitrary: f files c)
  case Nil
  then show ?case by simp
next
  case (Cons e es)
  have fmt: "LogFormatter_format (env_strf env) n level e fmt = Inr (line e)"
    and fmts: "\<And>e. e \<in> set es \<Longrightarrow> LogFormatter_format (env_strf env) n level e fmt = Inr (line e)"
    using Cons.prems(4) by auto
  obtain f1 files1 where step: "fileAppender_Log env n level e a f files = Inr (f1, files1)"
    and name: "m_filename f1 = m_filename f"
    and h: "file_healthy f1 files1 (if ev_time e \<ge> m_lastTime f + 3 then line e else c @ line e)"
    and t: "m_lastTime f1 = (if ev_time e \<ge> m_lastTime f + 3 then ev_time e else m_lastTime f)"
    and others: "\<forall>name. name \<noteq> m_filename f \<longrightarrow> files1 name = files name"
    using fileAppender_Log_healthy [OF Cons.prems(3,1,2) assms(1,2) fmt] by blast
  show ?case
    using Cons.IH [OF _ _ h fmts] Cons.prems(1,2) name step t others by auto
qed

text \<open>A stream that failed with its file attached is never opened again.\<close>

definition stream_stuck :: "file_part \<Rightarrow> bool" where
  "stream_stuck f \<longleftrightarrow> fs_open (m_filestream f) \<and> fs_fail (m_filestream f)"

lemma file_log_stuck:
  assumes "stream_stuck f" "file_log_run env n level a es (f, files) = Inr (f', files')"
  shows "stream_stuck f' \<and> files' = files"
  using assms
proof (induction es arbitrary: f files)
  case (Cons e es)
  then obtain f1 files1 where step: "fileAppender_Log env n level e a f files = Inr (f1, files1)"
    and rest: "file_log_run env n level a es (f1, files1) = Inr (f', files')" by auto
  have "stream_stuck f1 \<and> files1 = files"
    using step Cons.prems(1)
    by (auto simp: fileAppender_Log_def Let_def reopen_def fs_open_out_def fs_write_def stream_stuck_def
        split: if_splits option.splits)
  with Cons.IH rest show ?case by blast
qed simp

subsection \<open>The line of a new logger\<close>

lemma default_pattern_segments: "default_pattern = print_pattern default_segments"
  by (simp add: default_pattern_def default_segments_def)

lemma default_segments_wf: "wf_segments default_segments"
  by (simp add: default_segments_def s_format_item_def isalpha_def of_char_def)

lemma default_items: "fm_items (LogFormatter_ctor default_pattern) = map segment_item default_segments"
  using tokens_print [OF default_segments_wf, of "[]"] segment_tuple_item [OF default_segments_wf]
  by (simp add: default_pattern_segments LogFormatter_ctor_tokens)

definition tab :: string where
  "tab = [CHR 0x09]"

subsection \<open>Properties\<close>

text \<open>
  What a logger with its initial formatter prints: time, thread id, thread name, fiber id,
  level, logger name, file and line, message, separated by tabs and ended by a newline; the
  behaviour is undefined exactly when the expanded time does not fit into the 64 byte buffer.
\<close>

theorem default_log_line:
  "LogFormatter_format strf name level e (LogFormatter_ctor default_pattern) =
    (let d = strf ''%Y-%m-%d %H:%M:%S'' (ev_time e)
     in if length d < 64
        then Inr (d @ tab @ show_nat (unat (ev_threadId e)) @ tab @ ev_threadName e @ tab @
          show_nat (unat (ev_fiberId e)) @ tab @ ''['' @ LogLevel_ToString level @ '']'' @ tab @
          ''['' @ name @ '']'' @ tab @ ev_file e @ '':'' @ show_int (ev_line e) @ tab @ ev_ss e @ [CHR 0x0A])
        else Inl (Undefined ''strftime buffer''))"
  by (simp add: LogFormatter_format_def default_items default_segments_def s_format_item_def
      DataTimeFormatItem_ctor_def strftime64_def tab_def c_str_def Let_def)


definition demo_env :: log_env where
  "demo_env = \<lparr> env_strf = \<lambda>_ _. ''12:00'', env_openable = \<lambda>_. True, env_accepts = \<lambda>_. True \<rparr>"

definition demo_world :: log_world where
  "demo_world = projr (LoggerManager_ctor (empty_world Map.empty))"

definition demo_event :: "u64 \<Rightarrow> log_event" where
  "demo_event t = (LogEvent_ctor 1 INFO ''a.cc'' 7 0 1 0 t ''main'')\<lparr>ev_ss := ''hello''\<rparr>"

lemma demo_world_ctor: "LoggerManager_ctor (empty_world Map.empty) = Inr demo_world"
  by (simp add: demo_world_def LoggerManager_ctor_def new_logger_def new_appender_def empty_world_def
      Logger_addAppender_def upd_logger_def Logger_ctor_def stdoutAppender_ctor_def deref_def)

lemma demo_world_root: "\<exists>l. w_loggers demo_world 1 = Some l"
  by (simp add: demo_world_def LoggerManager_ctor_def new_logger_def new_appender_def empty_world_def
      Logger_addAppender_def upd_logger_def Logger_ctor_def stdoutAppender_ctor_def deref_def)


text \<open>
  What a log file holds. Events that pass the level test are appended, but an event three
  seconds or more after the last reopening first truncates the file: it holds the lines logged
  since then and nothing older. Other files are not touched.
\<close>

theorem file_appender_keeps_window:
  assumes "ap_level a \<le> level" "ap_formatter a = Some fmt" "env_openable env (m_filename f)"
    "env_accepts env (m_filename f)" "file_healthy f files c"
    "\<And>e. e \<in> set es \<Longrightarrow> LogFormatter_format (env_strf env) n level e fmt = Inr (line e)"
  shows "\<exists>f' files'. file_log_run env n level a es (f, files) = Inr (f', files') \<and>
    m_filename f' = m_filename f \<and>
    file_healthy f' files' (snd (log_window (map (\<lambda>e. (ev_time e, line e)) es) (m_lastTime f, c))) \<and>
    (\<forall>name. name \<noteq> m_filename f \<longrightarrow> files' name = files name)"
  by (rule file_log_window [OF assms])

text \<open>The appender \<open>%m\<close> on a new file, and two events ten seconds apart: the first is lost.\<close>

definition demo_file :: file_part where
  "demo_file = \<lparr> m_filename = ''log.txt'',
     m_filestream = \<lparr> fs_open = True, fs_fail = False, fs_pos = 0 \<rparr>, m_lastTime = 0 \<rparr>"

definition demo_appender :: appender where
  "demo_appender = \<lparr> ap_hasFormatter = True, ap_level = DEBUG, ap_formatter = Some
     \<lparr> fm_pattern = ''%m'', fm_error = False, fm_items = [MessageFormatItem] \<rparr>, ap_class = FileAppender demo_file \<rparr>"

theorem file_appender_keeps_window_witness:
  "\<exists>f' files'. file_log_run demo_env ''root'' INFO demo_appender [demo_event 100, demo_event 110]
      (demo_file, [''log.txt'' \<mapsto> '''']) = Inr (f', files') \<and> files' ''log.txt'' = Some ''hello''"
proof -
  have "\<exists>f' files'. file_log_run demo_env ''root'' INFO demo_appender [demo_event 100, demo_event 110]
      (demo_file, [''log.txt'' \<mapsto> '''']) = Inr (f', files') \<and>
    m_filename f' = m_filename demo_file \<and>
    file_healthy f' files' (snd (log_window
      (map (\<lambda>e. (ev_time e, ''hello'')) [demo_event 100, demo_event 110]) (m_lastTime demo_file, ''''))) \<and>
    (\<forall>name. name \<noteq> m_filename demo_file \<longrightarrow> files' name = [''log.txt'' \<mapsto> ''''] name)"
    by (rule file_appender_keeps_window)
       (auto simp: demo_appender_def demo_env_def demo_file_def file_healthy_def LogFormatter_format_def
          demo_event_def LogEvent_ctor_def level_order)
  then show ?thesis
    by (auto simp: demo_event_def LogEvent_ctor_def demo_file_def file_healthy_def)
qed

text \<open>
  An appender whose stream failed while its file was attached (a full device, say) is lost:
  \<open>reopen\<close> closes only a stream in good state and \<open>open\<close> refuses an attached one, so no later
  event reaches the file, whatever the device does.
\<close>

theorem file_appender_never_recovers:
  assumes "file_healthy f files c" "\<not> env_accepts env (m_filename f)"
    "fileAppender_Log env n level e a f files = Inr (f1, files1)" "ap_level a \<le> level"
    "ev_time e < m_lastTime f + 3"
    "file_log_run env' n' level' a es (f1, files1) = Inr (f2, files2)"
  shows "stream_stuck f2 \<and> files2 = files"
proof -
  have "stream_stuck f1 \<and> files1 = files"
    using assms(1-5)
    by (auto simp: fileAppender_Log_def fs_write_def file_healthy_def stream_stuck_def not_le [symmetric]
        split: option.splits)
  then show ?thesis using file_log_stuck assms(6) by blast
qed

theorem file_appender_never_recovers_witness:
  "\<exists>f1 f2 files2.
    fileAppender_Log (demo_env\<lparr>env_accepts := \<lambda>_. False\<rparr>) ''root'' INFO (demo_event 2) demo_appender demo_file
      [''log.txt'' \<mapsto> ''''] = Inr (f1, [''log.txt'' \<mapsto> '''']) \<and>
    file_log_run demo_env ''root'' INFO demo_appender [demo_event 100] (f1, [''log.txt'' \<mapsto> '''']) = Inr (f2, files2) \<and>
    files2 ''log.txt'' = Some ''''"
proof -
  let ?f1 = "demo_file\<lparr>m_filestream := \<lparr> fs_open = True, fs_fail = True, fs_pos = 0 \<rparr>\<rparr>"
  let ?f2 = "?f1\<lparr>m_lastTime := 100\<rparr>"
  note defs = demo_appender_def demo_env_def demo_file_def demo_event_def LogEvent_ctor_def level_order
    fileAppender_Log_def LogFormatter_format_def fs_write_def reopen_def fs_open_out_def
  have log: "fileAppender_Log (demo_env\<lparr>env_accepts := \<lambda>_. False\<rparr>) ''root'' INFO (demo_event 2) demo_appender
      demo_file [''log.txt'' \<mapsto> ''''] = Inr (?f1, [''log.txt'' \<mapsto> ''''])"
    by (simp add: defs)
  have run: "file_log_run demo_env ''root'' INFO demo_appender [demo_event 100]
      (?f1, [''log.txt'' \<mapsto> '''']) = Inr (?f2, [''log.txt'' \<mapsto> ''''])"
    by (simp add: defs)
  have "stream_stuck ?f2"
    by (rule file_appender_never_recovers [OF _ _ log _ _ run, where c = "''''", THEN conjunct1])
       (simp_all add: defs file_healthy_def)
  with log run show ?thesis by fastforce
qed

end
