(* ===== verification/Yaml.thy ===== *)
theory Yaml
  imports Text
begin

section \<open>YAML nodes\<close>

text \<open>
  The configuration is read and written through the yaml-cpp library. Its data model is a tree of
  null, scalar, sequence and map nodes; the reader, the writer and the accessors that can throw are
  parameters, collected in a record, with the laws the sources rely on. A map node lists its pairs in
  document order, a key by the text \<open>Scalar()\<close> gives.
\<close>

datatype yaml = YNull | YScalar string | YSeq "yaml list" | YMap "(string \<times> yaml) list"

text \<open>
  \<open>YAML::Load\<close>, \<open>operator<<\<close>, \<open>n[key]\<close> with \<open>IsDefined()\<close>, the elements by \<open>size()\<close> and \<open>n[i]\<close>,
  and \<open>as<std::string>()\<close>.
\<close>

record yaml_api =
  yl_load :: "string \<Rightarrow> yaml res"
  yl_emit :: "yaml \<Rightarrow> string"
  yl_sub :: "yaml \<Rightarrow> string \<Rightarrow> yaml option res"
  yl_elems :: "yaml \<Rightarrow> yaml list"
  yl_as_string :: "yaml \<Rightarrow> string res"

definition yaml_laws :: "yaml_api \<Rightarrow> bool" where
  "yaml_laws api \<longleftrightarrow>
     (\<forall>kvs k. yl_sub api (YMap kvs) k = Inr (map_of kvs k)) \<and>
     (\<forall>ns. yl_elems api (YSeq ns) = ns) \<and>
     (\<forall>s. yl_as_string api (YScalar s) = Inr s)"

text \<open>A node that is read back as it was written.\<close>

definition yaml_reads_back :: "yaml_api \<Rightarrow> yaml \<Rightarrow> bool" where
  "yaml_reads_back api n \<longleftrightarrow> yl_load api (yl_emit api n) = Inr n"

lemma yaml_laws_simps:
  assumes "yaml_laws api"
  shows "yl_sub api (YMap kvs) k = Inr (map_of kvs k)" "yl_elems api (YSeq ns) = ns"
    "yl_as_string api (YScalar s) = Inr s"
  using assms by (simp_all add: yaml_laws_def)

text \<open>\<open>node[key] = v\<close> on a map under construction.\<close>

fun yaml_set :: "string \<Rightarrow> yaml \<Rightarrow> (string \<times> yaml) list \<Rightarrow> (string \<times> yaml) list" where
  "yaml_set k v [] = [(k, v)]"
| "yaml_set k v ((k', v') # kvs) = (if k = k' then (k, v) # kvs else (k', v') # yaml_set k v kvs)"

lemma map_of_yaml_set [simp]: "map_of (yaml_set k v kvs) = (map_of kvs)(k \<mapsto> v)"
  by (induction kvs) auto

text \<open>A table of the documents a concrete run needs, for the witnesses.\<close>

definition table_api :: "(string \<times> yaml) list \<Rightarrow> yaml_api" where
  "table_api docs =
     \<lparr> yl_load = (\<lambda>s. case map_of docs s of None \<Rightarrow> Inl (Std_exception ''parse error'') | Some n \<Rightarrow> Inr n),
       yl_emit = (\<lambda>n. case map_of (map (\<lambda>(s, n). (n, s)) docs) n of None \<Rightarrow> '''' | Some s \<Rightarrow> s),
       yl_sub = (\<lambda>n k. case n of YMap kvs \<Rightarrow> Inr (map_of kvs k) | _ \<Rightarrow> Inr None),
       yl_elems = (\<lambda>n. case n of YSeq ns \<Rightarrow> ns | _ \<Rightarrow> []),
       yl_as_string = (\<lambda>n. case n of YScalar s \<Rightarrow> Inr s | _ \<Rightarrow> Inl (Std_exception ''bad conversion'')) \<rparr>"

lemma table_api_laws [simp]: "yaml_laws (table_api docs)"
  by (simp add: yaml_laws_def table_api_def)

text \<open>A loop that applies a conversion which may throw to every element.\<close>

fun map_res :: "('a \<Rightarrow> 'b res) \<Rightarrow> 'a list \<Rightarrow> 'b list res" where
  "map_res f [] = Inr []"
| "map_res f (x # xs) = rbind (f x) (\<lambda>y. rbind (map_res f xs) (\<lambda>ys. Inr (y # ys)))"

lemma map_res_Inr: "(\<And>x. x \<in> set xs \<Longrightarrow> f x = Inr (g x)) \<Longrightarrow> map_res f xs = Inr (map g xs)"
  by (induction xs) auto

lemma map_res_back: "(\<And>x. x \<in> set xs \<Longrightarrow> f (g x) = Inr x) \<Longrightarrow> map_res f (map g xs) = Inr xs"
  by (induction xs) auto

lemma map_res_map:
  "(\<And>x. x \<in> set xs \<Longrightarrow> f (g x) = Inr (h x)) \<Longrightarrow> map_res f (map g xs) = Inr (map h xs)"
  by (induction xs) auto

lemma map_res_length: "map_res f xs = Inr ys \<Longrightarrow> length ys = length xs"
  by (induction xs arbitrary: ys) auto

end
