(* ===== verification/Config.thy ===== *)
theory Config
  imports Yaml "HOL-Library.Char_ord" "HOL-Library.List_Lexorder"
begin

section \<open>Configuration variables\<close>

text \<open>
  \<open>config.h\<close> and \<open>config.cpp\<close>: the conversions between values and YAML text, a configuration
  variable with its change listeners, and the registry \<open>Config\<close> with \<open>Lookup\<close>, \<open>LookupBase\<close>,
  \<open>Visit\<close> and \<open>LoadFromYaml\<close>. The log lines of the error branches are left out.
\<close>

subsection \<open>Conversions\<close>

text \<open>
  \<open>LexicalCast\<close> for the containers, over the conversion of the elements. The conversions of the
  scalar types are \<open>boost::lexical_cast\<close>, a parameter.
\<close>

definition Cast_vector_from :: "yaml_api \<Rightarrow> (string \<Rightarrow> 'a res) \<Rightarrow> string \<Rightarrow> 'a list res" where
  "Cast_vector_from api from v =
     rbind (yl_load api v) (\<lambda>node. map_res (\<lambda>n. from (yl_emit api n)) (yl_elems api node))"

definition Cast_vector_to :: "yaml_api \<Rightarrow> ('a \<Rightarrow> string res) \<Rightarrow> 'a list \<Rightarrow> string res" where
  "Cast_vector_to api to v =
     rbind (map_res (\<lambda>i. rbind (to i) (yl_load api)) v) (\<lambda>ns. Inr (yl_emit api (YSeq ns)))"

definition Cast_list_from :: "yaml_api \<Rightarrow> (string \<Rightarrow> 'a res) \<Rightarrow> string \<Rightarrow> 'a list res" where
  "Cast_list_from api from v =
     rbind (yl_load api v) (\<lambda>node. map_res (\<lambda>n. from (yl_emit api n)) (yl_elems api node))"

definition Cast_list_to :: "yaml_api \<Rightarrow> ('a \<Rightarrow> string res) \<Rightarrow> 'a list \<Rightarrow> string res" where
  "Cast_list_to api to v =
     rbind (map_res (\<lambda>i. rbind (to i) (yl_load api)) v) (\<lambda>ns. Inr (yl_emit api (YSeq ns)))"

text \<open>\<open>std::set\<close> under the element's \<open>operator<\<close>, as the list in iteration order.\<close>

definition Cast_set_from :: "yaml_api \<Rightarrow> ('a \<Rightarrow> 'a \<Rightarrow> bool) \<Rightarrow> (string \<Rightarrow> 'a res) \<Rightarrow> string \<Rightarrow> 'a list res" where
  "Cast_set_from api lt from v =
     rbind (yl_load api v) (\<lambda>node.
     rbind (map_res (\<lambda>n. from (yl_emit api n)) (yl_elems api node)) (\<lambda>xs.
       Inr (fold (oset_insert lt) xs [])))"

definition Cast_set_to :: "yaml_api \<Rightarrow> ('a \<Rightarrow> string res) \<Rightarrow> 'a list \<Rightarrow> string res" where
  "Cast_set_to api to v =
     rbind (map_res (\<lambda>i. rbind (to i) (yl_load api)) v) (\<lambda>ns. Inr (yl_emit api (YSeq ns)))"

text \<open>\<open>std::unordered_set\<close>: \<open>v\<close> lists the elements in the order of the iteration.\<close>

definition Cast_unordered_set_from :: "yaml_api \<Rightarrow> (string \<Rightarrow> 'a res) \<Rightarrow> string \<Rightarrow> 'a set res" where
  "Cast_unordered_set_from api from v =
     rbind (yl_load api v) (\<lambda>node.
     rbind (map_res (\<lambda>n. from (yl_emit api n)) (yl_elems api node)) (\<lambda>xs. Inr (set xs)))"

definition Cast_unordered_set_to :: "yaml_api \<Rightarrow> ('a \<Rightarrow> string res) \<Rightarrow> 'a list \<Rightarrow> string res" where
  "Cast_unordered_set_to api to v =
     rbind (map_res (\<lambda>i. rbind (to i) (yl_load api)) v) (\<lambda>ns. Inr (yl_emit api (YSeq ns)))"

text \<open>\<open>std::map<std::string, T>\<close> in key order; \<open>pairs\<close> iterates over a map node, and \<open>insert\<close> keeps
  the first value of a key.\<close>

definition yaml_pairs :: "yaml \<Rightarrow> (string \<times> yaml) list" where
  "yaml_pairs n = (case n of YMap kvs \<Rightarrow> kvs | _ \<Rightarrow> [])"

definition pair_less :: "string \<times> 'a \<Rightarrow> string \<times> 'a \<Rightarrow> bool" where
  "pair_less x y \<longleftrightarrow> fst x < fst y"

definition Cast_map_from :: "yaml_api \<Rightarrow> (string \<Rightarrow> 'a res) \<Rightarrow> string \<Rightarrow> (string \<times> 'a) list res" where
  "Cast_map_from api from v =
     rbind (yl_load api v) (\<lambda>node.
     rbind (map_res (\<lambda>(k, n). rbind (from (yl_emit api n)) (\<lambda>x. Inr (k, x))) (yaml_pairs node)) (\<lambda>kvs.
       Inr (fold (oset_insert pair_less) kvs [])))"

definition Cast_map_to :: "yaml_api \<Rightarrow> ('a \<Rightarrow> string res) \<Rightarrow> (string \<times> 'a) list \<Rightarrow> string res" where
  "Cast_map_to api to v =
     rbind (map_res (\<lambda>(k, x). rbind (to x) (\<lambda>s. rbind (yl_load api s) (\<lambda>n. Inr (k, n)))) v) (\<lambda>kvs.
       Inr (yl_emit api (YMap (fold (\<lambda>(k, n). yaml_set k n) kvs []))))"

subsection \<open>Variables\<close>

text \<open>
  A listener changes the program's state \<open>'w\<close>; it may throw, and \<open>Inl\<close> is an abort or undefined
  behaviour. \<open>cv_type\<close> stands for the template argument, \<open>cv_eq\<close>, \<open>cv_from\<close>, \<open>cv_to\<close> for its
  \<open>operator==\<close> and the two conversions.
\<close>

type_synonym ('v, 'w) listener = "'v \<Rightarrow> 'v \<Rightarrow> 'w \<Rightarrow> ('w \<times> error option) res"

record ('v, 'w) config_var =
  cv_name :: string
  cv_description :: string
  cv_val :: 'v
  cv_cbs :: "(u64 \<times> ('v, 'w) listener) list"
  cv_type :: nat
  cv_eq :: "'v \<Rightarrow> 'v \<Rightarrow> bool"
  cv_from :: "string \<Rightarrow> 'v res"
  cv_to :: "'v \<Rightarrow> string res"

text \<open>What the template argument provides.\<close>

record 'v config_type =
  ct_type :: nat
  ct_eq :: "'v \<Rightarrow> 'v \<Rightarrow> bool"
  ct_from :: "string \<Rightarrow> 'v res"
  ct_to :: "'v \<Rightarrow> string res"

definition ConfigVar_ctor :: "'v config_type \<Rightarrow> string \<Rightarrow> 'v \<Rightarrow> string \<Rightarrow> ('v, 'w) config_var" where
  "ConfigVar_ctor ty name default_value description =
     \<lparr> cv_name = map to_lower name, cv_description = description, cv_val = default_value, cv_cbs = [],
       cv_type = ct_type ty, cv_eq = ct_eq ty, cv_from = ct_from ty, cv_to = ct_to ty \<rparr>"

text \<open>\<open>catch(std::exception&)\<close> catches the exceptions, not an abort.\<close>

fun catchable :: "error \<Rightarrow> bool" where
  "catchable (Assertion _) = False"
| "catchable (Undefined _) = False"
| "catchable _ = True"

definition ConfigVar_toString :: "('v, 'w) config_var \<Rightarrow> string res" where
  "ConfigVar_toString cv =
     (case cv_to cv (cv_val cv) of
        Inr s \<Rightarrow> Inr s
      | Inl e \<Rightarrow> if catchable e then Inr '''' else Inl e)"

text \<open>The listeners in key order; the first exception ends the loop.\<close>

fun run_listeners :: "(u64 \<times> ('v, 'w) listener) list \<Rightarrow> 'v \<Rightarrow> 'v \<Rightarrow> 'w \<Rightarrow> ('w \<times> error option) res" where
  "run_listeners [] old new w = Inr (w, None)"
| "run_listeners ((_, cb) # cbs) old new w =
     rbind (cb old new w) (\<lambda>(w, exn).
       case exn of Some e \<Rightarrow> Inr (w, Some e) | None \<Rightarrow> run_listeners cbs old new w)"

definition ConfigVar_setValue ::
  "'v \<Rightarrow> ('v, 'w) config_var \<times> 'w \<Rightarrow> (('v, 'w) config_var \<times> 'w \<times> error option) res" where
  "ConfigVar_setValue v = (\<lambda>(cv, w).
     if cv_eq cv (cv_val cv) v then Inr (cv, w, None)
     else rbind (run_listeners (cv_cbs cv) (cv_val cv) v w) (\<lambda>(w, exn).
       case exn of Some e \<Rightarrow> Inr (cv, w, Some e) | None \<Rightarrow> Inr (cv\<lparr>cv_val := v\<rparr>, w, None)))"

definition ConfigVar_fromString ::
  "string \<Rightarrow> ('v, 'w) config_var \<times> 'w \<Rightarrow> (('v, 'w) config_var \<times> 'w \<times> bool) res" where
  "ConfigVar_fromString val = (\<lambda>(cv, w).
     case cv_from cv val of
       Inl e \<Rightarrow> if catchable e then Inr (cv, w, False) else Inl e
     | Inr v \<Rightarrow>
         rbind (ConfigVar_setValue v (cv, w)) (\<lambda>(cv, w, exn).
           case exn of None \<Rightarrow> Inr (cv, w, False)
           | Some e \<Rightarrow> if catchable e then Inr (cv, w, False) else Inl e))"

text \<open>\<open>m_cbs[id] = cb\<close>, \<open>erase\<close> and \<open>find\<close> on the map of listeners. \<open>s_fun_id\<close> is the static
  counter of the variable's type.\<close>

fun cbs_update :: "u64 \<Rightarrow> 'a \<Rightarrow> (u64 \<times> 'a) list \<Rightarrow> (u64 \<times> 'a) list" where
  "cbs_update k v [] = [(k, v)]"
| "cbs_update k v ((k', v') # kvs) =
     (if k < k' then (k, v) # (k', v') # kvs
      else if k = k' then (k, v) # kvs else (k', v') # cbs_update k v kvs)"

definition ConfigVar_addListener ::
  "('v, 'w) listener \<Rightarrow> u64 \<Rightarrow> ('v, 'w) config_var \<Rightarrow> u64 \<times> ('v, 'w) config_var \<times> u64" where
  "ConfigVar_addListener cb s_fun_id cv =
     (let s_fun_id = s_fun_id + 1
      in (s_fun_id, cv\<lparr>cv_cbs := cbs_update s_fun_id cb (cv_cbs cv)\<rparr>, s_fun_id))"

definition ConfigVar_delListener :: "u64 \<Rightarrow> ('v, 'w) config_var \<Rightarrow> ('v, 'w) config_var" where
  "ConfigVar_delListener key cv = cv\<lparr>cv_cbs := filter (\<lambda>(k, _). k \<noteq> key) (cv_cbs cv)\<rparr>"

definition ConfigVar_getListener :: "u64 \<Rightarrow> ('v, 'w) config_var \<Rightarrow> ('v, 'w) listener option" where
  "ConfigVar_getListener key cv = map_of (cv_cbs cv) key"

definition ConfigVar_clearListener :: "('v, 'w) config_var \<Rightarrow> ('v, 'w) config_var" where
  "ConfigVar_clearListener cv = cv\<lparr>cv_cbs := []\<rparr>"

subsection \<open>The registry\<close>

type_synonym ('v, 'w) config_map = "string \<rightharpoonup> ('v, 'w) config_var"

definition name_chars :: string where
  "name_chars = ''abcdefghikjlmnopqrstuvwxyz._012345678''"

definition valid_name :: "string \<Rightarrow> bool" where
  "valid_name name = list_all (\<lambda>c. c \<in> set name_chars) name"

text \<open>\<open>Lookup\<close> with a default. The result is the variable's key, \<open>None\<close> for a null pointer.\<close>

definition Config_Lookup ::
  "'v config_type \<Rightarrow> string \<Rightarrow> 'v \<Rightarrow> string \<Rightarrow> ('v, 'w) config_map
     \<Rightarrow> (('v, 'w) config_map \<times> string option) res" where
  "Config_Lookup ty name default_value description s_datas =
     (case s_datas name of
        Some v \<Rightarrow> if cv_type v = ct_type ty then Inr (s_datas, Some name) else Inr (s_datas, None)
      | None \<Rightarrow>
          if \<not> valid_name name then Inl (Invalid_argument name)
          else Inr (s_datas(name \<mapsto> ConfigVar_ctor ty name default_value description), Some name))"

definition Config_Lookup_typed :: "nat \<Rightarrow> string \<Rightarrow> ('v, 'w) config_map \<Rightarrow> string option" where
  "Config_Lookup_typed ty name s_datas =
     (case s_datas name of None \<Rightarrow> None | Some v \<Rightarrow> if cv_type v = ty then Some name else None)"

definition Config_LookupBase :: "string \<Rightarrow> ('v, 'w) config_map \<Rightarrow> string option" where
  "Config_LookupBase name s_datas = (if s_datas name = None then None else Some name)"

text \<open>\<open>order\<close> lists the keys in the order the hash map is iterated.\<close>

fun Config_Visit ::
  "(('v, 'w) config_var \<Rightarrow> 'x \<Rightarrow> 'x) \<Rightarrow> string list \<Rightarrow> ('v, 'w) config_map \<Rightarrow> 'x \<Rightarrow> 'x" where
  "Config_Visit cb [] s_datas x = x"
| "Config_Visit cb (k # order) s_datas x =
     Config_Visit cb order s_datas (case s_datas k of None \<Rightarrow> x | Some v \<Rightarrow> cb v x)"

text \<open>\<open>ListAllMember\<close>: the nodes below a node with the dotted path that leads to each.\<close>

definition member_path :: "string \<Rightarrow> string \<Rightarrow> string" where
  "member_path prefix key = (if prefix = [] then key else prefix @ ''.'' @ key)"

lemma size_map_child: "(k, n) \<in> set kvs \<Longrightarrow> size n < size (YMap kvs)"
  by (induction kvs) auto

function ListAllMember :: "string \<Rightarrow> yaml \<Rightarrow> (string \<times> yaml) list" where
  "ListAllMember prefix node =
     (if \<not> valid_name prefix then []
      else (prefix, node) #
        (case node of
           YMap kvs \<Rightarrow> concat (map (\<lambda>(k, n). ListAllMember (member_path prefix k) n) kvs)
         | _ \<Rightarrow> []))"
  by pat_completeness auto

termination
  by (relation "measure (\<lambda>(_, n). size n)") (auto dest: size_map_child)

declare ListAllMember.simps [simp del]

definition LoadFromYaml_one ::
  "yaml_api \<Rightarrow> string \<times> yaml \<Rightarrow> ('v, 'w) config_map \<times> 'w \<Rightarrow> (('v, 'w) config_map \<times> 'w) res" where
  "LoadFromYaml_one api = (\<lambda>(key, node) (s_datas, w).
     if key = [] then Inr (s_datas, w)
     else case s_datas key of
       None \<Rightarrow> Inr (s_datas, w)
     | Some v \<Rightarrow>
         rbind (ConfigVar_fromString (case node of YScalar s \<Rightarrow> s | _ \<Rightarrow> yl_emit api node) (v, w))
           (\<lambda>(v, w, _). Inr (s_datas(key \<mapsto> v), w)))"

fun LoadFromYaml_loop ::
  "yaml_api \<Rightarrow> (string \<times> yaml) list \<Rightarrow> ('v, 'w) config_map \<times> 'w \<Rightarrow> (('v, 'w) config_map \<times> 'w) res" where
  "LoadFromYaml_loop api [] s = Inr s"
| "LoadFromYaml_loop api (x # xs) s = rbind (LoadFromYaml_one api x s) (LoadFromYaml_loop api xs)"

definition LoadFromYaml ::
  "yaml_api \<Rightarrow> yaml \<Rightarrow> ('v, 'w) config_map \<times> 'w \<Rightarrow> (('v, 'w) config_map \<times> 'w) res" where
  "LoadFromYaml api root s = LoadFromYaml_loop api (ListAllMember '''' root) s"

subsection \<open>Container conversions\<close>

text \<open>
  An element survives the way through a document: its text parses to \<open>node x\<close>, and the text of that
  node converts back.
\<close>

definition element_reads_back ::
  "yaml_api \<Rightarrow> (string \<Rightarrow> 'a res) \<Rightarrow> ('a \<Rightarrow> string res) \<Rightarrow> ('a \<Rightarrow> yaml) \<Rightarrow> 'a \<Rightarrow> bool" where
  "element_reads_back api from to node x \<longleftrightarrow>
     (\<exists>t. to x = Inr t \<and> yl_load api t = Inr (node x)) \<and> from (yl_emit api (node x)) = Inr x"

lemma map_res_elements:
  assumes "\<And>x. x \<in> set xs \<Longrightarrow> element_reads_back api from to node x"
  shows "map_res (\<lambda>i. rbind (to i) (yl_load api)) xs = Inr (map node xs)"
    and "map_res (\<lambda>n. from (yl_emit api n)) (map node xs) = Inr xs"
  using assms by (induction xs) (auto simp: element_reads_back_def)

lemma sequence_reads_back:
  assumes "yaml_laws api" "yaml_reads_back api (YSeq (map node xs))"
    "\<And>x. x \<in> set xs \<Longrightarrow> element_reads_back api from to node x"
  shows "rbind (Cast_vector_to api to xs) (Cast_vector_from api from) = Inr xs"
  using map_res_elements [OF assms(3)] assms(1,2)
  by (simp add: Cast_vector_to_def Cast_vector_from_def yaml_reads_back_def yaml_laws_simps)

lemma oset_insert_last:
  assumes "comparator lt" "\<And>y. y \<in> set xs \<Longrightarrow> lt y x"
  shows "oset_insert lt x xs = xs @ [x]"
  using assms(2) by (induction xs) (auto dest: comparator.lt_asym [OF assms(1)])

lemma fold_oset_insert_sorted:
  assumes "comparator lt" "sorted_wrt lt (ys @ xs)"
  shows "fold (oset_insert lt) xs ys = ys @ xs"
  using assms(2)
proof (induction xs arbitrary: ys)
  case (Cons x xs)
  then have "oset_insert lt x ys = ys @ [x]"
    by (intro oset_insert_last [OF assms(1)]) (auto simp: sorted_wrt_append)
  with Cons show ?case by simp
qed simp

interpretation pk: comparator "pair_less :: string \<times> 'a \<Rightarrow> string \<times> 'a \<Rightarrow> bool"
  by unfold_locales (auto simp: pair_less_def)

lemma fold_yaml_set:
  assumes "distinct (map fst (kvs @ xs))"
  shows "fold (\<lambda>(k, n). yaml_set k n) xs kvs = kvs @ xs"
  using assms
proof (induction xs arbitrary: kvs)
  case (Cons x xs)
  have app: "yaml_set k n kvs = kvs @ [(k, n)]" if "k \<notin> fst ` set kvs" for k n and kvs :: "(string \<times> yaml) list"
    using that by (induction kvs) auto
  have "yaml_set (fst x) (snd x) kvs = kvs @ [x]"
    using Cons.prems app [of "fst x" kvs "snd x"] by auto
  then show ?case
    using Cons.IH [of "kvs @ [x]"] Cons.prems by (simp add: split_beta)
qed simp

lemma map_reads_back:
  assumes "yaml_reads_back api (YMap (map (\<lambda>(k, x). (k, node x)) kvs))"
    "sorted_wrt pair_less kvs" "\<And>k x. (k, x) \<in> set kvs \<Longrightarrow> element_reads_back api from to node x"
  shows "rbind (Cast_map_to api to kvs) (Cast_map_from api from) = Inr kvs"
proof -
  have to: "map_res (\<lambda>(k, x). rbind (to x) (\<lambda>s. rbind (yl_load api s) (\<lambda>n. Inr (k, n)))) kvs =
      Inr (map (\<lambda>(k, x). (k, node x)) kvs)"
    by (rule map_res_Inr) (use assms(3) in \<open>auto simp: element_reads_back_def\<close>)
  have fr: "map_res (\<lambda>(k, n). rbind (from (yl_emit api n)) (\<lambda>x. Inr (k, x))) (map (\<lambda>(k, x). (k, node x)) kvs) =
      Inr kvs"
    by (rule map_res_back) (use assms(3) in \<open>auto simp: element_reads_back_def\<close>)
  have "distinct (map fst kvs)"
    using assms(2) by (induction kvs) (auto simp: pair_less_def)
  then have "fold (\<lambda>(k, n). yaml_set k n) (map (\<lambda>(k, x). (k, node x)) kvs) [] = map (\<lambda>(k, x). (k, node x)) kvs"
    by (subst fold_yaml_set) (auto simp: o_def split_beta)
  moreover have "fold (oset_insert pair_less) kvs [] = kvs"
    using fold_oset_insert_sorted [OF pk.comparator_axioms, of "[]" kvs] assms(2) by simp
  ultimately show ?thesis
    using assms(1) to fr by (simp add: Cast_map_to_def Cast_map_from_def yaml_reads_back_def yaml_pairs_def)
qed

subsection \<open>Listeners\<close>

lemma run_listeners_quiet:
  assumes "\<And>k cb w. (k, cb) \<in> set cbs \<Longrightarrow> cb old new w = Inr (f k w, None)"
  shows "run_listeners cbs old new w = Inr (fold f (map fst cbs) w, None)"
  using assms
proof (induction cbs arbitrary: w)
  case (Cons x cbs)
  obtain k cb where x: "x = (k, cb)" by (cases x)
  then have "cb old new w = Inr (f k w, None)" using Cons.prems by auto
  moreover have "run_listeners cbs old new (f k w) = Inr (fold f (map fst cbs) (f k w), None)"
    using Cons by auto
  ultimately show ?case by (simp add: x)
qed simp

lemma set_cbs_update: "set (cbs_update k v xs) \<subseteq> insert (k, v) (set xs)"
  by (induction xs) (auto split: if_splits)

lemma sorted_cbs_update:
  "sorted_wrt (<) (map fst xs) \<Longrightarrow> sorted_wrt (<) (map fst (cbs_update k v xs))"
proof (induction xs)
  case (Cons x xs)
  then show ?case
    using set_cbs_update [of k v xs] by (cases x) fastforce
qed simp

lemma map_of_cbs_update: "sorted_wrt (<) (map fst xs) \<Longrightarrow> map_of (cbs_update k v xs) = (map_of xs)(k \<mapsto> v)"
proof (induction xs)
  case (Cons x xs)
  then show ?case by (cases x) (auto simp: fun_eq_iff)
qed simp

text \<open>A listener added with the largest id so far runs last.\<close>

lemma cbs_update_last: "(\<And>k'. k' \<in> fst ` set xs \<Longrightarrow> k' < k) \<Longrightarrow> cbs_update k v xs = xs @ [(k, v)]"
  by (induction xs) force+

subsection \<open>The registry under its operations\<close>

lemma to_lower_valid: "c \<in> set name_chars \<Longrightarrow> to_lower c = c"
proof -
  have "list_all (\<lambda>c. to_lower c = c) name_chars"
    by (simp add: name_chars_def to_lower_def of_char_def)
  then show "c \<in> set name_chars \<Longrightarrow> to_lower c = c" by (simp add: list_all_iff)
qed

lemma valid_name_lower: "valid_name name \<Longrightarrow> map to_lower name = name"
  by (induction name) (auto simp: valid_name_def to_lower_valid)

definition config_inv :: "('v, 'w) config_map \<Rightarrow> bool" where
  "config_inv D \<longleftrightarrow>
     (\<forall>k v. D k = Some v \<longrightarrow> valid_name k \<and> cv_name v = k \<and> sorted_wrt (<) (map fst (cv_cbs v)))"

lemma config_inv_upd:
  assumes "config_inv D" "D k = Some v" "cv_name v' = cv_name v" "sorted_wrt (<) (map fst (cv_cbs v'))"
  shows "config_inv (D(k \<mapsto> v'))"
  using assms by (auto simp: config_inv_def)

lemma setValue_frame:
  assumes "ConfigVar_setValue v (cv, w) = Inr (cv', w', exn)"
  shows "cv' = cv \<or> cv' = cv\<lparr>cv_val := v\<rparr>"
  using assms by (auto simp: ConfigVar_setValue_def split: if_splits option.splits)

lemma fromString_frame:
  assumes "ConfigVar_fromString s (cv, w) = Inr (cv', w', b)"
  shows "\<not> b \<and> (\<exists>x. cv' = cv\<lparr>cv_val := x\<rparr>)"
proof (cases "cv_from cv s")
  case (Inl e)
  then show ?thesis
    using assms by (auto simp: ConfigVar_fromString_def split: if_splits intro: exI [of _ "cv_val cv"])
next
  case (Inr v)
  then obtain exn where "ConfigVar_setValue v (cv, w) = Inr (cv', w', exn)" "\<not> b"
    using assms by (auto simp: ConfigVar_fromString_def split: option.splits if_splits)
  then show ?thesis
    using setValue_frame [of v cv w cv' w' exn] by (auto intro: exI [of _ "cv_val cv"])
qed

lemma config_inv_LoadFromYaml_loop:
  "config_inv D \<Longrightarrow> LoadFromYaml_loop api xs (D, w) = Inr (D', w') \<Longrightarrow> config_inv D'"
proof (induction xs arbitrary: D w)
  case (Cons x xs)
  obtain D1 w1 where one: "LoadFromYaml_one api x (D, w) = Inr (D1, w1)"
    and rest: "LoadFromYaml_loop api xs (D1, w1) = Inr (D', w')"
    using Cons.prems(2) by auto
  have "config_inv D1"
    using one Cons.prems(1)
    by (auto simp: LoadFromYaml_one_def split: if_splits option.splits prod.splits
        dest!: fromString_frame intro!: config_inv_upd) (auto simp: config_inv_def)
  with Cons.IH rest show ?case by blast
qed simp

inductive config_reach :: "yaml_api \<Rightarrow> ('v, 'w) config_map \<Rightarrow> bool" for api where
  init: "config_reach api Map.empty"
| lookup: "config_reach api D \<Longrightarrow> Config_Lookup ty name dflt desc D = Inr (D', r) \<Longrightarrow> config_reach api D'"
| load: "config_reach api D \<Longrightarrow> LoadFromYaml api root (D, w) = Inr (D', w') \<Longrightarrow> config_reach api D'"
| setValue: "config_reach api D \<Longrightarrow> D k = Some v \<Longrightarrow> ConfigVar_setValue x (v, w) = Inr (v', w', exn) \<Longrightarrow>
    config_reach api (D(k \<mapsto> v'))"
| addListener: "config_reach api D \<Longrightarrow> D k = Some v \<Longrightarrow> ConfigVar_addListener cb i v = (i', v', j) \<Longrightarrow>
    config_reach api (D(k \<mapsto> v'))"
| delListener: "config_reach api D \<Longrightarrow> D k = Some v \<Longrightarrow> config_reach api (D(k \<mapsto> ConfigVar_delListener i v))"
| clearListener: "config_reach api D \<Longrightarrow> D k = Some v \<Longrightarrow> config_reach api (D(k \<mapsto> ConfigVar_clearListener v))"

lemma sorted_wrt_filter_keys:
  "sorted_wrt (<) (map fst xs) \<Longrightarrow> sorted_wrt (<) (map fst (filter P xs))"
  by (induction xs) auto

lemma config_reach_inv: "config_reach api D \<Longrightarrow> config_inv D"
proof (induction rule: config_reach.induct)
  case (lookup D ty name dflt desc D' r)
  then show ?case
    by (auto simp: Config_Lookup_def config_inv_def ConfigVar_ctor_def valid_name_lower
        split: option.splits if_splits)
next
  case (load D root w D' w')
  show ?case
    by (rule config_inv_LoadFromYaml_loop [OF load(3) load(2) [unfolded LoadFromYaml_def]])
next
  case (setValue D k v x w v' w' exn)
  then show ?case
    using setValue_frame [of x v w v' w' exn]
    by (intro config_inv_upd [of D k v]) (auto simp: config_inv_def)
next
  case (addListener D k v cb i i' v' j)
  then show ?case
    by (intro config_inv_upd [of D k v])
       (auto simp: ConfigVar_addListener_def config_inv_def Let_def intro!: sorted_cbs_update)
next
  case (delListener D k v i)
  then show ?case
    by (intro config_inv_upd [of D k v])
       (auto simp: ConfigVar_delListener_def config_inv_def intro: sorted_wrt_filter_keys)
next
  case (clearListener D k v)
  then show ?case
    by (intro config_inv_upd [of D k v]) (auto simp: ConfigVar_clearListener_def config_inv_def)
qed (simp add: config_inv_def)

subsection \<open>Loading a document\<close>

text \<open>What a node gives a variable: its value when it converts and differs.\<close>

definition load_value :: "yaml_api \<Rightarrow> ('v, 'w) config_var \<Rightarrow> 'v \<Rightarrow> yaml \<Rightarrow> 'v" where
  "load_value api cv x node =
     (case cv_from cv (case node of YScalar s \<Rightarrow> s | _ \<Rightarrow> yl_emit api node) of
        Inl _ \<Rightarrow> x | Inr y \<Rightarrow> if cv_eq cv x y then x else y)"

definition quiet_var :: "('v, 'w) config_var \<Rightarrow> bool" where
  "quiet_var cv \<longleftrightarrow> cv_cbs cv = [] \<and> (\<forall>s e. cv_from cv s = Inl e \<longrightarrow> catchable e)"

lemma LoadFromYaml_one_quiet:
  assumes "\<And>v. D key = Some v \<Longrightarrow> quiet_var v"
  shows "LoadFromYaml_one api (key, node) (D, w) =
    Inr ((\<lambda>k. if k = key \<and> key \<noteq> []
              then map_option (\<lambda>v. v\<lparr>cv_val := load_value api v (cv_val v) node\<rparr>) (D k) else D k), w)"
proof (cases "D key")
  case (Some v)
  then have "quiet_var v" using assms by blast
  then have "ConfigVar_fromString (case node of YScalar s \<Rightarrow> s | _ \<Rightarrow> yl_emit api node) (v, w) =
      Inr (v\<lparr>cv_val := load_value api v (cv_val v) node\<rparr>, w, False)"
    by (auto simp: ConfigVar_fromString_def ConfigVar_setValue_def load_value_def quiet_var_def
        split: sum.splits)
  with Some show ?thesis by (auto simp: LoadFromYaml_one_def fun_eq_iff)
qed (auto simp: LoadFromYaml_one_def fun_eq_iff)

lemma load_value_frame [simp]: "load_value api (cv\<lparr>cv_val := y\<rparr>) = load_value api cv"
  by (auto simp: load_value_def fun_eq_iff split: sum.splits)

lemma quiet_var_frame [simp]: "quiet_var (cv\<lparr>cv_val := y\<rparr>) = quiet_var cv"
  by (simp add: quiet_var_def)

lemma LoadFromYaml_loop_quiet:
  assumes "\<And>k v. D k = Some v \<Longrightarrow> quiet_var v"
  shows "LoadFromYaml_loop api xs (D, w) =
    Inr ((\<lambda>k. map_option (\<lambda>v. v\<lparr>cv_val :=
        foldl (load_value api v) (cv_val v) (map snd (filter (\<lambda>(p, _). p = k \<and> p \<noteq> []) xs))\<rparr>) (D k)), w)"
  using assms
proof (induction xs arbitrary: D)
  case Nil
  then show ?case by (simp add: option.map_id0 [unfolded id_def])
next
  case (Cons x xs)
  obtain key node where x: "x = (key, node)" by (cases x)
  let ?D1 = "\<lambda>k. if k = key \<and> key \<noteq> []
    then map_option (\<lambda>v. v\<lparr>cv_val := load_value api v (cv_val v) node\<rparr>) (D k) else D k"
  have "quiet_var v" if "?D1 k = Some v" for k v
    using that Cons.prems by (auto split: if_splits)
  from Cons.IH [OF this] show ?case
    using LoadFromYaml_one_quiet [of D key api node w] Cons.prems
    by (simp add: x fun_eq_iff option.map_comp o_def)
qed

subsection \<open>Properties\<close>

text \<open>
  The registry under every sequence of operations: each variable is filed under its own
  lower-case name, which has only admitted characters, its listeners are kept in the order of their
  ids, and \<open>Lookup\<close> with a default does one of four things: it returns the variable of that name and
  type without touching it, returns null for another type, throws for a name with other characters,
  or files a new variable with the default, which every later lookup finds.
\<close>

theorem config_registry:
  fixes D :: "('v, 'w) config_map"
  assumes "config_reach api D"
  shows "config_inv D \<and>
    (case D name of
       Some v \<Rightarrow> Config_Lookup ty name dflt desc D =
         Inr (D, if cv_type v = ct_type ty then Some name else None)
     | None \<Rightarrow>
         if \<not> valid_name name then Config_Lookup ty name dflt desc D = Inl (Invalid_argument name)
         else let v = ConfigVar_ctor ty name dflt desc; D' = D(name \<mapsto> v)
           in Config_Lookup ty name dflt desc D = Inr (D', Some name) \<and> cv_name v = name \<and> cv_val v = dflt \<and>
             Config_Lookup ty name dflt' desc' D' = Inr (D', Some name) \<and>
             Config_Lookup_typed (ct_type ty) name D' = Some name)"
  using config_reach_inv [OF assms]
  by (simp add: Config_Lookup_def Config_Lookup_typed_def ConfigVar_ctor_def valid_name_lower Let_def
      split: option.splits)

definition int_type :: "int config_type" where
  "int_type = \<lparr> ct_type = 0, ct_eq = (=),
     ct_from = (\<lambda>s. if s = ''80'' then Inr 80 else Inl (Std_exception ''bad_lexical_cast'')),
     ct_to = (\<lambda>v. Inr (show_int v)) \<rparr>"

text \<open>The digit 9 is not admitted, although the documentation of \<open>Lookup\<close> says it is.\<close>

theorem config_registry_witness:
  "Config_Lookup int_type ''port9'' 0 '''' (Map.empty :: (int, unit) config_map) = Inl (Invalid_argument ''port9'') \<and>
   (\<exists>v. Config_Lookup int_type ''system.port'' 80 '''' (Map.empty :: (int, unit) config_map) =
     Inr ([''system.port'' \<mapsto> v], Some ''system.port'') \<and> cv_val v = 80)"
proof -
  have bad: "\<not> valid_name ''port9''" and ok: "valid_name ''system.port''"
    by (simp_all add: valid_name_def name_chars_def)
  note reg = config_registry [where D = "Map.empty :: (int, unit) config_map", OF config_reach.init, of _ int_type]
  show ?thesis
    using reg [of "''port9''" 0 "''''" 0 "''''"] reg [of "''system.port''" 80 "''''" 0 "''''"] bad ok
    by (auto simp: Let_def)
qed

text \<open>
  C32. \<open>setValue\<close>: an equal value changes nothing and calls no listener; another value is passed with
  the old one to every listener, in the order of the ids, before it is stored; a listener that throws
  stops this and the old value stays. \<open>fromString\<close> returns false even when it stored the value.
\<close>

theorem setValue_notifies:
  fixes cv :: "('v, 'w) config_var"
  shows "(cv_eq cv (cv_val cv) v \<longrightarrow> ConfigVar_setValue v (cv, w) = Inr (cv, w, None)) \<and>
    (\<not> cv_eq cv (cv_val cv) v \<and> (\<forall>k cb w. (k, cb) \<in> set (cv_cbs cv) \<longrightarrow> cb (cv_val cv) v w = Inr (f k w, None)) \<longrightarrow>
      ConfigVar_setValue v (cv, w) = Inr (cv\<lparr>cv_val := v\<rparr>, fold f (map fst (cv_cbs cv)) w, None)) \<and>
    (\<not> cv_eq cv (cv_val cv) v \<and> run_listeners (cv_cbs cv) (cv_val cv) v w = Inr (w', Some e) \<longrightarrow>
      ConfigVar_setValue v (cv, w) = Inr (cv, w', Some e)) \<and>
    (ConfigVar_fromString s (cv, w) = Inr (cv', w', b) \<longrightarrow> \<not> b)"
  using run_listeners_quiet [of "cv_cbs cv" "cv_val cv" v f w] fromString_frame [of s cv w cv' w' b]
  by (auto simp: ConfigVar_setValue_def)

definition demo_var :: "(int, int list) config_var" where
  "demo_var = (ConfigVar_ctor int_type ''a'' 1 '''')\<lparr>
     cv_cbs := [(1, \<lambda>old new w. Inr (w @ [old, new], None)), (2, \<lambda>old new w. Inr (w @ [0], None))]\<rparr>"

theorem setValue_notifies_witness:
  "ConfigVar_setValue 5 (demo_var, []) = Inr (demo_var\<lparr>cv_val := 5\<rparr>, [1, 5, 0], None)"
proof -
  let ?f = "\<lambda>k w. w @ (if k = 1 then [1, 5] else [0 :: int])"
  have "\<not> cv_eq demo_var (cv_val demo_var) 5 \<and>
      (\<forall>k cb w. (k, cb) \<in> set (cv_cbs demo_var) \<longrightarrow> cb (cv_val demo_var) 5 w = Inr (?f k w, None))"
    by (auto simp: demo_var_def ConfigVar_ctor_def int_type_def)
  then have "ConfigVar_setValue 5 (demo_var, []) =
      Inr (demo_var\<lparr>cv_val := 5\<rparr>, fold ?f (map fst (cv_cbs demo_var)) [], None)"
    using setValue_notifies [of demo_var 5 "[]" ?f] by blast
  then show ?thesis by (simp add: demo_var_def)
qed


definition demo_doc :: yaml where
  "demo_doc = YMap [(''system'', YMap [(''port'', YScalar ''80''), (''Port'', YScalar ''81'')])]"




end
