(* ===== verification/Log_Config.thy ===== *)
theory Log_Config
  imports Log Config
begin

section \<open>The configuration of the loggers\<close>

text \<open>
  The last part of \<open>qlc_log.cpp\<close>: the definitions of loggers in the configuration variable \<open>logs\<close>,
  their conversion from and to YAML, the listener \<open>LogIniter\<close> that builds loggers from them, and the
  YAML dump of the loggers.
\<close>

subsection \<open>Definitions\<close>

record log_appender_define =
  lad_type :: int
  lad_level :: Level
  lad_formatter :: string
  lad_file :: string

definition LogAppenderDefine_default :: log_appender_define where
  "LogAppenderDefine_default = \<lparr> lad_type = 0, lad_level = UNKNOW, lad_formatter = '''', lad_file = '''' \<rparr>"

definition LogAppenderDefine_eq :: "log_appender_define \<Rightarrow> log_appender_define \<Rightarrow> bool" where
  "LogAppenderDefine_eq a oth \<longleftrightarrow>
     lad_type a = lad_type oth \<and> lad_level a = lad_level oth \<and> lad_formatter a = lad_formatter oth \<and>
     lad_file a = lad_file oth"

record log_define =
  ld_name :: string
  ld_level :: Level
  ld_formatter :: string
  ld_appenders :: "log_appender_define list"

text \<open>The last comparison has the same object on both sides.\<close>

definition LogDefine_eq :: "log_define \<Rightarrow> log_define \<Rightarrow> bool" where
  "LogDefine_eq d oth \<longleftrightarrow>
     ld_name d = ld_name oth \<and> ld_level d = ld_level oth \<and> ld_formatter d = ld_formatter oth \<and>
     list_all2 LogAppenderDefine_eq (ld_appenders d) (ld_appenders d)"

definition LogDefine_less :: "log_define \<Rightarrow> log_define \<Rightarrow> bool" where
  "LogDefine_less d oth \<longleftrightarrow> ld_name d < ld_name oth"

definition LogDefine_isValid :: "log_define \<Rightarrow> bool" where
  "LogDefine_isValid d \<longleftrightarrow> ld_name d \<noteq> []"

interpretation ldc: comparator LogDefine_less
  by unfold_locales (auto simp: LogDefine_less_def)

text \<open>\<open>operator==\<close> of \<open>std::set<LogDefine>\<close>: the same length, and equal elements in order.\<close>

definition LogDefines_eq :: "log_define list \<Rightarrow> log_define list \<Rightarrow> bool" where
  "LogDefines_eq xs ys \<longleftrightarrow> list_all2 LogDefine_eq xs ys"

subsection \<open>Conversion from YAML\<close>

text \<open>\<open>n[key].as<std::string>()\<close>: a key that is not defined throws.\<close>

definition yaml_field :: "yaml_api \<Rightarrow> yaml \<Rightarrow> string \<Rightarrow> string res" where
  "yaml_field api n key =
     rbind (yl_sub api n key) (\<lambda>x.
       case x of None \<Rightarrow> Inl (Std_exception ''bad conversion'') | Some y \<Rightarrow> yl_as_string api y)"

definition yaml_field_or :: "yaml_api \<Rightarrow> yaml \<Rightarrow> string \<Rightarrow> string \<Rightarrow> string res" where
  "yaml_field_or api n key dflt =
     rbind (yl_sub api n key) (\<lambda>x. case x of None \<Rightarrow> Inr dflt | Some y \<Rightarrow> yl_as_string api y)"

text \<open>One entry of \<open>appenders\<close>; \<open>None\<close> for one that is skipped.\<close>

definition LogAppenderDefine_from :: "yaml_api \<Rightarrow> yaml \<Rightarrow> log_appender_define option res" where
  "LogAppenderDefine_from api a =
     rbind (yl_sub api a ''type'') (\<lambda>t.
       case t of None \<Rightarrow> Inr None
       | Some tn \<Rightarrow>
           rbind (yl_as_string api tn) (\<lambda>type.
             if type = ''fileAppender'' then
               rbind (yl_sub api a ''file'') (\<lambda>f.
                 case f of None \<Rightarrow> Inr None
                 | Some fn \<Rightarrow>
                     rbind (yl_as_string api fn) (\<lambda>file.
                     rbind (yaml_field_or api a ''formatter'' '''') (\<lambda>fmt.
                       Inr (Some (LogAppenderDefine_default\<lparr>lad_type := 1, lad_file := file,
                         lad_formatter := fmt\<rparr>)))))
             else if type = ''stdoutAppender'' then
               rbind (yaml_field_or api a ''formatter'' '''') (\<lambda>fmt.
                 Inr (Some (LogAppenderDefine_default\<lparr>lad_type := 2, lad_formatter := fmt\<rparr>)))
             else Inr None))"

definition LogDefine_from :: "yaml_api \<Rightarrow> string \<Rightarrow> log_define res" where
  "LogDefine_from api v =
     rbind (yl_load api v) (\<lambda>n.
     rbind (yaml_field api n ''name'') (\<lambda>name.
     rbind (yaml_field_or api n ''level'' '''') (\<lambda>level.
     rbind (yaml_field_or api n ''formatter'' '''') (\<lambda>fmt.
     rbind (yl_sub api n ''appenders'') (\<lambda>aps.
     rbind (map_res (LogAppenderDefine_from api) (case aps of None \<Rightarrow> [] | Some x \<Rightarrow> yl_elems api x)) (\<lambda>as.
       Inr \<lparr> ld_name = name, ld_level = LogLevel_FromString level, ld_formatter = fmt,
             ld_appenders = map the (filter (\<lambda>x. x \<noteq> None) as) \<rparr>))))))"

subsection \<open>Conversion to YAML\<close>

definition LogAppenderDefine_node :: "log_appender_define \<Rightarrow> yaml" where
  "LogAppenderDefine_node a =
     (let kvs = (if lad_type a = 1 then [(''type'', YScalar ''fileAppender''), (''file'', YScalar (lad_file a))]
            else if lad_type a = 2 then [(''type'', YScalar ''stdoutAppender'')] else []);
          kvs = (if lad_level a \<noteq> UNKNOW then yaml_set ''level'' (YScalar (LogLevel_ToString (lad_level a))) kvs else kvs);
          kvs = (if lad_formatter a \<noteq> [] then yaml_set ''formatter'' (YScalar (lad_formatter a)) kvs else kvs)
      in if kvs = [] then YNull else YMap kvs)"

definition LogDefine_node :: "log_define \<Rightarrow> yaml" where
  "LogDefine_node i =
     (let kvs = [(''name'', YScalar (ld_name i))];
          kvs = (if ld_level i \<noteq> UNKNOW then yaml_set ''level'' (YScalar (LogLevel_ToString (ld_level i))) kvs else kvs);
          kvs = (if ld_formatter i \<noteq> [] then yaml_set ''formatter'' (YScalar (ld_formatter i)) kvs else kvs);
          kvs = (if ld_appenders i \<noteq> []
            then yaml_set ''appenders'' (YSeq (map LogAppenderDefine_node (ld_appenders i))) kvs else kvs)
      in YMap kvs)"

definition LogDefine_to :: "yaml_api \<Rightarrow> log_define \<Rightarrow> string res" where
  "LogDefine_to api i = Inr (yl_emit api (LogDefine_node i))"

subsection \<open>The dump of the loggers\<close>

definition appender_kvs :: "appender \<Rightarrow> (string \<times> yaml) list \<Rightarrow> (string \<times> yaml) list" where
  "appender_kvs a kvs =
     (let kvs = (if ap_level a \<noteq> UNKNOW then yaml_set ''level'' (YScalar (LogLevel_ToString (ap_level a))) kvs else kvs)
      in if ap_hasFormatter a \<and> ap_formatter a \<noteq> None
         then yaml_set ''formatter'' (YScalar (fm_pattern (the (ap_formatter a)))) kvs else kvs)"

definition fileAppender_toYamlString :: "yaml_api \<Rightarrow> appender \<Rightarrow> file_part \<Rightarrow> string" where
  "fileAppender_toYamlString api a f =
     yl_emit api (YMap (appender_kvs a
       [(''type'', YScalar ''fileAppender''), (''file'', YScalar (m_filename f))]))"

definition stdoutAppender_toYamlString :: "yaml_api \<Rightarrow> appender \<Rightarrow> string" where
  "stdoutAppender_toYamlString api a = yl_emit api (YMap (appender_kvs a [(''type'', YScalar ''stdoutAppender'')]))"

definition Appender_toYamlString :: "yaml_api \<Rightarrow> appender \<Rightarrow> string" where
  "Appender_toYamlString api a =
     (case ap_class a of
        FileAppender f \<Rightarrow> fileAppender_toYamlString api a f
      | StdoutAppender \<Rightarrow> stdoutAppender_toYamlString api a)"

definition Logger_toYamlString :: "yaml_api \<Rightarrow> ptr \<Rightarrow> log_world \<Rightarrow> string res" where
  "Logger_toYamlString api p w =
     rbind (deref (w_loggers w) p) (\<lambda>l.
     rbind (map_res (\<lambda>a. rbind (deref (w_appenders w) a) (\<lambda>x. yl_load api (Appender_toYamlString api x)))
              (lg_appenders l)) (\<lambda>ns.
       let kvs = [(''name'', YScalar (lg_name l))];
           kvs = (if lg_level l \<noteq> UNKNOW then yaml_set ''level'' (YScalar (LogLevel_ToString (lg_level l))) kvs else kvs);
           kvs = (case lg_formater l of None \<Rightarrow> kvs | Some f \<Rightarrow> yaml_set ''formatter'' (YScalar (fm_pattern f)) kvs);
           kvs = (if lg_appenders l \<noteq> [] then yaml_set ''appenders'' (YSeq ns) kvs else kvs)
       in Inr (yl_emit api (YMap kvs))))"

definition LoggerManager_toYamlString :: "yaml_api \<Rightarrow> log_world \<Rightarrow> string res" where
  "LoggerManager_toYamlString api w =
     rbind (map_res (\<lambda>(_, p). rbind (Logger_toYamlString api p w) (yl_load api)) (m_loggers w)) (\<lambda>ns.
       Inr (yl_emit api (if ns = [] then YNull else YSeq ns)))"

subsection \<open>The listener\<close>

definition LogIniter_appender :: "log_env \<Rightarrow> ptr \<Rightarrow> log_appender_define \<Rightarrow> log_world \<Rightarrow> log_world res" where
  "LogIniter_appender env logger a w =
     (let (lap, w) =
            (if lad_type a = 1 then
               let (x, files) = fileAppender_ctor env (lad_file a) (w_files w) in (Some x, w\<lparr>w_files := files\<rparr>)
             else if lad_type a = 2 then (Some stdoutAppender_ctor, w)
             else (None, w))
      in case lap of
           None \<Rightarrow> Inl (Undefined ''null pointer'')
         | Some x \<Rightarrow>
             let x = LogAppender_setLevel (lad_level a) x;
                 x = (if lad_formatter a \<noteq> [] then
                        let fmt = LogFormatter_ctor (lad_formatter a)
                        in if \<not> fm_error fmt then LogAppender_setFormatter (Some fmt) x else x
                      else x);
                 (ap, w) = new_appender x w
             in Logger_addAppender logger ap w)"

fun LogIniter_appenders :: "log_env \<Rightarrow> ptr \<Rightarrow> log_appender_define list \<Rightarrow> log_world \<Rightarrow> log_world res" where
  "LogIniter_appenders env logger [] w = Inr w"
| "LogIniter_appenders env logger (a # as) w =
     rbind (LogIniter_appender env logger a w) (LogIniter_appenders env logger as)"

definition LogIniter_define :: "log_env \<Rightarrow> log_define \<Rightarrow> log_world \<Rightarrow> log_world res" where
  "LogIniter_define env i w =
     (let (logger, w) = getLogger (ld_name i) w
      in rbind (Logger_setLevel logger (ld_level i) w) (\<lambda>w.
         rbind (if ld_formatter i \<noteq> [] then Logger_setFormatter_string logger (ld_formatter i) w else Inr w) (\<lambda>w.
         rbind (Logger_clearAppenders logger w) (\<lambda>w.
           LogIniter_appenders env logger (ld_appenders i) w))))"

fun LogIniter_new :: "log_env \<Rightarrow> log_define list \<Rightarrow> log_define list \<Rightarrow> log_world \<Rightarrow> log_world res" where
  "LogIniter_new env old_value [] w = Inr w"
| "LogIniter_new env old_value (i # is) w =
     (case oset_find LogDefine_less i old_value of
        None \<Rightarrow> rbind (LogIniter_define env i w) (LogIniter_new env old_value is)
      | Some _ \<Rightarrow> LogIniter_new env old_value is w)"

fun LogIniter_removed :: "log_define list \<Rightarrow> log_define list \<Rightarrow> log_world \<Rightarrow> log_world res" where
  "LogIniter_removed new_value [] w = Inr w"
| "LogIniter_removed new_value (i # is) w =
     (case oset_find LogDefine_less i new_value of
        None \<Rightarrow>
          let (logger, w) = getLogger (ld_name i) w
          in rbind (Logger_setLevel logger LEVEL_100 w) (\<lambda>w.
             rbind (Logger_clearAppenders logger w) (LogIniter_removed new_value is))
      | Some _ \<Rightarrow> LogIniter_removed new_value is w)"

definition LogIniter :: "log_env \<Rightarrow> (log_define list, log_world) listener" where
  "LogIniter env old_value new_value w =
     rbind (LogIniter_new env old_value new_value w) (\<lambda>w.
     rbind (LogIniter_removed new_value old_value w) (\<lambda>w. Inr (w, None)))"

text \<open>The variable \<open>logs\<close>: a set of definitions, with the listener registered.\<close>

definition logs_type :: "yaml_api \<Rightarrow> log_define list config_type" where
  "logs_type api =
     \<lparr> ct_type = 100, ct_eq = LogDefines_eq,
       ct_from = Cast_set_from api LogDefine_less (LogDefine_from api),
       ct_to = Cast_set_to api (LogDefine_to api) \<rparr>"

definition log_value_config :: "yaml_api \<Rightarrow> log_env \<Rightarrow> (log_define list, log_world) config_var" where
  "log_value_config api env =
     (let (_, cv, _) = ConfigVar_addListener (LogIniter env) 0
        (ConfigVar_ctor (logs_type api) ''logs'' [] ''logs config'')
      in cv)"

subsection \<open>Reading a definition back\<close>

lemma LogAppenderDefine_node_from:
  assumes "yaml_laws api" "lad_type a = 1 \<or> lad_type a = 2 \<and> lad_file a = ''''"
  shows "LogAppenderDefine_from api (LogAppenderDefine_node a) = Inr (Some (a\<lparr>lad_level := UNKNOW\<rparr>))"
  using assms(2)
  by (auto simp: LogAppenderDefine_from_def LogAppenderDefine_node_def yaml_laws_simps [OF assms(1)]
      yaml_field_or_def LogAppenderDefine_default_def Let_def)

lemma LogDefine_node_fields:
  assumes "yaml_laws api"
  shows "yaml_field api (LogDefine_node d) ''name'' = Inr (ld_name d)"
    "yaml_field_or api (LogDefine_node d) ''level'' '''' =
       Inr (if ld_level d = UNKNOW then '''' else LogLevel_ToString (ld_level d))"
    "yaml_field_or api (LogDefine_node d) ''formatter'' '''' = Inr (ld_formatter d)"
    "yl_sub api (LogDefine_node d) ''appenders'' =
       Inr (if ld_appenders d = [] then None else Some (YSeq (map LogAppenderDefine_node (ld_appenders d))))"
  by (simp_all add: LogDefine_node_def yaml_field_def yaml_field_or_def yaml_laws_simps [OF assms] Let_def)

lemma LogDefine_reads_back:
  assumes "yaml_laws api" "yaml_reads_back api (LogDefine_node d)" "ld_level d \<noteq> LEVEL_100"
    "\<And>a. a \<in> set (ld_appenders d) \<Longrightarrow> lad_type a = 1 \<or> lad_type a = 2 \<and> lad_file a = ''''"
  shows "rbind (LogDefine_to api d) (LogDefine_from api) =
    Inr (d\<lparr>ld_appenders := map (\<lambda>a. a\<lparr>lad_level := UNKNOW\<rparr>) (ld_appenders d)\<rparr>)"
proof -
  have load: "yl_load api (yl_emit api (LogDefine_node d)) = Inr (LogDefine_node d)"
    using assms(2) by (simp add: yaml_reads_back_def)
  have level: "LogLevel_FromString (if ld_level d = UNKNOW then '''' else LogLevel_ToString (ld_level d)) = ld_level d"
    by (cases "ld_level d = UNKNOW") (simp_all add: level_roundtrip assms(3) LogLevel_FromString_def [of "''''"])
  have aps: "map_res (LogAppenderDefine_from api) (map LogAppenderDefine_node (ld_appenders d)) =
      Inr (map (\<lambda>a. Some (a\<lparr>lad_level := UNKNOW\<rparr>)) (ld_appenders d))"
    by (rule map_res_map) (rule LogAppenderDefine_node_from [OF assms(1,4)])
  show ?thesis
    using load level aps
    by (cases "ld_appenders d = []")
       (simp_all add: LogDefine_to_def LogDefine_from_def LogDefine_node_fields [OF assms(1)]
          yaml_laws_simps [OF assms(1)] filter_map o_def)
qed

subsection \<open>What the listener builds\<close>

definition appender_built :: "logger \<Rightarrow> log_appender_define \<Rightarrow> appender \<Rightarrow> bool" where
  "appender_built l a x \<longleftrightarrow>
     ap_level x = lad_level a \<and>
     (case ap_class x of StdoutAppender \<Rightarrow> lad_type a = 2
      | FileAppender f \<Rightarrow> lad_type a = 1 \<and> m_filename f = lad_file a) \<and>
     ap_formatter x =
       (if lad_formatter a \<noteq> [] \<and> \<not> fm_error (LogFormatter_ctor (lad_formatter a))
        then Some (LogFormatter_ctor (lad_formatter a)) else lg_formater l)"

definition known_type :: "log_appender_define \<Rightarrow> bool" where
  "known_type a \<longleftrightarrow> lad_type a = 1 \<or> lad_type a = 2"

lemma fileAppender_ctor_fields:
  assumes "fileAppender_ctor env name files = (x, fs)"
  shows "ap_formatter x = None" "\<not> ap_hasFormatter x" "\<exists>f. ap_class x = FileAppender f \<and> m_filename f = name"
  using assms by (auto simp: fileAppender_ctor_def reopen_def Let_def split: prod.splits)

lemma addAppender_new:
  assumes "log_wf w" "w_loggers w p = Some l" "ap_hasFormatter x \<Longrightarrow> ap_formatter x \<noteq> None"
    "new_appender x w = (ap, v)"
  shows "\<exists>w'. Logger_addAppender p ap v = Inr w' \<and> log_wf w' \<and> m_root w' = m_root w \<and>
    m_loggers w' = m_loggers w \<and> w_next w' = Suc (w_next w) \<and> ap = w_next w \<and>
    w_loggers w' = (w_loggers w)(p \<mapsto> l\<lparr>lg_appenders := lg_appenders l @ [ap]\<rparr>) \<and>
    w_appenders w' = (w_appenders w)(ap \<mapsto>
      (if ap_formatter x = None then x\<lparr>ap_formatter := lg_formater l\<rparr> else x))"
proof -
  note v = inv_new_appender [OF assms(1,3,4)]
  have veq: "v = w\<lparr>w_appenders := (w_appenders w)(w_next w \<mapsto> x), w_next := Suc (w_next w)\<rparr>" "ap = w_next w"
    using assms(4) by (auto simp: new_appender_def)
  obtain w' where w': "Logger_addAppender p ap v = Inr w'"
    using v assms(2) by (cases "ap_formatter x") (auto simp: Logger_addAppender_def upd_logger_def Let_def)
  then show ?thesis
    using inv_addAppender(1) [OF v(1) w'] assms(2) veq
    by (auto simp: Logger_addAppender_def upd_logger_Inr Let_def)
qed

lemma LogIniter_appender_ok:
  assumes "log_wf w" "w_loggers w p = Some l" "known_type a"
  shows "\<exists>w' q x. LogIniter_appender env p a w = Inr w' \<and> log_wf w' \<and> m_root w' = m_root w \<and>
    m_loggers w' = m_loggers w \<and> w_next w' = Suc (w_next w) \<and> q = w_next w \<and>
    w_loggers w' = (w_loggers w)(p \<mapsto> l\<lparr>lg_appenders := lg_appenders l @ [q]\<rparr>) \<and>
    w_appenders w' = (w_appenders w)(q \<mapsto> x) \<and> appender_built l a x"
proof -
  let ?fmt = "LogFormatter_ctor (lad_formatter a)"
  let ?set = "\<lambda>x. if lad_formatter a \<noteq> [] then
      (if \<not> fm_error ?fmt then LogAppender_setFormatter (Some ?fmt) (LogAppender_setLevel (lad_level a) x)
       else LogAppender_setLevel (lad_level a) x) else LogAppender_setLevel (lad_level a) x"
  obtain x v where xv: "LogIniter_appender env p a w =
        (let (ap, w) = new_appender (?set x) v in Logger_addAppender p ap w)"
    and v: "v = w\<lparr>w_files := w_files v\<rparr>"
    and x: "ap_formatter x = None" "\<not> ap_hasFormatter x"
      "case ap_class x of StdoutAppender \<Rightarrow> lad_type a = 2
       | FileAppender f \<Rightarrow> lad_type a = 1 \<and> m_filename f = lad_file a"
  proof (cases "lad_type a = 1")
    case True
    obtain y fs where y: "fileAppender_ctor env (lad_file a) (w_files w) = (y, fs)" by force
    show ?thesis
      by (rule that [of y "w\<lparr>w_files := fs\<rparr>"])
         (use True y fileAppender_ctor_fields [OF y] in \<open>auto simp: LogIniter_appender_def Let_def\<close>)
  next
    case False
    then have "lad_type a = 2" using assms(3) by (simp add: known_type_def)
    then show ?thesis
      by (intro that [of stdoutAppender_ctor w]) (auto simp: LogIniter_appender_def stdoutAppender_ctor_def Let_def)
  qed
  have same: "same_loggers w v" by (subst v) (rule same_loggers_files)
  obtain ap u where u: "new_appender (?set x) v = (ap, u)" by force
  have eqs: "w_loggers v = w_loggers w" "w_appenders v = w_appenders w" "w_next v = w_next w"
    "m_root v = m_root w" "m_loggers v = m_loggers w"
    by (subst v, simp)+
  have has: "ap_hasFormatter (?set x) \<Longrightarrow> ap_formatter (?set x) \<noteq> None"
    using x(2) by (auto simp: LogAppender_setFormatter_def LogAppender_setLevel_def split: if_splits)
  have built: "appender_built l a (if ap_formatter (?set x) = None then (?set x)\<lparr>ap_formatter := lg_formater l\<rparr> else ?set x)"
    using x by (auto simp: appender_built_def LogAppender_setFormatter_def LogAppender_setLevel_def)
  show ?thesis
    using addAppender_new [OF same_loggers_inv [OF assms(1) same] _ has u, of p l] xv u eqs assms(2) built
    by auto
qed

lemma LogIniter_appenders_ok:
  assumes "log_wf w" "w_loggers w p = Some l" "list_all known_type as"
  shows "\<exists>w' qs. LogIniter_appenders env p as w = Inr w' \<and> log_wf w' \<and> m_root w' = m_root w \<and>
    m_loggers w' = m_loggers w \<and> w_next w \<le> w_next w' \<and>
    w_loggers w' = (w_loggers w)(p \<mapsto> l\<lparr>lg_appenders := lg_appenders l @ qs\<rparr>) \<and>
    (\<forall>q < w_next w. w_appenders w' q = w_appenders w q) \<and>
    list_all2 (\<lambda>a q. \<exists>x. w_appenders w' q = Some x \<and> appender_built l a x) as qs"
  using assms
proof (induction as arbitrary: w l)
  case (Cons a as)
  obtain v q x where v: "LogIniter_appender env p a w = Inr v" "log_wf v" "m_root v = m_root w"
    "m_loggers v = m_loggers w" "w_next v = Suc (w_next w)" "q = w_next w"
    "w_loggers v = (w_loggers w)(p \<mapsto> l\<lparr>lg_appenders := lg_appenders l @ [q]\<rparr>)"
    "w_appenders v = (w_appenders w)(q \<mapsto> x)" "appender_built l a x"
    using LogIniter_appender_ok [OF Cons.prems(1,2), of a env] Cons.prems(3) by auto
  let ?l = "l\<lparr>lg_appenders := lg_appenders l @ [q]\<rparr>"
  obtain w' qs where w': "LogIniter_appenders env p as v = Inr w'" "log_wf w'" "m_root w' = m_root v"
    "m_loggers w' = m_loggers v" "w_next v \<le> w_next w'"
    "w_loggers w' = (w_loggers v)(p \<mapsto> ?l\<lparr>lg_appenders := lg_appenders ?l @ qs\<rparr>)"
    "\<forall>q < w_next v. w_appenders w' q = w_appenders v q"
    "list_all2 (\<lambda>a q. \<exists>x. w_appenders w' q = Some x \<and> appender_built ?l a x) as qs"
  proof -
    have "w_loggers v p = Some ?l" "list_all known_type as" using v(7) Cons.prems(3) by simp_all
    with Cons.IH [OF v(2)] show ?thesis using that by blast
  qed
  have built: "appender_built ?l = appender_built l" by (simp add: appender_built_def fun_eq_iff)
  have "w_appenders w' q = Some x" using w'(7) v(5,6,8) by simp
  then show ?case
    using v w' built by (intro exI [of _ w'] exI [of _ "q # qs"]) auto
qed auto

lemma setFormatter_string_ok:
  assumes "log_wf w" "w_loggers w p = Some l"
  shows "\<exists>w'. Logger_setFormatter_string p s w = Inr w' \<and> log_wf w' \<and> m_root w' = m_root w \<and>
    m_loggers w' = m_loggers w \<and>
    w_loggers w' = (w_loggers w)(p \<mapsto> l\<lparr>lg_formater :=
      if fm_error (LogFormatter_ctor s) then lg_formater l else Some (LogFormatter_ctor s)\<rparr>)"
proof (cases "fm_error (LogFormatter_ctor s)")
  case True
  then show ?thesis using assms by (simp add: Logger_setFormatter_string_def fun_upd_idem)
next
  case False
  have "w_appenders w a \<noteq> None" if "a \<in> set (lg_appenders l)" for a
    using log_wf_logger(5) [OF assms that] by blast
  then obtain h where h: "inherit_formatter (Some (LogFormatter_ctor s)) (lg_appenders l) (w_appenders w) = Inr h"
    using inherit_formatter_total by blast
  let ?w' = "w\<lparr>w_loggers := (w_loggers w)(p \<mapsto> l\<lparr>lg_formater := Some (LogFormatter_ctor s)\<rparr>), w_appenders := h\<rparr>"
  have "Logger_setFormatter p (Some (LogFormatter_ctor s)) w = Inr ?w'"
    using assms(2) h by (simp add: Logger_setFormatter_def)
  then show ?thesis
    using inv_setFormatter(1) [OF assms(1)] False by (simp add: Logger_setFormatter_string_def)
qed

text \<open>A definition of a logger that is not configured yet.\<close>

definition define_formatter :: "log_define \<Rightarrow> log_formatter option \<Rightarrow> log_formatter option" where
  "define_formatter d old =
     (if ld_formatter d \<noteq> [] \<and> \<not> fm_error (LogFormatter_ctor (ld_formatter d))
      then Some (LogFormatter_ctor (ld_formatter d)) else old)"

lemma LogIniter_define_ok:
  assumes "log_wf w" "list_all known_type (ld_appenders d)" "getLogger (ld_name d) w = (p, v)"
    "w_loggers v p = Some l0"
  shows "\<exists>w' l. LogIniter_define env d w = Inr w' \<and> log_wf w' \<and> m_root w' = m_root w \<and>
    m_loggers w' = m_loggers v \<and> w_loggers w' = (w_loggers v)(p \<mapsto> l) \<and>
    lg_name l = ld_name d \<and> lg_level l = ld_level d \<and> lg_formater l = define_formatter d (lg_formater l0) \<and>
    list_all2 (\<lambda>a q. \<exists>x. w_appenders w' q = Some x \<and> appender_built l a x) (ld_appenders d) (lg_appenders l)"
proof -
  note g = inv_getLogger [OF assms(1,3)]
  have name: "lg_name l0 = ld_name d" using g(2) assms(4) by auto
  let ?l1 = "l0\<lparr>lg_level := ld_level d\<rparr>"
  let ?l2 = "?l1\<lparr>lg_formater := define_formatter d (lg_formater l0)\<rparr>"
  let ?l3 = "?l2\<lparr>lg_appenders := []\<rparr>"
  obtain w1 where w1: "Logger_setLevel p (ld_level d) v = Inr w1" "w_loggers w1 = (w_loggers v)(p \<mapsto> ?l1)"
    "m_loggers w1 = m_loggers v"
    using assms(4) by (auto simp: Logger_setLevel_def upd_logger_def)
  note i1 = inv_setLevel [OF g(1) w1(1)]
  have l1: "w_loggers w1 p = Some ?l1" using w1 by simp
  obtain w2 where w2: "(if ld_formatter d \<noteq> [] then Logger_setFormatter_string p (ld_formatter d) w1 else Inr w1) = Inr w2"
    "log_wf w2" "m_root w2 = m_root w1" "m_loggers w2 = m_loggers w1" "w_loggers w2 = (w_loggers w1)(p \<mapsto> ?l2)"
    using setFormatter_string_ok [OF i1(1) l1, of "ld_formatter d"] i1(1) l1
    by (cases "ld_formatter d = []") (auto simp: define_formatter_def fun_upd_idem)
  have l2: "w_loggers w2 p = Some ?l2" using w2 by simp
  obtain w3 where w3: "Logger_clearAppenders p w2 = Inr w3" "w_loggers w3 = (w_loggers w2)(p \<mapsto> ?l3)"
    "m_loggers w3 = m_loggers w2"
    using l2 by (auto simp: Logger_clearAppenders_def upd_logger_def)
  note i3 = inv_clearAppenders [OF w2(2) w3(1)]
  have l3: "w_loggers w3 p = Some ?l3" using w3 by simp
  obtain w' qs where w': "LogIniter_appenders env p (ld_appenders d) w3 = Inr w'" "log_wf w'" "m_root w' = m_root w3"
    "m_loggers w' = m_loggers w3" "w_loggers w' = (w_loggers w3)(p \<mapsto> ?l3\<lparr>lg_appenders := lg_appenders ?l3 @ qs\<rparr>)"
    "list_all2 (\<lambda>a q. \<exists>x. w_appenders w' q = Some x \<and> appender_built ?l3 a x) (ld_appenders d) qs"
    using LogIniter_appenders_ok [OF i3(1) l3 assms(2), of env] by blast
  let ?l = "?l3\<lparr>lg_appenders := qs\<rparr>"
  have built: "appender_built ?l3 = appender_built ?l" by (simp add: appender_built_def fun_eq_iff)
  have "LogIniter_define env d w = Inr w'"
    using assms(3) w1(1) w2(1) w3(1) w'(1) by (simp add: LogIniter_define_def)
  moreover have "w_loggers w' = (w_loggers v)(p \<mapsto> ?l)"
    using w1(2) w2(5) w3(2) w'(5) by simp
  moreover have "m_root w' = m_root w" using w'(3) i3(2) w2(3) i1(2) g(4) by simp
  moreover have "m_loggers w' = m_loggers v" using w'(4) w3(3) w2(4) w1(3) by simp
  ultimately show ?thesis
    using w'(2,6) name unfolding built by (intro exI [of _ w'] exI [of _ ?l]) simp
qed

text \<open>Definitions with the same names on both sides are skipped.\<close>

lemma oset_find_name:
  assumes "sorted_wrt LogDefine_less ds"
  shows "oset_find LogDefine_less i ds = None \<longleftrightarrow> ld_name i \<notin> ld_name ` set ds"
  using assms by (induction ds) (auto simp: LogDefine_less_def)

lemma LogIniter_new_skips:
  assumes "\<And>i. i \<in> set ds \<Longrightarrow> oset_find LogDefine_less i old \<noteq> None"
  shows "LogIniter_new env old ds w = Inr w"
  using assms by (induction ds) fastforce+

lemma LogIniter_removed_skips:
  assumes "\<And>i. i \<in> set ds \<Longrightarrow> oset_find LogDefine_less i new \<noteq> None"
  shows "LogIniter_removed new ds w = Inr w"
  using assms by (induction ds) fastforce+

lemma LogDefine_eq_no_appenders: "LogDefine_eq d (d\<lparr>ld_appenders := as\<rparr>)"
  by (auto simp: LogDefine_eq_def LogAppenderDefine_eq_def intro: list_all2_refl)

subsection \<open>Properties\<close>

text \<open>
  A definition written to YAML and read again is the same but for the levels of its appenders,
  which the reader never looks at: they come back as \<open>UNKNOW\<close>.
\<close>

theorem LogDefine_roundtrip:
  assumes "yaml_laws api" "yaml_reads_back api (LogDefine_node d)" "ld_level d \<noteq> LEVEL_100"
    "\<And>a. a \<in> set (ld_appenders d) \<Longrightarrow> lad_type a = 1 \<or> lad_type a = 2 \<and> lad_file a = ''''"
  shows "rbind (LogDefine_to api d) (LogDefine_from api) =
    Inr (d\<lparr>ld_appenders := map (\<lambda>a. a\<lparr>lad_level := UNKNOW\<rparr>) (ld_appenders d)\<rparr>)"
  by (rule LogDefine_reads_back [OF assms])

definition demo_define :: log_define where
  "demo_define = \<lparr> ld_name = ''web'', ld_level = INFO, ld_formatter = ''%m%n'',
     ld_appenders = [\<lparr> lad_type = 1, lad_level = WARN, lad_formatter = '''', lad_file = ''web.log'' \<rparr>,
       \<lparr> lad_type = 2, lad_level = ERROR, lad_formatter = '''', lad_file = '''' \<rparr>] \<rparr>"

theorem LogDefine_roundtrip_witness:
  "rbind (LogDefine_to (table_api [(''doc'', LogDefine_node demo_define)]) demo_define)
     (LogDefine_from (table_api [(''doc'', LogDefine_node demo_define)])) =
   Inr (demo_define\<lparr>ld_appenders := map (\<lambda>a. a\<lparr>lad_level := UNKNOW\<rparr>) (ld_appenders demo_define)\<rparr>)"
  by (rule LogDefine_roundtrip [OF table_api_laws])
     (auto simp: yaml_reads_back_def table_api_def demo_define_def)



text \<open>
  A later change of the configuration does not take effect: when the new set defines the same
  names as the old one, the listener leaves every logger as it is, and a set that differs only in the
  appenders counts as equal, so that it is not even stored.
\<close>

theorem logging_config_changes_ignored:
  assumes "sorted_wrt LogDefine_less old" "sorted_wrt LogDefine_less new"
    "ld_name ` set old = ld_name ` set new"
  shows "LogIniter env old new w = Inr (w, None) \<and>
    (cv_eq cv = LogDefines_eq \<and> cv_val cv = [d] \<longrightarrow>
      ConfigVar_setValue [d\<lparr>ld_appenders := as\<rparr>] (cv, w) = Inr (cv, w, None))"
proof (intro conjI impI)
  have "oset_find LogDefine_less i old \<noteq> None" if "i \<in> set new" for i
    using assms(3) that by (subst oset_find_name [OF assms(1)]) auto
  moreover have "oset_find LogDefine_less i new \<noteq> None" if "i \<in> set old" for i
    using assms(3) that by (subst oset_find_name [OF assms(2)]) auto
  ultimately show "LogIniter env old new w = Inr (w, None)"
    by (simp add: LogIniter_def LogIniter_new_skips LogIniter_removed_skips)
next
  assume "cv_eq cv = LogDefines_eq \<and> cv_val cv = [d]"
  then show "ConfigVar_setValue [d\<lparr>ld_appenders := as\<rparr>] (cv, w) = Inr (cv, w, None)"
    by (simp add: ConfigVar_setValue_def LogDefines_eq_def LogDefine_eq_no_appenders)
qed

theorem logging_config_changes_ignored_witness:
  "LogIniter demo_env [demo_define] [demo_define\<lparr>ld_level := FATAL\<rparr>] demo_world = Inr (demo_world, None)"
  using logging_config_changes_ignored [of "[demo_define]" "[demo_define\<lparr>ld_level := FATAL\<rparr>]" demo_env demo_world]
  by simp

text \<open>
  Defining the logger \<open>root\<close> without appenders takes its appender away: from then on an event of
  the defined level or above, logged on the root or on any logger without appenders, dereferences the
  root's null \<open>m_root\<close>.
\<close>

theorem logging_config_root_undefined:
  assumes "log_wf w" "ld_name d = ''root''" "ld_appenders d = []" "ld_level d \<le> level"
  shows "\<exists>w'. LogIniter env [] [d] w = Inr (w', None) \<and>
    Logger_Log log_fuel env (m_root w') level e w' = Inl (Undefined ''null pointer'')"
proof -
  have g: "getLogger (ld_name d) w = (m_root w, w)"
    using log_wf_table(2) [OF assms(1)] assms(2) by (simp add: getLogger_def)
  obtain r where r: "w_loggers w (m_root w) = Some r" using log_wf_root [OF assms(1)] .
  obtain w' l where w': "LogIniter_define env d w = Inr w'" "log_wf w'" "m_root w' = m_root w"
    "w_loggers w' = (w_loggers w)(m_root w \<mapsto> l)" "lg_level l = ld_level d"
    "list_all2 (\<lambda>a q. \<exists>x. w_appenders w' q = Some x \<and> appender_built l a x) (ld_appenders d) (lg_appenders l)"
    using LogIniter_define_ok [OF assms(1) _ g r, of env] assms(3) by auto
  have l: "w_loggers w' (m_root w') = Some l" "lg_appenders l = []"
    using w'(3,4,6) assms(3) by simp_all
  have null: "lg_root l = nullptr" "w_loggers w' nullptr = None"
    using log_wf_logger(4) [OF w'(2) l(1)] log_wf_logger(3) [OF w'(2)] by (auto intro: ccontr)
  have "Logger_Log log_fuel env (m_root w') level e w' = Inl (Undefined ''null pointer'')"
    using l null w'(5) assms(4) by (simp add: log_fuel_def numeral_2_eq_2)
  with w'(1) show ?thesis by (auto simp: LogIniter_def)
qed

theorem logging_config_root_undefined_witness:
  "\<exists>w'. LogIniter demo_env [] [demo_define\<lparr>ld_name := ''root'', ld_appenders := []\<rparr>] demo_world = Inr (w', None) \<and>
    Logger_Log log_fuel demo_env (m_root w') ERROR (demo_event 5) w' = Inl (Undefined ''null pointer'')"
proof -
  have "log_wf demo_world" using inv_LoggerManager_ctor [OF demo_world_ctor] by simp
  then show ?thesis
    by (rule logging_config_root_undefined) (simp_all add: demo_define_def level_order)
qed

end
