(* ===== verification/Mutex.thy ===== *)
theory Mutex
  imports Prelude
begin

section \<open>Locks (mutex.h, mutex.cpp)\<close>

text \<open>
  The lock classes, the scoped locks that hold them, and the semaphore. A lock operation that would
  block is \<open>None\<close>: the thread stays where it is and the operation is tried again in a later state. A
  scoped lock is its flag \<open>m_locked\<close>; its operations take the operations of the lock class \<open>T\<close>.
  Locks are used by several threads, so that the properties are about the interleavings of their
  operations.
\<close>

type_synonym tid = nat

subsection \<open>Mutex, Spinlock, NullMutex, CASLock\<close>

text \<open>
  A POSIX mutex or spin lock is its owner. Unlocking one that another thread owns and destroying one
  that is locked are undefined.
\<close>

type_synonym pthread_mutex = "tid option"

definition Mutex_ctor :: pthread_mutex where
  "Mutex_ctor = None"

definition Mutex_dtor :: "pthread_mutex \<Rightarrow> unit res" where
  "Mutex_dtor m = (if m = None then Inr () else Inl (Undefined ''pthread_mutex_destroy''))"

definition Mutex_lock :: "tid \<Rightarrow> pthread_mutex \<Rightarrow> pthread_mutex option" where
  "Mutex_lock t m = (if m = None then Some (Some t) else None)"

definition Mutex_unlock :: "tid \<Rightarrow> pthread_mutex \<Rightarrow> pthread_mutex res" where
  "Mutex_unlock t m = (if m = Some t then Inr None else Inl (Undefined ''pthread_mutex_unlock''))"

definition Spinlock_ctor :: pthread_mutex where
  "Spinlock_ctor = None"

definition Spinlock_dtor :: "pthread_mutex \<Rightarrow> unit res" where
  "Spinlock_dtor m = (if m = None then Inr () else Inl (Undefined ''pthread_spin_destroy''))"

definition Spinlock_lock :: "tid \<Rightarrow> pthread_mutex \<Rightarrow> pthread_mutex option" where
  "Spinlock_lock t m = (if m = None then Some (Some t) else None)"

definition Spinlock_unlock :: "tid \<Rightarrow> pthread_mutex \<Rightarrow> pthread_mutex res" where
  "Spinlock_unlock t m = (if m = Some t then Inr None else Inl (Undefined ''pthread_spin_unlock''))"

definition NullMutex_lock :: "tid \<Rightarrow> unit \<Rightarrow> unit option" where
  "NullMutex_lock t m = Some ()"

definition NullMutex_unlock :: "tid \<Rightarrow> unit \<Rightarrow> unit res" where
  "NullMutex_unlock t m = Inr ()"

text \<open>
  \<open>CASLock\<close>: the flag, set and read in one atomic step. One iteration of the loop of \<open>lock\<close> leaves the
  loop when the flag was clear; otherwise it has set a flag that was set already.
\<close>

definition atomic_flag_test_and_set :: "bool \<Rightarrow> bool \<times> bool" where
  "atomic_flag_test_and_set flag = (flag, True)"

definition CASLock_ctor :: bool where
  "CASLock_ctor = False"

definition CASLock_lock :: "tid \<Rightarrow> bool \<Rightarrow> bool option" where
  "CASLock_lock t m = (case atomic_flag_test_and_set m of (old, m') \<Rightarrow> if old then None else Some m')"

definition CASLock_unlock :: "tid \<Rightarrow> bool \<Rightarrow> bool res" where
  "CASLock_unlock t m = Inr False"

subsection \<open>Scoped locks\<close>

definition Scoped_ctor :: "(tid \<Rightarrow> 'm \<Rightarrow> 'm option) \<Rightarrow> tid \<Rightarrow> 'm \<Rightarrow> (bool \<times> 'm) option" where
  "Scoped_ctor lock t m = map_option (\<lambda>m. (True, m)) (lock t m)"

text \<open>\<open>lock\<close> does not set \<open>m_locked\<close>.\<close>

definition Scoped_lock :: "(tid \<Rightarrow> 'm \<Rightarrow> 'm option) \<Rightarrow> tid \<Rightarrow> bool \<times> 'm \<Rightarrow> (bool \<times> 'm) option" where
  "Scoped_lock lock t = (\<lambda>(m_locked, m).
     if \<not> m_locked then map_option (\<lambda>m. (m_locked, m)) (lock t m) else Some (m_locked, m))"

definition Scoped_unlock :: "(tid \<Rightarrow> 'm \<Rightarrow> 'm res) \<Rightarrow> tid \<Rightarrow> bool \<times> 'm \<Rightarrow> (bool \<times> 'm) res" where
  "Scoped_unlock unlock t = (\<lambda>(m_locked, m).
     if m_locked then rbind (unlock t m) (\<lambda>m. Inr (False, m)) else Inr (m_locked, m))"

definition Scoped_dtor :: "(tid \<Rightarrow> 'm \<Rightarrow> 'm res) \<Rightarrow> tid \<Rightarrow> bool \<times> 'm \<Rightarrow> 'm res" where
  "Scoped_dtor unlock t gm = rbind (Scoped_unlock unlock t gm) (\<lambda>(_, m). Inr m)"

subsection \<open>RWMutex\<close>

record rwlock =
  rw_writer :: "tid option"
  rw_readers :: "tid list"

definition RWMutex_ctor :: rwlock where
  "RWMutex_ctor = \<lparr> rw_writer = None, rw_readers = [] \<rparr>"

definition RWMutex_dtor :: "rwlock \<Rightarrow> unit res" where
  "RWMutex_dtor m =
     (if rw_writer m = None \<and> rw_readers m = [] then Inr () else Inl (Undefined ''pthread_rwlock_destroy''))"

definition RWMutex_rdlock :: "tid \<Rightarrow> rwlock \<Rightarrow> rwlock option" where
  "RWMutex_rdlock t m = (if rw_writer m = None then Some (m\<lparr>rw_readers := t # rw_readers m\<rparr>) else None)"

definition RWMutex_wrlock :: "tid \<Rightarrow> rwlock \<Rightarrow> rwlock option" where
  "RWMutex_wrlock t m =
     (if rw_writer m = None \<and> rw_readers m = [] then Some (m\<lparr>rw_writer := Some t\<rparr>) else None)"

definition RWMutex_unlock :: "tid \<Rightarrow> rwlock \<Rightarrow> rwlock res" where
  "RWMutex_unlock t m =
     (if rw_writer m = Some t then Inr (m\<lparr>rw_writer := None\<rparr>)
      else if t \<in> set (rw_readers m) then Inr (m\<lparr>rw_readers := remove1 t (rw_readers m)\<rparr>)
      else Inl (Undefined ''pthread_rwlock_unlock''))"

definition NullRWMutex_rdlock :: "tid \<Rightarrow> unit \<Rightarrow> unit option" where
  "NullRWMutex_rdlock t m = Some ()"

definition NullRWMutex_wrlock :: "tid \<Rightarrow> unit \<Rightarrow> unit option" where
  "NullRWMutex_wrlock t m = Some ()"

definition NullRWMutex_unlock :: "tid \<Rightarrow> unit \<Rightarrow> unit res" where
  "NullRWMutex_unlock t m = Inr ()"

text \<open>The two scoped locks of a read-write lock; their \<open>lock\<close> sets \<open>m_locked\<close>.\<close>

definition ReadScoped_ctor :: "(tid \<Rightarrow> 'm \<Rightarrow> 'm option) \<Rightarrow> tid \<Rightarrow> 'm \<Rightarrow> (bool \<times> 'm) option" where
  "ReadScoped_ctor rdlock t m = map_option (\<lambda>m. (True, m)) (rdlock t m)"

definition ReadScoped_lock :: "(tid \<Rightarrow> 'm \<Rightarrow> 'm option) \<Rightarrow> tid \<Rightarrow> bool \<times> 'm \<Rightarrow> (bool \<times> 'm) option" where
  "ReadScoped_lock rdlock t = (\<lambda>(m_locked, m).
     if \<not> m_locked then map_option (\<lambda>m. (True, m)) (rdlock t m) else Some (m_locked, m))"

definition ReadScoped_unlock :: "(tid \<Rightarrow> 'm \<Rightarrow> 'm res) \<Rightarrow> tid \<Rightarrow> bool \<times> 'm \<Rightarrow> (bool \<times> 'm) res" where
  "ReadScoped_unlock unlock t = (\<lambda>(m_locked, m).
     if m_locked then rbind (unlock t m) (\<lambda>m. Inr (False, m)) else Inr (m_locked, m))"

definition ReadScoped_dtor :: "(tid \<Rightarrow> 'm \<Rightarrow> 'm res) \<Rightarrow> tid \<Rightarrow> bool \<times> 'm \<Rightarrow> 'm res" where
  "ReadScoped_dtor unlock t gm = rbind (ReadScoped_unlock unlock t gm) (\<lambda>(_, m). Inr m)"

definition WriteScoped_ctor :: "(tid \<Rightarrow> 'm \<Rightarrow> 'm option) \<Rightarrow> tid \<Rightarrow> 'm \<Rightarrow> (bool \<times> 'm) option" where
  "WriteScoped_ctor wrlock t m = map_option (\<lambda>m. (True, m)) (wrlock t m)"

definition WriteScoped_lock :: "(tid \<Rightarrow> 'm \<Rightarrow> 'm option) \<Rightarrow> tid \<Rightarrow> bool \<times> 'm \<Rightarrow> (bool \<times> 'm) option" where
  "WriteScoped_lock wrlock t = (\<lambda>(m_locked, m).
     if \<not> m_locked then map_option (\<lambda>m. (True, m)) (wrlock t m) else Some (m_locked, m))"

definition WriteScoped_unlock :: "(tid \<Rightarrow> 'm \<Rightarrow> 'm res) \<Rightarrow> tid \<Rightarrow> bool \<times> 'm \<Rightarrow> (bool \<times> 'm) res" where
  "WriteScoped_unlock unlock t = (\<lambda>(m_locked, m).
     if m_locked then rbind (unlock t m) (\<lambda>m. Inr (False, m)) else Inr (m_locked, m))"

definition WriteScoped_dtor :: "(tid \<Rightarrow> 'm \<Rightarrow> 'm res) \<Rightarrow> tid \<Rightarrow> bool \<times> 'm \<Rightarrow> 'm res" where
  "WriteScoped_dtor unlock t gm = rbind (WriteScoped_unlock unlock t gm) (\<lambda>(_, m). Inr m)"

subsection \<open>Semaphore\<close>

text \<open>
  The counter of a POSIX semaphore. \<open>sem_init\<close> refuses a value above \<open>SEM_VALUE_MAX\<close>, \<open>sem_post\<close> fails
  at it; \<open>sem_wait\<close> blocks at 0 (\<open>None\<close>) and fails when a signal handler interrupts it.
\<close>

definition SEM_VALUE_MAX :: u32 where
  "SEM_VALUE_MAX = 0x7FFFFFFF"

definition Semaphore_ctor :: "u32 \<Rightarrow> u32 res" where
  "Semaphore_ctor count = (if count > SEM_VALUE_MAX then Inl (Logic_error ''sem_init'') else Inr count)"

definition Semaphore_wait :: "bool \<Rightarrow> u32 \<Rightarrow> u32 option res" where
  "Semaphore_wait interrupted count =
     (if 0 < count then Inr (Some (count - 1))
      else if interrupted then Inl (Logic_error ''sem_wait'') else Inr None)"

definition Semaphore_notify :: "u32 \<Rightarrow> u32 res" where
  "Semaphore_notify count = (if count = SEM_VALUE_MAX then Inl (Logic_error ''sem_post'') else Inr (count + 1))"

subsection \<open>Threads with scoped locks\<close>

text \<open>
  Every thread has at most one scoped lock on the lock \<open>m\<close>: \<open>g t\<close> is its \<open>m_locked\<close>, or \<open>None\<close> when
  there is none. The threads construct, unlock and destroy their scoped locks in any interleaving.
\<close>

inductive scoped_reach ::
  "(tid \<Rightarrow> 'm \<Rightarrow> 'm option) \<Rightarrow> (tid \<Rightarrow> 'm \<Rightarrow> 'm res) \<Rightarrow> 'm \<Rightarrow> 'm \<Rightarrow> (tid \<Rightarrow> bool option) \<Rightarrow> bool"
  for lock unlock m0 where
  start: "scoped_reach lock unlock m0 m0 (\<lambda>_. None)"
| ctor: "scoped_reach lock unlock m0 m g \<Longrightarrow> g t = None \<Longrightarrow> Scoped_ctor lock t m = Some (b, m') \<Longrightarrow>
    scoped_reach lock unlock m0 m' (g(t := Some b))"
| unlock: "scoped_reach lock unlock m0 m g \<Longrightarrow> g t = Some b \<Longrightarrow> Scoped_unlock unlock t (b, m) = Inr (b', m') \<Longrightarrow>
    scoped_reach lock unlock m0 m' (g(t := Some b'))"
| dtor: "scoped_reach lock unlock m0 m g \<Longrightarrow> g t = Some b \<Longrightarrow> Scoped_dtor unlock t (b, m) = Inr m' \<Longrightarrow>
    scoped_reach lock unlock m0 m' (g(t := None))"

definition scoped_inv :: "('m \<Rightarrow> bool) \<Rightarrow> (tid \<Rightarrow> 'm \<Rightarrow> bool) \<Rightarrow> 'm \<Rightarrow> (tid \<Rightarrow> bool option) \<Rightarrow> bool" where
  "scoped_inv free mine m g \<longleftrightarrow> (\<forall>t. g t = Some True \<longrightarrow> mine t m) \<and>
     (\<forall>t u. g t = Some True \<and> g u = Some True \<longrightarrow> t = u) \<and> (free m \<longleftrightarrow> (\<forall>t. g t \<noteq> Some True))"

text \<open>What scoped locks on a lock class promise, in every reachable state.\<close>

definition excludes :: "(tid \<Rightarrow> 'm \<Rightarrow> 'm option) \<Rightarrow> (tid \<Rightarrow> 'm \<Rightarrow> 'm res) \<Rightarrow> 'm \<Rightarrow> bool" where
  "excludes lock unlock m0 \<longleftrightarrow> (\<forall>m g. scoped_reach lock unlock m0 m g \<longrightarrow>
     (\<forall>t u. g t = Some True \<and> g u = Some True \<longrightarrow> t = u) \<and>
     (\<forall>t b. g t = Some b \<longrightarrow> (\<exists>m'. Scoped_dtor unlock t (b, m) = Inr m')) \<and>
     (\<forall>t. Scoped_ctor lock t m \<noteq> None \<longleftrightarrow> (\<forall>u. g u \<noteq> Some True)))"

text \<open>
  The contract of a lock class: it can be locked exactly when it is free, is then not free and may be
  unlocked by the thread that locked it, which makes it free.
\<close>

locale lockable =
  fixes lock :: "tid \<Rightarrow> 'm \<Rightarrow> 'm option"
    and unlock :: "tid \<Rightarrow> 'm \<Rightarrow> 'm res"
    and free :: "'m \<Rightarrow> bool"
    and mine :: "tid \<Rightarrow> 'm \<Rightarrow> bool"
  assumes lock_free: "free m \<Longrightarrow> \<exists>m'. lock t m = Some m' \<and> \<not> free m' \<and> mine t m'"
    and lock_busy: "\<not> free m \<Longrightarrow> lock t m = None"
    and unlock_mine: "mine t m \<Longrightarrow> \<exists>m'. unlock t m = Inr m' \<and> free m'"
begin

lemma lock_SomeD: "lock t m = Some m' \<Longrightarrow> free m \<and> \<not> free m' \<and> mine t m'"
  using lock_free [of m t] lock_busy [of m t] by (cases "free m") auto

lemma unlock_mineD: "mine t m \<Longrightarrow> unlock t m = Inr m' \<Longrightarrow> free m'"
  using unlock_mine by fastforce

lemma inv_acquire:
  assumes "scoped_inv free mine m g" "lock t m = Some m'"
  shows "scoped_inv free mine m' (g(t := Some True))"
  using assms(1) lock_SomeD [OF assms(2)] by (simp add: scoped_inv_def)

lemma inv_release:
  assumes "scoped_inv free mine m g" "g t = Some b" "x \<noteq> Some True"
  shows "\<exists>m'. Scoped_unlock unlock t (b, m) = Inr (False, m') \<and> scoped_inv free mine m' (g(t := x))"
proof (cases b)
  case True
  then have "mine t m" "\<forall>u. u \<noteq> t \<longrightarrow> g u \<noteq> Some True" using assms(1,2) by (auto simp: scoped_inv_def)
  then show ?thesis
    using True assms(3) unlock_mine [of t m] by (auto simp: scoped_inv_def Scoped_unlock_def)
next
  case False
  with assms(2,3) have same: "(g(t := x)) u = Some True \<longleftrightarrow> g u = Some True" for u by simp
  have "scoped_inv free mine m (g(t := x))" using assms(1) unfolding scoped_inv_def same .
  with False show ?thesis by (simp add: Scoped_unlock_def)
qed

lemma reach_inv:
  assumes "scoped_reach lock unlock m0 m g" "free m0"
  shows "scoped_inv free mine m g"
  using assms
proof (induction rule: scoped_reach.induct)
  case start
  then show ?case by (simp add: scoped_inv_def)
next
  case (ctor m g t b m')
  then have "lock t m = Some m'" "b = True" by (auto simp: Scoped_ctor_def)
  with inv_acquire [of m g t m'] ctor show ?case by (simp add: fun_upd_def)
next
  case (unlock m g t b b' m')
  then show ?case using inv_release [of m g t b "Some False"] by (auto simp: fun_upd_def)
next
  case (dtor m g t b m')
  then show ?case using inv_release [of m g t b None] by (auto simp: Scoped_dtor_def fun_upd_def)
qed

lemma reach_release:
  assumes "scoped_reach lock unlock m0 m g" "free m0" "g t = Some b"
  shows "\<exists>m'. Scoped_dtor unlock t (b, m) = Inr m'"
  using inv_release [OF reach_inv [OF assms(1,2)] assms(3), of None] by (auto simp: Scoped_dtor_def)

lemma reach_free: "scoped_reach lock unlock m0 m g \<Longrightarrow> free m0 \<Longrightarrow> free m \<longleftrightarrow> (\<forall>t. g t \<noteq> Some True)"
  using reach_inv by (simp add: scoped_inv_def)

lemma reach_acquire:
  assumes "scoped_reach lock unlock m0 m g" "free m0"
  shows "Scoped_ctor lock t m \<noteq> None \<longleftrightarrow> (\<forall>u. g u \<noteq> Some True)"
  using reach_inv [OF assms] lock_free [of m t] lock_busy [of m t]
  by (cases "free m") (auto simp: Scoped_ctor_def scoped_inv_def)

lemma reach_excludes:
  assumes "free m0"
  shows "excludes lock unlock m0"
  unfolding excludes_def
proof (intro allI impI)
  fix m g
  assume r: "scoped_reach lock unlock m0 m g"
  show "(\<forall>t u. g t = Some True \<and> g u = Some True \<longrightarrow> t = u) \<and>
     (\<forall>t b. g t = Some b \<longrightarrow> (\<exists>m'. Scoped_dtor unlock t (b, m) = Inr m')) \<and>
     (\<forall>t. Scoped_ctor lock t m \<noteq> None \<longleftrightarrow> (\<forall>u. g u \<noteq> Some True))"
    using reach_inv [OF r assms] reach_release [OF r assms] reach_acquire [OF r assms]
    unfolding scoped_inv_def by blast
qed

text \<open>A scoped lock that is unlocked and locked again does not release the lock it holds.\<close>

lemma relock_leaks:
  assumes "free m"
  shows "\<exists>m1 m2 m3. Scoped_ctor lock t m = Some (True, m1) \<and> Scoped_unlock unlock t (True, m1) = Inr (False, m2) \<and>
    Scoped_lock lock t (False, m2) = Some (False, m3) \<and> Scoped_dtor unlock t (False, m3) = Inr m3 \<and>
    (\<forall>u. Scoped_ctor lock u m3 = None)"
proof -
  obtain m1 where m1: "lock t m = Some m1" "mine t m1" using lock_free [OF assms] by blast
  obtain m2 where m2: "unlock t m1 = Inr m2" "free m2" using unlock_mine [OF m1(2)] by blast
  obtain m3 where m3: "lock t m2 = Some m3" "\<not> free m3" using lock_free [OF m2(2)] by blast
  show ?thesis
    using m1 m2 m3 lock_busy
    by (simp add: Scoped_ctor_def Scoped_unlock_def Scoped_lock_def Scoped_dtor_def)
qed

end

interpretation mx: lockable Mutex_lock Mutex_unlock "\<lambda>m. m = None" "\<lambda>t m. m = Some t"
  by unfold_locales (auto simp: Mutex_lock_def Mutex_unlock_def)

interpretation sp: lockable Spinlock_lock Spinlock_unlock "\<lambda>m. m = None" "\<lambda>t m. m = Some t"
  by unfold_locales (auto simp: Spinlock_lock_def Spinlock_unlock_def)

interpretation cas: lockable CASLock_lock CASLock_unlock "\<lambda>m. \<not> m" "\<lambda>t m. m"
  by unfold_locales (auto simp: CASLock_lock_def CASLock_unlock_def atomic_flag_test_and_set_def)

subsection \<open>Threads with read and write locks\<close>

text \<open>
  \<open>g t = Some (write, m_locked)\<close>: thread \<open>t\<close> has a write or a read lock object. The threads may also
  call \<open>lock\<close> and \<open>unlock\<close> on it.
\<close>

definition RW_ctor :: "bool \<Rightarrow> tid \<Rightarrow> rwlock \<Rightarrow> (bool \<times> rwlock) option" where
  "RW_ctor wr t m = (if wr then WriteScoped_ctor RWMutex_wrlock t m else ReadScoped_ctor RWMutex_rdlock t m)"

definition RW_lock :: "bool \<Rightarrow> tid \<Rightarrow> bool \<times> rwlock \<Rightarrow> (bool \<times> rwlock) option" where
  "RW_lock wr t gm = (if wr then WriteScoped_lock RWMutex_wrlock t gm else ReadScoped_lock RWMutex_rdlock t gm)"

definition RW_unlock :: "bool \<Rightarrow> tid \<Rightarrow> bool \<times> rwlock \<Rightarrow> (bool \<times> rwlock) res" where
  "RW_unlock wr t gm = (if wr then WriteScoped_unlock RWMutex_unlock t gm else ReadScoped_unlock RWMutex_unlock t gm)"

definition RW_dtor :: "bool \<Rightarrow> tid \<Rightarrow> bool \<times> rwlock \<Rightarrow> rwlock res" where
  "RW_dtor wr t gm = (if wr then WriteScoped_dtor RWMutex_unlock t gm else ReadScoped_dtor RWMutex_unlock t gm)"

lemma RW_dtor_unlock: "RW_dtor wr t gm = rbind (RW_unlock wr t gm) (\<lambda>(_, m). Inr m)"
  by (simp add: RW_dtor_def RW_unlock_def WriteScoped_dtor_def ReadScoped_dtor_def)

inductive rw_reach :: "rwlock \<Rightarrow> (tid \<Rightarrow> (bool \<times> bool) option) \<Rightarrow> bool" where
  start: "rw_reach RWMutex_ctor (\<lambda>_. None)"
| ctor: "rw_reach m g \<Longrightarrow> g t = None \<Longrightarrow> RW_ctor wr t m = Some (b, m') \<Longrightarrow> rw_reach m' (g(t := Some (wr, b)))"
| lock: "rw_reach m g \<Longrightarrow> g t = Some (wr, b) \<Longrightarrow> RW_lock wr t (b, m) = Some (b', m') \<Longrightarrow>
    rw_reach m' (g(t := Some (wr, b')))"
| unlock: "rw_reach m g \<Longrightarrow> g t = Some (wr, b) \<Longrightarrow> RW_unlock wr t (b, m) = Inr (b', m') \<Longrightarrow>
    rw_reach m' (g(t := Some (wr, b')))"
| dtor: "rw_reach m g \<Longrightarrow> g t = Some (wr, b) \<Longrightarrow> RW_dtor wr t (b, m) = Inr m' \<Longrightarrow> rw_reach m' (g(t := None))"

definition rw_inv :: "rwlock \<Rightarrow> (tid \<Rightarrow> (bool \<times> bool) option) \<Rightarrow> bool" where
  "rw_inv m g \<longleftrightarrow> (\<forall>t. rw_writer m = Some t \<longleftrightarrow> g t = Some (True, True)) \<and>
     (\<forall>t. t \<in> set (rw_readers m) \<longleftrightarrow> g t = Some (False, True)) \<and> distinct (rw_readers m) \<and>
     (rw_writer m \<noteq> None \<longrightarrow> rw_readers m = [])"

lemmas rw_defs = RW_ctor_def RW_lock_def RW_unlock_def WriteScoped_ctor_def ReadScoped_ctor_def WriteScoped_lock_def
  ReadScoped_lock_def WriteScoped_unlock_def ReadScoped_unlock_def RWMutex_rdlock_def RWMutex_wrlock_def

text \<open>Taking and releasing, for a thread that holds nothing before and nothing after.\<close>

lemma rw_inv_take:
  assumes "rw_inv m g" "g t \<noteq> Some (True, True)" "g t \<noteq> Some (False, True)"
  shows "RWMutex_wrlock t m = Some m' \<Longrightarrow> rw_inv m' (g(t := Some (True, True)))"
    "RWMutex_rdlock t m = Some m' \<Longrightarrow> rw_inv m' (g(t := Some (False, True)))"
  using assms by (auto simp: rw_inv_def RWMutex_wrlock_def RWMutex_rdlock_def split: if_splits)

lemma rw_inv_release:
  assumes "rw_inv m g" "g t = Some (wr, True)" "x \<noteq> Some (True, True)" "x \<noteq> Some (False, True)"
  shows "\<exists>m'. RWMutex_unlock t m = Inr m' \<and> rw_inv m' (g(t := x))"
proof (cases wr)
  case True
  then have "rw_writer m = Some t" using assms(1,2) by (simp add: rw_inv_def)
  then show ?thesis using assms by (auto simp: rw_inv_def RWMutex_unlock_def)
next
  case False
  then have "t \<in> set (rw_readers m)" "rw_writer m \<noteq> Some t" using assms(1,2) by (auto simp: rw_inv_def)
  then show ?thesis using assms by (auto simp: rw_inv_def RWMutex_unlock_def)
qed

lemma rw_inv_idle:
  assumes "rw_inv m g" "g t \<noteq> Some (True, True)" "g t \<noteq> Some (False, True)"
    "x \<noteq> Some (True, True)" "x \<noteq> Some (False, True)"
  shows "rw_inv m (g(t := x))"
  using assms by (auto simp: rw_inv_def)

lemma rw_inv_free: "rw_inv m g \<Longrightarrow> rw_writer m = None \<and> rw_readers m = [] \<longleftrightarrow> (\<forall>t wr. g t \<noteq> Some (wr, True))"
proof -
  assume i: "rw_inv m g"
  then have "rw_writer m = None \<longleftrightarrow> (\<forall>t. g t \<noteq> Some (True, True))" by (cases "rw_writer m") (auto simp: rw_inv_def)
  moreover have "rw_readers m = [] \<longleftrightarrow> (\<forall>t. g t \<noteq> Some (False, True))"
    using i by (cases "rw_readers m") (auto simp: rw_inv_def)
  ultimately show ?thesis by (metis (full_types))
qed

lemma RW_unlock_inv:
  assumes "rw_inv m g" "g t = Some (wr, b)" "x \<noteq> Some (True, True)" "x \<noteq> Some (False, True)"
  shows "\<exists>m'. RW_unlock wr t (b, m) = Inr (False, m') \<and> rw_inv m' (g(t := x))"
proof (cases b)
  case True
  then obtain m' where "RWMutex_unlock t m = Inr m'" "rw_inv m' (g(t := x))"
    using rw_inv_release [OF assms(1) _ assms(3,4), of t wr] assms(2) by auto
  with True show ?thesis by (simp add: RW_unlock_def WriteScoped_unlock_def ReadScoped_unlock_def)
next
  case False
  then show ?thesis
    using rw_inv_idle [OF assms(1) _ _ assms(3,4)] assms(2)
    by (simp add: RW_unlock_def WriteScoped_unlock_def ReadScoped_unlock_def)
qed

lemma rw_reach_inv: "rw_reach m g \<Longrightarrow> rw_inv m g"
proof (induction rule: rw_reach.induct)
  case start
  then show ?case by (simp add: RWMutex_ctor_def rw_inv_def)
next
  case (ctor m g t wr b m')
  then have "b = True" "(if wr then RWMutex_wrlock t m else RWMutex_rdlock t m) = Some m'"
    by (auto simp: RW_ctor_def WriteScoped_ctor_def ReadScoped_ctor_def split: if_splits)
  then show ?case using rw_inv_take [OF ctor.IH, of t m'] ctor.hyps by (cases wr) (simp_all add: fun_upd_def)
next
  case (lock m g t wr b b' m')
  show ?case
  proof (cases b)
    case True
    then have "m' = m" "b' = b" using lock.hyps by (auto simp: RW_lock_def WriteScoped_lock_def ReadScoped_lock_def split: if_splits)
    moreover have "(\<lambda>a. if a = t then Some (wr, b) else g a) = g" using lock.hyps by auto
    ultimately show ?thesis using lock.IH by (simp add: fun_upd_def)
  next
    case False
    then have "b' = True" "(if wr then RWMutex_wrlock t m else RWMutex_rdlock t m) = Some m'"
      using lock.hyps by (auto simp: RW_lock_def WriteScoped_lock_def ReadScoped_lock_def split: if_splits)
    then show ?thesis using rw_inv_take [OF lock.IH, of t m'] lock.hyps False by (cases wr) (simp_all add: fun_upd_def)
  qed
next
  case (unlock m g t wr b b' m')
  then show ?case using RW_unlock_inv [of m g t wr b "Some (wr, False)"] by (auto simp: fun_upd_def)
next
  case (dtor m g t wr b m')
  then show ?case using RW_unlock_inv [of m g t wr b None] by (auto simp: fun_upd_def RW_dtor_unlock)
qed

subsection \<open>Properties\<close>

text \<open>
  C27. Mutual exclusion. Under every interleaving of threads that construct, unlock and destroy scoped
  locks on a Mutex, a Spinlock or a CASLock, at most one thread holds the lock, destroying a scoped
  lock never unlocks a lock of another thread, and a thread can take the lock exactly when no scoped
  lock holds it.
\<close>

theorem mutex_exclusion:
  "excludes Mutex_lock Mutex_unlock Mutex_ctor \<and> excludes Spinlock_lock Spinlock_unlock Spinlock_ctor \<and>
   excludes CASLock_lock CASLock_unlock CASLock_ctor"
  using mx.reach_excludes [of Mutex_ctor] sp.reach_excludes [of Spinlock_ctor] cas.reach_excludes [of CASLock_ctor]
  by (simp add: Mutex_ctor_def Spinlock_ctor_def CASLock_ctor_def)

text \<open>
  A scoped lock that is unlocked and locked again. \<open>ScopedLockImpl::lock\<close> takes the lock without
  setting \<open>m_locked\<close>, so that the destructor does not release it: afterwards no thread, the same one
  included, can ever take the lock.
\<close>

theorem scoped_relock_leaks:
  "(\<exists>m1 m2 m3. Scoped_ctor Mutex_lock t Mutex_ctor = Some (True, m1) \<and>
      Scoped_unlock Mutex_unlock t (True, m1) = Inr (False, m2) \<and> Scoped_lock Mutex_lock t (False, m2) = Some (False, m3) \<and>
      Scoped_dtor Mutex_unlock t (False, m3) = Inr m3 \<and> (\<forall>u. Scoped_ctor Mutex_lock u m3 = None)) \<and>
   (\<exists>m1 m2 m3. Scoped_ctor CASLock_lock t CASLock_ctor = Some (True, m1) \<and>
      Scoped_unlock CASLock_unlock t (True, m1) = Inr (False, m2) \<and> Scoped_lock CASLock_lock t (False, m2) = Some (False, m3) \<and>
      Scoped_dtor CASLock_unlock t (False, m3) = Inr m3 \<and> (\<forall>u. Scoped_ctor CASLock_lock u m3 = None))"
  using mx.relock_leaks [of Mutex_ctor t] cas.relock_leaks [of CASLock_ctor t]
  by (simp add: Mutex_ctor_def CASLock_ctor_def)

text \<open>
  C28. Readers and writers. Under every interleaving of threads that construct, lock, unlock and destroy
  read and write locks on an RWMutex: a thread that holds a write lock is the only one that holds any
  lock; releasing never fails; a read lock can be taken exactly when no thread holds a write lock, a
  write lock exactly when no thread holds a lock.
\<close>

theorem rw_exclusion:
  assumes "rw_reach m g"
  shows "(g t = Some (True, True) \<and> g u = Some (wr, True) \<longrightarrow> t = u) \<and>
    (g t = Some (wr, b) \<longrightarrow> (\<exists>m'. RW_unlock wr t (b, m) = Inr (False, m'))) \<and>
    (RW_ctor False t m \<noteq> None \<longleftrightarrow> (\<forall>u. g u \<noteq> Some (True, True))) \<and>
    (RW_ctor True t m \<noteq> None \<longleftrightarrow> (\<forall>u wr. g u \<noteq> Some (wr, True)))"
proof -
  have inv: "rw_inv m g" using rw_reach_inv [OF assms] .
  have w: "rw_writer m = None \<longleftrightarrow> (\<forall>u. g u \<noteq> Some (True, True))"
    using inv by (cases "rw_writer m") (auto simp: rw_inv_def)
  have r: "rw_readers m = [] \<longleftrightarrow> (\<forall>u. g u \<noteq> Some (False, True))"
  proof -
    have "rw_readers m = [] \<longleftrightarrow> (\<forall>u. u \<notin> set (rw_readers m))" by auto
    also have "\<dots> \<longleftrightarrow> (\<forall>u. g u \<noteq> Some (False, True))" using inv by (simp add: rw_inv_def)
    finally show ?thesis .
  qed
  have "t = u" if "g t = Some (True, True)" "g u = Some (wr, True)"
  proof -
    have "rw_writer m = Some t" "rw_readers m = []" using inv that(1) by (auto simp: rw_inv_def)
    with that(2) r inv show ?thesis by (cases wr) (auto simp: rw_inv_def)
  qed
  moreover have "\<exists>m'. RW_unlock wr t (b, m) = Inr (False, m')" if "g t = Some (wr, b)"
    using RW_unlock_inv [OF inv that, of None] by auto
  moreover have "RW_ctor False t m \<noteq> None \<longleftrightarrow> (\<forall>u. g u \<noteq> Some (True, True))"
    using w by (simp add: RW_ctor_def ReadScoped_ctor_def RWMutex_rdlock_def)
  moreover have "RW_ctor True t m \<noteq> None \<longleftrightarrow> (\<forall>u wr. g u \<noteq> Some (wr, True))"
    using rw_inv_free [OF inv] by (simp add: RW_ctor_def WriteScoped_ctor_def RWMutex_wrlock_def)
  ultimately show ?thesis by blast
qed

theorem rw_exclusion_witness:
  "\<exists>m g. rw_reach m g \<and> g 1 = Some (False, True) \<and> g 2 = Some (False, True) \<and> RW_ctor True 3 m = None \<and>
     RW_ctor False 3 m \<noteq> None"
proof -
  have 1: "rw_reach \<lparr> rw_writer = None, rw_readers = [1] \<rparr> ((\<lambda>_. None)(1 := Some (False, True)))"
    by (rule rw_reach.ctor [OF rw_reach.start])
      (simp_all add: RW_ctor_def ReadScoped_ctor_def RWMutex_rdlock_def RWMutex_ctor_def)
  have 2: "rw_reach \<lparr> rw_writer = None, rw_readers = [2, 1] \<rparr>
      ((\<lambda>_. None)(1 := Some (False, True), 2 := Some (False, True)))"
    by (rule rw_reach.ctor [OF 1]) (simp_all add: RW_ctor_def ReadScoped_ctor_def RWMutex_rdlock_def)
  let ?g = "(\<lambda>_. None)(1 := Some (False, True), 2 := Some (False, True)) :: tid \<Rightarrow> (bool \<times> bool) option"
  have g: "?g 1 = Some (False, True)" "?g 2 = Some (False, True)" "\<forall>u. ?g u \<noteq> Some (True, True)" by simp_all
  then have "\<not> (\<forall>u wr. ?g u \<noteq> Some (wr, True))" by blast
  with rw_exclusion [OF 2, of 3] g 2 show ?thesis by blast
qed

text \<open>
  Destroying a lock. In every state that threads reach with their scoped locks, the destructor of the lock
  is defined exactly when no scoped lock holds it.
\<close>

theorem destroy_unheld:
  "scoped_reach Mutex_lock Mutex_unlock Mutex_ctor m g \<Longrightarrow> Mutex_dtor m = Inr () \<longleftrightarrow> (\<forall>t. g t \<noteq> Some True)"
  "scoped_reach Spinlock_lock Spinlock_unlock Spinlock_ctor m g \<Longrightarrow> Spinlock_dtor m = Inr () \<longleftrightarrow> (\<forall>t. g t \<noteq> Some True)"
  "rw_reach r k \<Longrightarrow> RWMutex_dtor r = Inr () \<longleftrightarrow> (\<forall>t wr. k t \<noteq> Some (wr, True))"
  using mx.reach_free [of Mutex_ctor m g] sp.reach_free [of Spinlock_ctor m g] rw_inv_free [OF rw_reach_inv, of r k]
  by (auto simp: Mutex_ctor_def Spinlock_ctor_def Mutex_dtor_def Spinlock_dtor_def RWMutex_dtor_def)

end
