(* ===== verification/Thread.thy ===== *)
theory Thread
  imports Mutex Text
begin

section \<open>Threads (thread.h, thread.cpp)\<close>

text \<open>
  The class \<open>Thread\<close> and its start: the constructor creates the POSIX thread and waits on the
  object's semaphore, the new thread runs \<open>Thread::run\<close> line by line. The two run concurrently, so
  that the start is a step relation over a program counter for each. The object is \<open>None\<close> once it is
  destroyed.
\<close>

subsection \<open>The object and the thread-local variables\<close>

record 'cb thread =
  th_id :: int
  th_thread :: nat
  th_cb :: "'cb option"
  th_name :: string
  th_semaphore :: u32

definition Thread_members :: "'cb \<Rightarrow> string \<Rightarrow> 'cb thread" where
  "Thread_members cb name =
     \<lparr> th_id = - 1, th_thread = 0, th_cb = Some cb, th_name = (if name = [] then ''UNKNOW'' else name),
       th_semaphore = 0 \<rparr>"

text \<open>\<open>t_thread\<close>, \<open>t_thread_name\<close>, and the name the system has for the thread.\<close>

record thread_locals =
  t_thread :: ptr
  t_thread_name :: string
  pthread_name :: string

definition initial_locals :: thread_locals where
  "initial_locals = \<lparr> t_thread = nullptr, t_thread_name = ''UNKNOW'', pthread_name = [] \<rparr>"

definition Thread_GetName :: "thread_locals \<Rightarrow> string" where
  "Thread_GetName l = t_thread_name l"

definition Thread_GetThis :: "thread_locals \<Rightarrow> ptr" where
  "Thread_GetThis l = t_thread l"

text \<open>\<open>SetName\<close> writes to the thread's object, which may have been destroyed.\<close>

definition Thread_SetName ::
  "string \<Rightarrow> thread_locals \<times> (ptr \<rightharpoonup> 'cb thread) \<Rightarrow> (thread_locals \<times> (ptr \<rightharpoonup> 'cb thread)) res" where
  "Thread_SetName name = (\<lambda>(l, H).
     if name = [] then Inr (l, H)
     else if t_thread l \<noteq> nullptr then
       (case H (t_thread l) of
          None \<Rightarrow> Inl (Undefined ''destroyed Thread accessed'')
        | Some th \<Rightarrow> Inr (l\<lparr>t_thread_name := name\<rparr>, H(t_thread l \<mapsto> th\<lparr>th_name := name\<rparr>)))
     else Inr (l\<lparr>t_thread_name := name\<rparr>, H))"

text \<open>\<open>rt\<close> is what \<open>pthread_join\<close> returns; the second result of the destructor: the thread is detached.\<close>

definition Thread_join :: "int \<Rightarrow> 'cb thread \<Rightarrow> 'cb thread res" where
  "Thread_join rt th =
     (if th_thread th \<noteq> 0 then
        if rt \<noteq> 0 then Inl (Logic_error ''pthread_join error'') else Inr (th\<lparr>th_thread := 0\<rparr>)
      else Inr th)"

definition Thread_dtor :: "'cb thread \<Rightarrow> bool" where
  "Thread_dtor th \<longleftrightarrow> th_thread th \<noteq> 0"

subsection \<open>The start\<close>

text \<open>Where the constructor is, and which line of \<open>run\<close> the new thread executes next.\<close>

datatype ctor_pc = P_create | P_wait | P_done | P_thrown

datatype run_pc = C_none | C_thread | C_name | C_id | C_setname | C_swap | C_notify | C_cb | C_end

record 'cb start_state =
  st_obj :: "'cb thread option"
  st_ctor :: ctor_pc
  st_run :: run_pc
  st_locals :: thread_locals
  st_cb :: "'cb option"
  st_calls :: "'cb list"

definition start_init :: "'cb \<Rightarrow> string \<Rightarrow> 'cb start_state" where
  "start_init cb name =
     \<lparr> st_obj = Some (Thread_members cb name), st_ctor = P_create, st_run = C_none, st_locals = initial_locals,
       st_cb = None, st_calls = [] \<rparr>"

definition use_obj :: "('cb thread \<Rightarrow> 'cb start_state res) \<Rightarrow> 'cb start_state \<Rightarrow> 'cb start_state res" where
  "use_obj f s = (case st_obj s of None \<Rightarrow> Inl (Undefined ''destroyed Thread accessed'') | Some th \<Rightarrow> f th)"

text \<open>
  The constructor: \<open>rt\<close> and \<open>pt\<close> are the result and the handle of \<open>pthread_create\<close>, \<open>interrupted\<close> says
  that a signal interrupts \<open>sem_wait\<close>. An exception destroys the members. \<open>None\<close>: it is blocked, or
  has ended.
\<close>

definition ctor_step :: "int \<Rightarrow> nat \<Rightarrow> bool \<Rightarrow> 'cb start_state \<Rightarrow> 'cb start_state option" where
  "ctor_step rt pt interrupted s =
     (case (st_ctor s, st_obj s) of
        (P_create, Some th) \<Rightarrow>
          if rt \<noteq> 0 then Some (s\<lparr>st_ctor := P_thrown, st_obj := None\<rparr>)
          else Some (s\<lparr>st_ctor := P_wait, st_run := C_thread, st_obj := Some (th\<lparr>th_thread := pt\<rparr>)\<rparr>)
      | (P_wait, Some th) \<Rightarrow>
          (case Semaphore_wait interrupted (th_semaphore th) of
             Inl _ \<Rightarrow> Some (s\<lparr>st_ctor := P_thrown, st_obj := None\<rparr>)
           | Inr None \<Rightarrow> None
           | Inr (Some c) \<Rightarrow> Some (s\<lparr>st_ctor := P_done, st_obj := Some (th\<lparr>th_semaphore := c\<rparr>)\<rparr>))
      | _ \<Rightarrow> None)"

text \<open>\<open>run\<close>, one line at a time; \<open>this\<close> is the address of the object, \<open>tid\<close> what \<open>GetThreadId\<close> returns.\<close>

definition run_step :: "ptr \<Rightarrow> int \<Rightarrow> 'cb start_state \<Rightarrow> 'cb start_state res" where
  "run_step this tid s =
     (case st_run s of
        C_none \<Rightarrow> Inr s
      | C_thread \<Rightarrow> Inr (s\<lparr>st_run := C_name, st_locals := (st_locals s)\<lparr>t_thread := this\<rparr>\<rparr>)
      | C_name \<Rightarrow> use_obj (\<lambda>th.
          Inr (s\<lparr>st_run := C_id, st_locals := (st_locals s)\<lparr>t_thread_name := th_name th\<rparr>\<rparr>)) s
      | C_id \<Rightarrow> use_obj (\<lambda>th. Inr (s\<lparr>st_run := C_setname, st_obj := Some (th\<lparr>th_id := tid\<rparr>)\<rparr>)) s
      | C_setname \<Rightarrow> use_obj (\<lambda>th.
          Inr (s\<lparr>st_run := C_swap, st_locals := (st_locals s)\<lparr>pthread_name := c_str (take 15 (th_name th))\<rparr>\<rparr>)) s
      | C_swap \<Rightarrow> use_obj (\<lambda>th.
          Inr (s\<lparr>st_run := C_notify, st_cb := th_cb th, st_obj := Some (th\<lparr>th_cb := None\<rparr>)\<rparr>)) s
      | C_notify \<Rightarrow> use_obj (\<lambda>th.
          rbind (Semaphore_notify (th_semaphore th)) (\<lambda>c.
            Inr (s\<lparr>st_run := C_cb, st_obj := Some (th\<lparr>th_semaphore := c\<rparr>)\<rparr>))) s
      | C_cb \<Rightarrow>
          (case st_cb s of
             None \<Rightarrow> Inl (Std_exception ''bad_function_call'')
           | Some cb \<Rightarrow> Inr (s\<lparr>st_run := C_end, st_calls := st_calls s @ [cb]\<rparr>))
      | C_end \<Rightarrow> Inr s)"

text \<open>
  The steps of the constructor and of the new thread in any order, without signals; once the
  constructor has returned, its caller may destroy the object at any time.
\<close>

inductive start_reach :: "ptr \<Rightarrow> int \<Rightarrow> 'cb \<Rightarrow> string \<Rightarrow> 'cb start_state \<Rightarrow> bool" for this tid cb name where
  start: "start_reach this tid cb name (start_init cb name)"
| ctor: "start_reach this tid cb name s \<Longrightarrow> ctor_step rt pt False s = Some s' \<Longrightarrow> start_reach this tid cb name s'"
| run: "start_reach this tid cb name s \<Longrightarrow> run_step this tid s = Inr s' \<Longrightarrow> start_reach this tid cb name s'"
| destroy: "start_reach this tid cb name s \<Longrightarrow> st_ctor s = P_done \<Longrightarrow>
    start_reach this tid cb name (s\<lparr>st_obj := None\<rparr>)"

definition run_index :: "run_pc \<Rightarrow> nat" where
  "run_index pc = (case pc of C_none \<Rightarrow> 0 | C_thread \<Rightarrow> 1 | C_name \<Rightarrow> 2 | C_id \<Rightarrow> 3 | C_setname \<Rightarrow> 4 | C_swap \<Rightarrow> 5
     | C_notify \<Rightarrow> 6 | C_cb \<Rightarrow> 7 | C_end \<Rightarrow> 8)"

text \<open>What each line of \<open>run\<close> has established.\<close>

definition start_inv :: "ptr \<Rightarrow> int \<Rightarrow> 'cb \<Rightarrow> string \<Rightarrow> 'cb start_state \<Rightarrow> bool" where
  "start_inv this tid cb name s \<longleftrightarrow>
     (let i = run_index (st_run s); nm = th_name (Thread_members cb name) in
      (case st_obj s of
         None \<Rightarrow> st_ctor s = P_thrown \<or> st_ctor s = P_done
       | Some th \<Rightarrow> st_ctor s \<noteq> P_thrown \<and> th_name th = nm \<and> (3 < i \<longrightarrow> th_id th = tid) \<and>
           th_cb th = (if 5 < i then None else Some cb) \<and>
           th_semaphore th = (if 6 < i \<and> st_ctor s = P_wait then 1 else 0)) \<and>
      (st_ctor s = P_done \<longrightarrow> 6 < i) \<and> (st_ctor s = P_create \<or> st_ctor s = P_thrown \<longleftrightarrow> i = 0) \<and>
      (1 < i \<longrightarrow> t_thread (st_locals s) = this) \<and> (2 < i \<longrightarrow> t_thread_name (st_locals s) = nm) \<and>
      (4 < i \<longrightarrow> pthread_name (st_locals s) = c_str (take 15 nm)) \<and>
      (5 < i \<longrightarrow> st_cb s = Some cb) \<and> st_calls s = (if i = 8 then [cb] else []))"

lemma start_inv_ctor:
  assumes "start_inv this tid cb name s" "ctor_step rt pt False s = Some s'"
  shows "start_inv this tid cb name s'"
proof -
  obtain th where th: "st_obj s = Some th" and pc: "st_ctor s = P_create \<or> st_ctor s = P_wait"
    using assms(2) by (auto simp: ctor_step_def split: ctor_pc.splits option.splits)
  from pc show ?thesis
  proof
    assume pc: "st_ctor s = P_create"
    then show ?thesis
      using assms th by (auto simp: ctor_step_def start_inv_def run_index_def Let_def split: if_splits)
  next
    assume pc: "st_ctor s = P_wait"
    then have "th_semaphore th = (if 6 < run_index (st_run s) then 1 else 0)"
      using assms(1) th by (simp add: start_inv_def Let_def)
    then have "6 < run_index (st_run s)" "s' = s\<lparr>st_ctor := P_done, st_obj := Some (th\<lparr>th_semaphore := 0\<rparr>)\<rparr>"
      using assms(2) pc th by (auto simp: ctor_step_def Semaphore_wait_def split: if_splits)
    then show ?thesis using assms(1) th pc by (simp add: start_inv_def Let_def)
  qed
qed

lemma start_inv_run:
  assumes "start_inv this tid cb name s"
  shows "\<exists>s'. run_step this tid s = Inr s' \<and> start_inv this tid cb name s'"
proof -
  have obj: "\<exists>th. st_obj s = Some th" if "0 < run_index (st_run s)" "run_index (st_run s) \<le> 6"
    using assms that by (auto simp: start_inv_def Let_def split: option.splits)
  have "\<exists>s'. run_step this tid s = Inr s'"
    using assms obj
    by (cases "st_obj s"; cases "st_run s")
      (simp_all add: run_step_def use_obj_def start_inv_def run_index_def Let_def Semaphore_notify_def SEM_VALUE_MAX_def)
  moreover have "start_inv this tid cb name (projr (run_step this tid s))"
    using assms obj
    by (cases "st_obj s"; cases "st_run s"; cases "st_ctor s")
      (simp_all add: run_step_def use_obj_def start_inv_def run_index_def Let_def Semaphore_notify_def SEM_VALUE_MAX_def)
  ultimately show ?thesis by force
qed

lemma start_reach_inv: "start_reach this tid cb name s \<Longrightarrow> start_inv this tid cb name s"
proof (induction rule: start_reach.induct)
  case start
  then show ?case by (simp add: start_inv_def start_init_def run_index_def Thread_members_def Let_def)
next
  case (ctor s rt pt s')
  then show ?case by (metis start_inv_ctor)
next
  case (run s s')
  then show ?case using start_inv_run [of this tid cb name s] by auto
next
  case (destroy s)
  then show ?case by (simp add: start_inv_def Let_def)
qed

subsection \<open>Properties\<close>

text \<open>
  C29. The start of a thread, under every interleaving of the constructor and \<open>run\<close>, also when the
  object is destroyed as soon as the constructor has returned: \<open>run\<close> never touches a destroyed object
  and always goes on; when the constructor returns, the object has the thread's id and no longer its
  callback, and the thread-local pointer and names are set; the callback is called exactly once, in
  the new thread; and while the constructor waits with an unsignalled semaphore, \<open>run\<close> has not yet
  reached its notification, so that the two are never stuck.
\<close>

theorem thread_start_handshake:
  assumes "start_reach this tid cb name s"
  shows "(\<exists>s'. run_step this tid s = Inr s') \<and>
    (st_ctor s = P_done \<longrightarrow> t_thread (st_locals s) = this \<and>
      pthread_name (st_locals s) = c_str (take 15 (if name = [] then ''UNKNOW'' else name)) \<and>
      (\<forall>th. st_obj s = Some th \<longrightarrow> th_id th = tid \<and> th_cb th = None \<and>
         t_thread_name (st_locals s) = th_name th)) \<and>
    st_calls s = (if st_run s = C_end then [cb] else []) \<and>
    (st_ctor s = P_wait \<and> ctor_step rt pt False s = None \<longrightarrow> 0 < run_index (st_run s) \<and> run_index (st_run s) \<le> 6)"
proof -
  have inv: "start_inv this tid cb name s" using start_reach_inv [OF assms] .
  have nm: "th_name (Thread_members cb name) = (if name = [] then ''UNKNOW'' else name)"
    by (simp add: Thread_members_def)
  have idx: "run_index pc = 8 \<longleftrightarrow> pc = C_end" for pc by (cases pc) (simp_all add: run_index_def)
  have stuck: "0 < run_index (st_run s) \<and> run_index (st_run s) \<le> 6"
    if w: "st_ctor s = P_wait" "ctor_step rt pt False s = None"
  proof -
    obtain th where th: "st_obj s = Some th" using inv w(1) by (cases "st_obj s") (simp_all add: start_inv_def Let_def)
    then have "th_semaphore th = 0"
      using w by (auto simp: ctor_step_def Semaphore_wait_def word_gt_0 split: if_splits)
    then show ?thesis using inv th w(1) by (simp add: start_inv_def Let_def split: if_splits)
  qed
  have fin: "t_thread (st_locals s) = this" "t_thread_name (st_locals s) = th_name (Thread_members cb name)"
    "pthread_name (st_locals s) = c_str (take 15 (th_name (Thread_members cb name)))"
    "st_obj s = Some th \<Longrightarrow> th_id th = tid \<and> th_cb th = None \<and> th_name th = th_name (Thread_members cb name)"
    if "st_ctor s = P_done" for th
    using inv that by (simp_all add: start_inv_def Let_def)
  have "st_calls s = (if st_run s = C_end then [cb] else [])"
    using inv by (simp add: start_inv_def Let_def idx)
  moreover have "\<exists>s'. run_step this tid s = Inr s'" using start_inv_run [OF inv] by blast
  ultimately show ?thesis using fin stuck unfolding nm by simp
qed

theorem thread_start_handshake_witness:
  "\<exists>s. start_reach 8 77 (5 :: nat) ''worker-with-a-long-name'' s \<and> st_ctor s = P_done \<and> st_calls s = [] \<and>
     pthread_name (st_locals s) = ''worker-with-a-l''"
proof -
  let ?r = "start_reach 8 77 (5 :: nat) ''worker-with-a-long-name''"
  define s1 where "s1 = the (ctor_step 0 9 False (start_init (5 :: nat) ''worker-with-a-long-name''))"
  define f where "f s = projr (run_step 8 77 s)" for s :: "nat start_state"
  define s2 where "s2 = f (f (f (f (f (f s1)))))"
  define s3 where "s3 = the (ctor_step 0 9 False s2)"
  note ev = s1_def f_def s2_def s3_def start_init_def ctor_step_def run_step_def use_obj_def Thread_members_def
    Semaphore_notify_def Semaphore_wait_def SEM_VALUE_MAX_def initial_locals_def
  have 1: "?r s1"
    by (rule start_reach.ctor [OF start_reach.start, of 0 9]) (simp add: ev)
  have run: "?r (f s)" if "?r s" for s
  proof -
    have "\<exists>s'. run_step 8 77 s = Inr s'" using thread_start_handshake [OF that] by blast
    with start_reach.run [OF that] show ?thesis by (auto simp: f_def)
  qed
  have 2: "?r s2" unfolding s2_def by (intro run 1)
  have 3: "?r s3" by (rule start_reach.ctor [OF 2, of 0 9]) (simp add: ev)
  moreover have "st_ctor s3 = P_done" "st_run s3 = C_cb" by (simp_all add: ev)
  ultimately show ?thesis
    using thread_start_handshake [OF 3, of 0 9] by (intro exI [of _ s3]) (simp add: c_str_def)
qed

text \<open>
  A signal that interrupts the constructor's wait makes it throw, and the members are destroyed
  under a thread that is still to use them: its next line that does is undefined. Likewise, in a
  thread whose object was destroyed, \<open>SetName\<close> writes through the dangling \<open>t_thread\<close>. Joining clears
  the handle, so that a second join does nothing and the destructor does not detach.
\<close>

theorem thread_misuse:
  assumes "st_obj s = Some th" "st_ctor s = P_wait" "th_semaphore th = 0" "st_run s = C_name" "name \<noteq> []"
    and "t_thread l \<noteq> nullptr" "H (t_thread l) = None" "th_thread th \<noteq> 0"
  shows "(\<exists>s'. ctor_step rt pt True s = Some s' \<and> st_ctor s' = P_thrown \<and>
      run_step this tid s' = Inl (Undefined ''destroyed Thread accessed'')) \<and>
    Thread_SetName name (l, H) = Inl (Undefined ''destroyed Thread accessed'') \<and>
    (\<exists>th'. Thread_join 0 th = Inr th' \<and> Thread_join rt th' = Inr th' \<and> \<not> Thread_dtor th') \<and>
    (rt \<noteq> 0 \<longrightarrow> Thread_join rt th = Inl (Logic_error ''pthread_join error''))"
  using assms
  by (simp add: ctor_step_def Semaphore_wait_def run_step_def use_obj_def Thread_SetName_def Thread_join_def Thread_dtor_def)

theorem thread_misuse_witness:
  "\<exists>(s :: nat start_state) s'. ctor_step 0 9 True s = Some s' \<and> run_step 8 77 s' = Inl (Undefined ''destroyed Thread accessed'')"
proof -
  let ?th = "(Thread_members (5 :: nat) [])\<lparr>th_thread := 9\<rparr>"
  let ?s = "(start_init (5 :: nat) [])\<lparr>st_obj := Some ?th, st_ctor := P_wait, st_run := C_name\<rparr>"
  have "\<exists>s'. ctor_step 0 9 True ?s = Some s' \<and> st_ctor s' = P_thrown \<and>
      run_step 8 77 s' = Inl (Undefined ''destroyed Thread accessed'')"
    using thread_misuse [of ?s ?th "''x''" "initial_locals\<lparr>t_thread := 8\<rparr>" "Map.empty :: ptr \<rightharpoonup> nat thread" 0 9 8 77]
    by (simp add: Thread_members_def)
  then obtain s' where "ctor_step 0 9 True ?s = Some s'"
      "run_step 8 77 s' = Inl (Undefined ''destroyed Thread accessed'')" by blast
  then show ?thesis by (intro exI [of _ ?s] exI [of _ s']) simp
qed

end
