(* ===== verification/Util.thy ===== *)
theory Util
  imports Text
begin

section \<open>Utilities (util.h, util.cpp)\<close>

text \<open>
  Identifiers, stack traces and the clock. What the system returns is an argument: the number of
  \<open>gettid\<close>, the frames of the stack with whether \<open>backtrace_symbols\<close> could allocate their texts, and
  the \<open>timeval\<close> of \<open>gettimeofday\<close>.
\<close>

definition GetThreadId :: "int \<Rightarrow> int" where
  "GetThreadId gettid = sint (of_int gettid :: u32)"

definition util_GetFiberId :: u32 where
  "util_GetFiberId = 0"

text \<open>
  \<open>Backtrace\<close>: the vector afterwards, and whether \<open>array\<close> was freed. The loop index is a \<open>size_t\<close>, so
  that a negative \<open>skip\<close> starts beyond every frame.
\<close>

lemma unat_next: "i < len \<Longrightarrow> unat (i + 1) = Suc (unat (i :: u64))"
proof -
  assume "i < len"
  moreover have "unat len < 2 ^ LENGTH(64)" by (rule unsigned_less)
  ultimately show ?thesis by (simp add: unat_word_ariths word_less_nat_alt)
qed

function Backtrace_loop :: "string list \<Rightarrow> u64 \<Rightarrow> u64 \<Rightarrow> string list \<Rightarrow> string list" where
  "Backtrace_loop strings len i bt =
     (if i < len then Backtrace_loop strings len (i + 1) (bt @ [strings ! unat i]) else bt)"
  by pat_completeness auto
termination
  by (relation "measure (\<lambda>(_, len, i, _). unat len - unat i)") (auto simp: unat_next word_less_nat_alt)

declare Backtrace_loop.simps [simp del]

definition Backtrace :: "string list \<Rightarrow> bool \<Rightarrow> int \<Rightarrow> int \<Rightarrow> string list \<Rightarrow> string list \<times> bool" where
  "Backtrace frames symbols_ok size_arg skip bt =
     (let strings = take (nat size_arg) frames; len = of_nat (length strings) :: u64
      in if \<not> symbols_ok then (bt, False)
         else (Backtrace_loop strings len (of_int skip) bt, True))"

fun print_lines :: "string \<Rightarrow> string list \<Rightarrow> string" where
  "print_lines prefix [] = []"
| "print_lines prefix (l # ls) = prefix @ l @ [CHR 10] @ print_lines prefix ls"

definition BacktraceToString :: "string list \<Rightarrow> bool \<Rightarrow> int \<Rightarrow> int \<Rightarrow> string \<Rightarrow> string" where
  "BacktraceToString frames symbols_ok size_arg skip prefix =
     print_lines prefix (fst (Backtrace frames symbols_ok size_arg skip []))"

definition GetCurrentMS :: "int \<times> int \<Rightarrow> u64" where
  "GetCurrentMS = (\<lambda>(tv_sec, tv_usec). of_int tv_sec * 1000 + of_int (c_div tv_usec 1000))"

definition GetCurrentUS :: "int \<times> int \<Rightarrow> u64" where
  "GetCurrentUS = (\<lambda>(tv_sec, tv_usec). of_int (tv_sec * 1000) * 1000 + of_int tv_usec)"

lemma Backtrace_loop_drop:
  assumes "len = of_nat (length strings)" "length strings < 2 ^ 64"
  shows "Backtrace_loop strings len i bt = bt @ drop (unat i) strings"
  using assms
proof (induction strings len i bt rule: Backtrace_loop.induct)
  case (1 strings len i bt)
  have len: "unat len = length strings" using 1(2,3) by (simp add: unat_of_nat_small)
  show ?case
  proof (cases "i < len")
    case True
    then have "unat i < length strings" using len by (simp add: word_less_nat_alt)
    then have "Backtrace_loop strings len (i + 1) (bt @ [strings ! unat i]) = bt @ drop (unat i) strings"
      using 1(1) [OF True 1(2,3)] by (simp add: unat_next [OF True] Cons_nth_drop_Suc)
    with True show ?thesis by (subst Backtrace_loop.simps) simp
  next
    case False
    then show ?thesis using len by (simp add: Backtrace_loop.simps [of strings len i] word_less_nat_alt)
  qed
qed

lemma print_lines_concat: "print_lines prefix ls = concat (map (\<lambda>l. prefix @ l @ [CHR 10]) ls)"
  by (induction ls) simp_all

subsection \<open>Properties\<close>

text \<open>
  A stack trace holds one line per frame, from the frame \<open>skip\<close> on and at most up to the frame
  \<open>size\<close>, each with the prefix and a line feed; a negative \<open>skip\<close> gives an empty trace; when the texts
  of the frames cannot be allocated the trace is empty and the array is not freed.
\<close>

theorem backtrace_lines:
  assumes "length frames < 2 ^ 63" "- (2 ^ 31) \<le> skip" "skip < 2 ^ 31"
  shows "(0 \<le> skip \<longrightarrow> BacktraceToString frames True n skip prefix =
      concat (map (\<lambda>l. prefix @ l @ [CHR 10]) (drop (nat skip) (take (nat n) frames)))) \<and>
    (skip < 0 \<longrightarrow> BacktraceToString frames True n skip prefix = []) \<and>
    Backtrace frames False n skip bt = (bt, False)"
proof -
  let ?s = "take (nat n) frames"
  have len: "length ?s < 2 ^ 63" using assms(1) by simp
  have bt: "BacktraceToString frames True n skip prefix =
      concat (map (\<lambda>l. prefix @ l @ [CHR 10]) (drop (unat (of_int skip :: u64)) ?s))"
    using Backtrace_loop_drop [of _ ?s "of_int skip" "[]"] len
    by (simp add: BacktraceToString_def Backtrace_def print_lines_concat)
  have "unat (of_int skip :: u64) = nat skip" if "0 \<le> skip"
    using that assms(3) unat_of_nat_small [of "nat skip", where 'a = 64] by simp
  moreover have "2 ^ 63 \<le> unat (of_int skip :: u64)" if "skip < 0"
  proof -
    have "uint (of_int skip :: u64) = skip mod 2 ^ 64" by (simp only: unsigned_of_int take_bit_eq_mod) simp
    also have "\<dots> = (skip + 2 ^ 64) mod 2 ^ 64" by simp
    also have "\<dots> = skip + 2 ^ 64"
      using that assms(2) by (intro mod_pos_pos_trivial) auto
    finally show ?thesis using assms(2) by (simp add: unat_eq_nat_uint)
  qed
  ultimately show ?thesis using bt len by (auto simp: Backtrace_def)
qed

theorem backtrace_lines_witness:
  "BacktraceToString [''main'', ''run'', ''swapIn''] True 2 1 ''  '' = ''  run'' @ [CHR 10]"
  using backtrace_lines [of "[''main'', ''run'', ''swapIn'']" 1 2 "''  ''"] by simp

text \<open>
  The clock: for a time of day up to the year 270000 the milliseconds are the microseconds
  divided by 1000, rounded down, and neither wraps.
\<close>

theorem current_time_units:
  assumes "0 \<le> s" "s < 2 ^ 43" "0 \<le> us" "us < 1000000"
  shows "uint (GetCurrentMS (s, us)) = s * 1000 + us div 1000 \<and> uint (GetCurrentUS (s, us)) = s * 1000000 + us \<and>
    uint (GetCurrentMS (s, us)) = uint (GetCurrentUS (s, us)) div 1000"
proof -
  have of: "uint (of_int k :: u64) = k" if "0 \<le> k" "k < 2 ^ 64" for k
    using that by (simp only: unsigned_of_int) (simp add: take_bit_int_eq_self)
  have us: "0 \<le> us div 1000" "us div 1000 < 1000" using assms(3,4) by auto
  have ms: "GetCurrentMS (s, us) = of_int (s * 1000 + us div 1000)"
    using assms(3) by (simp add: GetCurrentMS_def c_div_nonneg)
  have mus: "GetCurrentUS (s, us) = of_int (s * 1000000 + us)"
    by (simp add: GetCurrentUS_def)
  have "uint (GetCurrentMS (s, us)) = s * 1000 + us div 1000" unfolding ms using assms us by (intro of) auto
  moreover have "uint (GetCurrentUS (s, us)) = s * 1000000 + us" unfolding mus using assms by (intro of) auto
  moreover have "(s * 1000000 + us) div 1000 = s * 1000 + us div 1000" by simp
  ultimately show ?thesis by simp
qed

theorem current_time_units_witness:
  "uint (GetCurrentMS (1700000000, 123456)) = 1700000000123"
  using current_time_units [of 1700000000 123456] by simp

subsection \<open>Singletons\<close>

text \<open>
  \<open>Singleton<T>::GetInstanceX\<close>: a static object made by the first call. \<open>cell\<close> is its storage with what has
  been made; \<open>made\<close> is the object the constructor makes.
\<close>

definition GetInstanceX :: "'a \<Rightarrow> 'a option \<Rightarrow> 'a \<times> 'a option" where
  "GetInstanceX made cell = (case cell of Some v \<Rightarrow> (v, cell) | None \<Rightarrow> (made, Some made))"

fun instances :: "'a list \<Rightarrow> 'a option \<Rightarrow> 'a list" where
  "instances [] cell = []"
| "instances (made # ms) cell = (case GetInstanceX made cell of (v, cell) \<Rightarrow> v # instances ms cell)"

text \<open>Every call returns the object of the first: the constructor runs once.\<close>

lemma instances_same: "instances ms (Some v) = replicate (length ms) v"
  by (induction ms) (simp_all add: GetInstanceX_def)

lemma one_instance: "instances (m # ms) None = replicate (Suc (length ms)) m"
  by (simp add: GetInstanceX_def instances_same)

end
