(* ===== verification/Runtime.thy ===== *)
theory Runtime
  imports Hook
begin

section \<open>The runtime: fibers that wait, under every interleaving\<close>

text \<open>
  The scheduler's queue, the I/O manager and its timers, and the fibers suspended in hooked calls,
  as one transition system. Each action is a section of the code that runs under one lock or touches
  only the running fiber: the parts of \<open>do_io\<close> between its system calls, the expiry of timers and the
  handling of one reported event in \<open>IOManager::idle\<close>, the scan of the queue and the execution of a
  task in \<open>Schedular::run\<close>. Threads interleave between actions; the clock values, the addresses that
  allocations return and what epoll reports are arguments of the actions.
\<close>

subsection \<open>State\<close>

text \<open>
  The callbacks: the lambda \<open>do_io\<close> gives to its timer, which captures the \<open>timer_info\<close> of the call;
  the bound \<open>schedule(fiber, -1)\<close> of a hooked sleep; callbacks of the application.
\<close>

datatype rt_cb = Timeout ptr | Wake ptr | User nat

text \<open>
  A \<open>do_io\<close> in progress, found by the address of its \<open>timer_info\<close>: about to make the system call,
  with the timer added, or with the event added and the fiber suspended. Its locals \<open>to\<close> and \<open>timer\<close>
  and the field \<open>cancelled\<close> of the \<open>timer_info\<close>.
\<close>

datatype phase = Trying | Timed | Held

record io_call =
  cl_fiber :: ptr
  cl_fd :: int
  cl_event :: u32
  cl_to :: u64
  cl_cancelled :: int
  cl_timer :: ptr
  cl_phase :: phase

type_synonym rt_task = "rt_cb timer_cb task"

text \<open>\<open>rt_hand\<close>: the tasks that threads have taken from the queue and not yet run.\<close>

record runtime =
  rt_io :: "rt_cb timer_cb iomanager"
  rt_tm :: "rt_cb timer_manager"
  rt_calls :: "ptr \<rightharpoonup> io_call"
  rt_asleep :: "ptr set"
  rt_hand :: "rt_task list"

definition upd_sched :: "(rt_cb timer_cb schedular \<Rightarrow> rt_cb timer_cb schedular) \<Rightarrow> runtime \<Rightarrow> runtime" where
  "upd_sched g R =
     (let m = rt_io R
      in R\<lparr>rt_io := m\<lparr>io_scheds := (io_scheds m)(io_this m := map_option g (io_scheds m (io_this m)))\<rparr>\<rparr>)"

definition queue :: "'cb iomanager \<Rightarrow> 'cb task list" where
  "queue m = (case io_scheds m (io_this m) of None \<Rightarrow> [] | Some s \<Rightarrow> m_fibers s)"

subsection \<open>A hooked call\<close>

definition rt_begin :: "ptr \<Rightarrow> ptr \<Rightarrow> int \<Rightarrow> u32 \<Rightarrow> u64 \<Rightarrow> runtime \<Rightarrow> runtime" where
  "rt_begin t f fd event to R =
     R\<lparr>rt_calls := (rt_calls R)(t \<mapsto> \<lparr> cl_fiber = f, cl_fd = fd, cl_event = event, cl_to = to,
        cl_cancelled = 0, cl_timer = nullptr, cl_phase = Trying \<rparr>)\<rparr>"

text \<open>The system call would block: the timer, when the descriptor has a timeout.\<close>

definition rt_timer :: "ptr \<Rightarrow> io_call \<Rightarrow> ptr \<Rightarrow> u64 \<Rightarrow> runtime \<Rightarrow> runtime" where
  "rt_timer t c p now R =
     (if cl_to c \<noteq> - 1 then
        R\<lparr>rt_tm := fst (addConditionTimer (rt_tm R) p (cl_to c) (Some (Timeout t)) t False now),
          rt_calls := (rt_calls R)(t \<mapsto> c\<lparr>cl_timer := p, cl_phase := Timed\<rparr>)\<rparr>
      else R\<lparr>rt_calls := (rt_calls R)(t \<mapsto> c\<lparr>cl_timer := nullptr, cl_phase := Timed\<rparr>)\<rparr>)"

definition cancel_timer :: "ptr \<Rightarrow> 'cb timer_manager \<Rightarrow> 'cb timer_manager" where
  "cancel_timer p M = (if p \<noteq> nullptr then fst (Timer_cancel M p) else M)"

text \<open>The event: the fiber is suspended, or the call returns -1.\<close>

definition rt_add :: "int \<Rightarrow> ptr \<Rightarrow> io_call \<Rightarrow> runtime \<Rightarrow> runtime res" where
  "rt_add rt t c R =
     rbind (io_block_event rt (io_this (rt_io R)) (cl_fiber c) (cl_fd c) (cl_event c) (rt_io R)) (\<lambda>(m, r).
       if r = - 1 then
         Inr (R\<lparr>rt_io := m, rt_tm := cancel_timer (cl_timer c) (rt_tm R), rt_calls := (rt_calls R)(t := None)\<rparr>)
       else Inr (R\<lparr>rt_io := m, rt_calls := (rt_calls R)(t \<mapsto> c\<lparr>cl_phase := Held\<rparr>)\<rparr>))"

text \<open>The fiber runs again: the call returns -1 when it was cancelled and is retried otherwise.\<close>

definition rt_resume :: "ptr \<Rightarrow> io_call \<Rightarrow> runtime \<Rightarrow> runtime" where
  "rt_resume t c R =
     R\<lparr>rt_tm := cancel_timer (cl_timer c) (rt_tm R),
       rt_calls := (rt_calls R)(t := (if cl_cancelled c \<noteq> 0 then None
                                      else Some (c\<lparr>cl_timer := nullptr, cl_phase := Trying\<rparr>)))\<rparr>"

definition rt_return :: "ptr \<Rightarrow> runtime \<Rightarrow> runtime" where
  "rt_return t R = R\<lparr>rt_calls := (rt_calls R)(t := None)\<rparr>"

text \<open>The lambda of the timer.\<close>

definition rt_timeout :: "int \<Rightarrow> ptr \<Rightarrow> runtime \<Rightarrow> runtime res" where
  "rt_timeout rt t R =
     (case rt_calls R t of
        None \<Rightarrow> Inr R
      | Some c \<Rightarrow>
          rbind (io_timeout_cb rt (cl_fd c) (cl_event c) (Some (cl_cancelled c)) (rt_io R)) (\<lambda>(k, m).
            Inr (R\<lparr>rt_io := m, rt_calls := (rt_calls R)(t \<mapsto> c\<lparr>cl_cancelled := the k\<rparr>)\<rparr>)))"

subsection \<open>Sleeping, tasks and callbacks\<close>

definition rt_sleep :: "ptr \<Rightarrow> ptr \<Rightarrow> u64 \<Rightarrow> u64 \<Rightarrow> runtime \<Rightarrow> runtime" where
  "rt_sleep f p ms now R =
     R\<lparr>rt_tm := fst (addTimer (rt_tm R) p ms (Some (Cb (Wake f))) False now), rt_asleep := insert f (rt_asleep R)\<rparr>"

definition rt_push :: "rt_task \<Rightarrow> runtime \<Rightarrow> runtime" where
  "rt_push ft R = upd_sched (\<lambda>s. fst (schedule ft s)) R"

definition rt_closure :: "int \<Rightarrow> rt_cb \<Rightarrow> runtime \<Rightarrow> runtime res" where
  "rt_closure rt g R =
     (case g of
        Timeout t \<Rightarrow> rt_timeout rt t R
      | Wake f \<Rightarrow> Inr (rt_push (FT_fiber f (- 1)) R)
      | User u \<Rightarrow> Inr R)"

definition rt_callback :: "int \<Rightarrow> rt_cb timer_cb \<Rightarrow> runtime \<Rightarrow> runtime res" where
  "rt_callback rt cb R =
     (case cb of
        Cb g \<Rightarrow> rt_closure rt g R
      | Bind_OnTimer w g \<Rightarrow>
          rbind (OnTimer (\<lambda>w. rt_calls R w \<noteq> None) w g) (\<lambda>r.
            case r of None \<Rightarrow> Inr R | Some g \<Rightarrow> rt_closure rt g R))"

text \<open>A thread takes a task; it gives up its place among the active threads when the task is done.\<close>

definition rt_pick :: "rt_cb timer_cb fiber_heap \<Rightarrow> int \<Rightarrow> runtime \<Rightarrow> runtime res" where
  "rt_pick h tid R =
     (case io_scheds (rt_io R) (io_this (rt_io R)) of
        None \<Rightarrow> Inl (Undefined ''scheduler of the I/O manager'')
      | Some s \<Rightarrow> rbind (run_pick h tid s) (\<lambda>(s, ft, is_active, tick).
          let R = upd_sched (\<lambda>_. s) R in Inr (if is_active then R\<lparr>rt_hand := rt_hand R @ [ft]\<rparr> else R)))"

definition rt_done :: "nat \<Rightarrow> runtime \<Rightarrow> runtime" where
  "rt_done i R =
     (upd_sched (\<lambda>s. s\<lparr>m_activeThreadCount := m_activeThreadCount s - 1\<rparr>) R)
       \<lparr>rt_hand := take i (rt_hand R) @ drop (Suc i) (rt_hand R)\<rparr>"

subsection \<open>The idle loop\<close>

text \<open>\<open>stopping(next_timeout)\<close> asks for the next timer, which clears the note of a requested wake-up.\<close>

definition rt_poll :: "u64 \<Rightarrow> runtime \<Rightarrow> runtime" where
  "rt_poll now R = R\<lparr>rt_tm := fst (io_stopping (rt_tm R) now (rt_io R))\<rparr>"

definition rt_expire :: "u64 \<Rightarrow> ptr \<Rightarrow> runtime \<Rightarrow> runtime res" where
  "rt_expire now a R =
     rbind (listExpiredCb (rt_tm R) now a []) (\<lambda>(tm, cbs).
       Inr ((if cbs = [] then R else upd_sched (\<lambda>s. fst (schedule_range cbs s False)) R)\<lparr>rt_tm := tm\<rparr>))"

definition rt_event :: "int \<Rightarrow> u32 \<Rightarrow> nat \<Rightarrow> runtime \<Rightarrow> runtime res" where
  "rt_event rt2 events i R =
     rbind (idle_event rt2 (events, Fd_ptr i) (rt_io R)) (\<lambda>m. Inr (R\<lparr>rt_io := m\<rparr>))"

subsection \<open>Actions\<close>

datatype rt_action =
    A_begin ptr ptr int u32 u64
  | A_timer ptr ptr u64
  | A_add int ptr
  | A_return ptr
  | A_sleep ptr ptr u64 u64
  | A_user_timer ptr u64 bool nat u64
  | A_user_task nat
  | A_user_event int int u32 nat
  | A_poll u64
  | A_expire u64 ptr
  | A_event int u32 nat
  | A_pick "rt_cb timer_cb fiber_heap" int
  | A_resume nat ptr
  | A_wake nat
  | A_callback nat int

definition with_call :: "ptr \<Rightarrow> runtime \<Rightarrow> (io_call \<Rightarrow> runtime res) \<Rightarrow> runtime res" where
  "with_call t R k = (case rt_calls R t of None \<Rightarrow> Inl (Undefined ''call'') | Some c \<Rightarrow> k c)"

fun rt_exec :: "rt_action \<Rightarrow> runtime \<Rightarrow> runtime res" where
  "rt_exec (A_begin t f fd event to) R = Inr (rt_begin t f fd event to R)"
| "rt_exec (A_timer t p now) R = with_call t R (\<lambda>c. Inr (rt_timer t c p now R))"
| "rt_exec (A_add rt t) R = with_call t R (\<lambda>c. rt_add rt t c R)"
| "rt_exec (A_return t) R = Inr (rt_return t R)"
| "rt_exec (A_sleep f p ms now) R = Inr (rt_sleep f p ms now R)"
| "rt_exec (A_user_timer p ms recurring u now) R =
     Inr (R\<lparr>rt_tm := fst (addTimer (rt_tm R) p ms (Some (Cb (User u))) recurring now)\<rparr>)"
| "rt_exec (A_user_task u) R = Inr (rt_push (FT_cb (Some (Cb (User u))) (- 1)) R)"
| "rt_exec (A_user_event rt fd event u) R =
     rbind (addEvent rt (io_this (rt_io R)) nullptr EXEC fd event (Some (Cb (User u))) (rt_io R)) (\<lambda>(m, r).
       Inr (R\<lparr>rt_io := m\<rparr>))"
| "rt_exec (A_poll now) R = Inr (rt_poll now R)"
| "rt_exec (A_expire now a) R = rt_expire now a R"
| "rt_exec (A_event rt2 events i) R = rt_event rt2 events i R"
| "rt_exec (A_pick h tid) R = rt_pick h tid R"
| "rt_exec (A_resume i t) R = with_call t R (\<lambda>c. Inr (rt_resume t c (rt_done i R)))"
| "rt_exec (A_wake i) R = Inr ((rt_done i R)\<lparr>rt_asleep := rt_asleep R - {ft_fiber (rt_hand R ! i)}\<rparr>)"
| "rt_exec (A_callback i rt) R =
     (case ft_cb (rt_hand R ! i) of
        None \<Rightarrow> Inl (Undefined ''callback'')
      | Some cb \<Rightarrow> rt_callback rt cb (rt_done i R))"

text \<open>
  When an action may happen. A fiber begins a call or a sleep only while it runs; a new timer and a
  new \<open>timer_info\<close> have addresses that nothing refers to; the callers pass valid events, no two
  wait for one event of one descriptor, and epoll reports what is registered; the fibers in the
  queue have not been destroyed.
\<close>

definition busy :: "runtime \<Rightarrow> ptr \<Rightarrow> bool" where
  "busy R f \<longleftrightarrow> f \<in> rt_asleep R \<or> (\<exists>t c. rt_calls R t = Some c \<and> cl_fiber c = f)"

definition fresh_timer :: "ptr \<Rightarrow> runtime \<Rightarrow> bool" where
  "fresh_timer p R \<longleftrightarrow> p \<noteq> nullptr \<and> p \<notin> set (m_timers (rt_tm R)) \<and> (\<forall>t c. rt_calls R t = Some c \<longrightarrow> cl_timer c \<noteq> p)"

definition timeout_of :: "ptr \<Rightarrow> rt_cb timer_cb" where
  "timeout_of t = Bind_OnTimer t (Some (Timeout t))"

definition fresh_info :: "ptr \<Rightarrow> runtime \<Rightarrow> bool" where
  "fresh_info t R \<longleftrightarrow> rt_calls R t = None \<and>
     (\<forall>p \<in> set (m_timers (rt_tm R)). m_cb (tm_heap (rt_tm R) p) \<noteq> Some (timeout_of t)) \<and>
     (\<forall>ft \<in> set (queue (rt_io R)) \<union> set (rt_hand R). ft_cb ft \<noteq> Some (timeout_of t))"

definition addable :: "int \<Rightarrow> u32 \<Rightarrow> runtime \<Rightarrow> bool" where
  "addable fd event R \<longleftrightarrow> 0 \<le> fd \<and> event \<in> {EV_READ, EV_WRITE} \<and> \<not> armed_at fd event (grow fd (rt_io R))"

fun rt_guard :: "rt_action \<Rightarrow> runtime \<Rightarrow> bool" where
  "rt_guard (A_begin t f fd event to) R \<longleftrightarrow>
     f \<noteq> nullptr \<and> \<not> busy R f \<and> fresh_info t R \<and> 0 \<le> fd \<and> event \<in> {EV_READ, EV_WRITE}"
| "rt_guard (A_timer t p now) R \<longleftrightarrow> (\<exists>c. rt_calls R t = Some c \<and> cl_phase c = Trying) \<and> fresh_timer p R"
| "rt_guard (A_add rt t) R \<longleftrightarrow>
     (\<exists>c. rt_calls R t = Some c \<and> cl_phase c = Timed \<and> addable (cl_fd c) (cl_event c) R)"
| "rt_guard (A_return t) R \<longleftrightarrow> (\<exists>c. rt_calls R t = Some c \<and> cl_phase c = Trying)"
| "rt_guard (A_sleep f p ms now) R \<longleftrightarrow> f \<noteq> nullptr \<and> \<not> busy R f \<and> fresh_timer p R"
| "rt_guard (A_user_timer p ms recurring u now) R \<longleftrightarrow> fresh_timer p R"
| "rt_guard (A_user_task u) R \<longleftrightarrow> True"
| "rt_guard (A_user_event rt fd event u) R \<longleftrightarrow> addable fd event R"
| "rt_guard (A_poll now) R \<longleftrightarrow> True"
| "rt_guard (A_expire now a) R \<longleftrightarrow> a \<noteq> nullptr \<and> a \<notin> set (m_timers (rt_tm R))"
| "rt_guard (A_event rt2 events i) R \<longleftrightarrow>
     i < length (m_fdContexts (rt_io R)) \<and>
     (let c = m_fdContexts (rt_io R) ! i; real = real_events events c
      in (real AND EV_READ \<noteq> 0 \<longrightarrow> armed EV_READ c) \<and> (real AND EV_WRITE \<noteq> 0 \<longrightarrow> armed EV_WRITE c))"
| "rt_guard (A_pick h tid) R \<longleftrightarrow> (\<forall>ft \<in> set (queue (rt_io R)). ft_fiber ft \<noteq> nullptr \<longrightarrow> fibers h (ft_fiber ft) \<noteq> None)"
| "rt_guard (A_resume i t) R \<longleftrightarrow> i < length (rt_hand R) \<and>
     (\<exists>c. rt_calls R t = Some c \<and> cl_phase c = Held \<and> cl_fiber c = ft_fiber (rt_hand R ! i))"
| "rt_guard (A_wake i) R \<longleftrightarrow> i < length (rt_hand R) \<and> ft_fiber (rt_hand R ! i) \<in> rt_asleep R"
| "rt_guard (A_callback i rt) R \<longleftrightarrow> i < length (rt_hand R) \<and> ft_fiber (rt_hand R ! i) = nullptr"

text \<open>The runtime when the I/O manager has been constructed, and what it can become.\<close>

definition rt_init :: "ptr \<Rightarrow> rt_cb timer_cb schedular \<Rightarrow> u64 \<Rightarrow> rt_cb timer_heap \<Rightarrow> runtime" where
  "rt_init this s now h =
     \<lparr> rt_io = contextResize 32 \<lparr> io_this = this, io_scheds = [this \<mapsto> s\<lparr>m_fibers := []\<rparr>], m_fdContexts = [],
          m_pendingEventCount = 0 \<rparr>,
       rt_tm = TimerManager_ctor now h, rt_calls = Map.empty, rt_asleep = {}, rt_hand = [] \<rparr>"

inductive rt_reach :: "runtime \<Rightarrow> bool" where
  reach_init: "rt_reach (rt_init this s now h)"
| reach_step: "rt_reach R \<Longrightarrow> rt_guard a R \<Longrightarrow> rt_exec a R = Inr R' \<Longrightarrow> rt_reach R'"

subsection \<open>Where a fiber is\<close>

text \<open>
  The places from which a suspended fiber can be resumed: a slot of the event table, the queue or a
  thread's hand (as itself or as the callback that schedules it), a timer that schedules it.
\<close>

definition slot_count :: "ptr \<Rightarrow> 'cb fd_context \<Rightarrow> nat" where
  "slot_count f c = of_bool (ec_fiber (fc_read c) = f) + of_bool (ec_fiber (fc_write c) = f)"

definition in_slots :: "ptr \<Rightarrow> 'cb iomanager \<Rightarrow> nat" where
  "in_slots f m = sum_list (map (slot_count f) (m_fdContexts m))"

definition wakes :: "ptr \<Rightarrow> rt_task \<Rightarrow> bool" where
  "wakes f ft \<longleftrightarrow> ft_fiber ft = f \<or> ft_cb ft = Some (Cb (Wake f))"

definition in_tasks :: "ptr \<Rightarrow> rt_task list \<Rightarrow> nat" where
  "in_tasks f fts = length (filter (wakes f) fts)"

definition in_timers :: "ptr \<Rightarrow> rt_cb timer_manager \<Rightarrow> nat" where
  "in_timers f M = card {p \<in> set (m_timers M). m_cb (tm_heap M p) = Some (Cb (Wake f))}"

definition places :: "ptr \<Rightarrow> runtime \<Rightarrow> nat" where
  "places f R = in_slots f (rt_io R) + in_tasks f (queue (rt_io R)) + in_tasks f (rt_hand R) + in_timers f (rt_tm R)"

text \<open>The fibers that have given up their thread.\<close>

definition held_in :: "io_call option \<Rightarrow> ptr \<Rightarrow> bool" where
  "held_in x f \<longleftrightarrow> (\<exists>c. x = Some c \<and> cl_fiber c = f \<and> cl_phase c = Held)"

definition suspended :: "runtime \<Rightarrow> ptr \<Rightarrow> bool" where
  "suspended R f \<longleftrightarrow> f \<in> rt_asleep R \<or> (\<exists>t. held_in (rt_calls R t) f)"

lemma held_upd: "\<not> held_in (C t) f \<Longrightarrow> (\<exists>t'. held_in ((C(t := x)) t') f) \<longleftrightarrow> held_in x f \<or> (\<exists>t'. held_in (C t') f)"
  by (metis fun_upd_apply)

lemma held_in_simps [simp]: "\<not> held_in None f" "held_in (Some c) f \<longleftrightarrow> cl_fiber c = f \<and> cl_phase c = Held"
  by (auto simp: held_in_def)

subsection \<open>Counting\<close>

lemma in_tasks_simps [simp]:
  "in_tasks f [] = 0" "in_tasks f (x # xs) = of_bool (wakes f x) + in_tasks f xs"
  "in_tasks f (xs @ ys) = in_tasks f xs + in_tasks f ys"
  by (simp_all add: in_tasks_def)

lemma in_slots_update:
  assumes "i < length (m_fdContexts m)"
  shows "in_slots f (m\<lparr>m_fdContexts := (m_fdContexts m)[i := c]\<rparr>) + slot_count f (m_fdContexts m ! i) =
    in_slots f m + slot_count f c"
  using assms elem_le_sum_list [of i "map (slot_count f) (m_fdContexts m)"]
  by (simp add: in_slots_def map_update sum_list_update)

lemma slot_count_set:
  assumes "event \<in> {EV_READ, EV_WRITE}"
  shows "slot_count f (setContext event e (c\<lparr>fc_events := x\<rparr>)) + of_bool (ec_fiber (slot event c) = f) =
    slot_count f c + of_bool (ec_fiber e = f)"
  using assms by (auto simp: slot_count_def setContext_def slot_def)

lemma slot_count_new [simp]: "f \<noteq> nullptr \<Longrightarrow> slot_count f (new_FdContext i) = 0"
  by (simp add: slot_count_def new_FdContext_def empty_context_def)

subsection \<open>The event table of one scheduler\<close>

text \<open>
  Every registered event belongs to the I/O manager's own scheduler, and its callback, when it has
  one, is the application's.
\<close>

definition user_cb :: "rt_cb timer_cb option \<Rightarrow> bool" where
  "user_cb cb \<longleftrightarrow> (\<exists>u. cb = Some (Cb (User u)))"

definition home_slot :: "ptr \<Rightarrow> rt_cb timer_cb event_context \<Rightarrow> bool" where
  "home_slot this e \<longleftrightarrow> ec_schedular e = this \<and> (ec_cb e = None \<or> user_cb (ec_cb e))"

definition home :: "rt_cb timer_cb iomanager \<Rightarrow> bool" where
  "home m \<longleftrightarrow> (\<forall>c \<in> set (m_fdContexts m). \<forall>event \<in> {EV_READ, EV_WRITE}. armed event c \<longrightarrow> home_slot (io_this m) (slot event c))"

definition cb_wf :: "rt_cb timer_cb option \<Rightarrow> bool" where
  "cb_wf cb \<longleftrightarrow> user_cb cb \<or> (\<exists>f. f \<noteq> nullptr \<and> cb = Some (Cb (Wake f))) \<or> (\<exists>t. cb = Some (timeout_of t))"

definition task_wf :: "rt_task \<Rightarrow> bool" where
  "task_wf ft \<longleftrightarrow> ft_thread ft = - 1 \<and> (if ft_fiber ft \<noteq> nullptr then ft_cb ft = None else cb_wf (ft_cb ft))"

lemma home_update:
  assumes "home m" "event \<in> {EV_READ, EV_WRITE}" "valid_events (fc_events (m_fdContexts m ! i))" "i < length (m_fdContexts m)"
    and "x \<in> {fc_events (m_fdContexts m ! i) AND NOT event, fc_events (m_fdContexts m ! i) OR event}"
    and "x AND event \<noteq> 0 \<Longrightarrow> home_slot (io_this m) e"
  shows "home (m\<lparr>m_fdContexts := (m_fdContexts m)[i := setContext event e ((m_fdContexts m ! i)\<lparr>fc_events := x\<rparr>)]\<rparr>)"
proof -
  let ?c = "m_fdContexts m ! i" and ?c' = "setContext event e ((m_fdContexts m ! i)\<lparr>fc_events := x\<rparr>)"
  note bits = event_bits [OF assms(3)] event_bits [OF assms(3), simplified]
  have c: "armed ev ?c \<longrightarrow> home_slot (io_this m) (slot ev ?c)" if "ev \<in> {EV_READ, EV_WRITE}" for ev
    using assms(1,4) that by (auto simp: home_def)
  have "armed ev ?c' \<longrightarrow> home_slot (io_this m) (slot ev ?c')" if "ev \<in> {EV_READ, EV_WRITE}" for ev
  proof (cases "ev = event")
    case True
    then show ?thesis using assms(2,6) by (auto simp: armed_def setContext_def slot_def)
  next
    case False
    then have "armed ev ?c' = armed ev ?c" "slot ev ?c' = slot ev ?c"
      using assms(2,5) that by (elim insertE; simp add: armed_def setContext_def slot_def bits)+
    then show ?thesis using c that by simp
  qed
  then show ?thesis
    using assms(1) set_update_subset_insert [of "m_fdContexts m" i ?c'] by (fastforce simp: home_def)
qed

lemma valid_ctx:
  assumes "iom_inv m" "valid_fd fd m"
  shows "nat fd < length (m_fdContexts m)" "ctx_ok (io_scheds m) (m_fdContexts m ! nat fd)"
    "valid_events (fc_events (m_fdContexts m ! nat fd))"
  using assms by (auto simp: iom_inv_def valid_fd_def ctx_ok_def)

lemma fire_conserves:
  assumes "iom_inv m" "home m" "valid_fd fd m" "event \<in> {EV_READ, EV_WRITE}" "armed_at fd event m"
  shows "io_this (fire fd event m) = io_this m" "home (fire fd event m)" "iom_inv (fire fd event m)"
    "\<exists>ft. queue (fire fd event m) = queue m @ [ft] \<and> task_wf ft \<and> (ft_fiber ft \<noteq> nullptr \<or> user_cb (ft_cb ft))"
    "f \<noteq> nullptr \<Longrightarrow> in_slots f (fire fd event m) + in_tasks f (queue (fire fd event m)) = in_slots f m + in_tasks f (queue m)"
proof -
  let ?c = "m_fdContexts m ! nat fd" and ?e = "slot event (m_fdContexts m ! nat fd)"
  let ?c' = "setContext event empty_context (?c\<lparr>fc_events := fc_events ?c AND NOT event\<rparr>)"
  note v = valid_ctx [OF assms(1,3)]
  have e: "home_slot (io_this m) ?e" "slot_ok (io_scheds m) True ?e"
    using assms(2,4,5) v(1) ctx_ok_slot [OF v(2) assms(4)] by (auto simp: home_def armed_at_def)
  then have sch: "ec_schedular ?e = io_this m" by (simp add: home_slot_def)
  have eq: "fire fd event m = (m\<lparr>m_fdContexts := (m_fdContexts m)[nat fd := ?c']\<rparr>)
      \<lparr>m_pendingEventCount := m_pendingEventCount m - 1, io_scheds := push_task (io_this m) (waiting ?e) (io_scheds m)\<rparr>"
    by (simp add: fire_def disarm_def set_fd_ctx_def Let_def sch)
  show this: "io_this (fire fd event m) = io_this m" by (simp add: eq)
  have "(fc_events ?c AND NOT event) AND event = 0"
    using assms(4) event_bits [OF v(3)] by auto
  then have "home (m\<lparr>m_fdContexts := (m_fdContexts m)[nat fd := ?c']\<rparr>)"
    by (intro home_update [OF assms(2,4) v(3,1)]) simp_all
  then show "home (fire fd event m)" by (simp add: eq home_def)
  show "iom_inv (fire fd event m)" by (rule fire_inv [OF assms(1,3,4,5)])
  obtain s where s: "io_scheds m (io_this m) = Some s" using assms(1) by (auto simp: iom_inv_def)
  have q: "queue (fire fd event m) = queue m @ [waiting ?e]"
    by (simp add: queue_def eq push_task_def s)
  moreover have "task_wf (waiting ?e) \<and> (ft_fiber (waiting ?e) \<noteq> nullptr \<or> user_cb (ft_cb (waiting ?e)))"
    using e by (auto simp: task_wf_def cb_wf_def waiting_def FT_cb_def FT_fiber_def slot_ok_def home_slot_def)
  ultimately show "\<exists>ft. queue (fire fd event m) = queue m @ [ft] \<and> task_wf ft \<and> (ft_fiber ft \<noteq> nullptr \<or> user_cb (ft_cb ft))"
    by blast
  assume f: "f \<noteq> nullptr"
  have w: "wakes f (waiting ?e) \<longleftrightarrow> ec_fiber ?e = f"
    using e f by (auto simp: wakes_def waiting_def FT_cb_def FT_fiber_def slot_ok_def home_slot_def user_cb_def)
  have "in_slots f (fire fd event m) = in_slots f (m\<lparr>m_fdContexts := (m_fdContexts m)[nat fd := ?c']\<rparr>)"
    by (simp add: eq in_slots_def)
  moreover have "slot_count f ?c' + of_bool (ec_fiber ?e = f) = slot_count f ?c"
    using slot_count_set [OF assms(4), where f = f and e = empty_context and c = ?c] f by (simp add: empty_context_def)
  ultimately show "in_slots f (fire fd event m) + in_tasks f (queue (fire fd event m)) = in_slots f m + in_tasks f (queue m)"
    using in_slots_update [OF v(1), of f ?c'] by (simp add: q w)
qed

lemma grow_conserves:
  assumes "f \<noteq> nullptr" "length (m_fdContexts m) \<le> length (m_fdContexts (grow fd m))"
  shows "in_slots f (grow fd m) = in_slots f m"
proof (cases "int (length (m_fdContexts m)) > fd")
  case False
  let ?n = "nat (fd * 3 div 2)" and ?l = "length (m_fdContexts m)"
  have "?l \<le> ?n" using assms(2) False by (simp add: grow_def contextResize_def)
  moreover have "sum_list (map (slot_count f \<circ> new_FdContext) [?l..<?n]) = 0" using assms(1) by (simp add: comp_def)
  ultimately show ?thesis using False by (simp add: grow_def contextResize_def in_slots_def)
qed (simp add: grow_def)

lemma grow_home: "home m \<Longrightarrow> home (grow fd m)"
  by (auto simp: home_def grow_def contextResize_def new_FdContext_def armed_def dest!: in_set_takeD)

lemma grow_simps [simp]: "io_this (grow fd m) = io_this m" "io_scheds (grow fd m) = io_scheds m" "queue (grow fd m) = queue m"
  by (simp_all add: grow_def contextResize_def queue_def)

lemma arm_conserves:
  assumes "iom_inv m" "home m" "valid_fd fd m" "event \<in> {EV_READ, EV_WRITE}" "\<not> armed_at fd event m"
    and "home_slot (io_this m) e"
  shows "io_this (arm fd event e m) = io_this m" "home (arm fd event e m)" "queue (arm fd event e m) = queue m"
    "f \<noteq> nullptr \<Longrightarrow> in_slots f (arm fd event e m) = in_slots f m + of_bool (ec_fiber e = f)"
proof -
  let ?c = "m_fdContexts m ! nat fd"
  let ?c' = "setContext event e (?c\<lparr>fc_events := fc_events ?c OR event\<rparr>)"
  note v = valid_ctx [OF assms(1,3)]
  have eq: "arm fd event e m = (m\<lparr>m_fdContexts := (m_fdContexts m)[nat fd := ?c']\<rparr>)
      \<lparr>m_pendingEventCount := m_pendingEventCount m + 1\<rparr>"
    by (simp add: arm_def set_fd_ctx_def Let_def)
  show "io_this (arm fd event e m) = io_this m" "queue (arm fd event e m) = queue m" by (simp_all add: eq queue_def)
  have "home (m\<lparr>m_fdContexts := (m_fdContexts m)[nat fd := ?c']\<rparr>)"
    using assms(6) by (intro home_update [OF assms(2,4) v(3,1)]) simp_all
  then show "home (arm fd event e m)" by (simp add: eq home_def)
  assume f: "f \<noteq> nullptr"
  have "in_slots f (arm fd event e m) = in_slots f (m\<lparr>m_fdContexts := (m_fdContexts m)[nat fd := ?c']\<rparr>)"
    by (simp add: eq in_slots_def)
  moreover have "slot_count f ?c' = slot_count f ?c + of_bool (ec_fiber e = f)"
    using slot_count_set [OF assms(4), where f = f and e = e and c = ?c] slot_empty [OF assms(1,3,4,5)] f by (simp add: empty_context_def)
  ultimately show "in_slots f (arm fd event e m) = in_slots f m + of_bool (ec_fiber e = f)"
    using in_slots_update [OF v(1), of f ?c'] by simp
qed

subsection \<open>The timers\<close>

lemma addTimer_general:
  assumes "timers_ok M" "p \<notin> set (m_timers M)" "p \<noteq> nullptr"
  shows "timers_ok (fst (addTimer M p ms (Some cb) recurring now))"
    "set (m_timers (fst (addTimer M p ms (Some cb) recurring now))) = insert p (set (m_timers M))"
    "tm_heap (fst (addTimer M p ms (Some cb) recurring now)) = (tm_heap M)(p := Timer_ctor ms (Some cb) recurring now)"
proof -
  let ?M = "upd_timer p (\<lambda>_. Timer_ctor ms (Some cb) recurring now) M"
  have ok: "timers_ok ?M" "p \<notin> set (m_timers ?M)"
    using assms(2) timers_ok_upd [OF assms(1,2)] by simp_all
  have eq: "fst (addTimer M p ms (Some cb) recurring now) = tm_insert p ?M \<or>
      fst (addTimer M p ms (Some cb) recurring now) = (tm_insert p ?M)\<lparr>m_tickled := True\<rparr>"
    using addTimer_locked_eq [OF ok assms(3)] by (simp add: addTimer_def split: if_splits)
  have "timers_ok (tm_insert p ?M)" using timers_ok_insert [OF ok(1) assms(3)] by (simp add: Timer_ctor_def)
  with eq show "timers_ok (fst (addTimer M p ms (Some cb) recurring now))"
    "set (m_timers (fst (addTimer M p ms (Some cb) recurring now))) = insert p (set (m_timers M))"
    "tm_heap (fst (addTimer M p ms (Some cb) recurring now)) = (tm_heap M)(p := Timer_ctor ms (Some cb) recurring now)"
    by (auto simp: tc.set_insert)
qed

text \<open>Whatever the clock does, a pass over the timers takes a prefix of the set.\<close>

lemma listExpiredCb_cut:
  assumes "timers_ok M"
  shows "\<exists>n M'. listExpiredCb M now a cbs = Inr (M', cbs @ map (\<lambda>p. m_cb (tm_heap M p)) (take n (m_timers M))) \<and> timers_ok M' \<and>
    set (m_timers M') = set (drop n (m_timers M)) \<union> {p \<in> set (take n (m_timers M)). m_recurring (tm_heap M p)} \<and>
    tm_heap M' = (\<lambda>p. if p \<in> set (take n (m_timers M)) then expired_timer now (tm_heap M p) else tm_heap M p)"
proof -
  have keep: "\<exists>n M'. Inr (N, cbs) = Inr (M', cbs @ map (\<lambda>p. m_cb (tm_heap M p)) (take n (m_timers M))) \<and> timers_ok M' \<and>
      set (m_timers M') = set (drop n (m_timers M)) \<union> {p \<in> set (take n (m_timers M)). m_recurring (tm_heap M p)} \<and>
      tm_heap M' = (\<lambda>p. if p \<in> set (take n (m_timers M)) then expired_timer now (tm_heap M p) else tm_heap M p)"
    if "N = M \<or> N = M\<lparr>m_previouseTime := now\<rparr>" for N
    using that assms by (intro exI [of _ 0] exI [of _ N]) auto
  have run: "\<exists>n' M'. Inr (expire_loop now (take n (m_timers M)) (M\<lparr>m_previouseTime := now, m_timers := drop n (m_timers M)\<rparr>) cbs) =
      Inr (M', cbs @ map (\<lambda>p. m_cb (tm_heap M p)) (take n' (m_timers M))) \<and> timers_ok M' \<and>
      set (m_timers M') = set (drop n' (m_timers M)) \<union> {p \<in> set (take n' (m_timers M)). m_recurring (tm_heap M p)} \<and>
      tm_heap M' = (\<lambda>p. if p \<in> set (take n' (m_timers M)) then expired_timer now (tm_heap M p) else tm_heap M p)" for n
    using listExpiredCb_locked_run [OF assms refl, where it = n and now_ms = now and cbs = cbs] by (intro exI [of _ n]) auto
  show ?thesis
    unfolding listExpiredCb_def listExpiredCb_locked_def detectClockRollover_def Let_def
    using keep run by (auto simp del: take_append drop_append)
qed

definition timers_wf :: "rt_cb timer_manager \<Rightarrow> bool" where
  "timers_wf M \<longleftrightarrow> timers_ok M \<and> (\<forall>p \<in> set (m_timers M). cb_wf (m_cb (tm_heap M p)) \<and>
     (m_recurring (tm_heap M p) \<longrightarrow> user_cb (m_cb (tm_heap M p))))"

lemma timers_wf_add:
  fixes now ms :: u64
  assumes "timers_wf M" "p \<notin> set (m_timers M)" "p \<noteq> nullptr" "cb_wf (Some cb)" "recurring \<longrightarrow> user_cb (Some cb)"
  defines "M' \<equiv> fst (addTimer M p ms (Some cb) recurring now)"
  shows "timers_wf M'" "in_timers f M' = in_timers f M + of_bool (cb = Cb (Wake f))"
proof -
  note a = addTimer_general [where cb = cb and ms = ms and recurring = recurring and now = now, OF _ assms(2,3), folded M'_def]
  have ok: "timers_ok M" using assms(1) by (simp add: timers_wf_def)
  note a = a [OF ok]
  show "timers_wf M'"
    using assms(1,2,4,5) a by (auto simp: timers_wf_def Timer_ctor_def)
  have "{q \<in> set (m_timers M'). m_cb (tm_heap M' q) = Some (Cb (Wake f))} =
      (if cb = Cb (Wake f) then {p} else {}) \<union> {q \<in> set (m_timers M). m_cb (tm_heap M q) = Some (Cb (Wake f))}"
    using a assms(2) by (auto simp: Timer_ctor_def)
  then show "in_timers f M' = in_timers f M + of_bool (cb = Cb (Wake f))"
    using assms(2) by (simp add: in_timers_def)
qed

lemma timers_wf_cancel:
  assumes "timers_wf M" "p \<noteq> nullptr \<Longrightarrow> p \<in> set (m_timers M) \<Longrightarrow> \<exists>t. m_cb (tm_heap M p) = Some (timeout_of t)"
  shows "timers_wf (cancel_timer p M)" "in_timers f (cancel_timer p M) = in_timers f M"
    "set (m_timers (cancel_timer p M)) = set (m_timers M) - {p}" "q \<noteq> p \<Longrightarrow> tm_heap (cancel_timer p M) q = tm_heap M q"
proof -
  have ok: "timers_ok M" using assms(1) by (simp add: timers_wf_def)
  have d: "distinct (m_timers M)" "nullptr \<notin> set (m_timers M)" using timers_okD(2,3) [OF ok] by auto
  let ?H = "(tm_heap M)(p := (tm_heap M p)\<lparr>m_cb := None\<rparr>)"
  have eq: "cancel_timer p M = (if p = nullptr then M else M\<lparr>tm_heap := ?H, m_timers := remove1 p (m_timers M)\<rparr>)"
    using Timer_cancel_member [OF ok, of p] Timer_cancel_absent [OF ok, of p] d
    by (cases "p \<in> set (m_timers M)") (auto simp: cancel_timer_def remove1_idem)
  show s: "set (m_timers (cancel_timer p M)) = set (m_timers M) - {p}" and
    h: "q \<noteq> p \<Longrightarrow> tm_heap (cancel_timer p M) q = tm_heap M q" for q
    using d by (auto simp: eq)
  have "timers_ok (cancel_timer p M)"
    using ok timers_ok_upd [OF timers_ok_remove1 [OF ok, of p], of p "\<lambda>t. t\<lparr>m_cb := None\<rparr>"] d
    by (simp add: eq timers_ok_def)
  then show "timers_wf (cancel_timer p M)" using assms(1) s h by (auto simp: timers_wf_def)
  have "m_cb (tm_heap M p) \<noteq> Some (Cb (Wake f))" if "p \<in> set (m_timers M)"
    using assms(2) that d(2) by (cases "p = nullptr") (auto simp: timeout_of_def)
  then have "{q \<in> set (m_timers (cancel_timer p M)). m_cb (tm_heap (cancel_timer p M) q) = Some (Cb (Wake f))} =
      {q \<in> set (m_timers M). m_cb (tm_heap M q) = Some (Cb (Wake f))}"
    unfolding s using h by (auto; metis)
  then show "in_timers f (cancel_timer p M) = in_timers f M" by (simp add: in_timers_def)
qed

lemma schedule_range_all:
  "\<forall>cb \<in> set cbs. cb \<noteq> None \<Longrightarrow>
    fst (schedule_range cbs s b) = s\<lparr>m_fibers := m_fibers s @ map (\<lambda>cb. FT_cb cb (- 1)) cbs\<rparr>"
proof (induction cbs arbitrary: s b)
  case (Cons c cs)
  let ?s = "s\<lparr>m_fibers := m_fibers s @ [FT_cb c (- 1)]\<rparr>"
  have "scheduleNoLock (FT_cb c (- 1)) s = (?s, m_fibers s = [])"
    using Cons.prems by (simp add: scheduleNoLock_def FT_cb_def)
  moreover have "fst (schedule_range cs ?s (m_fibers s = [] \<or> b)) = ?s\<lparr>m_fibers := m_fibers ?s @ map (\<lambda>cb. FT_cb cb (- 1)) cs\<rparr>"
    using Cons by simp
  ultimately show ?case by (simp add: FT_cb_swap_def case_prod_unfold Let_def)
qed simp

lemma in_tasks_cbs: "f \<noteq> nullptr \<Longrightarrow> in_tasks f (map (\<lambda>cb. FT_cb cb (- 1)) cbs) = length (filter (\<lambda>cb. cb = Some (Cb (Wake f))) cbs)"
  by (induction cbs) (auto simp: wakes_def FT_cb_def)

text \<open>Expired timers move to the queue: what leaves the set is what is handed out.\<close>

lemma expire_conserves:
  assumes "timers_wf M"
  shows "\<exists>n M'. listExpiredCb M now a [] = Inr (M', map (\<lambda>p. m_cb (tm_heap M p)) (take n (m_timers M))) \<and> timers_wf M' \<and>
    set (m_timers M') \<subseteq> set (m_timers M) \<and>
    (\<forall>p \<in> set (m_timers M'). m_cb (tm_heap M' p) = m_cb (tm_heap M p)) \<and>
    (\<forall>p \<in> set (m_timers M) - set (m_timers M'). p \<in> set (take n (m_timers M))) \<and>
    (\<forall>f. in_timers f M' + length (filter (\<lambda>cb. cb = Some (Cb (Wake f))) (map (\<lambda>p. m_cb (tm_heap M p)) (take n (m_timers M)))) =
       in_timers f M)"
proof -
  have ok: "timers_ok M" using assms by (simp add: timers_wf_def)
  obtain n M' where e: "listExpiredCb M now a [] = Inr (M', [] @ map (\<lambda>p. m_cb (tm_heap M p)) (take n (m_timers M)))"
      "timers_ok M'"
      "set (m_timers M') = set (drop n (m_timers M)) \<union> {p \<in> set (take n (m_timers M)). m_recurring (tm_heap M p)}"
      "tm_heap M' = (\<lambda>p. if p \<in> set (take n (m_timers M)) then expired_timer now (tm_heap M p) else tm_heap M p)"
    using listExpiredCb_cut [OF ok, of now a "[]"] by blast
  have d: "distinct (m_timers M)" "set (take n (m_timers M)) \<inter> set (drop n (m_timers M)) = {}"
      "set (m_timers M) = set (take n (m_timers M)) \<union> set (drop n (m_timers M))"
    using timers_okD(2) [OF ok] set_take_disj_set_drop_if_distinct [of "m_timers M" n n]
    by (auto simp: set_append [symmetric] simp del: set_append)
  have sub: "set (m_timers M') \<subseteq> set (m_timers M)" unfolding e(3) d(3) by auto
  have cb: "m_cb (tm_heap M' p) = m_cb (tm_heap M p)" "m_recurring (tm_heap M' p) = m_recurring (tm_heap M p)"
    if "p \<in> set (m_timers M')" for p
    using that d(2) by (auto simp: e(3,4) expired_timer_def)
  have "timers_wf M'" using assms e(2) sub cb unfolding timers_wf_def by (metis subsetD)
  moreover have "in_timers f M' + length (filter (\<lambda>cb. cb = Some (Cb (Wake f))) (map (\<lambda>p. m_cb (tm_heap M p)) (take n (m_timers M)))) =
      in_timers f M" for f
  proof -
    let ?w = "\<lambda>p. m_cb (tm_heap M p) = Some (Cb (Wake f))"
    have "length (filter (\<lambda>cb. cb = Some (Cb (Wake f))) (map (\<lambda>p. m_cb (tm_heap M p)) (take n (m_timers M)))) =
        card {p \<in> set (take n (m_timers M)). ?w p}"
      using d(1) by (simp add: filter_map comp_def distinct_length_filter Int_def conj_commute)
    moreover have "\<not> ?w p" if "p \<in> set (m_timers M)" "m_recurring (tm_heap M p)" for p
      using assms that by (auto simp: timers_wf_def user_cb_def)
    then have "{p \<in> set (m_timers M'). m_cb (tm_heap M' p) = Some (Cb (Wake f))} = {p \<in> set (drop n (m_timers M)). ?w p}"
      using cb d(2,3) unfolding e(3) by fastforce
    moreover have "{p \<in> set (m_timers M). ?w p} = {p \<in> set (drop n (m_timers M)). ?w p} \<union> {p \<in> set (take n (m_timers M)). ?w p}"
      unfolding d(3) by auto
    moreover have "card ({p \<in> set (drop n (m_timers M)). ?w p} \<union> {p \<in> set (take n (m_timers M)). ?w p}) =
        card {p \<in> set (drop n (m_timers M)). ?w p} + card {p \<in> set (take n (m_timers M)). ?w p}"
      using d(2) by (intro card_Un_disjoint) auto
    ultimately show ?thesis by (simp add: in_timers_def)
  qed
  moreover have "p \<in> set (take n (m_timers M))" if "p \<in> set (m_timers M) - set (m_timers M')" for p
    using that unfolding e(3) d(3) by auto
  ultimately show ?thesis using e(1) sub cb(1) by (intro exI [of _ n] exI [of _ M']) simp
qed

subsection \<open>The invariant\<close>

text \<open>
  The calls in progress, against the sleeping fibers \<open>S\<close>, the timers \<open>M\<close> and the callbacks \<open>P\<close> that
  are queued or in hand. Each is made by another fiber, which does not sleep. A call that waits with
  a timeout and was not cancelled still has its timer, or the timer's callback is on its way.
\<close>

definition call_ok :: "ptr \<Rightarrow> io_call \<Rightarrow> ptr set \<Rightarrow> rt_cb timer_manager \<Rightarrow> rt_cb timer_cb option set \<Rightarrow> bool" where
  "call_ok t c S M P \<longleftrightarrow>
     cl_fiber c \<noteq> nullptr \<and> cl_fiber c \<notin> S \<and> 0 \<le> cl_fd c \<and> cl_event c \<in> {EV_READ, EV_WRITE} \<and>
     (cl_timer c \<in> set (m_timers M) \<longrightarrow> m_cb (tm_heap M (cl_timer c)) = Some (timeout_of t)) \<and>
     (cl_phase c \<noteq> Trying \<and> cl_to c \<noteq> - 1 \<and> cl_cancelled c = 0 \<longrightarrow>
        cl_timer c \<in> set (m_timers M) \<or> Some (timeout_of t) \<in> P)"

definition calls_ok :: "(ptr \<rightharpoonup> io_call) \<Rightarrow> ptr set \<Rightarrow> rt_cb timer_manager \<Rightarrow> rt_cb timer_cb option set \<Rightarrow> bool" where
  "calls_ok C S M P \<longleftrightarrow> nullptr \<notin> S \<and> (\<forall>t c. C t = Some c \<longrightarrow> call_ok t c S M P) \<and>
     (\<forall>t c t' c'. C t = Some c \<and> C t' = Some c' \<and> cl_fiber c = cl_fiber c' \<longrightarrow> t = t')"

definition rt_tasks :: "runtime \<Rightarrow> rt_task set" where
  "rt_tasks R = set (queue (rt_io R)) \<union> set (rt_hand R)"

definition rt_inv :: "runtime \<Rightarrow> bool" where
  "rt_inv R \<longleftrightarrow> iom_inv (rt_io R) \<and> home (rt_io R) \<and> 2 \<le> length (m_fdContexts (rt_io R)) \<and> timers_wf (rt_tm R) \<and>
     (\<forall>ft \<in> rt_tasks R. task_wf ft) \<and> calls_ok (rt_calls R) (rt_asleep R) (rt_tm R) (ft_cb ` rt_tasks R) \<and>
     (\<forall>f. f \<noteq> nullptr \<longrightarrow> places f R = of_bool (suspended R f))"

lemma calls_okD:
  assumes "calls_ok C S M P" "C t = Some c"
  shows "call_ok t c S M P" "C t' = Some c' \<Longrightarrow> cl_fiber c = cl_fiber c' \<Longrightarrow> t = t'"
  using assms by (auto simp: calls_ok_def)

lemma calls_ok_mono: "calls_ok C S M P \<Longrightarrow> P \<subseteq> P' \<Longrightarrow> calls_ok C S M P'"
  by (fastforce simp: calls_ok_def call_ok_def)

text \<open>One call goes on or ends; the others keep their timers.\<close>

lemma calls_ok_upd:
  assumes "calls_ok C S M P" "C t = Some c" "cl_fiber c' = cl_fiber c" "call_ok t c' S M P"
  shows "calls_ok (C(t \<mapsto> c')) S M P"
  using assms unfolding calls_ok_def by (auto split: if_splits)

lemma calls_ok_drop: "calls_ok C S M P \<Longrightarrow> calls_ok (C(t := None)) S M P"
  unfolding calls_ok_def by (auto split: if_splits)

lemma calls_ok_put:
  assumes "calls_ok (C(t := None)) S M P" "call_ok t c S M P" "\<And>t' c'. C t' = Some c' \<Longrightarrow> cl_fiber c = cl_fiber c' \<Longrightarrow> t = t'"
  shows "calls_ok (C(t \<mapsto> c)) S M P"
proof -
  have "call_ok t' c' S M P" if "(C(t \<mapsto> c)) t' = Some c'" for t' c'
    using assms(2) that calls_okD(1) [OF assms(1), of t' c'] by (cases "t' = t") simp_all
  moreover have "t1 = t2" if "(C(t \<mapsto> c)) t1 = Some c1" "(C(t \<mapsto> c)) t2 = Some c2" "cl_fiber c1 = cl_fiber c2" for t1 t2 c1 c2
  proof -
    consider "t1 = t2" | "t1 = t" "t2 \<noteq> t" | "t1 \<noteq> t" "t2 = t" | "t1 \<noteq> t" "t2 \<noteq> t" by blast
    then show ?thesis
    proof cases
      case 2
      then have "c1 = c" "C t2 = Some c2" using that by auto
      then show ?thesis using assms(3) [of t2 c2] that(3) 2 by blast
    next
      case 3
      then have "c2 = c" "C t1 = Some c1" using that by auto
      then show ?thesis using assms(3) [of t1 c1] that(3) 3 by metis
    next
      case 4
      then show ?thesis using that calls_okD(2) [OF assms(1), of t1 c1 t2 c2] by simp
    qed
  qed
  ultimately show ?thesis using assms(1) unfolding calls_ok_def by blast
qed

lemma calls_ok_cancel:
  assumes "calls_ok C S M P" "C t = Some c" "timers_wf M"
  shows "calls_ok (C(t := None)) S (cancel_timer (cl_timer c) M) P" "timers_wf (cancel_timer (cl_timer c) M)"
    "in_timers f (cancel_timer (cl_timer c) M) = in_timers f M"
proof -
  let ?p = "cl_timer c"
  have own: "\<exists>t. m_cb (tm_heap M ?p) = Some (timeout_of t)" if "?p \<in> set (m_timers M)"
    using calls_okD(1) [OF assms(1,2)] that by (auto simp: call_ok_def)
  note k = timers_wf_cancel [OF assms(3) own]
  have "call_ok t' c' S (cancel_timer ?p M) P" if "C t' = Some c'" "t' \<noteq> t" for t' c'
  proof -
    have "cl_timer c' \<noteq> ?p" if "?p \<in> set (m_timers M)"
      using calls_okD(1) [OF assms(1,2)] calls_okD(1) [OF assms(1) \<open>C t' = Some c'\<close>] that \<open>t' \<noteq> t\<close>
      by (auto simp: call_ok_def timeout_of_def)
    then show ?thesis using calls_okD(1) [OF assms(1) that(1)] k(3,4) by (auto simp: call_ok_def)
  qed
  then show "calls_ok (C(t := None)) S (cancel_timer ?p M) P"
    using assms(1) by (auto simp: calls_ok_def split: if_splits)
  show "timers_wf (cancel_timer ?p M)" "in_timers f (cancel_timer ?p M) = in_timers f M" using k(1,2) by auto
qed

text \<open>A new timer, at an address no call refers to.\<close>

lemma calls_ok_add_timer:
  assumes "calls_ok C S M P" "timers_ok M" "fresh_timer p R" "rt_tm R = M" "rt_calls R = C"
  shows "calls_ok C S (fst (addTimer M p ms (Some cb) recurring now)) P"
proof -
  have p: "p \<noteq> nullptr" "p \<notin> set (m_timers M)" "\<And>t c. C t = Some c \<Longrightarrow> cl_timer c \<noteq> p"
    using assms(3-5) by (auto simp: fresh_timer_def)
  note a = addTimer_general [OF assms(2) p(2,1), of ms cb recurring now]
  show ?thesis using assms(1) p(3) by (auto simp: calls_ok_def call_ok_def a(2,3))
qed

lemma rt_invD:
  assumes "rt_inv R"
  shows "iom_inv (rt_io R)" "home (rt_io R)" "2 \<le> length (m_fdContexts (rt_io R))" "timers_wf (rt_tm R)"
    "timers_ok (rt_tm R)" "ft \<in> rt_tasks R \<Longrightarrow> task_wf ft"
    "calls_ok (rt_calls R) (rt_asleep R) (rt_tm R) (ft_cb ` rt_tasks R)"
    "f \<noteq> nullptr \<Longrightarrow> places f R = of_bool (suspended R f)"
  using assms by (auto simp: rt_inv_def timers_wf_def)

lemma upd_sched_simps [simp]:
  "rt_tm (upd_sched g R) = rt_tm R" "rt_calls (upd_sched g R) = rt_calls R" "rt_asleep (upd_sched g R) = rt_asleep R"
  "rt_hand (upd_sched g R) = rt_hand R" "io_this (rt_io (upd_sched g R)) = io_this (rt_io R)"
  "m_fdContexts (rt_io (upd_sched g R)) = m_fdContexts (rt_io R)" "in_slots f (rt_io (upd_sched g R)) = in_slots f (rt_io R)"
  "home (rt_io (upd_sched g R)) = home (rt_io R)"
  by (simp_all add: upd_sched_def Let_def in_slots_def home_def)

lemma upd_sched_inv: "iom_inv (rt_io R) \<Longrightarrow> iom_inv (rt_io (upd_sched g R))"
proof -
  assume inv: "iom_inv (rt_io R)"
  then obtain s where s: "io_scheds (rt_io R) (io_this (rt_io R)) = Some s" by (auto simp: iom_inv_def)
  then have "dom (io_scheds (rt_io (upd_sched g R))) = dom (io_scheds (rt_io R))"
    by (auto simp: upd_sched_def Let_def)
  then have "slot_ok (io_scheds (rt_io (upd_sched g R))) a e = slot_ok (io_scheds (rt_io R)) a e" for a e
    by (simp add: slot_ok_def)
  then show ?thesis using inv s by (simp add: iom_inv_def ctx_ok_def upd_sched_def Let_def)
qed

lemma queue_upd_sched:
  assumes "iom_inv (rt_io R)" "\<And>s. m_fibers (g s) = h (m_fibers s)"
  shows "queue (rt_io (upd_sched g R)) = h (queue (rt_io R))"
  using assms by (auto simp: upd_sched_def Let_def queue_def iom_inv_def)

end
