(* ===== verification/Runtime_Inv.thy ===== *)
theory Runtime_Inv
  imports Runtime
begin

section \<open>The runtime's invariants\<close>

text \<open>
  Every action of the runtime keeps the invariant of \<open>Runtime\<close> and the ownership of slots and wake-ups,
  one lemma per action, and so every reachable state has them.
\<close>

subsection \<open>Every action keeps it\<close>

lemma suspended_upd:
  assumes "rt_calls R' = (rt_calls R)(t := x)" "rt_asleep R' = rt_asleep R" "\<not> held_in (rt_calls R t) f"
  shows "suspended R' f \<longleftrightarrow> held_in x f \<or> suspended R f"
  using assms held_upd [of "rt_calls R" t f x] by (auto simp: suspended_def)

lemma begin_inv:
  assumes "rt_inv R" "rt_guard (A_begin t f fd event to) R"
  shows "rt_inv (rt_begin t f fd event to R)"
proof -
  let ?c = "\<lparr> cl_fiber = f, cl_fd = fd, cl_event = event, cl_to = to, cl_cancelled = 0, cl_timer = nullptr, cl_phase = Trying \<rparr>"
  have g: "f \<noteq> nullptr" "\<not> busy R f" "rt_calls R t = None" "0 \<le> fd" "event \<in> {EV_READ, EV_WRITE}"
    using assms(2) by (auto simp: fresh_info_def)
  note i = rt_invD [OF assms(1)]
  have "nullptr \<notin> set (m_timers (rt_tm R))" using timers_okD(3) [OF i(5)] by blast
  then have "call_ok t ?c (rt_asleep R) (rt_tm R) (ft_cb ` rt_tasks R)"
    using g by (auto simp: call_ok_def busy_def)
  then have "calls_ok ((rt_calls R)(t \<mapsto> ?c)) (rt_asleep R) (rt_tm R) (ft_cb ` rt_tasks R)"
    using i(7) g(2,3) by (auto simp: calls_ok_def busy_def split: if_splits)
  moreover have "suspended (rt_begin t f fd event to R) x = suspended R x" for x
    by (subst suspended_upd [of _ R t]) (auto simp: rt_begin_def g(3))
  ultimately show ?thesis
    using assms(1) by (simp add: rt_inv_def rt_begin_def rt_tasks_def places_def)
qed

lemma timer_inv:
  assumes "rt_inv R" "rt_calls R t = Some c" "cl_phase c = Trying" "fresh_timer p R"
  shows "rt_inv (rt_timer t c p now R)"
proof -
  note i = rt_invD [OF assms(1)]
  note co = calls_okD(1) [OF i(7) assms(2)]
  have susp: "suspended (rt_timer t c p now R) x = suspended R x" for x
    by (subst suspended_upd [of _ R t "Some (c\<lparr>cl_timer := if cl_to c \<noteq> - 1 then p else nullptr, cl_phase := Timed\<rparr>)"])
      (auto simp: rt_timer_def assms(2,3))
  have null: "nullptr \<notin> set (m_timers (rt_tm R))" using timers_okD(3) [OF i(5)] by blast
  show ?thesis
  proof (cases "cl_to c = - 1")
    case True
    have "call_ok t (c\<lparr>cl_timer := nullptr, cl_phase := Timed\<rparr>) (rt_asleep R) (rt_tm R) (ft_cb ` rt_tasks R)"
      using co True null by (auto simp: call_ok_def)
    from calls_ok_upd [OF i(7) assms(2) _ this] show ?thesis
      using assms(1) True susp by (simp add: rt_inv_def rt_timer_def rt_tasks_def places_def)
  next
    case False
    let ?M = "fst (addTimer (rt_tm R) p (cl_to c) (Some (timeout_of t)) False now)"
    have p: "p \<noteq> nullptr" "p \<notin> set (m_timers (rt_tm R))" using assms(4) by (auto simp: fresh_timer_def)
    have eq: "rt_timer t c p now R =
        R\<lparr>rt_tm := ?M, rt_calls := (rt_calls R)(t \<mapsto> c\<lparr>cl_timer := p, cl_phase := Timed\<rparr>)\<rparr>"
      using False by (simp add: rt_timer_def addConditionTimer_def timeout_of_def)
    have wf: "timers_wf ?M" "in_timers f ?M = in_timers f (rt_tm R)" for f
      using timers_wf_add [OF i(4) p(2,1), of "timeout_of t" False] by (auto simp: cb_wf_def timeout_of_def)
    note a = addTimer_general [OF i(5) p(2,1), of "cl_to c" "timeout_of t" False now]
    have "call_ok t (c\<lparr>cl_timer := p, cl_phase := Timed\<rparr>) (rt_asleep R) ?M (ft_cb ` rt_tasks R)"
      using co by (auto simp: call_ok_def a(2,3) Timer_ctor_def)
    from calls_ok_upd [OF calls_ok_add_timer [OF i(7,5) assms(4) refl refl] assms(2) _ this] show ?thesis
      using assms(1) susp unfolding eq by (simp add: rt_inv_def rt_tasks_def places_def wf)
  qed
qed

lemma plain_timer_inv:
  assumes "rt_inv R" "fresh_timer p R" "recurring \<longrightarrow> user_cb (Some cb)" "cb_wf (Some cb)"
    and "\<And>f. cb = Cb (Wake f) \<Longrightarrow> S = insert f (rt_asleep R) \<and> f \<noteq> nullptr \<and> \<not> busy R f"
    and "user_cb (Some cb) \<Longrightarrow> S = rt_asleep R" "\<And>t. cb \<noteq> timeout_of t"
  shows "rt_inv (R\<lparr>rt_tm := fst (addTimer (rt_tm R) p ms (Some cb) recurring now), rt_asleep := S\<rparr>)"
proof -
  let ?M = "fst (addTimer (rt_tm R) p ms (Some cb) recurring now)"
  note i = rt_invD [OF assms(1)]
  have p: "p \<noteq> nullptr" "p \<notin> set (m_timers (rt_tm R))" using assms(2) by (auto simp: fresh_timer_def)
  note w = timers_wf_add [OF i(4) p(2,1) assms(4,3), where ms = ms and now = now]
  have c: "calls_ok (rt_calls R) (rt_asleep R) ?M (ft_cb ` rt_tasks R)"
    by (rule calls_ok_add_timer [OF i(7,5) assms(2) refl refl])
  consider f where "cb = Cb (Wake f)" | "user_cb (Some cb)" "\<And>f. cb \<noteq> Cb (Wake f)"
    using assms(4,7) by (auto simp: cb_wf_def user_cb_def)
  then show ?thesis
  proof cases
    case (1 f)
    then have S: "S = insert f (rt_asleep R)" "f \<noteq> nullptr" "\<not> busy R f" using assms(5) by auto
    have "calls_ok (rt_calls R) S ?M (ft_cb ` rt_tasks R)"
      using c S by (auto simp: calls_ok_def call_ok_def busy_def)
    moreover have "suspended (R\<lparr>rt_tm := ?M, rt_asleep := S\<rparr>) x = (x = f \<or> suspended R x)" "\<not> suspended R f" for x
      using S by (auto simp: suspended_def busy_def held_in_def)
    ultimately show ?thesis
      using assms(1) w 1 by (auto simp: rt_inv_def rt_tasks_def places_def)
  next
    case 2
    then have "S = rt_asleep R" using assms(6) by simp
    then show ?thesis
      using assms(1) w 2 c by (simp add: rt_inv_def rt_tasks_def places_def suspended_def)
  qed
qed

lemma addable_grow:
  assumes "rt_inv R" "addable fd event R"
  shows "iom_inv (grow fd (rt_io R))" "home (grow fd (rt_io R))" "valid_fd fd (grow fd (rt_io R))"
    "2 \<le> length (m_fdContexts (grow fd (rt_io R)))" "f \<noteq> nullptr \<Longrightarrow> in_slots f (grow fd (rt_io R)) = in_slots f (rt_io R)"
    "2 \<le> fd \<or> int (length (m_fdContexts (rt_io R))) > fd" "event \<in> {EV_READ, EV_WRITE}" "0 \<le> fd"
proof -
  note i = rt_invD [OF assms(1)]
  show a: "0 \<le> fd" "event \<in> {EV_READ, EV_WRITE}" using assms(2) by (auto simp: addable_def)
  show b: "2 \<le> fd \<or> int (length (m_fdContexts (rt_io R))) > fd" using i(3) by linarith
  note g = grow_inv [OF i(1) b a(1)]
  show "iom_inv (grow fd (rt_io R))" "valid_fd fd (grow fd (rt_io R))" "2 \<le> length (m_fdContexts (grow fd (rt_io R)))"
    using g i(3) by auto
  show "home (grow fd (rt_io R))" by (rule grow_home [OF i(2)])
  show "f \<noteq> nullptr \<Longrightarrow> in_slots f (grow fd (rt_io R)) = in_slots f (rt_io R)" using grow_conserves g by blast
qed

lemma this_in_dom: "rt_inv R \<Longrightarrow> io_this (rt_io R) \<in> dom (io_scheds (rt_io R))"
  using rt_invD(1) by (auto simp: iom_inv_def)

lemma length_arm [simp]: "length (m_fdContexts (arm fd event e m)) = length (m_fdContexts m)"
  by (simp add: arm_def set_fd_ctx_def Let_def)

definition event_of :: "runtime \<Rightarrow> io_call \<Rightarrow> rt_cb timer_cb event_context" where
  "event_of R c = \<lparr> ec_schedular = io_this (rt_io R), ec_fiber = cl_fiber c, ec_cb = None \<rparr>"

lemma event_of_simps [simp]:
  "ec_fiber (event_of R c) = cl_fiber c" "home_slot (io_this (rt_io R)) (event_of R c)"
  by (simp_all add: event_of_def home_slot_def)

lemma queue_arm [simp]: "queue (arm fd event e m) = queue m"
  by (simp add: queue_def arm_def set_fd_ctx_def Let_def)

lemma block_runs:
  fixes rt :: int
  assumes "rt_inv R" "rt_calls R t = Some c" "addable (cl_fd c) (cl_event c) R"
  defines "m \<equiv> (if rt = 0 then arm (cl_fd c) (cl_event c) (event_of R c) (grow (cl_fd c) (rt_io R)) else grow (cl_fd c) (rt_io R))"
  shows "io_block_event rt (io_this (rt_io R)) (cl_fiber c) (cl_fd c) (cl_event c) (rt_io R) = Inr (m, if rt = 0 then 0 else - 1)"
    "iom_inv m"
proof -
  note i = rt_invD [OF assms(1)] and a = addable_grow [OF assms(1,3)]
  have na: "\<not> armed_at (cl_fd c) (cl_event c) (grow (cl_fd c) (rt_io R))" using assms(3) by (simp add: addable_def)
  have f: "cl_fiber c \<noteq> nullptr" using calls_okD(1) [OF i(7) assms(2)] by (auto simp: call_ok_def)
  show "io_block_event rt (io_this (rt_io R)) (cl_fiber c) (cl_fd c) (cl_event c) (rt_io R) = Inr (m, if rt = 0 then 0 else - 1)"
    "iom_inv m"
    using addEvent_ok [OF i(1) a(8,7,6) na this_in_dom [OF assms(1)], of None "cl_fiber c" EXEC rt] f
    unfolding m_def event_of_def by (cases "rt = 0"; simp add: io_block_event_def)+
qed

lemma add_inv:
  assumes "rt_inv R" "rt_calls R t = Some c" "cl_phase c = Timed" "addable (cl_fd c) (cl_event c) R"
  shows "\<exists>R'. rt_add rt t c R = Inr R' \<and> rt_inv R'"
proof -
  let ?fd = "cl_fd c" and ?ev = "cl_event c" and ?e = "event_of R c" and ?m = "grow (cl_fd c) (rt_io R)"
  note i = rt_invD [OF assms(1)] and a = addable_grow [OF assms(1,4)] and blk = block_runs [OF assms(1,2,4), of rt]
  note co = calls_okD(1) [OF i(7) assms(2)]
  have na: "\<not> armed_at ?fd ?ev ?m" using assms(4) by (simp add: addable_def)
  have f: "cl_fiber c \<noteq> nullptr" "cl_fiber c \<notin> rt_asleep R" using co by (auto simp: call_ok_def)
  show ?thesis
  proof (cases "rt = 0")
    case False
    let ?R = "R\<lparr>rt_io := ?m, rt_tm := cancel_timer (cl_timer c) (rt_tm R), rt_calls := (rt_calls R)(t := None)\<rparr>"
    have "suspended ?R x = suspended R x" for x
      by (subst suspended_upd [of _ R t None]) (auto simp: assms(2,3))
    moreover have "rt_tasks ?R = rt_tasks R" by (simp add: rt_tasks_def)
    moreover have "places x ?R = places x R" if "x \<noteq> nullptr" for x
      using a(5) [OF that] calls_ok_cancel(3) [OF i(7) assms(2) i(4)] by (simp add: places_def)
    ultimately have "rt_inv ?R"
      using i a calls_ok_cancel(1,2) [OF i(7) assms(2) i(4)] by (simp add: rt_inv_def)
    then show ?thesis using False blk(1) by (simp add: rt_add_def)
  next
    case True
    let ?R = "R\<lparr>rt_io := arm ?fd ?ev ?e ?m, rt_calls := (rt_calls R)(t \<mapsto> c\<lparr>cl_phase := Held\<rparr>)\<rparr>"
    have hs: "home_slot (io_this ?m) ?e" by simp
    note ar = arm_conserves [OF a(1,2,3,7) na hs]
    have nh: "\<not> suspended R (cl_fiber c)"
      using f calls_okD(2) [OF i(7) assms(2)] assms(2,3) by (auto simp: suspended_def held_in_def)
    have "suspended ?R x \<longleftrightarrow> x = cl_fiber c \<or> suspended R x" for x
      by (subst suspended_upd [of _ R t "Some (c\<lparr>cl_phase := Held\<rparr>)"]) (auto simp: assms(2,3))
    moreover have "rt_tasks ?R = rt_tasks R" by (simp add: rt_tasks_def ar(3))
    moreover have "places x ?R = places x R + of_bool (cl_fiber c = x)" if "x \<noteq> nullptr" for x
      using a(5) [OF that] ar(4) [OF that] by (simp add: places_def)
    moreover have "call_ok t (c\<lparr>cl_phase := Held\<rparr>) (rt_asleep R) (rt_tm R) (ft_cb ` rt_tasks R)"
      using co assms(3) by (auto simp: call_ok_def)
    from calls_ok_upd [OF i(7) assms(2) _ this]
    have "calls_ok ((rt_calls R)(t \<mapsto> c\<lparr>cl_phase := Held\<rparr>)) (rt_asleep R) (rt_tm R) (ft_cb ` rt_tasks R)" by simp
    moreover have "iom_inv (arm ?fd ?ev ?e ?m)" using blk(2) True by simp
    ultimately have "rt_inv ?R"
      using i(4,6) ar(2) a(4) i(8) nh by (auto simp: rt_inv_def)
    then show ?thesis using True blk(1) by (simp add: rt_add_def)
  qed
qed

lemma user_event_inv:
  assumes "rt_inv R" "addable fd event R"
  shows "\<exists>R'. rt_exec (A_user_event rt fd event u) R = Inr R' \<and> rt_inv R'"
proof -
  let ?me = "io_this (rt_io R)" and ?m = "grow fd (rt_io R)"
  let ?e = "\<lparr> ec_schedular = ?me, ec_fiber = nullptr, ec_cb = Some (Cb (User u)) \<rparr>"
  note i = rt_invD [OF assms(1)] and a = addable_grow [OF assms]
  have na: "\<not> armed_at fd event ?m" using assms(2) by (simp add: addable_def)
  have add: "addEvent rt ?me nullptr EXEC fd event (Some (Cb (User u))) (rt_io R) =
      Inr (if rt = 0 then arm fd event ?e ?m else ?m, if rt = 0 then 0 else - 1)"
    "iom_inv (if rt = 0 then arm fd event ?e ?m else ?m)"
    using addEvent_ok [OF i(1) a(8,7,6) na this_in_dom [OF assms(1)], of "Some (Cb (User u))" nullptr EXEC rt]
    by (cases "rt = 0"; simp)+
  have hs: "home_slot (io_this ?m) ?e" by (simp add: home_slot_def user_cb_def)
  note ar = arm_conserves [OF a(1,2,3,7) na hs]
  let ?R = "R\<lparr>rt_io := if rt = 0 then arm fd event ?e ?m else ?m\<rparr>"
  have "rt_tasks ?R = rt_tasks R" "suspended ?R = suspended R" by (auto simp: rt_tasks_def ar(3) suspended_def)
  moreover have "places x ?R = places x R" if "x \<noteq> nullptr" for x
    using a(5) [OF that] ar(4) [OF that] that by (simp add: places_def ar(3))
  ultimately have "rt_inv ?R"
    using i(4,6,7,8) ar(2) a(2,4) add(2) by (simp add: rt_inv_def)
  then show ?thesis using add(1) by simp
qed

lemma return_inv:
  assumes "rt_inv R" "rt_calls R t = Some c" "cl_phase c = Trying"
  shows "rt_inv (rt_return t R)"
proof -
  have "suspended (rt_return t R) x = suspended R x" for x
    by (subst suspended_upd [of _ R t None]) (auto simp: rt_return_def assms(2,3))
  then show ?thesis
    using assms(1) calls_ok_drop by (simp add: rt_inv_def rt_return_def rt_tasks_def places_def)
qed

text \<open>
  A fiber in a slot waits there: its call is suspended on that descriptor and event. A callback that
  schedules a fiber belongs to one that sleeps.
\<close>

definition waits_at :: "'cb iomanager \<Rightarrow> nat \<Rightarrow> u32 \<Rightarrow> ptr \<Rightarrow> bool" where
  "waits_at m i event f \<longleftrightarrow> i < length (m_fdContexts m) \<and> event \<in> {EV_READ, EV_WRITE} \<and> f \<noteq> nullptr \<and>
     ec_fiber (slot event (m_fdContexts m ! i)) = f"

definition slots_owned :: "rt_cb timer_cb iomanager \<Rightarrow> (ptr \<rightharpoonup> io_call) \<Rightarrow> bool" where
  "slots_owned m C \<longleftrightarrow> (\<forall>i event f. waits_at m i event f \<longrightarrow>
     (\<exists>t c. C t = Some c \<and> cl_phase c = Held \<and> cl_fd c = int i \<and> cl_event c = event \<and> cl_fiber c = f))"

definition cb_owned :: "ptr set \<Rightarrow> rt_cb timer_cb option \<Rightarrow> bool" where
  "cb_owned S cb \<longleftrightarrow> (\<forall>f. cb = Some (Cb (Wake f)) \<longrightarrow> f \<in> S)"

definition timers_owned :: "ptr set \<Rightarrow> rt_cb timer_manager \<Rightarrow> bool" where
  "timers_owned S M \<longleftrightarrow> (\<forall>p \<in> set (m_timers M). cb_owned S (m_cb (tm_heap M p)))"

definition tasks_owned :: "ptr set \<Rightarrow> rt_task set \<Rightarrow> bool" where
  "tasks_owned S T \<longleftrightarrow> (\<forall>ft \<in> T. cb_owned S (ft_cb ft))"

lemma cb_owned_simps [simp]:
  "cb_owned S None" "cb_owned S (Some (Cb (User u)))" "cb_owned S (Some (timeout_of t))"
  "cb_owned S (Some (Cb (Wake f))) \<longleftrightarrow> f \<in> S" "user_cb cb \<Longrightarrow> cb_owned S cb"
  by (auto simp: cb_owned_def timeout_of_def user_cb_def)

lemma tasks_owned_simps [simp]: "tasks_owned S (T \<union> T') \<longleftrightarrow> tasks_owned S T \<and> tasks_owned S T'"
  "tasks_owned S (insert ft T) \<longleftrightarrow> cb_owned S (ft_cb ft) \<and> tasks_owned S T"
  by (auto simp: tasks_owned_def)

lemma tasks_owned_mono: "tasks_owned S T \<Longrightarrow> T' \<subseteq> T \<Longrightarrow> S \<subseteq> S' \<Longrightarrow> tasks_owned S' T'"
  by (fastforce simp: tasks_owned_def cb_owned_def)

lemma timers_owned_mono:
  "timers_owned S M \<Longrightarrow> set (m_timers M') \<subseteq> set (m_timers M) \<Longrightarrow>
    (\<And>p. p \<in> set (m_timers M') \<Longrightarrow> m_cb (tm_heap M' p) = m_cb (tm_heap M p)) \<Longrightarrow> timers_owned S M'"
  by (auto simp: timers_owned_def)

lemma slots_ownedD:
  assumes "slots_owned m C" "waits_at m i event f"
  obtains t c where "C t = Some c" "cl_phase c = Held" "cl_fd c = int i" "cl_event c = event" "cl_fiber c = f"
  using assms unfolding slots_owned_def by blast

lemma slots_owned_less:
  "slots_owned m C \<Longrightarrow> (\<And>i event f. waits_at m' i event f \<Longrightarrow> waits_at m i event f) \<Longrightarrow> slots_owned m' C"
  unfolding slots_owned_def by blast

text \<open>The calls of the fibers that are in no slot may change freely.\<close>

lemma slots_owned_upd:
  assumes "slots_owned m C" "\<And>i event. C t = Some c \<Longrightarrow> cl_phase c = Held \<Longrightarrow> \<not> waits_at m i event (cl_fiber c)"
    and "C t = Some c \<or> C t = None"
  shows "slots_owned m (C(t := x))"
  unfolding slots_owned_def
proof (intro allI impI)
  fix i event f
  assume w: "waits_at m i event f"
  then obtain t' c' where c': "C t' = Some c'" "cl_phase c' = Held" "cl_fd c' = int i" "cl_event c' = event" "cl_fiber c' = f"
    using slots_ownedD [OF assms(1)] by metis
  then have "t' \<noteq> t" using assms(2,3) w by auto
  with c' show "\<exists>t' c'. (C(t := x)) t' = Some c' \<and> cl_phase c' = Held \<and> cl_fd c' = int i \<and> cl_event c' = event \<and> cl_fiber c' = f"
    by auto
qed

lemma slots_owned_same:
  assumes "slots_owned m C" "C t = Some c" "cl_phase c' = cl_phase c" "cl_fd c' = cl_fd c" "cl_event c' = cl_event c" "cl_fiber c' = cl_fiber c"
  shows "slots_owned m (C(t \<mapsto> c'))"
  unfolding slots_owned_def
proof (intro allI impI)
  fix i event f
  assume "waits_at m i event f"
  then obtain t1 c1 where "C t1 = Some c1" "cl_phase c1 = Held" "cl_fd c1 = int i" "cl_event c1 = event" "cl_fiber c1 = f"
    using slots_ownedD [OF assms(1)] by metis
  then show "\<exists>t1 c1. (C(t \<mapsto> c')) t1 = Some c1 \<and> cl_phase c1 = Held \<and> cl_fd c1 = int i \<and> cl_event c1 = event \<and> cl_fiber c1 = f"
    using assms(2-6) by (cases "t1 = t") auto
qed

lemma waits_counted:
  assumes "waits_at m i event f"
  shows "1 \<le> in_slots f m"
proof -
  have "1 \<le> slot_count f (m_fdContexts m ! i)" using assms by (auto simp: waits_at_def slot_count_def slot_def)
  also have "\<dots> \<le> in_slots f m"
    using assms elem_le_sum_list [of i "map (slot_count f) (m_fdContexts m)"] by (simp add: waits_at_def in_slots_def)
  finally show ?thesis .
qed

lemma waits_update:
  assumes "waits_at (m\<lparr>m_fdContexts := (m_fdContexts m)[j := setContext ev e ((m_fdContexts m ! j)\<lparr>fc_events := x\<rparr>)]\<rparr>) i event f"
    and "ev \<in> {EV_READ, EV_WRITE}"
  shows "if i = j \<and> event = ev then ec_fiber e = f \<and> f \<noteq> nullptr else waits_at m i event f"
proof (cases "i = j")
  case True
  then show ?thesis using assms by (auto simp: waits_at_def slot_def setContext_def split: if_splits)
qed (use assms in \<open>simp add: waits_at_def\<close>)

lemma waits_fire:
  assumes "waits_at (fire fd ev m) i event f" "ev \<in> {EV_READ, EV_WRITE}"
  shows "waits_at m i event f" "\<not> (i = nat fd \<and> event = ev)"
proof -
  let ?c = "m_fdContexts m ! nat fd"
  have "waits_at (m\<lparr>m_fdContexts := (m_fdContexts m)[nat fd := setContext ev empty_context (?c\<lparr>fc_events := fc_events ?c AND NOT ev\<rparr>)]\<rparr>) i event f"
    using assms(1) by (simp add: waits_at_def fire_def disarm_def set_fd_ctx_def Let_def)
  from waits_update [OF this assms(2)] show "waits_at m i event f" "\<not> (i = nat fd \<and> event = ev)"
    by (auto simp: empty_context_def split: if_splits)
qed

lemma waits_grow: "waits_at (grow fd m) i event f \<Longrightarrow> waits_at m i event f"
proof -
  have new: "ec_fiber (slot event (new_FdContext k)) = nullptr" for k event
    by (simp add: slot_def new_FdContext_def empty_context_def)
  assume "waits_at (grow fd m) i event f"
  then show ?thesis
    by (auto simp: waits_at_def grow_def contextResize_def nth_append new split: if_splits)
qed

lemma waits_arm:
  assumes "waits_at (arm fd ev e m) i event f" "ev \<in> {EV_READ, EV_WRITE}"
  shows "waits_at m i event f \<or> i = nat fd \<and> event = ev \<and> ec_fiber e = f \<and> f \<noteq> nullptr"
proof -
  let ?c = "m_fdContexts m ! nat fd"
  have "waits_at (m\<lparr>m_fdContexts := (m_fdContexts m)[nat fd := setContext ev e (?c\<lparr>fc_events := fc_events ?c OR ev\<rparr>)]\<rparr>) i event f"
    using assms(1) by (simp add: waits_at_def arm_def set_fd_ctx_def Let_def)
  from waits_update [OF this assms(2)] show ?thesis by (auto split: if_splits)
qed

text \<open>Changes of the event table that only move waiting tasks to the end of the queue.\<close>

definition conserves :: "rt_cb timer_cb iomanager \<Rightarrow> rt_cb timer_cb iomanager \<Rightarrow> bool" where
  "conserves m m' \<longleftrightarrow> iom_inv m' \<and> home m' \<and> length (m_fdContexts m') = length (m_fdContexts m) \<and>
     (\<exists>fts. queue m' = queue m @ fts \<and> (\<forall>ft \<in> set fts. task_wf ft \<and> (ft_fiber ft \<noteq> nullptr \<or> user_cb (ft_cb ft)))) \<and>
     (\<forall>i event f. waits_at m' i event f \<longrightarrow> waits_at m i event f) \<and>
     (\<forall>f. f \<noteq> nullptr \<longrightarrow> in_slots f m' + in_tasks f (queue m') = in_slots f m + in_tasks f (queue m))"

lemma conserves_refl: "iom_inv m \<Longrightarrow> home m \<Longrightarrow> conserves m m"
  by (simp add: conserves_def)

lemma conserves_trans: "conserves m m' \<Longrightarrow> conserves m' m'' \<Longrightarrow> conserves m m''"
proof -
  assume c: "conserves m m'" "conserves m' m''"
  then obtain xs ys where "queue m' = queue m @ xs" "\<forall>ft \<in> set xs. task_wf ft \<and> (ft_fiber ft \<noteq> nullptr \<or> user_cb (ft_cb ft))"
      "queue m'' = queue m' @ ys" "\<forall>ft \<in> set ys. task_wf ft \<and> (ft_fiber ft \<noteq> nullptr \<or> user_cb (ft_cb ft))"
    unfolding conserves_def by blast
  then have "queue m'' = queue m @ (xs @ ys)" "\<forall>ft \<in> set (xs @ ys). task_wf ft \<and> (ft_fiber ft \<noteq> nullptr \<or> user_cb (ft_cb ft))"
    by auto
  with c show ?thesis unfolding conserves_def by (intro conjI exI [of _ "xs @ ys"]) auto
qed

lemma conserves_fire:
  assumes "iom_inv m" "home m" "valid_fd fd m" "event \<in> {EV_READ, EV_WRITE}" "armed_at fd event m"
  shows "conserves m (fire fd event m)"
  using fire_conserves [OF assms] waits_fire(1) [OF _ assms(4)] by (auto simp: conserves_def)

lemma conserves_cancel:
  assumes "iom_inv m" "home m" "0 \<le> fd" "event \<in> {EV_READ, EV_WRITE}"
  shows "\<exists>m' b. cancelEvent rt fd event m = Inr (m', b) \<and> conserves m m'"
proof (cases "valid_fd fd m")
  case True
  then show ?thesis
    using cancelEvent_ok(1) [OF assms(1,4) True, of rt] conserves_fire [OF assms(1,2) True assms(4)] conserves_refl [OF assms(1,2)]
    by simp
next
  case False
  then have "int (length (m_fdContexts m)) \<le> fd" using assms(3) by (simp add: valid_fd_def)
  then show ?thesis using conserves_refl [OF assms(1,2)] by (auto simp: cancelEvent_def)
qed

lemma conserves_event:
  assumes "iom_inv m" "home m" "i < length (m_fdContexts m)"
    and "let c = m_fdContexts m ! i; real = real_events events c
      in (real AND EV_READ \<noteq> 0 \<longrightarrow> armed EV_READ c) \<and> (real AND EV_WRITE \<noteq> 0 \<longrightarrow> armed EV_WRITE c)"
  shows "\<exists>m'. idle_event rt2 (events, Fd_ptr i) m = Inr m' \<and> conserves m m'"
proof -
  let ?c = "m_fdContexts m ! i" and ?fd = "int i"
  define real where "real = real_events events ?c"
  have v: "valid_fd ?fd m" using assms(3) by (simp add: valid_fd_def)
  have a: "real AND EV_READ \<noteq> 0 \<Longrightarrow> armed_at ?fd EV_READ m" "real AND EV_WRITE \<noteq> 0 \<Longrightarrow> armed_at ?fd EV_WRITE m"
    using assms(4) by (auto simp: real_def armed_at_def Let_def)
  let ?m1 = "if real AND EV_READ \<noteq> 0 then fire ?fd EV_READ m else m"
  have c1: "conserves m ?m1" using conserves_fire [OF assms(1,2) v] a(1) conserves_refl [OF assms(1,2)] by simp
  then have i1: "iom_inv ?m1" "home ?m1" "valid_fd ?fd ?m1" using v by (auto simp: conserves_def)
  have a1: "real AND EV_WRITE \<noteq> 0 \<Longrightarrow> armed_at ?fd EV_WRITE ?m1"
    using a(2) armed_fire(1) [OF assms(1) v] by simp
  let ?m2 = "if real AND EV_WRITE \<noteq> 0 then fire ?fd EV_WRITE ?m1 else ?m1"
  have "conserves ?m1 ?m2" using conserves_fire [OF i1] a1 conserves_refl [OF i1(1,2)] by simp
  with c1 have "conserves m ?m2" by (rule conserves_trans)
  moreover have "rbind (trigger_if (real AND EV_READ \<noteq> 0) ?fd EV_READ m) (\<lambda>m. trigger_if (real AND EV_WRITE \<noteq> 0) ?fd EV_WRITE m) = Inr ?m2"
    using trigger_if_fire [OF assms(1) v, of EV_READ "real AND EV_READ \<noteq> 0"] a(1)
      trigger_if_fire [OF i1(1,3), of EV_WRITE "real AND EV_WRITE \<noteq> 0"] a1 by simp
  ultimately show ?thesis
    unfolding idle_event_eq [OF assms(1,3) real_def] using conserves_refl [OF assms(1,2)] by auto
qed

lemma conserves_inv:
  assumes "rt_inv R" "conserves (rt_io R) m"
  shows "rt_inv (R\<lparr>rt_io := m\<rparr>)"
proof -
  note i = rt_invD [OF assms(1)]
  obtain fts where q: "queue m = queue (rt_io R) @ fts" "\<forall>ft \<in> set fts. task_wf ft"
    using assms(2) by (auto simp: conserves_def)
  have t: "rt_tasks (R\<lparr>rt_io := m\<rparr>) = rt_tasks R \<union> set fts" by (auto simp: rt_tasks_def q(1))
  have "calls_ok (rt_calls R) (rt_asleep R) (rt_tm R) (ft_cb ` (rt_tasks R \<union> set fts))"
    by (rule calls_ok_mono [OF i(7)]) auto
  moreover have "places f (R\<lparr>rt_io := m\<rparr>) = places f R" if "f \<noteq> nullptr" for f
    using assms(2) that by (simp add: conserves_def places_def)
  ultimately show ?thesis
    using assms(2) i(3,4,6,8) q(2) unfolding rt_inv_def t by (auto simp: conserves_def suspended_def)
qed

lemma event_inv:
  assumes "rt_inv R" "rt_guard (A_event rt2 events i) R"
  shows "\<exists>R'. rt_event rt2 events i R = Inr R' \<and> rt_inv R'"
proof -
  obtain m where "idle_event rt2 (events, Fd_ptr i) (rt_io R) = Inr m" "conserves (rt_io R) m"
    using conserves_event [OF rt_invD(1,2) [OF assms(1)], of i events rt2] assms(2) by auto
  then show ?thesis using conserves_inv [OF assms(1)] by (simp add: rt_event_def)
qed

text \<open>Tasks at the end of the queue.\<close>

lemma push_inv:
  assumes "iom_inv (rt_io R)" "ft_fiber ft \<noteq> nullptr \<or> ft_cb ft \<noteq> None"
  shows "queue (rt_io (rt_push ft R)) = queue (rt_io R) @ [ft]" "iom_inv (rt_io (rt_push ft R))"
    "rt_tasks (rt_push ft R) = insert ft (rt_tasks R)" "places f (rt_push ft R) = places f R + of_bool (wakes f ft)"
    "suspended (rt_push ft R) f = suspended R f"
proof -
  show q: "queue (rt_io (rt_push ft R)) = queue (rt_io R) @ [ft]"
    unfolding rt_push_def by (rule queue_upd_sched [OF assms(1)]) (use assms(2) in \<open>auto simp: schedule_def scheduleNoLock_def\<close>)
  show "iom_inv (rt_io (rt_push ft R))" unfolding rt_push_def by (rule upd_sched_inv [OF assms(1)])
  show "rt_tasks (rt_push ft R) = insert ft (rt_tasks R)" by (simp add: rt_tasks_def q) (simp add: rt_push_def)
  show "places f (rt_push ft R) = places f R + of_bool (wakes f ft)" by (simp add: places_def q) (simp add: rt_push_def)
  show "suspended (rt_push ft R) f = suspended R f" by (simp add: suspended_def rt_push_def)
qed

lemma user_task_inv:
  assumes "rt_inv R"
  shows "rt_inv (rt_push (FT_cb (Some (Cb (User u))) (- 1)) R)"
proof -
  let ?ft = "FT_cb (Some (Cb (User u))) (- 1) :: rt_task"
  note i = rt_invD [OF assms]
  have ft: "ft_fiber ?ft \<noteq> nullptr \<or> ft_cb ?ft \<noteq> None" "task_wf ?ft" "\<And>f. f \<noteq> nullptr \<Longrightarrow> \<not> wakes f ?ft"
    by (auto simp: FT_cb_def task_wf_def cb_wf_def user_cb_def wakes_def)
  note p = push_inv [OF i(1) ft(1)]
  have "calls_ok (rt_calls R) (rt_asleep R) (rt_tm R) (ft_cb ` insert ?ft (rt_tasks R))"
    by (rule calls_ok_mono [OF i(7)]) auto
  then show ?thesis
    using i ft(2,3) unfolding rt_inv_def p(3) by (simp add: p) (simp add: rt_push_def)
qed

lemma poll_eq: "rt_poll now R = R\<lparr>rt_tm := (rt_tm R)\<lparr>m_tickled := False\<rparr>\<rparr>"
  by (simp add: rt_poll_def io_stopping_def getNextTimer_def)

lemma poll_inv: "rt_inv R \<Longrightarrow> rt_inv (rt_poll now R)"
proof -
  have "calls_ok C S (M\<lparr>m_tickled := False\<rparr>) P = calls_ok C S M P" "timers_wf (M\<lparr>m_tickled := False\<rparr>) = timers_wf M"
    "in_timers f (M\<lparr>m_tickled := False\<rparr>) = in_timers f M" for C S P f and M :: "rt_cb timer_manager"
    by (simp_all add: calls_ok_def call_ok_def timers_wf_def in_timers_def)
  then show "rt_inv R \<Longrightarrow> rt_inv (rt_poll now R)"
    by (simp add: poll_eq rt_inv_def rt_tasks_def places_def suspended_def)
qed

lemma expire_inv:
  assumes "rt_inv R"
  shows "\<exists>R'. rt_expire now a R = Inr R' \<and> rt_inv R'"
proof -
  note i = rt_invD [OF assms]
  let ?cbs = "\<lambda>n. map (\<lambda>p. m_cb (tm_heap (rt_tm R) p)) (take n (m_timers (rt_tm R)))"
  obtain n M where e: "listExpiredCb (rt_tm R) now a [] = Inr (M, ?cbs n)" "timers_wf M"
      "set (m_timers M) \<subseteq> set (m_timers (rt_tm R))" "\<And>p. p \<in> set (m_timers M) \<Longrightarrow> m_cb (tm_heap M p) = m_cb (tm_heap (rt_tm R) p)"
      "\<And>p. p \<in> set (m_timers (rt_tm R)) \<Longrightarrow> p \<notin> set (m_timers M) \<Longrightarrow> p \<in> set (take n (m_timers (rt_tm R)))"
      "\<And>f. in_timers f M + length (filter (\<lambda>cb. cb = Some (Cb (Wake f))) (?cbs n)) = in_timers f (rt_tm R)"
    using expire_conserves [OF i(4), of now a] by blast
  have wf: "\<forall>cb \<in> set (?cbs n). cb_wf cb" using i(4) by (auto simp: timers_wf_def dest: in_set_takeD)
  then have some: "\<forall>cb \<in> set (?cbs n). cb \<noteq> None" by (auto simp: cb_wf_def user_cb_def)
  let ?fts = "map (\<lambda>cb. FT_cb cb (- 1)) (?cbs n) :: rt_task list"
  let ?S = "upd_sched (\<lambda>s. fst (schedule_range (?cbs n) s False)) R"
  let ?R = "(if ?cbs n = [] then R else ?S)\<lparr>rt_tm := M\<rparr>"
  have "queue (rt_io ?S) = queue (rt_io R) @ ?fts"
    by (rule queue_upd_sched [OF i(1)]) (simp add: schedule_range_all [OF some])
  then have q: "queue (rt_io ?R) = queue (rt_io R) @ ?fts" by auto
  have t: "rt_tasks ?R = rt_tasks R \<union> set ?fts" using q by (auto simp: rt_tasks_def)
  have "call_ok t c (rt_asleep R) M (ft_cb ` rt_tasks ?R)" if c: "rt_calls R t = Some c" for t c
  proof -
    have "Some (timeout_of t) \<in> ft_cb ` rt_tasks ?R"
      if "cl_timer c \<in> set (m_timers (rt_tm R))" "cl_timer c \<notin> set (m_timers M)"
      using e(5) [OF that] calls_okD(1) [OF i(7) c] that(1) unfolding t by (force simp: call_ok_def FT_cb_def)
    then show ?thesis
      using calls_okD(1) [OF i(7) c] e(3,4) unfolding call_ok_def t by auto
  qed
  then have "calls_ok (rt_calls R) (rt_asleep R) M (ft_cb ` rt_tasks ?R)"
    using i(7) by (auto simp: calls_ok_def)
  moreover have "places f ?R = places f R" if "f \<noteq> nullptr" for f
    unfolding places_def q using e(6) [of f] in_tasks_cbs [OF that, of "?cbs n"] by auto
  moreover have "task_wf ft" if "ft \<in> set ?fts" for ft
    using that wf by (auto simp: task_wf_def FT_cb_def)
  ultimately have "rt_inv ?R"
    using i(1,2,3,6,8) e(2) upd_sched_inv [OF i(1)] unfolding rt_inv_def t by (auto simp: suspended_def)
  then show ?thesis using e(1) by (simp add: rt_expire_def)
qed

text \<open>A thread takes a task, and is done with one.\<close>

lemma run_pick_cases:
  assumes "\<forall>it \<in> set (m_fibers s). task_ok h it"
  shows "(\<exists>xs it ys tick. m_fibers s = xs @ it # ys \<and> runnable h tid it \<and> (\<forall>x \<in> set xs. \<not> runnable h tid x) \<and>
      run_pick h tid s = Inr (s\<lparr>m_fibers := xs @ ys, m_activeThreadCount := m_activeThreadCount s + 1\<rparr>, it, True, tick)) \<or>
    (\<forall>it \<in> set (m_fibers s). \<not> runnable h tid it) \<and> (\<exists>tick. run_pick h tid s = Inr (s, FT_reset, False, tick))"
proof (cases "\<exists>it \<in> set (m_fibers s). runnable h tid it")
  case True
  then obtain xs it ys where s: "m_fibers s = xs @ it # ys" "runnable h tid it" "\<forall>x \<in> set xs. \<not> runnable h tid x"
    using split_list_first_prop [of "m_fibers s" "runnable h tid"] by blast
  then have "\<forall>x \<in> set xs. task_ok h x \<and> \<not> runnable h tid x" "task_ok h it" using assms by auto
  then have "\<exists>tick. run_pick h tid s =
      Inr (s\<lparr>m_fibers := xs @ ys, m_activeThreadCount := m_activeThreadCount s + 1\<rparr>, it, True, tick)"
    using s(1,2) by (simp add: run_pick_def pick_loop_skip pick_loop_take del: pick_loop.simps)
  then show ?thesis using s by blast
next
  case False
  then show ?thesis
    using assms pick_loop_skip [of "m_fibers s" h tid "[]" False] by (simp add: run_pick_def)
qed

lemma pick_runs:
  assumes "rt_inv R" "rt_guard (A_pick h tid) R"
  shows "(\<exists>xs it ys R'. queue (rt_io R) = xs @ it # ys \<and> runnable h tid it \<and> (\<forall>x \<in> set xs. \<not> runnable h tid x) \<and>
      rt_pick h tid R = Inr R' \<and> queue (rt_io R') = xs @ ys \<and> rt_hand R' = rt_hand R @ [it] \<and> rt_tasks R' = rt_tasks R \<and>
      (\<exists>g. R' = (upd_sched g R)\<lparr>rt_hand := rt_hand R @ [it]\<rparr>)) \<or>
    (\<forall>it \<in> set (queue (rt_io R)). \<not> runnable h tid it) \<and> rt_pick h tid R = Inr R"
proof -
  note i = rt_invD [OF assms(1)]
  obtain s where s: "io_scheds (rt_io R) (io_this (rt_io R)) = Some s" using i(1) by (auto simp: iom_inv_def)
  then have q: "queue (rt_io R) = m_fibers s" by (simp add: queue_def)
  have "task_ok h it" if "it \<in> set (m_fibers s)" for it
    using i(6) [of it] assms(2) that q
    by (auto simp: rt_tasks_def task_ok_def task_wf_def cb_wf_def user_cb_def split: if_splits)
  then have ok: "\<forall>it \<in> set (m_fibers s). task_ok h it" by blast
  consider (took) xs it ys tick where "m_fibers s = xs @ it # ys" "runnable h tid it" "\<forall>x \<in> set xs. \<not> runnable h tid x"
      "run_pick h tid s = Inr (s\<lparr>m_fibers := xs @ ys, m_activeThreadCount := m_activeThreadCount s + 1\<rparr>, it, True, tick)"
    | (none) tick where "\<forall>it \<in> set (m_fibers s). \<not> runnable h tid it" "run_pick h tid s = Inr (s, FT_reset, False, tick)"
    using run_pick_cases [OF ok, of tid] by blast
  then show ?thesis
  proof cases
    case none
    then have "rt_pick h tid R = Inr (upd_sched (\<lambda>_. s) R)" using s by (simp add: rt_pick_def)
    moreover have "upd_sched (\<lambda>_. s) R = R" using s by (simp add: upd_sched_def Let_def fun_upd_idem)
    ultimately show ?thesis using none(1) q by simp
  next
    case took
    let ?g = "\<lambda>_. s\<lparr>m_fibers := xs @ ys, m_activeThreadCount := m_activeThreadCount s + 1\<rparr>"
    let ?R = "(upd_sched ?g R)\<lparr>rt_hand := rt_hand R @ [it]\<rparr>"
    have run: "rt_pick h tid R = Inr ?R" using s took(4) by (simp add: rt_pick_def)
    have q': "queue (rt_io ?R) = xs @ ys" using s by (simp add: queue_def upd_sched_def Let_def)
    have "rt_tasks ?R = rt_tasks R" unfolding rt_tasks_def q' by (auto simp: q took(1))
    then show ?thesis
      using took(1-3) q run q' by (intro disjI1 exI [of _ xs] exI [of _ it] exI [of _ ys] exI [of _ ?R] conjI exI [of _ ?g]) simp_all
  qed
qed

lemma pick_inv:
  assumes "rt_inv R" "rt_guard (A_pick h tid) R"
  shows "\<exists>R'. rt_pick h tid R = Inr R' \<and> rt_inv R'"
  using pick_runs [OF assms]
proof (elim disjE exE conjE)
  fix xs it ys R' g
  assume a: "queue (rt_io R) = xs @ it # ys" "rt_pick h tid R = Inr R'" "queue (rt_io R') = xs @ ys"
    "rt_hand R' = rt_hand R @ [it]" "rt_tasks R' = rt_tasks R" "R' = (upd_sched g R)\<lparr>rt_hand := rt_hand R @ [it]\<rparr>"
  note i = rt_invD [OF assms(1)]
  have "places f R' = places f R" for f
    unfolding places_def a(1,3,4) by (simp add: a(6))
  moreover have "suspended R' f = suspended R f" for f by (simp add: a(6) suspended_def)
  moreover have "iom_inv (rt_io R')" using upd_sched_inv [OF i(1)] by (simp add: a(6))
  ultimately have "rt_inv R'" using i unfolding rt_inv_def a(5) by (simp add: a(6))
  then show ?thesis using a(2) by blast
qed (use assms(1) in blast)

lemma done_simps [simp]:
  "rt_tm (rt_done i R) = rt_tm R" "rt_calls (rt_done i R) = rt_calls R" "rt_asleep (rt_done i R) = rt_asleep R"
  "m_fdContexts (rt_io (rt_done i R)) = m_fdContexts (rt_io R)" "home (rt_io (rt_done i R)) = home (rt_io R)"
  "suspended (rt_done i R) f = suspended R f"
  by (simp_all add: rt_done_def suspended_def)

lemma done_places:
  assumes "iom_inv (rt_io R)" "i < length (rt_hand R)"
  shows "iom_inv (rt_io (rt_done i R))" "places f (rt_done i R) + of_bool (wakes f (rt_hand R ! i)) = places f R"
    "insert (rt_hand R ! i) (rt_tasks (rt_done i R)) = rt_tasks R"
proof -
  have q: "queue (rt_io (rt_done i R)) = queue (rt_io R)"
    using queue_upd_sched [OF assms(1), of "\<lambda>s. s\<lparr>m_activeThreadCount := m_activeThreadCount s - 1\<rparr>" id] by (simp add: rt_done_def)
  have h: "rt_hand R = take i (rt_hand R) @ rt_hand R ! i # drop (Suc i) (rt_hand R)"
    using assms(2) by (rule id_take_nth_drop)
  show "iom_inv (rt_io (rt_done i R))" using upd_sched_inv [OF assms(1)] by (simp add: rt_done_def)
  have "in_tasks f (rt_hand R) = in_tasks f (rt_hand (rt_done i R)) + of_bool (wakes f (rt_hand R ! i))"
    by (subst h) (simp add: rt_done_def)
  then show "places f (rt_done i R) + of_bool (wakes f (rt_hand R ! i)) = places f R"
    unfolding places_def q by (simp add: rt_done_def)
  have "set (rt_hand R) = insert (rt_hand R ! i) (set (rt_hand (rt_done i R)))"
    by (subst h) (simp add: rt_done_def)
  then show "insert (rt_hand R ! i) (rt_tasks (rt_done i R)) = rt_tasks R"
    unfolding rt_tasks_def q by auto
qed

text \<open>A callback that is no longer on its way is one no waiting call depends on.\<close>

lemma calls_ok_shrink:
  assumes "calls_ok C S M P" "P \<subseteq> insert x P'" "\<And>t c. x = Some (timeout_of t) \<Longrightarrow> C t = Some c \<Longrightarrow> cl_cancelled c \<noteq> 0"
  shows "calls_ok C S M P'"
proof -
  have "call_ok t c S M P'" if "C t = Some c" for t c
    using calls_okD(1) [OF assms(1) that] assms(2) assms(3) [OF _ that] by (auto simp: call_ok_def)
  then show ?thesis using assms(1) by (auto simp: calls_ok_def)
qed

lemma resume_inv:
  assumes "rt_inv R" "i < length (rt_hand R)" "rt_calls R t = Some c" "cl_phase c = Held" "cl_fiber c = ft_fiber (rt_hand R ! i)"
  shows "rt_inv (rt_resume t c (rt_done i R))"
proof -
  note v = rt_invD [OF assms(1)]
  let ?ft = "rt_hand R ! i" and ?M = "cancel_timer (cl_timer c) (rt_tm R)"
  let ?x = "if cl_cancelled c \<noteq> 0 then None else Some (c\<lparr>cl_timer := nullptr, cl_phase := Trying\<rparr>)"
  note d = done_places [OF v(1) assms(2)]
  note co = calls_okD(1) [OF v(7) assms(3)]
  have ft: "?ft \<in> rt_tasks R" using assms(2) by (simp add: rt_tasks_def)
  have f: "cl_fiber c \<noteq> nullptr" "cl_fiber c \<notin> rt_asleep R" using co by (auto simp: call_ok_def)
  then have cb: "ft_cb ?ft = None" using v(6) [OF ft] assms(5) by (auto simp: task_wf_def split: if_splits)
  note k = calls_ok_cancel [OF v(7) assms(3) v(4)]
  have "nullptr \<notin> set (m_timers ?M)" using k(2) timers_okD(3) by (auto simp: timers_wf_def)
  then have "call_ok t (c\<lparr>cl_timer := nullptr, cl_phase := Trying\<rparr>) (rt_asleep R) ?M (ft_cb ` rt_tasks R)"
    using co by (auto simp: call_ok_def)
  then have "calls_ok ((rt_calls R)(t \<mapsto> c\<lparr>cl_timer := nullptr, cl_phase := Trying\<rparr>)) (rt_asleep R) ?M (ft_cb ` rt_tasks R)"
    by (rule calls_ok_put [OF k(1)]) (use calls_okD(2) [OF v(7) assms(3)] in simp)
  then have "calls_ok ((rt_calls R)(t := ?x)) (rt_asleep R) ?M (ft_cb ` rt_tasks R)" using k(1) by simp
  then have c: "calls_ok ((rt_calls R)(t := ?x)) (rt_asleep R) ?M (ft_cb ` rt_tasks (rt_done i R))"
    by (rule calls_ok_shrink) (auto simp: d(3) [symmetric] cb)
  let ?R = "rt_resume t c (rt_done i R)"
  have p: "places g ?R + of_bool (cl_fiber c = g) = places g R" if "g \<noteq> nullptr" for g
    using d(2) [of g] k(3) [of g] cb assms(5) by (simp add: places_def rt_resume_def wakes_def)
  have "suspended ?R g \<longleftrightarrow> suspended R g \<and> g \<noteq> cl_fiber c" for g
  proof (cases "g = cl_fiber c")
    case True
    have "\<not> held_in (((rt_calls R)(t := ?x)) t') (cl_fiber c)" for t'
      using calls_okD(2) [OF v(7) assms(3)] by (auto simp: held_in_def)
    then show ?thesis using True f by (simp add: suspended_def rt_resume_def)
  next
    case False
    then show ?thesis
      by (subst suspended_upd [of _ R t ?x]) (auto simp: rt_resume_def assms(3))
  qed
  moreover have "suspended R (cl_fiber c)" using assms(3,4) by (auto simp: suspended_def held_in_def)
  ultimately have "places g ?R = of_bool (suspended ?R g)" if "g \<noteq> nullptr" for g
    using p [OF that] v(8) [OF that] by (cases "g = cl_fiber c") auto
  then show ?thesis
    using c v(2,3,6) k(2) d(1,3) by (auto simp: rt_inv_def rt_resume_def rt_tasks_def)
qed

lemma wake_inv:
  assumes "rt_inv R" "i < length (rt_hand R)" "ft_fiber (rt_hand R ! i) \<in> rt_asleep R"
  shows "rt_inv ((rt_done i R)\<lparr>rt_asleep := rt_asleep R - {ft_fiber (rt_hand R ! i)}\<rparr>)"
proof -
  note v = rt_invD [OF assms(1)]
  let ?ft = "rt_hand R ! i"
  let ?f = "ft_fiber ?ft"
  let ?R = "(rt_done i R)\<lparr>rt_asleep := rt_asleep R - {?f}\<rparr>"
  note d = done_places [OF v(1) assms(2)]
  have ft: "?ft \<in> rt_tasks R" using assms(2) by (simp add: rt_tasks_def)
  have f: "?f \<noteq> nullptr" using v(7) assms(3) unfolding calls_ok_def by metis
  then have cb: "ft_cb ?ft = None" using v(6) [OF ft] by (auto simp: task_wf_def split: if_splits)
  have nh: "\<not> held_in (rt_calls R t) ?f" for t
    using calls_okD(1) [OF v(7), of t] assms(3) by (auto simp: held_in_def call_ok_def)
  have "calls_ok (rt_calls R) (rt_asleep R - {?f}) (rt_tm R) (ft_cb ` rt_tasks R)"
    using v(7) by (auto simp: calls_ok_def call_ok_def)
  then have c: "calls_ok (rt_calls R) (rt_asleep R - {?f}) (rt_tm R) (ft_cb ` rt_tasks (rt_done i R))"
    by (rule calls_ok_shrink) (auto simp: d(3) [symmetric] cb)
  have p: "places g ?R + of_bool (?f = g) = places g R" for g
    using d(2) [of g] cb by (simp add: places_def wakes_def)
  have "suspended ?R g \<longleftrightarrow> suspended R g \<and> g \<noteq> ?f" for g
    using nh by (auto simp: suspended_def)
  moreover have "suspended R ?f" using assms(3) by (simp add: suspended_def)
  ultimately have "places g ?R = of_bool (suspended ?R g)" if "g \<noteq> nullptr" for g
    using p [of g] v(8) [OF that] by (cases "g = ?f") auto
  then show ?thesis
    using c v(2,3,4,6) d(1,3) by (auto simp: rt_inv_def rt_tasks_def)
qed

lemma suspended_same:
  assumes "rt_calls R' = (rt_calls R)(t := x)" "rt_asleep R' = rt_asleep R" "held_in x f = held_in (rt_calls R t) f"
  shows "suspended R' f = suspended R f"
proof -
  have "(\<exists>t'. held_in (((rt_calls R)(t := x)) t') f) = (\<exists>t'. held_in (rt_calls R t') f)"
    using assms(3) by (metis fun_upd_apply)
  then show ?thesis using assms(1,2) by (simp add: suspended_def)
qed

text \<open>The timer of a waiting call: its event is cancelled and the error left for it to find.\<close>

lemma timeout_inv:
  assumes "rt_inv R" "i < length (rt_hand R)" "ft_cb (rt_hand R ! i) = Some (timeout_of t)"
  shows "\<exists>R'. rt_callback rt (timeout_of t) (rt_done i R) = Inr R' \<and> rt_inv R'"
proof -
  note v = rt_invD [OF assms(1)]
  let ?ft = "rt_hand R ! i" and ?D = "rt_done i R"
  note d = done_places [OF v(1) assms(2)]
  have ft: "?ft \<in> rt_tasks R" using assms(2) by (simp add: rt_tasks_def)
  then have "ft_fiber ?ft = nullptr" using v(6) [OF ft] assms(3) by (auto simp: task_wf_def split: if_splits)
  then have nw: "\<not> wakes f ?ft" if "f \<noteq> nullptr" for f
    using that assms(3) by (auto simp: wakes_def timeout_of_def)
  have p: "places f ?D = places f R" if "f \<noteq> nullptr" for f using d(2) [of f] nw [OF that] by simp
  show ?thesis
  proof (cases "rt_calls R t")
    case None
    have "calls_ok (rt_calls R) (rt_asleep R) (rt_tm R) (ft_cb ` rt_tasks ?D)"
      by (rule calls_ok_shrink [OF v(7), of "Some (timeout_of t)"]) (auto simp: d(3) [symmetric] assms(3) None timeout_of_def)
    then have "rt_inv ?D" using v(2,3,4,6,8) d(1,3) p by (auto simp: rt_inv_def)
    then show ?thesis using None by (simp add: rt_callback_def timeout_of_def OnTimer_def)
  next
    case (Some c)
    note co = calls_okD(1) [OF v(7) Some]
    let ?k = "if cl_cancelled c \<noteq> 0 then cl_cancelled c else ETIMEDOUT" and ?c = "\<lambda>k. c\<lparr>cl_cancelled := k\<rparr>"
    have h: "home (rt_io ?D)" using v(2) by simp
    obtain m b where m: "cancelEvent rt (cl_fd c) (cl_event c) (rt_io ?D) = Inr (m, b)" "conserves (rt_io ?D) m"
      using conserves_cancel [OF d(1) h, of "cl_fd c" "cl_event c" rt] co by (auto simp: call_ok_def)
    let ?m = "if cl_cancelled c \<noteq> 0 then rt_io ?D else m"
    have cm: "conserves (rt_io ?D) ?m" using m(2) conserves_refl [OF d(1) h] by simp
    let ?R = "?D\<lparr>rt_io := ?m, rt_calls := (rt_calls R)(t \<mapsto> ?c ?k)\<rparr>"
    have run: "rt_callback rt (timeout_of t) ?D = Inr ?R"
      using Some m(1)
      by (simp add: rt_callback_def timeout_of_def OnTimer_def rt_closure_def rt_timeout_def io_timeout_cb_def)
    have k: "?k \<noteq> 0" by (simp add: ETIMEDOUT_def)
    have "call_ok t (?c ?k) (rt_asleep R) (rt_tm R) (ft_cb ` rt_tasks R)" using co k by (auto simp: call_ok_def)
    from calls_ok_upd [OF v(7) Some _ this]
    have "calls_ok ((rt_calls R)(t \<mapsto> ?c ?k)) (rt_asleep R) (rt_tm R) (ft_cb ` rt_tasks R)" by simp
    then have cD: "calls_ok ((rt_calls R)(t \<mapsto> ?c ?k)) (rt_asleep R) (rt_tm R) (ft_cb ` rt_tasks ?D)"
      by (rule calls_ok_shrink [of _ _ _ _ "Some (timeout_of t)"])
        (use k in \<open>auto simp: d(3) [symmetric] assms(3) timeout_of_def split: if_splits\<close>)
    obtain fts where q: "queue ?m = queue (rt_io ?D) @ fts" "\<forall>ft \<in> set fts. task_wf ft"
      using cm by (auto simp: conserves_def)
    have t: "rt_tasks ?R = rt_tasks ?D \<union> set fts" unfolding rt_tasks_def using q(1) by auto
    have "calls_ok ((rt_calls R)(t \<mapsto> ?c ?k)) (rt_asleep R) (rt_tm R) (ft_cb ` rt_tasks ?R)"
      unfolding t by (rule calls_ok_mono [OF cD]) auto
    moreover have "places f ?R = places f R" if "f \<noteq> nullptr" for f
      using p [OF that] cm that unfolding conserves_def places_def by simp
    moreover have "suspended ?R f = suspended R f" for f
      by (rule suspended_same [of _ _ t "Some (?c ?k)"]) (simp_all add: Some)
    moreover have "task_wf x" if "x \<in> rt_tasks ?R" for x
      using that q(2) v(6) d(3) unfolding t by auto
    ultimately have "rt_inv ?R"
      using v(3,4,8) cm unfolding rt_inv_def conserves_def by simp
    then show ?thesis using run by simp
  qed
qed

lemma callback_inv:
  assumes "rt_inv R" "i < length (rt_hand R)" "ft_fiber (rt_hand R ! i) = nullptr"
  shows "\<exists>R'. rt_exec (A_callback i rt) R = Inr R' \<and> rt_inv R'"
proof -
  note v = rt_invD [OF assms(1)]
  let ?ft = "rt_hand R ! i" and ?D = "rt_done i R"
  note d = done_places [OF v(1) assms(2)]
  have ft: "?ft \<in> rt_tasks R" using assms(2) by (simp add: rt_tasks_def)
  then consider (user) u where "ft_cb ?ft = Some (Cb (User u))" | (wake) f where "f \<noteq> nullptr" "ft_cb ?ft = Some (Cb (Wake f))"
    | (timeout) t where "ft_cb ?ft = Some (timeout_of t)"
    using v(6) [OF ft] assms(3) by (auto simp: task_wf_def cb_wf_def user_cb_def)
  then show ?thesis
  proof cases
    case timeout
    then show ?thesis using timeout_inv [OF assms(1,2) timeout, of rt] by simp
  next
    case user
    have "calls_ok (rt_calls R) (rt_asleep R) (rt_tm R) (ft_cb ` rt_tasks ?D)"
      by (rule calls_ok_shrink [OF v(7), of "ft_cb ?ft"]) (auto simp: d(3) [symmetric] user timeout_of_def)
    moreover have "places f ?D = places f R" if "f \<noteq> nullptr" for f
      using d(2) [of f] that assms(3) user by (simp add: wakes_def)
    ultimately have "rt_inv ?D" using v(2,3,4,6,8) d(1,3) by (auto simp: rt_inv_def)
    then show ?thesis using user by (simp add: rt_callback_def rt_closure_def)
  next
    case wake
    let ?g = "FT_fiber f (- 1) :: rt_task"
    have g: "ft_fiber ?g \<noteq> nullptr \<or> ft_cb ?g \<noteq> None" "task_wf ?g" "ft_cb ?g = None" "\<And>x. wakes x ?g \<longleftrightarrow> x = f"
      using wake(1) by (auto simp: FT_fiber_def task_wf_def wakes_def)
    note p = push_inv [OF d(1) g(1)]
    let ?R = "rt_push ?g ?D"
    have "calls_ok (rt_calls R) (rt_asleep R) (rt_tm R) (ft_cb ` rt_tasks ?D)"
      by (rule calls_ok_shrink [OF v(7), of "ft_cb ?ft"]) (auto simp: d(3) [symmetric] wake timeout_of_def)
    then have "calls_ok (rt_calls R) (rt_asleep R) (rt_tm R) (ft_cb ` rt_tasks ?R)"
      unfolding p(3) by (rule calls_ok_mono) auto
    moreover have "places x ?R = places x R" if "x \<noteq> nullptr" for x
    proof -
      have "wakes x ?ft \<longleftrightarrow> x = f" using that assms(3) wake(2) by (auto simp: wakes_def)
      then show ?thesis using d(2) [of x] p(4) [of x] g(4) [of x] by simp
    qed
    moreover have "task_wf x" if "x \<in> rt_tasks ?R" for x
      using that g(2) v(6) d(3) unfolding p(3) by auto
    ultimately have "rt_inv ?R"
      using v(2,3,4,8) p(2,5) unfolding rt_inv_def by (simp add: rt_push_def)
    then show ?thesis using wake by (simp add: rt_callback_def rt_closure_def)
  qed
qed

lemma rt_step_ok:
  assumes "rt_inv R" "rt_guard a R"
  shows "\<exists>R'. rt_exec a R = Inr R' \<and> rt_inv R'"
proof (cases a)
  case (A_begin t f fd event to)
  then show ?thesis using begin_inv [OF assms(1)] assms(2) by simp
next
  case (A_timer t p now)
  then show ?thesis using timer_inv [OF assms(1)] assms(2) by (auto simp: with_call_def)
next
  case (A_add rt t)
  then show ?thesis using add_inv [OF assms(1)] assms(2) by (auto simp: with_call_def)
next
  case (A_return t)
  then show ?thesis using return_inv [OF assms(1)] assms(2) by auto
next
  case (A_sleep f p ms now)
  then have g: "f \<noteq> nullptr" "\<not> busy R f" "fresh_timer p R" using assms(2) by auto
  then have "rt_inv (rt_sleep f p ms now R)" unfolding rt_sleep_def
    by (intro plain_timer_inv [OF assms(1)]) (auto simp: cb_wf_def timeout_of_def user_cb_def)
  then show ?thesis using A_sleep by simp
next
  case (A_user_timer p ms recurring u now)
  then have "fresh_timer p R" using assms(2) by simp
  from plain_timer_inv [OF assms(1) this, of recurring "Cb (User u)" "rt_asleep R" ms now]
  show ?thesis using A_user_timer by (simp add: cb_wf_def timeout_of_def user_cb_def)
next
  case (A_user_task u)
  then show ?thesis using user_task_inv [OF assms(1)] by simp
next
  case (A_user_event rt fd event u)
  then show ?thesis using user_event_inv [OF assms(1), of fd event rt u] assms(2) by simp
next
  case (A_poll now)
  then show ?thesis using poll_inv [OF assms(1)] by simp
next
  case (A_expire now b)
  then show ?thesis using expire_inv [OF assms(1)] by simp
next
  case (A_event rt2 events i)
  then show ?thesis using event_inv [OF assms(1)] assms(2) by simp
next
  case (A_pick h tid)
  then show ?thesis using pick_inv [OF assms(1)] assms(2) by simp
next
  case (A_resume i t)
  then show ?thesis using resume_inv [OF assms(1)] assms(2) by (auto simp: with_call_def)
next
  case (A_wake i)
  then show ?thesis using wake_inv [OF assms(1)] assms(2) by simp
next
  case (A_callback i rt)
  then show ?thesis using callback_inv [OF assms(1), of i rt] assms(2) by simp
qed

lemma rt_init_inv: "rt_inv (rt_init this s now h)"
proof -
  have "iom_inv (rt_io (rt_init this s now h))"
    by (auto simp: rt_init_def iom_inv_def contextResize_def new_FdContext_ok comp_def)
  moreover have "home (rt_io (rt_init this s now h))"
    by (auto simp: rt_init_def home_def contextResize_def new_FdContext_def armed_def)
  moreover have "queue (rt_io (rt_init this s now h)) = []"
    by (simp add: queue_def rt_init_def contextResize_def)
  moreover have "in_slots f (rt_io (rt_init this s now h)) = 0" if "f \<noteq> nullptr" for f
    using that by (simp add: in_slots_def rt_init_def contextResize_def comp_def)
  moreover have "timers_wf (rt_tm (rt_init this s now h))" "in_timers f (rt_tm (rt_init this s now h)) = 0" for f
    using timers_ok_ctor [of now h] by (simp_all add: rt_init_def timers_wf_def in_timers_def TimerManager_ctor_def)
  moreover have "2 \<le> length (m_fdContexts (rt_io (rt_init this s now h)))" "rt_calls (rt_init this s now h) = Map.empty"
    "rt_asleep (rt_init this s now h) = {}" "rt_hand (rt_init this s now h) = []"
    by (simp_all add: rt_init_def contextResize_def)
  ultimately show ?thesis
    by (simp add: rt_inv_def rt_tasks_def calls_ok_def places_def suspended_def)
qed

interpretation rts: guarded_system rt_guard rt_exec rt_inv
  by unfold_locales (rule rt_step_ok)

lemma rt_reach_inv: "rt_reach R \<Longrightarrow> rt_inv R"
proof (induction rule: rt_reach.induct)
  case (reach_step R a R')
  then show ?case using rt_step_ok [of R a] by auto
qed (rule rt_init_inv)

subsection \<open>Owners\<close>

definition rt_owned :: "runtime \<Rightarrow> bool" where
  "rt_owned R \<longleftrightarrow> slots_owned (rt_io R) (rt_calls R) \<and> timers_owned (rt_asleep R) (rt_tm R) \<and> tasks_owned (rt_asleep R) (rt_tasks R)"

lemma timers_owned_add:
  assumes "timers_owned S M" "timers_ok M" "p \<notin> set (m_timers M)" "p \<noteq> nullptr" "cb_owned S (Some cb)"
  shows "timers_owned S (fst (addTimer M p ms (Some cb) recurring now))"
  using assms(1,5) by (auto simp: timers_owned_def addTimer_general [OF assms(2-4)] Timer_ctor_def)

lemma timers_owned_cancel:
  assumes "rt_inv R" "timers_owned S (rt_tm R)" "rt_calls R t = Some c"
  shows "timers_owned S (cancel_timer (cl_timer c) (rt_tm R))"
proof -
  note i = rt_invD [OF assms(1)]
  have own: "\<exists>t. m_cb (tm_heap (rt_tm R) (cl_timer c)) = Some (timeout_of t)" if "cl_timer c \<in> set (m_timers (rt_tm R))"
    using calls_okD(1) [OF i(7) assms(3)] that by (auto simp: call_ok_def)
  note ck = timers_wf_cancel(3,4) [OF i(4) own]
  show ?thesis by (rule timers_owned_mono [OF assms(2)]) (use ck in auto)
qed

lemma conserves_owned:
  assumes "slots_owned m C" "tasks_owned S (set (queue m))" "conserves m m'"
  shows "slots_owned m' C" "tasks_owned S (set (queue m'))"
proof -
  obtain fts where q: "queue m' = queue m @ fts" "\<forall>ft \<in> set fts. task_wf ft \<and> (ft_fiber ft \<noteq> nullptr \<or> user_cb (ft_cb ft))"
    using assms(3) unfolding conserves_def by blast
  have "cb_owned S (ft_cb ft)" if "task_wf ft" "ft_fiber ft \<noteq> nullptr \<or> user_cb (ft_cb ft)" for ft
    using that by (auto simp: task_wf_def split: if_splits)
  then have "tasks_owned S (set fts)" using q(2) by (auto simp: tasks_owned_def)
  then show "tasks_owned S (set (queue m'))" using assms(2) q(1) by simp
  show "slots_owned m' C" using assms(3) by (intro slots_owned_less [OF assms(1)]) (simp add: conserves_def)
qed

lemma add_owned:
  assumes "rt_inv R" "rt_owned R" "rt_calls R t = Some c" "cl_phase c = Timed" "addable (cl_fd c) (cl_event c) R"
    and "rt_add rt t c R = Inr R'"
  shows "rt_owned R'"
proof -
  note i = rt_invD [OF assms(1)]
  let ?fd = "cl_fd c" and ?ev = "cl_event c"
  note a = addable_grow [OF assms(1,5)]
  have own: "slots_owned (grow ?fd (rt_io R)) (rt_calls R)"
    by (rule slots_owned_less [of "rt_io R"]) (use assms(2) in \<open>simp_all add: rt_owned_def waits_grow\<close>)
  have nt: "slots_owned (grow ?fd (rt_io R)) ((rt_calls R)(t := x))" for x
    by (rule slots_owned_upd [OF own, where c = c]) (simp_all add: assms(3,4))
  show ?thesis
  proof (cases "rt = 0")
    case False
    then have R': "R' = R\<lparr>rt_io := grow ?fd (rt_io R), rt_tm := cancel_timer (cl_timer c) (rt_tm R), rt_calls := (rt_calls R)(t := None)\<rparr>"
      using assms(6) block_runs(1) [OF assms(1,3,5), of rt] by (simp add: rt_add_def)
    show ?thesis
      using nt assms(2) timers_owned_cancel [OF assms(1) _ assms(3)] unfolding rt_owned_def by (simp add: R' rt_tasks_def)
  next
    case True
    let ?c = "c\<lparr>cl_phase := Held\<rparr>"
    let ?m = "arm ?fd ?ev (event_of R c) (grow ?fd (rt_io R))"
    have R': "R' = R\<lparr>rt_io := ?m, rt_calls := (rt_calls R)(t \<mapsto> ?c)\<rparr>"
      using assms(6) block_runs(1) [OF assms(1,3,5), of rt] True by (simp add: rt_add_def)
    have "slots_owned ?m ((rt_calls R)(t \<mapsto> ?c))"
      unfolding slots_owned_def
    proof (intro allI impI)
      fix j event f
      assume w: "waits_at ?m j event f"
      consider "waits_at (grow ?fd (rt_io R)) j event f" | "j = nat ?fd" "event = ?ev" "cl_fiber c = f"
        using waits_arm [OF w a(7)] by auto
      then show "\<exists>t' c'. ((rt_calls R)(t \<mapsto> ?c)) t' = Some c' \<and> cl_phase c' = Held \<and> cl_fd c' = int j \<and> cl_event c' = event \<and> cl_fiber c' = f"
      proof cases
        case 1
        then show ?thesis using nt [of "Some ?c"] unfolding slots_owned_def by blast
      next
        case 2
        then show ?thesis using a(8) by (intro exI [of _ t] exI [of _ ?c]) simp
      qed
    qed
    then show ?thesis using assms(2) by (simp add: rt_owned_def R' rt_tasks_def)
  qed
qed

lemma waits_upd_sched [simp]: "waits_at (rt_io (upd_sched g R)) i event f = waits_at (rt_io R) i event f"
  by (simp add: waits_at_def)

lemma slots_owned_upd_sched [simp]: "slots_owned (rt_io (upd_sched g R)) C = slots_owned (rt_io R) C"
  by (simp add: slots_owned_def)

lemma slots_owned_done [simp]: "slots_owned (rt_io (rt_done i R)) C = slots_owned (rt_io R) C"
  by (simp add: rt_done_def)

lemma done_tasks_owned:
  assumes "rt_inv R" "i < length (rt_hand R)" "tasks_owned S (rt_tasks R)"
  shows "tasks_owned S (rt_tasks (rt_done i R))"
  using done_places(3) [OF rt_invD(1) [OF assms(1)] assms(2)] assms(3) by (metis tasks_owned_simps(2))

text \<open>A fiber that a thread has in hand is in no slot and has no wake-up pending.\<close>

lemma in_hand_only:
  assumes "rt_inv R" "i < length (rt_hand R)" "f = ft_fiber (rt_hand R ! i)" "f \<noteq> nullptr"
  shows "\<not> waits_at (rt_io R) j event f" "in_timers f (rt_tm R) = 0" "in_tasks f (queue (rt_io R)) = 0"
    "places f (rt_done i R) = 0" "suspended R f"
proof -
  have w: "wakes f (rt_hand R ! i)" using assms(3) by (simp add: wakes_def)
  have d: "places f (rt_done i R) + 1 = places f R"
    using done_places(2) [OF rt_invD(1) [OF assms(1)] assms(2), of f] w by simp
  moreover have p: "places f R = of_bool (suspended R f)" using rt_invD(8) [OF assms(1,4)] .
  ultimately show "suspended R f" by (cases "suspended R f") auto
  with d p show z: "places f (rt_done i R) = 0" by simp
  have q: "queue (rt_io (rt_done i R)) = queue (rt_io R)"
    using queue_upd_sched [OF rt_invD(1) [OF assms(1)], of "\<lambda>s. s\<lparr>m_activeThreadCount := m_activeThreadCount s - 1\<rparr>" id]
    by (simp add: rt_done_def)
  have "in_slots f (rt_io R) = 0" "in_timers f (rt_tm R) = 0" "in_tasks f (queue (rt_io R)) = 0"
    using z q by (simp_all add: places_def) (simp add: rt_done_def in_slots_def)
  then show "\<not> waits_at (rt_io R) j event f" "in_timers f (rt_tm R) = 0" "in_tasks f (queue (rt_io R)) = 0"
    using waits_counted by fastforce+
qed

lemma in_timers_zero: "in_timers f M = 0 \<Longrightarrow> p \<in> set (m_timers M) \<Longrightarrow> m_cb (tm_heap M p) \<noteq> Some (Cb (Wake f))"
  unfolding in_timers_def by (simp add: card_eq_0_iff)

lemma in_tasks_zero: "in_tasks f fts = 0 \<Longrightarrow> ft \<in> set fts \<Longrightarrow> \<not> wakes f ft"
  by (induction fts) auto

lemma wake_owned:
  assumes "rt_inv R" "rt_owned R" "i < length (rt_hand R)" "f = ft_fiber (rt_hand R ! i)" "f \<in> rt_asleep R"
  shows "rt_owned ((rt_done i R)\<lparr>rt_asleep := rt_asleep R - {f}\<rparr>)"
proof -
  have f: "f \<noteq> nullptr" using rt_invD(7) [OF assms(1)] assms(5) unfolding calls_ok_def by metis
  note o = in_hand_only [OF assms(1,3,4) f]
  have "timers_owned (rt_asleep R - {f}) (rt_tm R)"
    using assms(2) in_timers_zero [OF o(2)] by (auto simp: rt_owned_def timers_owned_def cb_owned_def)
  moreover have "\<not> wakes f ft" if "ft \<in> rt_tasks (rt_done i R)" for ft
    using o(4) that in_tasks_zero [of f] unfolding places_def rt_tasks_def by auto
  then have "tasks_owned (rt_asleep R - {f}) (rt_tasks (rt_done i R))"
    using done_tasks_owned [OF assms(1,3), of "rt_asleep R"] assms(2)
    by (auto simp: rt_owned_def tasks_owned_def cb_owned_def wakes_def)
  moreover have "rt_tasks ((rt_done i R)\<lparr>rt_asleep := rt_asleep R - {f}\<rparr>) = rt_tasks (rt_done i R)" by (simp add: rt_tasks_def)
  ultimately show ?thesis using assms(2) by (simp add: rt_owned_def)
qed

lemma resume_owned:
  assumes "rt_inv R" "rt_owned R" "i < length (rt_hand R)" "rt_calls R t = Some c" "cl_phase c = Held"
    and "cl_fiber c = ft_fiber (rt_hand R ! i)"
  shows "rt_owned (rt_resume t c (rt_done i R))"
proof -
  have f: "cl_fiber c \<noteq> nullptr" using calls_okD(1) [OF rt_invD(7) [OF assms(1)] assms(4)] by (auto simp: call_ok_def)
  note o = in_hand_only [OF assms(1,3,6) f]
  have "slots_owned (rt_io R) ((rt_calls R)(t := x))" for x
    by (rule slots_owned_upd [where c = c]) (use assms(2,4) o(1) in \<open>auto simp: rt_owned_def\<close>)
  moreover have "rt_tasks (rt_resume t c (rt_done i R)) = rt_tasks (rt_done i R)" by (simp add: rt_tasks_def rt_resume_def)
  moreover have "timers_owned (rt_asleep R) (cancel_timer (cl_timer c) (rt_tm R))"
    using timers_owned_cancel [OF assms(1) _ assms(4)] assms(2) by (simp add: rt_owned_def)
  ultimately show ?thesis
    using done_tasks_owned [OF assms(1,3)] assms(2) unfolding rt_owned_def by (simp add: rt_resume_def)
qed

lemma callback_owned:
  assumes "rt_inv R" "rt_owned R" "i < length (rt_hand R)" "rt_exec (A_callback i rt) R = Inr R'"
    and "ft_fiber (rt_hand R ! i) = nullptr"
  shows "rt_owned R'"
proof -
  note v = rt_invD [OF assms(1)] and o = assms(2) [unfolded rt_owned_def]
  let ?ft = "rt_hand R ! i" and ?D = "rt_done i R"
  note d = done_places [OF v(1) assms(3)]
  have ft: "?ft \<in> rt_tasks R" using assms(3) by (simp add: rt_tasks_def)
  have oD: "rt_owned ?D" using o done_tasks_owned [OF assms(1,3)] by (simp add: rt_owned_def)
  consider (user) u where "ft_cb ?ft = Some (Cb (User u))" | (wake) f where "f \<noteq> nullptr" "ft_cb ?ft = Some (Cb (Wake f))"
    | (timeout) t where "ft_cb ?ft = Some (timeout_of t)"
    using v(6) [OF ft] assms(5) by (auto simp: task_wf_def cb_wf_def user_cb_def)
  then show ?thesis
  proof cases
    case user
    then have "R' = ?D" using assms(4) by (simp add: rt_callback_def rt_closure_def)
    then show ?thesis using oD by simp
  next
    case wake
    have "ft_fiber (FT_fiber f (- 1) :: rt_task) \<noteq> nullptr \<or> ft_cb (FT_fiber f (- 1) :: rt_task) \<noteq> None"
      using wake(1) by (simp add: FT_fiber_def)
    note p = push_inv [OF d(1) this]
    have "R' = rt_push (FT_fiber f (- 1)) ?D" using wake assms(4) by (simp add: rt_callback_def rt_closure_def)
    then show ?thesis using oD p(3) unfolding rt_owned_def by (simp add: FT_fiber_def) (simp add: rt_push_def)
  next
    case timeout
    show ?thesis
    proof (cases "rt_calls R t")
      case None
      then have "R' = ?D" using timeout assms(4) by (simp add: rt_callback_def timeout_of_def OnTimer_def)
      then show ?thesis using oD by simp
    next
      case (Some c)
      have h: "home (rt_io ?D)" using v(2) by simp
      obtain m b where m: "cancelEvent rt (cl_fd c) (cl_event c) (rt_io ?D) = Inr (m, b)" "conserves (rt_io ?D) m"
        using conserves_cancel [OF d(1) h, of "cl_fd c" "cl_event c" rt] calls_okD(1) [OF v(7) Some] by (auto simp: call_ok_def)
      let ?m = "if cl_cancelled c \<noteq> 0 then rt_io ?D else m"
      let ?c = "c\<lparr>cl_cancelled := if cl_cancelled c \<noteq> 0 then cl_cancelled c else ETIMEDOUT\<rparr>"
      have R': "R' = ?D\<lparr>rt_io := ?m, rt_calls := (rt_calls R)(t \<mapsto> ?c)\<rparr>"
        using timeout assms(4) Some m(1)
        by (simp add: rt_callback_def timeout_of_def OnTimer_def rt_closure_def rt_timeout_def io_timeout_cb_def split: if_splits)
      have c: "conserves (rt_io ?D) ?m" using m(2) conserves_refl [OF d(1) h] by simp
      have oq: "tasks_owned (rt_asleep R) (set (queue (rt_io ?D)))" "tasks_owned (rt_asleep R) (set (rt_hand ?D))"
        using oD by (simp_all add: rt_owned_def rt_tasks_def)
      have "slots_owned (rt_io ?D) (rt_calls R)" using o by simp
      note co = conserves_owned [OF this oq(1) c]
      have "slots_owned ?m ((rt_calls R)(t \<mapsto> ?c))" by (rule slots_owned_same [OF co(1) Some]) simp_all
      moreover have "tasks_owned (rt_asleep R) (rt_tasks R')" using co(2) oq(2) by (simp add: rt_tasks_def R')
      ultimately show ?thesis using o by (simp add: rt_owned_def R')
    qed
  qed
qed

lemma expire_tasks:
  assumes "rt_inv R" "rt_expire now a R = Inr R'" "listExpiredCb (rt_tm R) now a [] = Inr (M, cbs)"
  shows "rt_tasks R' = rt_tasks R \<union> (\<lambda>cb. FT_cb cb (- 1)) ` set cbs" "rt_tm R' = M" "rt_calls R' = rt_calls R"
    "rt_asleep R' = rt_asleep R" "slots_owned (rt_io R') C = slots_owned (rt_io R) C"
    "\<forall>cb \<in> set cbs. \<exists>p \<in> set (m_timers (rt_tm R)). cb = m_cb (tm_heap (rt_tm R) p)"
proof -
  note i = rt_invD [OF assms(1)]
  let ?S = "upd_sched (\<lambda>s. fst (schedule_range cbs s False)) R"
  have R': "R' = (if cbs = [] then R else ?S)\<lparr>rt_tm := M\<rparr>" using assms(2,3) by (simp add: rt_expire_def)
  show from_timers: "\<forall>cb \<in> set cbs. \<exists>p \<in> set (m_timers (rt_tm R)). cb = m_cb (tm_heap (rt_tm R) p)"
  proof -
    obtain n where "cbs = map (\<lambda>p. m_cb (tm_heap (rt_tm R) p)) (take n (m_timers (rt_tm R)))"
      using expire_conserves [OF i(4), of now a] assms(3) by auto
    then show ?thesis by (fastforce dest: in_set_takeD)
  qed
  then have "\<forall>cb \<in> set cbs. cb \<noteq> None" using timers_okD(4) [OF i(5)] by fastforce
  then have "queue (rt_io ?S) = queue (rt_io R) @ map (\<lambda>cb. FT_cb cb (- 1)) cbs"
    by (intro queue_upd_sched [OF i(1)]) (simp add: schedule_range_all)
  then show "rt_tasks R' = rt_tasks R \<union> (\<lambda>cb. FT_cb cb (- 1)) ` set cbs"
    unfolding R' by (auto simp: rt_tasks_def)
  show "rt_tm R' = M" "rt_calls R' = rt_calls R" "rt_asleep R' = rt_asleep R" "slots_owned (rt_io R') C = slots_owned (rt_io R) C"
    by (simp_all add: R')
qed

lemma expire_owned:
  assumes "rt_inv R" "rt_owned R" "rt_expire now a R = Inr R'"
  shows "rt_owned R'"
proof -
  note o = assms(2) [unfolded rt_owned_def]
  obtain M cbs where e: "listExpiredCb (rt_tm R) now a [] = Inr (M, cbs)" "set (m_timers M) \<subseteq> set (m_timers (rt_tm R))"
      "\<And>p. p \<in> set (m_timers M) \<Longrightarrow> m_cb (tm_heap M p) = m_cb (tm_heap (rt_tm R) p)"
    using expire_conserves [OF rt_invD(4) [OF assms(1)], of now a] by blast
  note t = expire_tasks [OF assms(1,3) e(1)]
  have "cb_owned (rt_asleep R) cb" if "cb \<in> set cbs" for cb using o t(6) that by (auto simp: timers_owned_def)
  then have "tasks_owned (rt_asleep R) ((\<lambda>cb. FT_cb cb (- 1)) ` set cbs)" by (auto simp: tasks_owned_def FT_cb_def)
  moreover have "timers_owned (rt_asleep R) M" using timers_owned_mono [OF _ e(2,3)] o by blast
  ultimately show ?thesis using o by (simp add: rt_owned_def t(1-5))
qed

lemma pick_owned:
  assumes "rt_inv R" "rt_owned R" "rt_guard (A_pick h tid) R" "rt_pick h tid R = Inr R'"
  shows "rt_owned R'"
proof -
  have "R' = R \<or> rt_tasks R' = rt_tasks R \<and> (\<exists>g hs. R' = (upd_sched g R)\<lparr>rt_hand := hs\<rparr>)"
    using pick_runs [OF assms(1,3)] assms(4) by fastforce
  then show ?thesis
  proof (elim disjE exE conjE)
    fix g hs
    assume a: "rt_tasks R' = rt_tasks R" "R' = (upd_sched g R)\<lparr>rt_hand := hs\<rparr>"
    show ?thesis using assms(2) unfolding rt_owned_def a(1) by (simp add: a(2))
  qed (use assms(2) in simp)
qed

lemma rt_owned_step:
  assumes "rt_inv R" "rt_owned R" "rt_guard a R" "rt_exec a R = Inr R'"
  shows "rt_owned R'"
proof -
  note i = rt_invD [OF assms(1)] and o = assms(2) [unfolded rt_owned_def]
  show ?thesis
  proof (cases a)
    case (A_begin t f fd event to)
    then have R': "R' = rt_begin t f fd event to R" "rt_calls R t = None" using assms(3,4) by (auto simp: fresh_info_def)
    have "slots_owned (rt_io R) ((rt_calls R)(t := x))" for x
      by (rule slots_owned_upd) (use o R'(2) in auto)
    then show ?thesis using o by (simp add: R' rt_owned_def rt_begin_def rt_tasks_def)
  next
    case (A_timer t p now)
    then obtain c where c: "rt_calls R t = Some c" "cl_phase c = Trying" "fresh_timer p R" and R': "R' = rt_timer t c p now R"
      using assms(3,4) by (auto simp: with_call_def)
    have "slots_owned (rt_io R) ((rt_calls R)(t := x))" for x
      by (rule slots_owned_upd [where c = c]) (use o c in auto)
    moreover have "timers_owned (rt_asleep R) (fst (addTimer (rt_tm R) p (cl_to c) (Some (timeout_of t)) False now))"
      using c(3) o by (intro timers_owned_add [OF _ i(5)]) (auto simp: fresh_timer_def)
    ultimately show ?thesis
      using o by (simp add: R' rt_owned_def rt_timer_def rt_tasks_def addConditionTimer_def timeout_of_def)
  next
    case (A_add rt t)
    then obtain c where "rt_calls R t = Some c" "cl_phase c = Timed" "addable (cl_fd c) (cl_event c) R" "rt_add rt t c R = Inr R'"
      using assms(3,4) by (auto simp: with_call_def)
    then show ?thesis by (rule add_owned [OF assms(1,2)])
  next
    case (A_return t)
    then obtain c where c: "rt_calls R t = Some c" "cl_phase c = Trying" and R': "R' = rt_return t R"
      using assms(3,4) by auto
    have "slots_owned (rt_io R) ((rt_calls R)(t := None))"
      by (rule slots_owned_upd [where c = c]) (use o c in auto)
    then show ?thesis using o by (simp add: R' rt_owned_def rt_return_def rt_tasks_def)
  next
    case (A_sleep f p ms now)
    then have R': "R' = rt_sleep f p ms now R" "fresh_timer p R" using assms(3,4) by auto
    have "timers_owned (insert f (rt_asleep R)) (rt_tm R)" "tasks_owned (insert f (rt_asleep R)) (rt_tasks R)"
      using o by (auto simp: timers_owned_def tasks_owned_def cb_owned_def)
    then show ?thesis
      using o R'(2) timers_owned_add [OF _ i(5), of "insert f (rt_asleep R)" p "Cb (Wake f)"]
      by (simp add: R' rt_owned_def rt_sleep_def rt_tasks_def fresh_timer_def)
  next
    case (A_user_timer p ms recurring u now)
    then show ?thesis
      using o assms(3,4) timers_owned_add [OF _ i(5), of "rt_asleep R" p "Cb (User u)"]
      by (auto simp: rt_owned_def rt_tasks_def fresh_timer_def)
  next
    case (A_user_task u)
    have "ft_fiber (FT_cb (Some (Cb (User u))) (- 1) :: rt_task) \<noteq> nullptr \<or> ft_cb (FT_cb (Some (Cb (User u))) (- 1) :: rt_task) \<noteq> None"
      by (simp add: FT_cb_def)
    note p = push_inv [OF i(1) this]
    have "R' = rt_push (FT_cb (Some (Cb (User u))) (- 1)) R" using A_user_task assms(4) by simp
    then show ?thesis using o p(3) unfolding rt_owned_def by (simp add: FT_cb_def) (simp add: rt_push_def)
  next
    case (A_user_event rt fd event u)
    then have g: "addable fd event R" using assms(3) by simp
    let ?m = "grow fd (rt_io R)" and ?e = "\<lparr> ec_schedular = io_this (rt_io R), ec_fiber = nullptr, ec_cb = Some (Cb (User u)) \<rparr>"
    note a = addable_grow [OF assms(1) g]
    have na: "\<not> armed_at fd event ?m" using g by (simp add: addable_def)
    have R': "R' = R\<lparr>rt_io := if rt = 0 then arm fd event ?e ?m else ?m\<rparr>"
      using addEvent_ok(1) [OF i(1) a(8,7,6) na this_in_dom [OF assms(1)], of "Some (Cb (User u))" nullptr EXEC rt] assms(4) A_user_event
      by (cases "rt = 0"; simp)
    have "waits_at (rt_io R) j ev f" if "waits_at (rt_io R') j ev f" for j ev f
    proof (cases "rt = 0")
      case True
      then have "waits_at (arm fd event ?e ?m) j ev f" using that by (simp add: R')
      from waits_arm [OF this a(7)] show ?thesis using waits_grow by auto
    next
      case False
      then show ?thesis using that waits_grow by (simp add: R')
    qed
    from slots_owned_less [OF _ this] have "slots_owned (rt_io R') (rt_calls R)" using o by blast
    moreover have "rt_tasks R' = rt_tasks R" by (simp add: R' rt_tasks_def)
    ultimately show ?thesis using o by (simp add: rt_owned_def R')
  next
    case (A_poll now)
    then have "R' = rt_poll now R" using assms(4) by simp
    then show ?thesis using o by (simp add: poll_eq rt_owned_def timers_owned_def rt_tasks_def)
  next
    case (A_expire now b)
    then show ?thesis using expire_owned [OF assms(1,2)] assms(4) by simp
  next
    case (A_event rt2 events j)
    then obtain m where m: "idle_event rt2 (events, Fd_ptr j) (rt_io R) = Inr m" "conserves (rt_io R) m"
      using conserves_event [OF i(1,2), of j events rt2] assms(3) by auto
    then have R': "R' = R\<lparr>rt_io := m\<rparr>" using assms(4) A_event by (simp add: rt_event_def)
    have q: "tasks_owned (rt_asleep R) (set (queue (rt_io R)))" using o by (simp add: rt_tasks_def)
    have "slots_owned (rt_io R) (rt_calls R)" using o by blast
    from conserves_owned [OF this q m(2)] o show ?thesis by (simp add: R' rt_owned_def rt_tasks_def)
  next
    case (A_pick h tid)
    then show ?thesis using pick_owned [OF assms(1,2)] assms(3,4) by simp
  next
    case (A_resume j t)
    then show ?thesis using resume_owned [OF assms(1,2)] assms(3,4) by (auto simp: with_call_def)
  next
    case (A_wake j)
    then show ?thesis using wake_owned [OF assms(1,2)] assms(3,4) by auto
  next
    case (A_callback j rt)
    then show ?thesis using callback_owned [OF assms(1,2), of j rt R'] assms(3,4) by simp
  qed
qed

lemma rt_reach_owned: "rt_reach R \<Longrightarrow> rt_owned R"
proof (induction rule: rt_reach.induct)
  case (reach_init me s now h)
  show ?case
    by (auto simp: rt_owned_def slots_owned_def waits_at_def rt_init_def contextResize_def slot_def new_FdContext_def
        empty_context_def timers_owned_def tasks_owned_def rt_tasks_def queue_def TimerManager_ctor_def)
next
  case (reach_step R a R')
  then show ?case using rt_owned_step [OF rt_reach_inv] by blast
qed

end
