(* ===== verification/Runtime_Live.thy ===== *)
theory Runtime_Live
  imports Runtime_Inv
begin

section \<open>What the runtime promises\<close>

text \<open>
  No suspended fiber is lost under any interleaving, and every wait with a timeout, and every sleep, can
  be ended by the idle loop and the scheduler alone. Two runs show what the order of the timer and the
  event in \<open>do_io\<close> costs.
\<close>

subsection \<open>Runs\<close>

text \<open>A sequence of actions, each of which may happen.\<close>

abbreviation rt_run :: "rt_action list \<Rightarrow> runtime \<Rightarrow> runtime \<Rightarrow> bool" where
  "rt_run \<equiv> runs rt_guard rt_exec"

lemma rt_run_reach: "rt_run as R R' \<Longrightarrow> rt_reach R \<Longrightarrow> rt_reach R'"
  by (induction as arbitrary: R) (auto intro: rt_reach.intros)


definition idle_fibers :: "rt_cb timer_cb fiber_heap" where
  "idle_fibers = \<lparr> fibers = (\<lambda>f. Some \<lparr> fb_id = 0, fb_stacksize = 131072, fb_state = HOLD, fb_ctx = Resume f,
     fb_stack = 1, fb_cb = None \<rparr>), s_fiber_id = 0, s_fiber_count = 0 \<rparr>"

subsection \<open>The idle loop\<close>

fun rt_execs :: "rt_action list \<Rightarrow> runtime \<Rightarrow> runtime res" where
  "rt_execs [] R = Inr R"
| "rt_execs (a # as) R = rbind (rt_exec a R) (rt_execs as)"

text \<open>What \<open>epoll_wait\<close> reported, as actions; the pipe that wakes the thread is only drained.\<close>

fun event_actions :: "(int \<times> u32 \<times> epoll_data) list \<Rightarrow> rt_action list" where
  "event_actions [] = []"
| "event_actions ((rt2, events, Tickle_fd) # evs) = event_actions evs"
| "event_actions ((rt2, events, Fd_ptr i) # evs) = A_event rt2 events i # event_actions evs"

lemma idle_events_execs:
  "rt_execs (event_actions evs) R = rbind (idle_events evs (rt_io R)) (\<lambda>m. Inr (R\<lparr>rt_io := m\<rparr>))"
proof (induction evs arbitrary: R rule: event_actions.induct)
  case (2 rt2 events evs)
  then show ?case by (simp add: idle_event_def)
next
  case (3 rt2 events i evs)
  then show ?case
    by (cases "idle_event rt2 (events, Fd_ptr i) (rt_io R)") (simp_all add: rt_event_def)
qed simp


subsection \<open>Waits end\<close>

lemma expire_due:
  assumes "timers_ok M" "a \<notin> set (m_timers M)" "a \<noteq> nullptr" "listExpiredCb M now a [] = Inr (M', cbs)"
    and "p \<in> set (m_timers M)" "m_next (tm_heap M p) \<le> now" "\<not> m_recurring (tm_heap M p)"
  shows "p \<notin> set (m_timers M')"
proof (cases "rolled_over M now")
  case False
  from listExpiredCb_normal [OF assms(1-3) False, of "[]"] show ?thesis using assms(4,6,7) by auto
next
  case True
  have "m_timers M \<noteq> []" using assms(5) by auto
  then have "expire_loop now (m_timers M)
      (M\<lparr>m_previouseTime := now, m_timers := drop (length (m_timers M)) (m_timers M)\<rparr>) [] = (M', cbs)"
    using True assms(4)
    by (auto simp: listExpiredCb_def listExpiredCb_locked_def rolled_over_def detectClockRollover_def Let_def)
  with listExpiredCb_locked_run [OF assms(1), where expired = "m_timers M" and it = "length (m_timers M)" and now_ms = now and cbs = "[]"]
  show ?thesis using assms(7) by auto
qed

text \<open>The fibers of all tasks have been switched away from.\<close>

definition quiet :: "rt_cb timer_cb fiber_heap \<Rightarrow> runtime \<Rightarrow> bool" where
  "quiet h R \<longleftrightarrow> (\<forall>ft \<in> rt_tasks R. ft_fiber ft \<noteq> nullptr \<longrightarrow> has_state h (ft_fiber ft) {HOLD, READY})"

lemma quiet_runnable:
  assumes "rt_inv R" "quiet h R"
  shows "rt_guard (A_pick h tid) R" "ft \<in> rt_tasks R \<Longrightarrow> runnable h tid ft"
proof -
  show "rt_guard (A_pick h tid) R" using assms(2) by (auto simp: quiet_def rt_tasks_def has_state_def)
  assume ft: "ft \<in> rt_tasks R"
  then show "runnable h tid ft"
    using rt_invD(6) [OF assms(1) ft] assms(2)
    by (auto simp: runnable_def elsewhere_def executing_def quiet_def task_wf_def has_state_def)
qed

text \<open>Threads bring any task of the queue into hand.\<close>

lemma picks_bring:
  assumes "rt_inv R" "quiet h R" "queue (rt_io R) = xs @ ft # ys"
  shows "\<exists>R'. rt_run (replicate (Suc (length xs)) (A_pick h tid)) R R' \<and> ft \<in> set (rt_hand R') \<and>
    rt_calls R' = rt_calls R \<and> rt_asleep R' = rt_asleep R"
  using assms
proof (induction xs arbitrary: R)
  case Nil
  note g = quiet_runnable [where tid = tid, OF Nil(1,2)]
  have "runnable h tid ft" using g(2) [of ft] Nil(3) by (simp add: rt_tasks_def)
  then obtain R' g' where "rt_pick h tid R = Inr R'" "rt_hand R' = rt_hand R @ [ft]" "R' = (upd_sched g' R)\<lparr>rt_hand := rt_hand R @ [ft]\<rparr>"
    using pick_runs [OF Nil(1) g(1)] Nil(3) by (auto simp: Cons_eq_append_conv)
  then show ?case using g(1) by (intro exI [of _ R']) auto
next
  case (Cons x xs)
  note g = quiet_runnable [where tid = tid, OF Cons(2,3)]
  have "runnable h tid x" using g(2) [of x] Cons(4) by (simp add: rt_tasks_def)
  then obtain R1 g' where R1: "rt_pick h tid R = Inr R1" "queue (rt_io R1) = xs @ ft # ys" "rt_tasks R1 = rt_tasks R"
      "R1 = (upd_sched g' R)\<lparr>rt_hand := rt_hand R @ [x]\<rparr>"
    using pick_runs [OF Cons(2) g(1)] Cons(4) by (auto simp: Cons_eq_append_conv)
  have "rt_inv R1" using pick_inv [OF Cons(2) g(1)] R1(1) by simp
  moreover have "quiet h R1" using Cons(3) R1(3) by (simp add: quiet_def)
  ultimately obtain R' where R': "rt_run (replicate (Suc (length xs)) (A_pick h tid)) R1 R'" "ft \<in> set (rt_hand R')"
      "rt_calls R' = rt_calls R1" "rt_asleep R' = rt_asleep R1"
    using Cons.IH [OF _ _ R1(2)] by blast
  have "rt_run (replicate (Suc (length (x # xs))) (A_pick h tid)) R R'"
    using g(1) R1(1) R'(1) by (auto simp: replicate_Suc [of "Suc (length xs)"] simp del: replicate_Suc)
  then show ?case using R'(2-4) R1(4) by (intro exI [of _ R']) auto
qed

definition idle_work :: "u64 \<Rightarrow> ptr \<Rightarrow> rt_cb timer_cb fiber_heap \<Rightarrow> int \<Rightarrow> rt_action set" where
  "idle_work now a h tid = {A_expire now a, A_pick h tid} \<union> range (\<lambda>i. A_callback i 0)"

lemma pending_in_hand:
  assumes "rt_inv R" "quiet h R" "Some cb \<in> ft_cb ` rt_tasks R"
  shows "\<exists>as R' i. rt_run as R R' \<and> set as \<subseteq> idle_work now a h tid \<and> i < length (rt_hand R') \<and> ft_cb (rt_hand R' ! i) = Some cb \<and>
    rt_calls R' = rt_calls R \<and> rt_asleep R' = rt_asleep R"
proof -
  obtain ft where ft: "ft \<in> rt_tasks R" "ft_cb ft = Some cb" using assms(3) by auto
  have "\<exists>as R'. rt_run as R R' \<and> set as \<subseteq> idle_work now a h tid \<and> ft \<in> set (rt_hand R') \<and>
      rt_calls R' = rt_calls R \<and> rt_asleep R' = rt_asleep R"
  proof (cases "ft \<in> set (rt_hand R)")
    case True
    then show ?thesis by (intro exI [of _ "[]"] exI [of _ R]) simp
  next
    case False
    then have "ft \<in> set (queue (rt_io R))" using ft(1) by (simp add: rt_tasks_def)
    then obtain xs ys where "queue (rt_io R) = xs @ ft # ys" by (meson split_list)
    from picks_bring [OF assms(1,2) this, of tid] obtain R' where
        "rt_run (replicate (Suc (length xs)) (A_pick h tid)) R R'" "ft \<in> set (rt_hand R')"
        "rt_calls R' = rt_calls R" "rt_asleep R' = rt_asleep R" by blast
    then show ?thesis
      by (intro exI [of _ "replicate (Suc (length xs)) (A_pick h tid)"] exI [of _ R']) (auto simp: idle_work_def)
  qed
  then show ?thesis using ft(2) by (metis in_set_conv_nth)
qed

lemma in_slots_waits:
  assumes "in_slots f m \<noteq> 0" "f \<noteq> nullptr"
  obtains i event where "waits_at m i event f"
proof -
  obtain c where "c \<in> set (m_fdContexts m)" "slot_count f c \<noteq> 0"
    using assms(1) by (auto simp: in_slots_def sum_list_eq_0_iff)
  then obtain i where "i < length (m_fdContexts m)" "slot_count f (m_fdContexts m ! i) \<noteq> 0" by (metis in_set_conv_nth)
  then have "waits_at m i EV_READ f \<or> waits_at m i EV_WRITE f"
    using assms(2) by (auto simp: waits_at_def slot_count_def slot_def of_bool_def split: if_splits)
  then show ?thesis using that by blast
qed

lemma no_wait_after_cancel:
  assumes "iom_inv m" "0 \<le> fd" "event \<in> {EV_READ, EV_WRITE}" "cancelEvent 0 fd event m = Inr (m', b)"
  shows "\<not> waits_at m' (nat fd) event f"
proof (cases "valid_fd fd m")
  case True
  then have m': "m' = (if armed_at fd event m then fire fd event m else m)"
    using cancelEvent_ok(1) [OF assms(1,3) True, of 0] assms(4) by simp
  show ?thesis
  proof (cases "armed_at fd event m")
    case True
    then show ?thesis using waits_fire(2) [OF _ assms(3), of fd m "nat fd" event f] m' by auto
  next
    case False
    then show ?thesis using slot_empty [OF assms(1) True assms(3) False] m' by (auto simp: waits_at_def empty_context_def)
  qed
next
  case False
  then have l: "int (length (m_fdContexts m)) \<le> fd" using assms(2) by (simp add: valid_fd_def)
  then have "m' = m" using assms(4) by (simp add: cancelEvent_def)
  moreover have "\<not> nat fd < length (m_fdContexts m)" using l by linarith
  ultimately show ?thesis by (simp add: waits_at_def)
qed

text \<open>A suspended fiber that neither sleeps nor is in a slot has its task in the queue or in hand.\<close>

lemma suspended_task:
  assumes "rt_inv R" "rt_owned R" "f \<noteq> nullptr" "suspended R f" "f \<notin> rt_asleep R" "in_slots f (rt_io R) = 0"
  shows "\<exists>ft \<in> rt_tasks R. ft_fiber ft = f"
proof -
  have o: "timers_owned (rt_asleep R) (rt_tm R)" "tasks_owned (rt_asleep R) (rt_tasks R)"
    using assms(2) by (auto simp: rt_owned_def)
  have "{p \<in> set (m_timers (rt_tm R)). m_cb (tm_heap (rt_tm R) p) = Some (Cb (Wake f))} = {}"
    using o(1) assms(5) by (auto simp: timers_owned_def cb_owned_def)
  then have "in_timers f (rt_tm R) = 0" unfolding in_timers_def by simp
  then have "in_tasks f (queue (rt_io R)) + in_tasks f (rt_hand R) = 1"
    using rt_invD(8) [OF assms(1,3)] assms(4,6) by (simp add: places_def)
  then have "in_tasks f (queue (rt_io R) @ rt_hand R) \<noteq> 0" by simp
  then obtain ft where "ft \<in> rt_tasks R" "wakes f ft"
    by (auto simp: in_tasks_def rt_tasks_def filter_empty_conv)
  moreover have "ft_cb ft \<noteq> Some (Cb (Wake f))" using o(2) assms(5) \<open>ft \<in> rt_tasks R\<close> by (auto simp: tasks_owned_def cb_owned_def)
  ultimately show ?thesis by (auto simp: wakes_def)
qed

lemma timeout_runs:
  assumes "rt_reach R" "i < length (rt_hand R)" "ft_cb (rt_hand R ! i) = Some (timeout_of t)"
    and "rt_calls R t = Some c" "cl_phase c = Held" "cl_cancelled c = 0"
  shows "\<exists>R'. rt_run [A_callback i 0] R R' \<and> rt_calls R' t = Some (c\<lparr>cl_cancelled := ETIMEDOUT\<rparr>) \<and>
    (\<exists>ft \<in> rt_tasks R'. ft_fiber ft = cl_fiber c)"
proof -
  note inv = rt_reach_inv [OF assms(1)]
  note v = rt_invD [OF inv]
  let ?D = "rt_done i R" and ?f = "cl_fiber c" and ?c = "c\<lparr>cl_cancelled := ETIMEDOUT\<rparr>"
  have co: "?f \<noteq> nullptr" "?f \<notin> rt_asleep R" "0 \<le> cl_fd c" "cl_event c \<in> {EV_READ, EV_WRITE}"
    using calls_okD(1) [OF v(7) assms(4)] by (auto simp: call_ok_def)
  have "rt_hand R ! i \<in> rt_tasks R" using assms(2) by (simp add: rt_tasks_def)
  then have g: "rt_guard (A_callback i 0) R" using v(6) [of "rt_hand R ! i"] assms(2,3) by (auto simp: task_wf_def split: if_splits)
  obtain R' where R': "rt_exec (A_callback i 0) R = Inr R'" "rt_inv R'" using rt_step_ok [OF inv g] by blast
  have own: "rt_owned R'" using rt_owned_step [OF inv rt_reach_owned [OF assms(1)] g R'(1)] .
  have iD: "iom_inv (rt_io ?D)" "home (rt_io ?D)" using done_places(1) [OF v(1) assms(2)] v(2) by simp_all
  obtain m b where m: "cancelEvent 0 (cl_fd c) (cl_event c) (rt_io ?D) = Inr (m, b)"
    using conserves_cancel [OF iD co(3,4), of 0] by blast
  have eq: "R' = ?D\<lparr>rt_io := m, rt_calls := (rt_calls R)(t \<mapsto> ?c)\<rparr>"
    using R'(1) assms(3,4,6) m
    by (simp add: rt_callback_def timeout_of_def OnTimer_def rt_closure_def rt_timeout_def io_timeout_cb_def)
  have c': "rt_calls R' t = Some ?c" "rt_asleep R' = rt_asleep R" by (simp_all add: eq)
  have "in_slots ?f (rt_io R') = 0"
  proof (rule ccontr)
    assume "in_slots ?f (rt_io R') \<noteq> 0"
    then obtain j ev where w: "waits_at (rt_io R') j ev ?f" using in_slots_waits co(1) by blast
    moreover have "slots_owned (rt_io R') (rt_calls R')" using own by (simp add: rt_owned_def)
    ultimately obtain t' d where d: "rt_calls R' t' = Some d" "cl_fd d = int j" "cl_event d = ev" "cl_fiber d = ?f"
      using slots_ownedD by metis
    then have "d = ?c" using calls_okD(2) [OF rt_invD(7) [OF R'(2)] d(1) c'(1)] c'(1) by auto
    then show False using w no_wait_after_cancel [OF iD(1) co(3,4) m, of ?f] d by (auto simp: eq)
  qed
  moreover have "held_in (rt_calls R' t) ?f" using c'(1) assms(5) by simp
  then have "suspended R' ?f" unfolding suspended_def by blast
  ultimately have "\<exists>ft \<in> rt_tasks R'. ft_fiber ft = ?f"
    using suspended_task [OF R'(2) own co(1)] co(2) c'(2) by auto
  then show ?thesis using g R'(1) c'(1) by (intro exI [of _ R']) simp
qed


text \<open>The same for a fiber that sleeps.\<close>

theorem sleep_ends:
  assumes "rt_reach R" "f \<in> rt_asleep R" "quiet h R" "a \<noteq> nullptr" "a \<notin> set (m_timers (rt_tm R))"
    and "\<And>p. p \<in> set (m_timers (rt_tm R)) \<Longrightarrow> m_cb (tm_heap (rt_tm R) p) = Some (Cb (Wake f)) \<Longrightarrow> m_next (tm_heap (rt_tm R) p) \<le> now"
  shows "\<exists>as R'. set as \<subseteq> idle_work now a h tid \<and> rt_run as R R' \<and> (\<exists>ft \<in> rt_tasks R'. ft_fiber ft = f)"
proof -
  note inv = rt_reach_inv [OF assms(1)] and own = rt_reach_owned [OF assms(1)]
  note v = rt_invD [OF inv]
  have f: "f \<noteq> nullptr" using v(7) assms(2) unfolding calls_ok_def by metis
  have g: "rt_guard (A_expire now a) R" using assms(4,5) by simp
  then obtain R1 where R1: "rt_exec (A_expire now a) R = Inr R1" "rt_inv R1" using rt_step_ok [OF inv] by blast
  obtain M cbs where M: "listExpiredCb (rt_tm R) now a [] = Inr (M, cbs)" "timers_wf M" "set (m_timers M) \<subseteq> set (m_timers (rt_tm R))"
      "\<And>p. p \<in> set (m_timers M) \<Longrightarrow> m_cb (tm_heap M p) = m_cb (tm_heap (rt_tm R) p)"
    using expire_conserves [OF v(4), of now a] by blast
  have "rt_expire now a R = Inr R1" using R1(1) by simp
  note e = expire_tasks [OF inv this M(1)]
  have "m_cb (tm_heap M p) \<noteq> Some (Cb (Wake f))" if p: "p \<in> set (m_timers M)" for p
  proof
    assume w: "m_cb (tm_heap M p) = Some (Cb (Wake f))"
    have p': "p \<in> set (m_timers (rt_tm R))" "m_cb (tm_heap (rt_tm R) p) = Some (Cb (Wake f))" using M(3,4) p w by auto
    then have "\<not> m_recurring (tm_heap (rt_tm R) p)" using v(4) by (auto simp: timers_wf_def user_cb_def)
    then show False using expire_due [OF v(5) assms(5,4) M(1) p'(1) assms(6) [OF p']] p by blast
  qed
  then have "in_timers f (rt_tm R1) = 0" unfolding in_timers_def e(2) by (simp add: card_eq_0_iff)
  moreover have own1: "rt_owned R1" using rt_owned_step [OF inv own g R1(1)] .
  have "in_slots f (rt_io R1) = 0"
  proof (rule ccontr)
    assume "in_slots f (rt_io R1) \<noteq> 0"
    then obtain i event where "waits_at (rt_io R1) i event f" using in_slots_waits f by blast
    then obtain t c where "rt_calls R1 t = Some c" "cl_fiber c = f"
      using slots_ownedD own1 unfolding rt_owned_def by metis
    then show False using calls_okD(1) [OF rt_invD(7) [OF R1(2)], of t c] assms(2) e(4) by (auto simp: call_ok_def)
  qed
  moreover have "suspended R1 f" using assms(2) e(4) by (simp add: suspended_def)
  ultimately have "in_tasks f (queue (rt_io R1) @ rt_hand R1) \<noteq> 0"
    using rt_invD(8) [OF R1(2) f] by (simp add: places_def)
  then obtain ft where "ft \<in> rt_tasks R1" "wakes f ft" by (auto simp: in_tasks_def rt_tasks_def filter_empty_conv)
  then consider "\<exists>ft \<in> rt_tasks R1. ft_fiber ft = f" | "Some (Cb (Wake f)) \<in> ft_cb ` rt_tasks R1"
    by (auto simp: wakes_def image_iff) metis
  then show ?thesis
  proof cases
    case 1
    then show ?thesis using g R1(1) by (intro exI [of _ "[A_expire now a]"] exI [of _ R1]) (auto simp: idle_work_def simp del: rt_guard.simps)
  next
    case 2
    have "quiet h R1" using assms(3) e(1) by (auto simp: quiet_def FT_cb_def)
    then obtain as R2 i where R2: "rt_run as R1 R2" "set as \<subseteq> idle_work now a h tid" "i < length (rt_hand R2)"
        "ft_cb (rt_hand R2 ! i) = Some (Cb (Wake f))"
      using pending_in_hand [OF R1(2) _ 2, of h now a tid] by blast
    have "rt_reach R2" using rt_run_reach [OF R2(1)] reach_step [OF assms(1) g R1(1)] by blast
    note v2 = rt_invD [OF rt_reach_inv [OF this]]
    have ft: "rt_hand R2 ! i \<in> rt_tasks R2" using R2(3) by (simp add: rt_tasks_def)
    then have g2: "rt_guard (A_callback i 0) R2" using v2(6) [OF ft] R2(3,4) by (auto simp: task_wf_def split: if_splits)
    let ?R3 = "rt_push (FT_fiber f (- 1)) (rt_done i R2)"
    have "ft_fiber (FT_fiber f (- 1) :: rt_task) \<noteq> nullptr \<or> ft_cb (FT_fiber f (- 1) :: rt_task) \<noteq> None" using f by (simp add: FT_fiber_def)
    then have "rt_tasks ?R3 = insert (FT_fiber f (- 1)) (rt_tasks (rt_done i R2))"
      by (rule push_inv(3) [OF done_places(1) [OF v2(1) R2(3)]])
    then have "\<exists>ft \<in> rt_tasks ?R3. ft_fiber ft = f" by (auto simp: FT_fiber_def)
    moreover have "rt_exec (A_callback i 0) R2 = Inr ?R3" using R2(4) by (simp add: rt_callback_def rt_closure_def)
    then have "rt_run (A_expire now a # as @ [A_callback i 0]) R ?R3"
      using g R1(1) R2(1) g2 by (auto simp: runs_append simp del: rt_guard.simps)
    moreover have "set (A_expire now a # as @ [A_callback i 0]) \<subseteq> idle_work now a h tid"
      using R2(2) by (auto simp: idle_work_def)
    ultimately show ?thesis by blast
  qed
qed

subsection \<open>Two orders that go wrong\<close>

definition demo_rt :: runtime where
  "demo_rt = rt_init 1 \<lparr> m_fibers = [], m_rootFiber = nullptr, m_threads = [5], m_threadIds = [5], m_threadCount = 1,
     m_activeThreadCount = 0, m_idleThreadCount = 0, m_stopping = False, m_autoStop = False, m_rootThread = - 1 \<rparr> 0
     (\<lambda>_. Timer_ctor_next 0)"

lemmas rt_eval = demo_rt_def rt_init_def contextResize_def TimerManager_ctor_def with_call_def rt_begin_def rt_timer_def rt_add_def
  busy_def fresh_info_def fresh_timer_def addable_def grow_def armed_at_def armed_def new_FdContext_def queue_def timeout_of_def
  addConditionTimer_def addTimer_def addTimer_locked_def Timer_ctor_def io_block_event_def addEvent_def fd_ctx_def getContext_def
  set_fd_ctx_def setContext_def empty_context_def rt_expire_def listExpiredCb_def listExpiredCb_locked_def detectClockRollover_def
  Let_def upd_sched_def FT_cb_swap_def scheduleNoLock_def FT_cb_def rt_pick_def run_pick_def idle_fibers_def rt_done_def
  rt_callback_def rt_closure_def rt_timeout_def io_timeout_cb_def OnTimer_def cancelEvent_def live_def oset_lower_bound_takeWhile Cons_eq_append_conv
  Comparator_def Timer_ctor_next_def

text \<open>A call that waits for descriptor 7 with a timeout of 50 ms, from time 0.\<close>

definition demo_call :: io_call where
  "demo_call = \<lparr> cl_fiber = 77, cl_fd = 7, cl_event = EV_READ, cl_to = 50, cl_cancelled = 0, cl_timer = 9, cl_phase = Held \<rparr>"

lemma demo_reach: "rt_reach demo_rt"
  unfolding demo_rt_def by (rule reach_init)

lemma demo_waits:
  "\<exists>R. rt_run [A_begin 100 77 7 EV_READ 50, A_timer 100 9 0, A_add 0 100] demo_rt R \<and> rt_calls R 100 = Some demo_call \<and>
     m_timers (rt_tm R) = [9] \<and> m_next (tm_heap (rt_tm R) 9) = 50 \<and> rt_tasks R = {} \<and> suspended R 77"
  by (simp add: rt_eval demo_call_def rt_tasks_def suspended_def held_in_def)






text \<open>
  The timer is armed before the event is registered. When it fires in between, its callback finds no
  event to cancel, and the call then waits with neither a timer nor a callback on its way: only the
  descriptor can end the wait, although a timeout was asked for.
\<close>

theorem timeout_lost:
  "\<exists>R c. rt_reach R \<and> rt_calls R 100 = Some c \<and> cl_phase c = Held \<and> cl_to c = 50 \<and> waits_at (rt_io R) 7 EV_READ 77 \<and>
     m_timers (rt_tm R) = [] \<and> rt_tasks R = {}"
proof -
  obtain R c where R: "rt_run [A_begin 100 77 7 EV_READ 50, A_timer 100 9 0, A_expire 60 5, A_pick idle_fibers 1, A_callback 0 0,
       A_add 0 100] demo_rt R" "rt_calls R 100 = Some c \<and> cl_phase c = Held \<and> cl_to c = 50 \<and> waits_at (rt_io R) 7 EV_READ 77 \<and>
     m_timers (rt_tm R) = [] \<and> rt_tasks R = {}"
    by (simp add: rt_eval rt_tasks_def waits_at_def slot_def)
  then show ?thesis using rt_run_reach [OF R(1) demo_reach] by blast
qed

lemmas rt_eval_wait = rt_event_def idle_event_def real_events_def trigger_if_def triggerEvent_def FT_fiber_swap_def FT_fiber_def
  schedule_on_def schedule_def rt_resume_def cancel_timer_def Timer_cancel_def

text \<open>
  A call that is retried keeps its \<open>timer_info\<close>. When the descriptor becomes ready and the timer fires
  before the fiber runs, the fiber retries, waits again with a new deadline, and the callback of the
  first timer, still in the queue, cancels that wait: here at time 50, with the new timer set to 100.
\<close>

theorem stale_timeout_cuts_retry:
  "\<exists>R c. rt_run [A_begin 100 77 7 EV_READ 50, A_timer 100 9 0, A_add 0 100, A_event 0 EPOLLIN 7, A_expire 50 5, A_pick idle_fibers 1,
       A_resume 0 100, A_timer 100 10 50, A_add 0 100, A_pick idle_fibers 1, A_callback 0 0] demo_rt R \<and>
     rt_calls R 100 = Some c \<and> cl_cancelled c = ETIMEDOUT \<and> cl_phase c = Held \<and> cl_timer c = 10 \<and>
     10 \<in> set (m_timers (rt_tm R)) \<and> m_next (tm_heap (rt_tm R) 10) = 100 \<and> (\<exists>ft \<in> rt_tasks R. ft_fiber ft = 77)"
  by (simp add: rt_eval rt_eval_wait rt_tasks_def)

end
