(* ===== verification/Epoll.thy ===== *)
theory Epoll
  imports IOManager
begin

section \<open>What epoll is told\<close>

text \<open>
  The calls of \<open>epoll_ctl\<close> that \<open>IOManager\<close> makes, against its own table. The log holds the calls that
  succeeded, the latest first. The table and what epoll was last told about a descriptor agree in
  every state, and the operation of each call fits: a descriptor is added only when it is not known
  and changed or removed only when it is.
\<close>

subsection \<open>Calls\<close>

type_synonym ctl = "epoll_op \<times> int \<times> u32"

definition idle_op :: "u32 \<Rightarrow> 'cb fd_context \<Rightarrow> epoll_op \<times> u32" where
  "idle_op events c =
     (let left_events = fc_events c AND NOT (real_events events c)
      in (if left_events \<noteq> 0 then EPOLL_CTL_MOD else EPOLL_CTL_DEL, EPOLLET OR left_events))"

definition ctl_call :: "epoll_op \<times> u32 \<Rightarrow> int \<Rightarrow> ctl" where
  "ctl_call = (\<lambda>(op, bits) fd. (op, fd, bits))"

text \<open>The mask epoll was last told for a descriptor, and whether every operation fits.\<close>

fun ctl_mask :: "ctl list \<Rightarrow> int \<Rightarrow> u32 option" where
  "ctl_mask [] fd = None"
| "ctl_mask ((op, g, bits) # cs) fd =
     (if g = fd then (if op = EPOLL_CTL_DEL then None else Some bits) else ctl_mask cs fd)"

fun ctl_proper :: "ctl list \<Rightarrow> bool" where
  "ctl_proper [] \<longleftrightarrow> True"
| "ctl_proper ((op, g, bits) # cs) \<longleftrightarrow> ctl_proper cs \<and> (op = EPOLL_CTL_ADD \<longleftrightarrow> ctl_mask cs g = None)"

subsection \<open>Any sequence of operations\<close>

definition io_fresh :: "ptr \<Rightarrow> 'cb schedular \<Rightarrow> 'cb iomanager" where
  "io_fresh this s = contextResize 32 \<lparr> io_this = this, io_scheds = [this \<mapsto> s], m_fdContexts = [], m_pendingEventCount = 0 \<rparr>"

text \<open>\<open>ev m fd\<close>: the events the table has for a descriptor.\<close>

definition ev :: "'cb iomanager \<Rightarrow> int \<Rightarrow> u32" where
  "ev m fd = (if valid_fd fd m then fc_events (m_fdContexts m ! nat fd) else 0)"

inductive ep_reach :: "'cb iomanager \<Rightarrow> ctl list \<Rightarrow> bool" where
  ep_init: "ep_reach (io_fresh this s) []"
| ep_add: "ep_reach m cs \<Longrightarrow> 0 \<le> fd \<Longrightarrow> event \<in> {EV_READ, EV_WRITE} \<Longrightarrow> sched \<in> dom (io_scheds m) \<Longrightarrow>
    (cb = None \<longrightarrow> cur \<noteq> nullptr) \<Longrightarrow> addEvent rt sched cur state fd event cb m = Inr (m', r) \<Longrightarrow>
    ep_reach m' (if rt = 0 then ctl_call (add_op (m_fdContexts (grow fd m) ! nat fd) event) fd # cs else cs)"
| ep_del: "ep_reach m cs \<Longrightarrow> 0 \<le> fd \<Longrightarrow> event \<in> {EV_READ, EV_WRITE} \<Longrightarrow> delEvent rt fd event m = Inr (m', b) \<Longrightarrow>
    ep_reach m' (if b then ctl_call (del_op (m_fdContexts m ! nat fd) event) fd # cs else cs)"
| ep_cancel: "ep_reach m cs \<Longrightarrow> 0 \<le> fd \<Longrightarrow> event \<in> {EV_READ, EV_WRITE} \<Longrightarrow> cancelEvent rt fd event m = Inr (m', b) \<Longrightarrow>
    ep_reach m' (if b then ctl_call (del_op (m_fdContexts m ! nat fd) event) fd # cs else cs)"
| ep_cancel_all: "ep_reach m cs \<Longrightarrow> 0 \<le> fd \<Longrightarrow> cancelAll rt fd m = Inr (m', b) \<Longrightarrow>
    ep_reach m' (if b then (EPOLL_CTL_DEL, fd, 0) # cs else cs)"
| ep_idle: "ep_reach m cs \<Longrightarrow> i < length (m_fdContexts m) \<Longrightarrow> c = m_fdContexts m ! i \<Longrightarrow>
    idle_event rt2 (events, Fd_ptr i) m = Inr m' \<Longrightarrow>
    ep_reach m' (if fc_events c AND real_events events c \<noteq> 0 \<and> rt2 = 0
      then ctl_call (idle_op events c) (int (fc_fd c)) # cs else cs)"
| ep_run: "ep_reach m cs \<Longrightarrow> dom S = dom (io_scheds m) \<Longrightarrow> ep_reach (m\<lparr>io_scheds := S\<rparr>) cs"

subsection \<open>The events of the table\<close>

definition told :: "u32 \<Rightarrow> u32 option" where
  "told e = (if e = 0 then None else Some (EPOLLET OR e))"

definition fds_indexed :: "'cb iomanager \<Rightarrow> bool" where
  "fds_indexed m \<longleftrightarrow> (\<forall>i < length (m_fdContexts m). fc_fd (m_fdContexts m ! i) = i)"

definition ep_inv :: "'cb iomanager \<Rightarrow> ctl list \<Rightarrow> bool" where
  "ep_inv m cs \<longleftrightarrow> iom_inv m \<and> 2 \<le> length (m_fdContexts m) \<and> fds_indexed m \<and> (\<forall>fd. ctl_mask cs fd = told (ev m fd)) \<and> ctl_proper cs"

lemma ep_step:
  assumes "ep_inv m cs" "iom_inv m'" "2 \<le> length (m_fdContexts m')" "fds_indexed m'" "ev m' = (ev m)(fd := e)"
    and "op = (if e = 0 then EPOLL_CTL_DEL else if ev m fd = 0 then EPOLL_CTL_ADD else EPOLL_CTL_MOD)"
    and "e = 0 \<longrightarrow> ev m fd \<noteq> 0" "e \<noteq> 0 \<longrightarrow> bits = EPOLLET OR e"
  shows "ep_inv m' ((op, fd, bits) # cs)"
proof -
  have "told (ev m fd) = None \<longleftrightarrow> ev m fd = 0" by (simp add: told_def)
  then show ?thesis
    using assms by (auto simp: ep_inv_def told_def)
qed

lemma ep_same:
  assumes "ep_inv m cs" "iom_inv m'" "2 \<le> length (m_fdContexts m')" "fds_indexed m'" "ev m' = ev m"
  shows "ep_inv m' cs"
  using assms by (simp add: ep_inv_def)

lemma valid_arm_fire [simp]:
  "valid_fd g (disarm fd event m) = valid_fd g m" "valid_fd g (arm fd event e m) = valid_fd g m"
  by (simp_all add: valid_fd_def disarm_def arm_def set_fd_ctx_def Let_def)

lemma ctx_fields [simp]:
  "fc_events (setContext event e c) = fc_events c" "fc_fd (setContext event e c) = fc_fd c"
  by (simp_all add: setContext_def)

lemma ev_scheds [simp]: "ev (m\<lparr>io_scheds := S\<rparr>) = ev m"
  by (rule ext) (simp add: ev_def valid_fd_def)

lemma ev_disarm: "valid_fd fd m \<Longrightarrow> ev (disarm fd event m) = (ev m)(fd := ev m fd AND NOT event)"
  by (rule ext) (auto simp: ev_def valid_fd_def disarm_def set_fd_ctx_def Let_def nth_list_update)

lemma ev_fire: "valid_fd fd m \<Longrightarrow> ev (fire fd event m) = (ev m)(fd := ev m fd AND NOT event)"
  using ev_disarm [of fd m event] by (simp add: fire_def Let_def)

lemma ev_arm: "valid_fd fd m \<Longrightarrow> ev (arm fd event e m) = (ev m)(fd := ev m fd OR event)"
  by (rule ext) (auto simp: ev_def valid_fd_def arm_def set_fd_ctx_def Let_def nth_list_update)

lemma indexed_update:
  "fds_indexed m \<Longrightarrow> fds_indexed (disarm fd event m)" "fds_indexed m \<Longrightarrow> fds_indexed (fire fd event m)"
  "fds_indexed m \<Longrightarrow> fds_indexed (arm fd event e m)"
  by (cases "nat fd < length (m_fdContexts m)";
      simp add: fds_indexed_def disarm_def fire_def arm_def set_fd_ctx_def Let_def nth_list_update list_update_beyond)+

lemma grow_table:
  assumes "iom_inv m" "2 \<le> length (m_fdContexts m)" "0 \<le> fd" "fds_indexed m"
  shows "iom_inv (grow fd m)" "valid_fd fd (grow fd m)" "ev (grow fd m) = ev m" "fds_indexed (grow fd m)"
    "2 \<le> length (m_fdContexts (grow fd m))"
proof -
  have big: "2 \<le> fd \<or> int (length (m_fdContexts m)) > fd" using assms(2) by linarith
  note g = grow_inv [OF assms(1) big assms(3)]
  show "iom_inv (grow fd m)" "valid_fd fd (grow fd m)" "2 \<le> length (m_fdContexts (grow fd m))" using g assms(2) by auto
  show "fds_indexed (grow fd m)"
    using assms(4) by (auto simp: fds_indexed_def grow_def contextResize_def nth_append new_FdContext_def)
  have "fc_events (m_fdContexts (grow fd m) ! i) = 0"
    if "length (m_fdContexts m) \<le> i" "i < length (m_fdContexts (grow fd m))" for i
    using that by (auto simp: grow_def contextResize_def nth_append new_FdContext_def split: if_splits)
  then show "ev (grow fd m) = ev m"
    using g by (intro ext) (auto simp: ev_def valid_fd_def not_less)
qed

subsection \<open>Every operation keeps the agreement\<close>

lemma and_not_self: "(x :: u32) AND NOT x = 0"
  by simp

lemma ep_invD:
  assumes "ep_inv m cs"
  shows "iom_inv m" "2 \<le> length (m_fdContexts m)" "fds_indexed m" "valid_fd fd m \<Longrightarrow> ev m fd = fc_events (m_fdContexts m ! nat fd)"
    "valid_events (ev m fd)"
  using assms by (auto simp: ep_inv_def ev_def valid_events_def iom_inv_def valid_fd_def ctx_ok_def)

lemma ep_add_inv:
  assumes "ep_inv m cs" "0 \<le> fd" "event \<in> {EV_READ, EV_WRITE}" "sched \<in> dom (io_scheds m)" "cb = None \<longrightarrow> cur \<noteq> nullptr"
    and "addEvent rt sched cur state fd event cb m = Inr (m', r)"
  shows "ep_inv m' (if rt = 0 then ctl_call (add_op (m_fdContexts (grow fd m) ! nat fd) event) fd # cs else cs)"
proof -
  note i = ep_invD [OF assms(1)]
  note g = grow_table [OF i(1,2) assms(2) i(3)]
  have c: "fc_events (m_fdContexts (grow fd m) ! nat fd) = ev m fd" 
    using g(2) by (simp add: ev_def flip: g(3))
  have gr: "(if int (length (m_fdContexts m)) > fd then m else contextResize (nat (fd * 3 div 2)) m) = grow fd m" by (simp add: grow_def)
  have run: "\<not> armed_at fd event (grow fd m)" "rt = 0 \<and> cb = None \<longrightarrow> state = EXEC"
    using assms(6) unfolding addEvent_def Let_def gr fd_ctx_valid [OF g(2)] rbind_simps
    by (auto simp: armed_at_def armed_def qlc_assert_def rbind_def split: if_splits sum.splits)
  have big: "2 \<le> fd \<or> int (length (m_fdContexts m)) > fd" using i(2) by linarith
  show ?thesis
  proof (cases "rt = 0")
    case False
    then have "m' = grow fd m"
      using assms(6) unfolding addEvent_def Let_def gr fd_ctx_valid [OF g(2)] rbind_simps
      by (auto simp: qlc_assert_def split: if_splits)
    then show ?thesis using False ep_same [OF assms(1) g(1,5,4,3)] by simp
  next
    case True
    let ?e = "\<lparr> ec_schedular = sched, ec_fiber = (if cb = None then cur else nullptr), ec_cb = cb \<rparr>"
    have a: "m' = arm fd event ?e (grow fd m)" "iom_inv m'"
      using addEvent_ok [OF i(1) assms(2,3) big run(1) assms(4), of cb cur state rt] assms(5,6) run(2) True by auto
    have "event \<noteq> 0" "ev m fd OR event \<noteq> 0" using assms(3) by (auto simp: or_eq_0_iff)
    moreover have "ev m' = (ev m)(fd := ev m fd OR event)" "fds_indexed m'" "2 \<le> length (m_fdContexts m')"
      using ev_arm [OF g(2), of event ?e] g(3,5) indexed_update(3) [OF g(4), of fd event ?e]
      by (simp_all add: a(1)) (simp add: arm_def set_fd_ctx_def Let_def)
    ultimately have "ep_inv m' ((if ev m fd = 0 then EPOLL_CTL_ADD else EPOLL_CTL_MOD, fd, EPOLLET OR (ev m fd OR event)) # cs)"
      by (intro ep_step [OF assms(1) a(2), where e = "ev m fd OR event"]) simp_all
    then show ?thesis using True c by (simp add: ctl_call_def add_op_def or.assoc split: if_splits)
  qed
qed

lemma del_call_inv:
  assumes "ep_inv m cs" "valid_fd fd m" "event \<in> {EV_READ, EV_WRITE}" "armed_at fd event m" "iom_inv m'" "fds_indexed m'"
    and "length (m_fdContexts m') = length (m_fdContexts m)" "ev m' = (ev m)(fd := ev m fd AND NOT event)"
  shows "ep_inv m' (ctl_call (del_op (m_fdContexts m ! nat fd) event) fd # cs)"
proof -
  note i = ep_invD [OF assms(1)]
  have c: "fc_events (m_fdContexts m ! nat fd) = ev m fd" using i(4) [OF assms(2)] by simp
  have "ev m fd \<noteq> 0" using assms(4) c by (auto simp: armed_at_def armed_def)
  then show ?thesis
    unfolding ctl_call_def del_op_def Let_def c split
    by (intro ep_step [OF assms(1,5) _ assms(6,8)]) (use assms(7) i(2) in auto)
qed

lemma ep_cancel_all_inv:
  assumes "ep_inv m cs" "valid_fd fd m" "armed_at fd EV_READ m \<or> armed_at fd EV_WRITE m"
  shows "ep_inv (fire_all fd m) ((EPOLL_CTL_DEL, fd, 0) # cs)"
proof -
  note i = ep_invD [OF assms(1)]
  let ?m1 = "if armed_at fd EV_READ m then fire fd EV_READ m else m"
  have v1: "valid_fd fd ?m1" and i1: "iom_inv ?m1" using assms(2) fire_inv [OF i(1) assms(2), of EV_READ] i(1) by auto
  have w: "armed_at fd EV_WRITE ?m1 = armed_at fd EV_WRITE m" using armed_fire(1) [OF i(1) assms(2)] by simp
  have m2: "fire_all fd m = (if armed_at fd EV_WRITE ?m1 then fire fd EV_WRITE ?m1 else ?m1)"
    using w by (simp add: fire_all_def Let_def)
  have "fds_indexed ?m1" "length (m_fdContexts ?m1) = length (m_fdContexts m)" using i(3) indexed_update(2) by auto
  then have t: "fds_indexed (fire_all fd m)" "length (m_fdContexts (fire_all fd m)) = length (m_fdContexts m)"
    using indexed_update(2) by (auto simp: m2)
  have other: "ev (fire_all fd m) g = ev m g" if "g \<noteq> fd" for g
    using that ev_fire [OF assms(2), of EV_READ] ev_fire [OF v1, of EV_WRITE] by (simp add: m2)
  have inv: "iom_inv (fire_all fd m)" using cancelAll_ok(2) [OF i(1) assms(2)] .
  have "valid_fd fd (fire_all fd m)" using v1 by (simp add: m2)
  moreover have "\<not> armed_at fd EV_READ (fire_all fd m)" "\<not> armed_at fd EV_WRITE (fire_all fd m)"
    using armed_fire [OF i(1) assms(2)] armed_fire [OF i1 v1] unfolding m2 by (auto split: if_splits)
  ultimately have "ev (fire_all fd m) fd = 0" using events_zero_iff [OF inv] by (simp add: ev_def)
  then have "ev (fire_all fd m) = (ev m)(fd := 0)" using other by (intro ext) auto
  moreover have "ev m fd \<noteq> 0" using assms(3) i(4) [OF assms(2)] by (auto simp: armed_at_def armed_def)
  ultimately show ?thesis
    using ep_step [OF assms(1) inv _ t(1), of fd 0 EPOLL_CTL_DEL 0] t(2) i(2) by simp
qed

lemma event_masks:
  fixes e r :: u32
  assumes "valid_events e" "valid_events r" "r AND 1 \<noteq> 0 \<Longrightarrow> e AND 1 \<noteq> 0" "r AND 4 \<noteq> 0 \<Longrightarrow> e AND 4 \<noteq> 0"
  shows "(if r AND 4 \<noteq> 0 then (if r AND 1 \<noteq> 0 then e AND NOT 1 else e) AND NOT 4 else if r AND 1 \<noteq> 0 then e AND NOT 1 else e) = e AND NOT r"
  using assms unfolding valid_events_def by (elim insertE; simp)

lemma ep_idle_inv:
  assumes "ep_inv m cs" "i < length (m_fdContexts m)" "c = m_fdContexts m ! i" "idle_event rt2 (events, Fd_ptr i) m = Inr m'"
  shows "ep_inv m' (if fc_events c AND real_events events c \<noteq> 0 \<and> rt2 = 0
      then ctl_call (idle_op events c) (int (fc_fd c)) # cs else cs)"
proof -
  note v = ep_invD [OF assms(1)]
  let ?fd = "int i"
  define real where "real = real_events events c"
  have valid: "valid_fd ?fd m" using assms(2) by (simp add: valid_fd_def)
  have e: "fc_events c = ev m ?fd" "fc_fd c = i" using v(4) [OF valid] v(3) assms(2,3) by (auto simp: fds_indexed_def)
  have r: "real = real_events events (m_fdContexts m ! i)" by (simp add: real_def assms(3))
  note eq = idle_event_eq [OF v(1) assms(2) r, of rt2]
  show ?thesis
  proof (cases "fc_events c AND real = 0 \<or> rt2 \<noteq> 0")
    case True
    then show ?thesis using assms(1,3,4) eq by (auto simp: real_def)
  next
    case False
    let ?R = "real AND EV_READ \<noteq> 0" and ?W = "real AND EV_WRITE \<noteq> 0"
    have run: "rbind (trigger_if ?R ?fd EV_READ m) (\<lambda>m. trigger_if ?W ?fd EV_WRITE m) = Inr m'"
      using False assms(3,4) eq by simp
    have aR: "armed_at ?fd EV_READ m" if ?R
      using run that trigger_if_unarmed [OF valid, of EV_READ] by fastforce
    let ?m1 = "if ?R then fire ?fd EV_READ m else m"
    have m1: "trigger_if ?R ?fd EV_READ m = Inr ?m1" using trigger_if_fire [OF v(1) valid] aR by simp
    have i1: "iom_inv ?m1" "valid_fd ?fd ?m1" using fire_inv [OF v(1) valid] aR v(1) valid by auto
    have aW: "armed_at ?fd EV_WRITE ?m1" if ?W
      using run m1 that trigger_if_unarmed [OF i1(2), of EV_WRITE] by fastforce
    have m': "m' = (if ?W then fire ?fd EV_WRITE ?m1 else ?m1)" "iom_inv m'"
      using run m1 trigger_if_fire [OF i1, of EV_WRITE ?W] aW fire_inv [OF i1] i1(1) by auto
    have aWm: "armed_at ?fd EV_WRITE m" if ?W using aW [OF that] armed_fire(1) [OF v(1) valid] by (simp split: if_splits)
    have "ev m' = (ev m)(?fd := ev m ?fd AND NOT real)"
    proof -
      have "ev ?m1 = (ev m)(?fd := (if ?R then ev m ?fd AND NOT EV_READ else ev m ?fd))" using ev_fire [OF valid, of EV_READ] by auto
      then have "ev m' = (ev m)(?fd := (if ?W then (if ?R then ev m ?fd AND NOT EV_READ else ev m ?fd) AND NOT EV_WRITE
          else if ?R then ev m ?fd AND NOT EV_READ else ev m ?fd))"
        using ev_fire [OF i1(2), of EV_WRITE] unfolding m'(1) by simp
      moreover have "ev m ?fd AND EV_READ \<noteq> 0" if ?R using aR [OF that] e assms(3) by (simp add: armed_at_def armed_def)
      moreover have "ev m ?fd AND EV_WRITE \<noteq> 0" if ?W using aWm [OF that] e assms(3) by (simp add: armed_at_def armed_def)
      ultimately show ?thesis
        using event_masks [OF v(5), of real ?fd] real_events_valid [of events c] by (simp add: real_def)
    qed
    moreover have "fds_indexed m'" "length (m_fdContexts m') = length (m_fdContexts m)"
      using v(3) indexed_update(2) unfolding m'(1) by auto
    moreover have "ev m ?fd \<noteq> 0" using False e(1) by auto
    ultimately have "ep_inv m' (ctl_call (idle_op events c) ?fd # cs)"
      unfolding ctl_call_def idle_op_def Let_def split e(1) real_def [symmetric]
      by (intro ep_step [OF assms(1) m'(2), where e = "ev m ?fd AND NOT real"]) (use v(2) in auto)
    then show ?thesis using False e(2) by (simp add: real_def)
  qed
qed

lemma ep_reach_inv: "ep_reach m cs \<Longrightarrow> ep_inv m cs"
proof (induction rule: ep_reach.induct)
  case (ep_init me s)
  have "iom_inv (io_fresh me s)"
    by (auto simp: io_fresh_def iom_inv_def contextResize_def new_FdContext_ok comp_def)
  moreover have "ev (io_fresh me s) = (\<lambda>_. 0)"
    by (rule ext) (auto simp: ev_def io_fresh_def contextResize_def new_FdContext_def valid_fd_def)
  ultimately show ?case
    by (simp add: ep_inv_def told_def) (simp add: io_fresh_def contextResize_def fds_indexed_def new_FdContext_def)
next
  case (ep_add m cs fd event sched cb cur rt state m' r)
  then show ?case using ep_add_inv by blast
next
  case (ep_del m cs fd event rt m' b)
  note i = ep_invD [OF ep_del(5)]
  show ?case
  proof (cases "valid_fd fd m")
    case True
    then have r: "m' = (if b then disarm fd event m else m)" "b = (rt = 0 \<and> armed_at fd event m)" "iom_inv m'"
      using delEvent_ok [OF i(1) ep_del(3) True, of rt] ep_del(4) by auto
    then show ?thesis
      using del_call_inv [OF ep_del(5) True ep_del(3), of m'] indexed_update(1) [OF i(3)] ev_disarm [OF True] ep_del(5)
      by (auto simp: disarm_def set_fd_ctx_def Let_def split: if_splits)
  next
    case False
    then have "int (length (m_fdContexts m)) \<le> fd" using ep_del(2) by (simp add: valid_fd_def)
    then show ?thesis using ep_del by (simp add: delEvent_def)
  qed
next
  case (ep_cancel m cs fd event rt m' b)
  note i = ep_invD [OF ep_cancel(5)]
  show ?case
  proof (cases "valid_fd fd m")
    case True
    then have r: "m' = (if b then fire fd event m else m)" "b = (rt = 0 \<and> armed_at fd event m)" "iom_inv m'"
      using cancelEvent_ok [OF i(1) ep_cancel(3) True, of rt] ep_cancel(4) by auto
    then show ?thesis
      using del_call_inv [OF ep_cancel(5) True ep_cancel(3), of m'] indexed_update(2) [OF i(3)] ev_fire [OF True] ep_cancel(5)
      by (auto split: if_splits)
  next
    case False
    then have "int (length (m_fdContexts m)) \<le> fd" using ep_cancel(2) by (simp add: valid_fd_def)
    then show ?thesis using ep_cancel by (simp add: cancelEvent_def)
  qed
next
  case (ep_cancel_all m cs fd rt m' b)
  note i = ep_invD [OF ep_cancel_all(4)]
  show ?case
  proof (cases "valid_fd fd m")
    case True
    then have "m' = (if b then fire_all fd m else m)" "b = (rt = 0 \<and> (armed_at fd EV_READ m \<or> armed_at fd EV_WRITE m))"
      using cancelAll_ok(1) [OF i(1) True, of rt] ep_cancel_all(3) by auto
    then show ?thesis using ep_cancel_all_inv [OF ep_cancel_all(4) True] ep_cancel_all(4) by auto
  next
    case False
    then have "int (length (m_fdContexts m)) \<le> fd" using ep_cancel_all(2) by (simp add: valid_fd_def)
    then show ?thesis using ep_cancel_all by (simp add: cancelAll_def)
  qed
next
  case (ep_idle m cs i c rt2 events m')
  then show ?case using ep_idle_inv by blast
next
  case (ep_run m cs S)
  have "slot_ok S a e = slot_ok (io_scheds m) a e" for a e using ep_run(2) by (simp add: slot_ok_def)
  moreover have "S (io_this m) \<noteq> None \<longleftrightarrow> io_scheds m (io_this m) \<noteq> None" using ep_run(2) by (metis domIff)
  ultimately have "iom_inv (m\<lparr>io_scheds := S\<rparr>)"
    using ep_invD(1) [OF ep_run(3)] by (simp add: iom_inv_def ctx_ok_def)
  then show ?case
    using ep_invD [OF ep_run(3)] by (intro ep_same [OF ep_run(3)]) (simp_all add: fds_indexed_def)
qed

text \<open>
  C17. Epoll is told what the table says. After any sequence of addEvent, delEvent, cancelEvent, cancelAll
  and events handled by the idle loop, with \<open>epoll_ctl\<close> succeeding or failing each time, the mask epoll
  was last given for a descriptor is \<open>EPOLLET\<close> with exactly the events registered for it, and it knows
  no descriptor without events. Every call fits: a descriptor is added only when epoll does not know
  it, and changed or removed only when it does.
\<close>

theorem epoll_told:
  assumes "ep_reach m cs"
  shows "(\<forall>fd. ctl_mask cs fd =
      (if valid_fd fd m \<and> fc_events (m_fdContexts m ! nat fd) \<noteq> 0 then Some (EPOLLET OR fc_events (m_fdContexts m ! nat fd)) else None)) \<and>
    ctl_proper cs"
  using ep_reach_inv [OF assms] by (auto simp: ep_inv_def told_def ev_def)

definition demo_ep :: "nat iomanager" where
  "demo_ep = arm 7 EV_READ \<lparr> ec_schedular = 1, ec_fiber = 77, ec_cb = None \<rparr> (io_fresh 1 demo_sched)"

theorem epoll_told_witness:
  "ctl_mask [(EPOLL_CTL_ADD, 7, EPOLLET OR EV_READ)] 7 = Some (EPOLLET OR fc_events (m_fdContexts demo_ep ! 7)) \<and>
   ctl_mask [(EPOLL_CTL_ADD, 7, EPOLLET OR EV_READ)] 8 = None"
proof -
  have e: "addEvent 0 1 77 EXEC 7 EV_READ None (io_fresh 1 demo_sched) = Inr (demo_ep, 0)"
    by (simp add: demo_ep_def io_fresh_def contextResize_def addEvent_def fd_ctx_def new_FdContext_def getContext_def empty_context_def
        arm_def set_fd_ctx_def setContext_def Let_def)
  have "1 \<in> dom (io_scheds (io_fresh 1 demo_sched))" by (simp add: io_fresh_def contextResize_def)
  moreover have "ctl_call (add_op (m_fdContexts (grow 7 (io_fresh 1 demo_sched)) ! nat 7) EV_READ) 7 = (EPOLL_CTL_ADD, 7, EPOLLET OR EV_READ)"
    by (simp add: grow_def io_fresh_def contextResize_def ctl_call_def add_op_def new_FdContext_def)
  ultimately have r: "ep_reach demo_ep [(EPOLL_CTL_ADD, 7, EPOLLET OR EV_READ)]"
    using ep_add [OF ep_init [of 1 demo_sched] _ _ _ _ e] by simp
  have "valid_fd 7 demo_ep" "fc_events (m_fdContexts demo_ep ! nat 7) \<noteq> 0" "fc_events (m_fdContexts demo_ep ! nat 8) = 0"
    by (simp_all add: demo_ep_def valid_fd_def arm_def set_fd_ctx_def setContext_def io_fresh_def contextResize_def new_FdContext_def Let_def)
  then show ?thesis using epoll_told [OF r] by (metis nat_numeral)
qed

end
