(* ===== verification/Lifecycle.thy ===== *)
theory Lifecycle
  imports Runtime_Inv Epoll
begin

section \<open>The I/O manager from its constructor to its destructor\<close>

text \<open>
  The constructor and the destructor of \<open>IOManager\<close> over the kernel's descriptors, \<open>stop\<close> with the I/O
  manager's own \<open>stopping\<close>, the wake-up for a new first timer, and which I/O manager a thread finds. What
  the system calls of the constructor return are the fields of a record. The constructor leaves
  the state in which the transition systems of \<open>Runtime\<close> and of \<open>Epoll\<close> begin.
\<close>

subsection \<open>Descriptors of the kernel\<close>

text \<open>The open descriptors, those that do not block, and for each epoll instance what is registered on it.\<close>

record io_kernel =
  k_open :: "int set"
  k_nonblock :: "int set"
  k_epoll :: "int \<rightharpoonup> (int \<rightharpoonup> u32)"

definition k_close :: "int \<Rightarrow> io_kernel \<Rightarrow> io_kernel" where
  "k_close fd k = \<lparr> k_open = k_open k - {fd}, k_nonblock = k_nonblock k - {fd},
     k_epoll = (\<lambda>e. if e = fd then None else map_option (\<lambda>reg. reg(fd := None)) (k_epoll k e)) \<rparr>"

text \<open>A closed descriptor has no flags, is no epoll instance and is registered nowhere.\<close>

definition kernel_ok :: "io_kernel \<Rightarrow> bool" where
  "kernel_ok k \<longleftrightarrow> k_nonblock k \<subseteq> k_open k \<and> dom (k_epoll k) \<subseteq> k_open k \<and>
     (\<forall>e reg. k_epoll k e = Some reg \<longrightarrow> dom reg \<subseteq> k_open k)"

text \<open>What \<open>epoll_create\<close>, \<open>pipe\<close> (with the two descriptors), \<open>fcntl\<close> and \<open>epoll_ctl\<close> return.\<close>

record io_answers =
  a_epfd :: int
  a_pipe :: int
  a_fds :: "int \<times> int"
  a_fcntl :: int
  a_ctl :: int

record io_handles =
  m_epfd :: int
  m_tickleFds :: "int \<times> int"

subsection \<open>The constructor\<close>

definition IOManager_body ::
  "io_answers \<Rightarrow> int list \<Rightarrow> ptr \<Rightarrow> 'cb schedular \<Rightarrow> io_kernel \<Rightarrow> (io_handles \<times> 'cb iomanager \<times> io_kernel) res" where
  "IOManager_body a ids this s k =
     (let epfd = a_epfd a;
          k = (if epfd = - 1 then k else k\<lparr>k_open := insert epfd (k_open k), k_epoll := (k_epoll k)(epfd \<mapsto> Map.empty)\<rparr>)
      in qlc_assert (epfd > 0) ''m_epfd>0''
        (let rt = a_pipe a;
             (rfd, wfd) = a_fds a;
             k = (if rt = 0 then k\<lparr>k_open := {rfd, wfd} \<union> k_open k\<rparr> else k)
         in qlc_assert (rt = 0) ''!rt''
           (let k = (if a_fcntl a = - 1 then k else k\<lparr>k_nonblock := insert rfd (k_nonblock k)\<rparr>);
                rt = a_ctl a;
                k = (if rt = 0 then k\<lparr>k_epoll := (k_epoll k)(epfd \<mapsto> (the (k_epoll k epfd))(rfd \<mapsto> EPOLLIN OR EPOLLOUT))\<rparr> else k)
            in qlc_assert (rt = 0) ''!rt''
              (let m = contextResize 32 \<lparr> io_this = this, io_scheds = [this \<mapsto> s], m_fdContexts = [], m_pendingEventCount = 0 \<rparr>
               in rbind (Schedular_start ids s) (\<lambda>s.
                    Inr (\<lparr> m_epfd = epfd, m_tickleFds = (rfd, wfd) \<rparr>, m\<lparr>io_scheds := [this \<mapsto> s]\<rparr>, k))))))"

definition IOManager_ctor ::
  "io_answers \<Rightarrow> int list \<Rightarrow> ptr \<Rightarrow> ptr \<Rightarrow> ptr \<Rightarrow> ptr \<Rightarrow> u32 \<Rightarrow> 'cb timer_cb \<Rightarrow> u64 \<Rightarrow> bool \<Rightarrow> u64 \<Rightarrow>
     sched_tls \<times> 'cb timer_cb fiber_heap \<times> 'cb timer_heap \<times> io_kernel \<Rightarrow>
     (sched_tls \<times> 'cb timer_cb fiber_heap \<times> 'cb timer_manager \<times> io_handles \<times> 'cb timer_cb iomanager \<times> io_kernel) res" where
  "IOManager_ctor a ids this mainf root stack cfg run threads use_caller now = (\<lambda>(t, h, th, k).
     rbind (Schedular_ctor this mainf root stack cfg run threads use_caller (t, h)) (\<lambda>(t, h, s).
       let tm = TimerManager_ctor now th
       in rbind (IOManager_body a ids this s k) (\<lambda>(hnd, m, k). Inr (t, h, tm, hnd, m, k))))"

subsection \<open>stop and the destructor\<close>

text \<open>\<open>stop\<close> asks the I/O manager's \<open>stopping\<close>, which looks at the timers and the pending events too.\<close>

definition set_this :: "'cb schedular \<Rightarrow> 'cb iomanager \<Rightarrow> 'cb iomanager" where
  "set_this s m = m\<lparr>io_scheds := (io_scheds m)(io_this m \<mapsto> s)\<rparr>"

definition IOManager_stop ::
  "fiber_state \<Rightarrow> 'cb timer_manager \<Rightarrow> u64 \<Rightarrow> sched_tls \<Rightarrow> 'cb timer_cb iomanager \<Rightarrow>
     ('cb timer_cb iomanager \<times> stop_result) res" where
  "IOManager_stop root_state tm now t m =
     (case io_scheds m (io_this m) of
        None \<Rightarrow> Inl (Undefined ''scheduler of the I/O manager'')
      | Some s \<Rightarrow>
          rbind (Schedular_stop (io_this m) (\<lambda>s. snd (snd (io_stopping tm now (set_this s m)))) root_state t s) (\<lambda>(s, r).
            Inr (set_this s m, r)))"

text \<open>The destructor after \<open>stop\<close> has returned, with the destructor of the base class.\<close>

definition IOManager_dtor ::
  "io_handles \<Rightarrow> 'cb iomanager \<Rightarrow> sched_tls \<Rightarrow> io_kernel \<Rightarrow> ('cb iomanager \<times> sched_tls \<times> io_kernel) res" where
  "IOManager_dtor hnd m t k =
     (let k = k_close (snd (m_tickleFds hnd)) (k_close (fst (m_tickleFds hnd)) (k_close (m_epfd hnd) k));
          m' = m\<lparr>m_fdContexts := []\<rparr>
      in case io_scheds m (io_this m) of
           None \<Rightarrow> Inl (Undefined ''scheduler of the I/O manager'')
         | Some s \<Rightarrow> rbind (Schedular_dtor (io_this m) s t) (\<lambda>t. Inr (m', t, k)))"

subsection \<open>A new first timer\<close>

definition onTimerInsertedAtFront :: "int \<Rightarrow> 'cb schedular \<Rightarrow> bool res" where
  "onTimerInsertedAtFront rt s = io_tickle rt s"

text \<open>\<open>addTimer\<close> on an I/O manager; the second component says whether a byte was written to the pipe.\<close>

definition io_addTimer ::
  "int \<Rightarrow> ptr \<Rightarrow> u64 \<Rightarrow> 'cb timer_cb option \<Rightarrow> bool \<Rightarrow> u64 \<Rightarrow> 'cb timer_manager \<Rightarrow> 'd iomanager \<Rightarrow> ('cb timer_manager \<times> bool) res" where
  "io_addTimer rt p ms cb recurring now tm m =
     (let (tm, at_front) = addTimer tm p ms cb recurring now
      in if at_front then
           (case io_scheds m (io_this m) of
              None \<Rightarrow> Inl (Undefined ''scheduler of the I/O manager'')
            | Some s \<Rightarrow> rbind (onTimerInsertedAtFront rt s) (\<lambda>w. Inr (tm, w)))
         else Inr (tm, False))"

subsection \<open>Which I/O manager a thread finds\<close>

definition Schedular_GetThis :: "sched_tls \<Rightarrow> ptr" where
  "Schedular_GetThis t = t_schedular t"

definition GetMainFiber :: "sched_tls \<Rightarrow> ptr" where
  "GetMainFiber t = t_schedular_fiber (st_fiber t)"

definition setThis :: "ptr \<Rightarrow> sched_tls \<Rightarrow> sched_tls" where
  "setThis this t = t\<lparr>t_schedular := this\<rparr>"

text \<open>\<open>dynamic_cast\<close>: null for an object that is not an I/O manager; \<open>is_iom\<close> is the dynamic type.\<close>

definition IOManager_GetThis :: "(ptr \<Rightarrow> bool) \<Rightarrow> sched_tls \<Rightarrow> ptr" where
  "IOManager_GetThis is_iom t =
     (let p = Schedular_GetThis t in if p \<noteq> nullptr \<and> is_iom p then p else nullptr)"

text \<open>The hooked \<open>sleep\<close> on a thread up to the yield; \<open>None\<close>: the original function is called.\<close>

definition sleep_on_thread ::
  "(ptr \<Rightarrow> bool) \<Rightarrow> (ptr \<Rightarrow> 'cb timer_manager) \<Rightarrow> u32 \<Rightarrow> ptr \<Rightarrow> 'cb \<Rightarrow> u64 \<Rightarrow> sched_tls \<Rightarrow> (ptr \<Rightarrow> 'cb timer_manager) option res" where
  "sleep_on_thread is_iom tms seconds p cb now t =
     (if \<not> sched_tls.t_hook_enable t then Inr None
      else let iom = IOManager_GetThis is_iom t
           in if iom = nullptr then Inl (Undefined ''null I/O manager'')
              else Inr (Some (tms(iom := fst (addTimer (tms iom) p (sleep_ms seconds) (Some (Cb cb)) False now)))))"

section \<open>Properties\<close>

subsection \<open>What the constructor leaves\<close>

definition ready_kernel :: "io_answers \<Rightarrow> io_kernel \<Rightarrow> io_kernel" where
  "ready_kernel a k =
     (let (rfd, wfd) = a_fds a
      in \<lparr> k_open = {rfd, wfd, a_epfd a} \<union> k_open k,
           k_nonblock = (if a_fcntl a = - 1 then k_nonblock k else insert rfd (k_nonblock k)),
           k_epoll = (k_epoll k)(a_epfd a \<mapsto> [rfd \<mapsto> EPOLLIN OR EPOLLOUT]) \<rparr>)"

lemma IOManager_body_ok:
  assumes "0 < a_epfd a" "a_pipe a = 0" "a_ctl a = 0"
  shows "IOManager_body a ids this s k =
    rbind (Schedular_start ids s) (\<lambda>s. Inr (\<lparr> m_epfd = a_epfd a, m_tickleFds = a_fds a \<rparr>, io_fresh this s, ready_kernel a k))"
  using assms by (cases k; cases "a_fds a") (simp add: IOManager_body_def ready_kernel_def io_fresh_def contextResize_def Let_def insert_commute)

lemma IOManager_body_fails:
  "\<not> (0 < a_epfd a \<and> a_pipe a = 0 \<and> a_ctl a = 0) \<Longrightarrow> \<exists>msg. IOManager_body a ids this s k = Inl (Assertion msg)"
  by (auto simp: IOManager_body_def qlc_assert_def Let_def split: prod.splits)

lemma Schedular_ctor_fields:
  assumes "Schedular_ctor this mainf root stack cfg run threads use_caller (t, h) = Inr (t1, h1, s)"
  shows "m_fibers s = []" "m_stopping s" "m_threads s = []" "m_threadCount s = (if use_caller then threads - 1 else threads)"
  using assms by (auto simp: Schedular_ctor_def Let_def split: if_splits)

lemma start_started:
  assumes "m_stopping s" "m_threads s = []" "unat (m_threadCount s) \<le> length ids"
  shows "\<exists>s'. Schedular_start ids s = Inr s' \<and> \<not> m_stopping s' \<and> length (m_threads s') = unat (m_threadCount s) \<and> m_fibers s' = m_fibers s"
  using assms by (simp add: Schedular_start_def)

lemma fresh_runtime: "m_fibers s = [] \<Longrightarrow>
  rt_reach \<lparr> rt_io = io_fresh this s, rt_tm = TimerManager_ctor now th, rt_calls = Map.empty, rt_asleep = {}, rt_hand = [] \<rparr>"
  using reach_init [of this s now th] by (cases s) (simp add: rt_init_def io_fresh_def)

text \<open>
  C19. The constructor of the I/O manager. When epoll_create, pipe and epoll_ctl succeed it ends with the pipe
  registered for reading on its epoll instance, an empty table of 32 contexts, no timers, and as many
  threads started as the scheduler counts; this is the state in which the runtime and
  the dialogue with epoll begin. When one of the three fails it ends at an assertion.
\<close>

theorem IOManager_ctor_ready:
  assumes "Schedular_ctor this mainf root stack cfg run threads use_caller (t, h) = Inr (t1, h1, s)"
    and "unat (if use_caller then threads - 1 else threads) \<le> length ids"
  shows "let r = IOManager_ctor a ids this mainf root stack cfg run threads use_caller now (t, h, th, k) in
    if 0 < a_epfd a \<and> a_pipe a = 0 \<and> a_ctl a = 0 then
      (\<exists>s'. r = Inr (t1, h1, TimerManager_ctor now th, \<lparr> m_epfd = a_epfd a, m_tickleFds = a_fds a \<rparr>, io_fresh this s', ready_kernel a k) \<and>
         \<not> m_stopping s' \<and> length (m_threads s') = unat (if use_caller then threads - 1 else threads) \<and>
         ep_reach (io_fresh this s') [] \<and>
         rt_reach \<lparr> rt_io = io_fresh this s', rt_tm = TimerManager_ctor now th, rt_calls = Map.empty, rt_asleep = {}, rt_hand = [] \<rparr>)
    else (\<exists>msg. r = Inl (Assertion msg))"
proof (cases "0 < a_epfd a \<and> a_pipe a = 0 \<and> a_ctl a = 0")
  case True
  note s = Schedular_ctor_fields [OF assms(1)]
  obtain s' where s': "Schedular_start ids s = Inr s'" "\<not> m_stopping s'" "length (m_threads s') = unat (m_threadCount s)" "m_fibers s' = []"
    using start_started [OF s(2,3)] assms(2) s(1,4) by auto
  have "IOManager_ctor a ids this mainf root stack cfg run threads use_caller now (t, h, th, k) =
      Inr (t1, h1, TimerManager_ctor now th, \<lparr> m_epfd = a_epfd a, m_tickleFds = a_fds a \<rparr>, io_fresh this s', ready_kernel a k)"
    using True by (simp add: IOManager_ctor_def assms(1) IOManager_body_ok s'(1))
  then show ?thesis
    unfolding Let_def if_P [OF True] using s'(2,3) s(4) ep_init [of this s'] fresh_runtime [OF s'(4), of this now th]
    by (intro exI [of _ s']) simp
next
  case False
  then obtain msg where "IOManager_body a ids this s k = Inl (Assertion msg)" using IOManager_body_fails by blast
  then have "IOManager_ctor a ids this mainf root stack cfg run threads use_caller now (t, h, th, k) = Inl (Assertion msg)"
    by (simp add: IOManager_ctor_def assms(1))
  then show ?thesis using False by (simp add: Let_def)
qed

definition ctor_answers :: io_answers where
  "ctor_answers = \<lparr> a_epfd = 3, a_pipe = 0, a_fds = (4, 5), a_fcntl = 0, a_ctl = 0 \<rparr>"

definition ctor_kernel :: io_kernel where
  "ctor_kernel = \<lparr> k_open = {0, 1, 2}, k_nonblock = {}, k_epoll = Map.empty \<rparr>"

definition ctor_thread :: sched_tls where
  "ctor_thread = \<lparr> st_fiber = tls0 100, t_schedular = nullptr, t_hook_enable = False, st_thread = 7 \<rparr>"

definition demo_plain :: "rt_cb timer_cb schedular" where
  "demo_plain = \<lparr> m_fibers = [], m_rootFiber = nullptr, m_threads = [], m_threadIds = [], m_threadCount = 2,
     m_activeThreadCount = 0, m_idleThreadCount = 0, m_stopping = True, m_autoStop = False, m_rootThread = - 1 \<rparr>"

definition ctor_heap :: "rt_cb timer_cb fiber_heap" where
  "ctor_heap = \<lparr> fibers = Map.empty, s_fiber_id = 0, s_fiber_count = 0 \<rparr>"

definition ctor_timers :: "rt_cb timer_heap" where
  "ctor_timers = (\<lambda>_. Timer_ctor_next 0)"

lemma demo_ctor: "Schedular_ctor 40 50 51 52 0 cb 2 False (ctor_thread, h) = Inr (ctor_thread, h, demo_plain)"
  by (simp add: Schedular_ctor_def demo_plain_def Let_def)

theorem IOManager_ctor_ready_witness:
  "\<exists>s. IOManager_ctor ctor_answers [8, 9] 40 50 51 52 0 (Cb (User 0)) 2 False 10 (ctor_thread, ctor_heap, ctor_timers, ctor_kernel) =
       Inr (ctor_thread, ctor_heap, TimerManager_ctor 10 ctor_timers, \<lparr> m_epfd = 3, m_tickleFds = (4, 5) \<rparr>, io_fresh 40 s, ready_kernel ctor_answers ctor_kernel) \<and>
     length (m_threads s) = 2 \<and> k_open (ready_kernel ctor_answers ctor_kernel) = {0, 1, 2, 3, 4, 5}"
proof -
  have "k_open (ready_kernel ctor_answers ctor_kernel) = {0, 1, 2, 3, 4, 5}"
    by (auto simp: ready_kernel_def ctor_answers_def ctor_kernel_def)
  then show ?thesis
    using IOManager_ctor_ready [OF demo_ctor [of "Cb (User 0)" ctor_heap], of "[8, 9]" ctor_answers 10 ctor_timers ctor_kernel]
    by (auto simp: Let_def ctor_answers_def)
qed

subsection \<open>Descriptors are given back\<close>

definition handle_fds :: "io_handles \<Rightarrow> int set" where
  "handle_fds hnd = {m_epfd hnd, fst (m_tickleFds hnd), snd (m_tickleFds hnd)}"

lemma close_ready:
  assumes "kernel_ok k" "{a_epfd a, fst (a_fds a), snd (a_fds a)} \<inter> k_open k = {}"
  shows "k_close (snd (a_fds a)) (k_close (fst (a_fds a)) (k_close (a_epfd a) (ready_kernel a k))) = k"
proof -
  obtain rfd wfd where fds: "a_fds a = (rfd, wfd)" by force
  have reg: "reg rfd = None \<and> reg wfd = None \<and> reg (a_epfd a) = None \<and> e \<notin> {rfd, wfd, a_epfd a}" if "k_epoll k e = Some reg" for e reg
  proof -
    have "dom reg \<subseteq> k_open k" "e \<in> k_open k" using that assms(1) by (auto simp: kernel_ok_def)
    then have "rfd \<notin> dom reg" "wfd \<notin> dom reg" "a_epfd a \<notin> dom reg" "e \<notin> {rfd, wfd, a_epfd a}" using assms(2) fds by auto
    then show ?thesis by (auto simp: domIff)
  qed
  let ?k = "k_close wfd (k_close rfd (k_close (a_epfd a) (ready_kernel a k)))"
  have "k_epoll ?k e = k_epoll k e" for e
  proof (cases "k_epoll k e")
    case None
    then show ?thesis by (simp add: k_close_def ready_kernel_def fds)
  next
    case (Some reg)
    then have "reg(a_epfd a := None, rfd := None, wfd := None) = reg" using reg [OF Some] by (simp add: fun_upd_idem)
    then show ?thesis using Some reg [OF Some] by (simp add: k_close_def ready_kernel_def fds)
  qed
  then have "k_epoll ?k = k_epoll k" by (rule ext)
  moreover have "k_open ?k = k_open k" "k_nonblock ?k = k_nonblock k"
    using assms by (auto simp: kernel_ok_def k_close_def ready_kernel_def fds)
  ultimately show ?thesis by (simp add: fds)
qed

text \<open>
  C21. The descriptors of an I/O manager are given back. Its constructor opens three descriptors; its
  destructor closes these, whatever was opened and closed meanwhile, and no other: run right
  after the constructor it leaves the kernel as it was. It leaves no context and the thread
  without this scheduler, and it ends at an assertion when the scheduler was not stopped.
\<close>

theorem IOManager_descriptors_returned:
  assumes "kernel_ok k" "{a_epfd a, fst (a_fds a), snd (a_fds a)} \<inter> k_open k = {}"
    and "IOManager_ctor a ids this mainf root stack cfg run threads use_caller now (t, h, th, k) = Inr (t1, h1, tm, hnd, m, k1)"
    and "io_scheds m' (io_this m') = Some s" "io_this m' \<noteq> nullptr"
  shows "if m_stopping s then
      (\<exists>m2 t2 k2. IOManager_dtor hnd m' t' k' = Inr (m2, t2, k2) \<and> k_open k2 = k_open k' - handle_fds hnd \<and>
         (k' = k1 \<longrightarrow> k2 = k) \<and> m_fdContexts m2 = [] \<and> Schedular_GetThis t2 \<noteq> io_this m')
    else IOManager_dtor hnd m' t' k' = Inl (Assertion ''m_stopping'')"
proof -
  have ok: "0 < a_epfd a \<and> a_pipe a = 0 \<and> a_ctl a = 0"
  proof (rule ccontr)
    assume "\<not> ?thesis"
    then have "IOManager_body a ids this s k \<noteq> Inr y" for s :: "'a timer_cb schedular" and y
      using IOManager_body_fails [of a ids this s k] by auto
    then show False using assms(3) by (auto simp: IOManager_ctor_def Let_def split: prod.splits)
  qed
  then have h: "hnd = \<lparr> m_epfd = a_epfd a, m_tickleFds = a_fds a \<rparr>" "k1 = ready_kernel a k"
    using assms(3) by (auto simp: IOManager_ctor_def IOManager_body_ok Let_def)
  have "k_close (snd (m_tickleFds hnd)) (k_close (fst (m_tickleFds hnd)) (k_close (m_epfd hnd) k1)) = k"
    using close_ready [OF assms(1,2)] h by simp
  moreover have "k_open (k_close (snd (m_tickleFds hnd)) (k_close (fst (m_tickleFds hnd)) (k_close (m_epfd hnd) k'))) = k_open k' - handle_fds hnd"
    by (auto simp: k_close_def handle_fds_def)
  ultimately show ?thesis
    using assms(4,5) by (auto simp: IOManager_dtor_def Schedular_dtor_def Schedular_GetThis_def Let_def)
qed

theorem IOManager_descriptors_returned_witness:
  "\<exists>s hnd m2 t2. IOManager_ctor ctor_answers [8, 9] 40 50 51 52 0 (Cb (User 0)) 2 False 10 (ctor_thread, ctor_heap, ctor_timers, ctor_kernel) =
       Inr (ctor_thread, ctor_heap, TimerManager_ctor 10 ctor_timers, hnd, io_fresh 40 s, ready_kernel ctor_answers ctor_kernel) \<and>
     IOManager_dtor hnd (io_fresh 40 (s\<lparr>m_stopping := True\<rparr>)) ctor_thread (ready_kernel ctor_answers ctor_kernel) = Inr (m2, t2, ctor_kernel)"
proof -
  let ?s = "demo_plain\<lparr>m_stopping := False, m_threads := [8, 9], m_threadIds := [8, 9]\<rparr>"
  have c: "IOManager_ctor ctor_answers [8, 9] 40 50 51 52 0 (Cb (User 0)) 2 False 10 (ctor_thread, ctor_heap, ctor_timers, ctor_kernel) =
      Inr (ctor_thread, ctor_heap, TimerManager_ctor 10 ctor_timers, \<lparr> m_epfd = 3, m_tickleFds = (4, 5) \<rparr>, io_fresh 40 ?s, ready_kernel ctor_answers ctor_kernel)"
    by (simp add: IOManager_ctor_def demo_ctor IOManager_body_ok Schedular_start_def ctor_answers_def demo_plain_def Let_def)
  have k: "kernel_ok ctor_kernel" "{a_epfd ctor_answers, fst (a_fds ctor_answers), snd (a_fds ctor_answers)} \<inter> k_open ctor_kernel = {}"
    by (simp_all add: kernel_ok_def ctor_kernel_def ctor_answers_def)
  have m: "io_scheds (io_fresh 40 (?s\<lparr>m_stopping := True\<rparr>)) (io_this (io_fresh 40 (?s\<lparr>m_stopping := True\<rparr>))) = Some (?s\<lparr>m_stopping := True\<rparr>)"
    "io_this (io_fresh 40 (?s\<lparr>m_stopping := True\<rparr>)) \<noteq> nullptr"
    by (simp_all add: io_fresh_def contextResize_def)
  from IOManager_descriptors_returned [OF k c m, of ctor_thread "ready_kernel ctor_answers ctor_kernel"] obtain m2 t2 where
    "IOManager_dtor \<lparr> m_epfd = 3, m_tickleFds = (4, 5) \<rparr> (io_fresh 40 (?s\<lparr>m_stopping := True\<rparr>)) ctor_thread
       (ready_kernel ctor_answers ctor_kernel) = Inr (m2, t2, ctor_kernel)" by auto
  with c show ?thesis by blast
qed

subsection \<open>stop\<close>

text \<open>Nothing is left to do: no timer, no event, no task, no active thread.\<close>

definition work_left :: "'cb timer_manager \<Rightarrow> 'd iomanager \<Rightarrow> 'd schedular \<Rightarrow> bool" where
  "work_left tm m s \<longleftrightarrow> m_timers tm \<noteq> [] \<or> (\<exists>c \<in> set (m_fdContexts m). fc_events c \<noteq> 0) \<or> m_fibers s \<noteq> [] \<or> m_activeThreadCount s \<noteq> 0"

lemma set_this_inv: "iom_inv m \<Longrightarrow> io_scheds m (io_this m) = Some s \<Longrightarrow> iom_inv (set_this s' m)"
proof -
  assume i: "iom_inv m" and s: "io_scheds m (io_this m) = Some s"
  have "slot_ok ((io_scheds m)(io_this m \<mapsto> s')) b e = slot_ok (io_scheds m) b e" for b e
    using s by (auto simp: slot_ok_def)
  then show ?thesis using i by (simp add: iom_inv_def set_this_def ctx_ok_def)
qed

lemma set_this_simps [simp]: "m_fdContexts (set_this s m) = m_fdContexts m" "io_scheds (set_this s m) (io_this m) = Some s"
  "io_this (set_this s m) = io_this m" "m_pendingEventCount (set_this s m) = m_pendingEventCount m"
  by (simp_all add: set_this_def)

lemma io_stopping_iff:
  assumes "iom_inv m" "2 * length (m_fdContexts m) < 2 ^ 64" "0 < now" "io_scheds m (io_this m) = Some s"
  shows "snd (snd (io_stopping tm now m)) \<longleftrightarrow> \<not> work_left tm m s \<and> m_autoStop s \<and> m_stopping s"
proof
  assume st: "snd (snd (io_stopping tm now m))"
  obtain tm' timeout b where r: "io_stopping tm now m = (tm', timeout, b)" using prod_cases3 by blast
  from io_stopping_empty [OF assms(1-3)] st r assms(4) show "\<not> work_left tm m s \<and> m_autoStop s \<and> m_stopping s"
    by (auto simp: work_left_def stopping_def)
next
  assume free: "\<not> work_left tm m s \<and> m_autoStop s \<and> m_stopping s"
  then have z: "\<forall>c \<in> set (m_fdContexts m). armed_count c = 0"
    by (auto simp: work_left_def armed_count_def armed_def)
  then have "map armed_count (m_fdContexts m) = map (\<lambda>_. 0) (m_fdContexts m)" by (auto intro: map_cong)
  then have "sum_list (map armed_count (m_fdContexts m)) = 0" by (simp only: sum_list_0)
  moreover have "m_pendingEventCount m = of_nat (sum_list (map armed_count (m_fdContexts m)))" using assms(1) by (simp add: iom_inv_def)
  ultimately have "m_pendingEventCount m = 0" by (simp del: sum_list_eq_0_iff)
  moreover have "m_timers tm = []" "stopping s" using free by (auto simp: work_left_def stopping_def)
  ultimately show "snd (snd (io_stopping tm now m))"
    using assms(4) by (simp add: io_stopping_def getNextTimer_def)
qed

text \<open>
  C20. Stopping an I/O manager. While a timer, a registered event, a queued task or an active thread is
  left, stop does not return early: it wakes every thread, runs the root fiber when there is one,
  and joins all threads. With nothing left and only the calling thread, it returns at once. Called on
  the wrong thread it ends at an assertion.
\<close>

theorem IOManager_stop_waits:
  assumes "iom_inv m" "2 * length (m_fdContexts m) < 2 ^ 64" "0 < now" "io_scheds m (io_this m) = Some s"
  shows "let only_caller = (m_rootFiber s \<noteq> nullptr \<and> m_threadCount s = 0 \<and> root_state \<in> {FTERM, INIT});
           s' = s\<lparr>m_autoStop := True, m_stopping := True\<rparr>;
           right_thread = (m_rootThread s \<noteq> - 1 \<longleftrightarrow> Schedular_GetThis t = io_this m)
         in IOManager_stop root_state tm now t m =
           (if only_caller \<and> \<not> work_left tm m s then Inr (set_this s' m, Stopped)
            else if \<not> right_thread then Inl (Assertion ''stop called from the wrong thread'')
            else Inr (set_this (s'\<lparr>m_threads := []\<rparr>) m,
                   Stop_wait (unat (m_threadCount s) + (if m_rootFiber s \<noteq> nullptr then 1 else 0))
                     (m_rootFiber s \<noteq> nullptr \<and> work_left tm m s) (m_threads s)))"
proof -
  let ?s = "s\<lparr>m_autoStop := True, m_stopping := True\<rparr>"
  have st: "snd (snd (io_stopping tm now (set_this s' m))) \<longleftrightarrow> \<not> work_left tm m s' \<and> m_autoStop s' \<and> m_stopping s'" for s'
    using io_stopping_iff [OF set_this_inv [OF assms(1,4), of s'], of now s' tm] assms(2,3)
    by (simp add: work_left_def)
  have w: "work_left tm m ?s = work_left tm m s" by (simp add: work_left_def)
  show ?thesis
    by (auto simp: IOManager_stop_def Schedular_stop_def assms(4) st w Let_def qlc_assert_def Schedular_GetThis_def)
qed

theorem IOManager_stop_waits_witness:
  "\<exists>m'. IOManager_stop INIT (TimerManager_ctor 10 ctor_timers) 20 ctor_thread (io_fresh 40 (demo_plain\<lparr>m_stopping := False, m_threads := [8, 9]\<rparr>)) =
     Inr (m', Stop_wait 2 False [8, 9])"
proof -
  let ?s = "demo_plain\<lparr>m_stopping := False, m_threads := [8, 9]\<rparr>"
  have i: "iom_inv (io_fresh 40 ?s)" "2 * length (m_fdContexts (io_fresh 40 ?s)) < 2 ^ 64"
    "io_scheds (io_fresh 40 ?s) (io_this (io_fresh 40 ?s)) = Some ?s" "io_this (io_fresh 40 ?s) = 40"
    by (simp_all add: io_fresh_def contextResize_def iom_inv_def new_FdContext_ok comp_def)
  have d: "m_rootFiber demo_plain = nullptr" "m_threadCount demo_plain = 2" "m_rootThread demo_plain = - 1" "Schedular_GetThis ctor_thread = nullptr"
    by (simp_all add: demo_plain_def Schedular_GetThis_def ctor_thread_def)
  show ?thesis
    using IOManager_stop_waits [OF i(1,2) _ i(3), of 20 INIT ctor_thread "TimerManager_ctor 10 ctor_timers"]
    by (simp add: Let_def i(4) d)
qed

subsection \<open>A timer that becomes the first\<close>

lemma insert_front: "\<forall>y \<in> set ys. lt x y \<Longrightarrow> oset_insert lt x ys = x # ys"
  by (cases ys) auto

text \<open>
  A timer that is due before every other is reported once: the idle threads are woken with a byte in
  the pipe, and until the next look at the timers no second byte is written. The time until
  its deadline is what the woken thread then waits for.
\<close>

theorem first_timer_wakes:
  assumes "timers_ok tm" "p \<notin> set (m_timers tm)" "p \<noteq> nullptr" "io_scheds m (io_this m) = Some s"
  shows "let first = (\<forall>q \<in> set (m_timers tm). ms + now < m_next (tm_heap tm q) \<or> (ms + now = m_next (tm_heap tm q) \<and> p < q));
           wake = (first \<and> \<not> m_tickled tm)
         in (if wake \<and> hasIdleThreads s \<and> rt \<noteq> 1 then io_addTimer rt p ms (Some cb) recurring now tm m = Inl (Assertion ''rt==1'')
             else \<exists>tm'. io_addTimer rt p ms (Some cb) recurring now tm m = Inr (tm', wake \<and> hasIdleThreads s) \<and>
               m_tickled tm' = (wake \<or> m_tickled tm) \<and>
               (first \<longrightarrow> m_timers tm' = p # m_timers tm \<and>
                 snd (getNextTimer tm' now') = (if ms + now \<le> now' then 0 else ms + now - now')))"
proof -
  let ?M = "upd_timer p (\<lambda>_. Timer_ctor ms (Some cb) recurring now) tm"
  let ?first = "\<forall>q \<in> set (m_timers tm). ms + now < m_next (tm_heap tm q) \<or> (ms + now = m_next (tm_heap tm q) \<and> p < q)"
  have ok: "timers_ok ?M" "p \<notin> set (m_timers ?M)" using assms(2) timers_ok_upd [OF assms(1,2)] by simp_all
  have "Comparator (tm_heap ?M) p q \<longleftrightarrow> ms + now < m_next (tm_heap tm q) \<or> (ms + now = m_next (tm_heap tm q) \<and> p < q)"
    if "q \<in> set (m_timers tm)" for q
    using that assms(2,3) timers_okD(3) [OF assms(1) that] by (auto simp: Comparator_def Timer_ctor_def)
  then have first: "(\<forall>q \<in> set (m_timers ?M). Comparator (tm_heap ?M) p q) \<longleftrightarrow> ?first" by simp
  have add: "addTimer tm p ms (Some cb) recurring now =
      (if ?first \<and> \<not> m_tickled tm then (tm_insert p ?M)\<lparr>m_tickled := True\<rparr> else tm_insert p ?M, ?first \<and> \<not> m_tickled tm)"
    unfolding addTimer_def addTimer_locked_eq [OF ok assms(3)] first by simp
  have front: "oset_insert (Comparator (tm_heap ?M)) p (m_timers tm) = p # m_timers tm" if ?first
    using insert_front [of "m_timers ?M"] first that by simp
  show ?thesis
  proof (cases ?first)
    case True
    then show ?thesis
      unfolding io_addTimer_def add using front
      by (cases "m_tickled tm") (auto simp: Let_def assms(4) onTimerInsertedAtFront_def io_tickle_def qlc_assert_def getNextTimer_def Timer_ctor_def)
  next
    case False
    with add have "addTimer tm p ms (Some cb) recurring now = (tm_insert p ?M, False)" by simp
    with False show ?thesis by (auto simp: io_addTimer_def Let_def)
  qed
qed

subsection \<open>Hooked calls on a thread without I/O manager\<close>

text \<open>
  run turns the hooks on in every thread of every scheduler. On an I/O manager the sleep adds a timer to
  it; in a plain scheduler there is no I/O manager, and the null pointer is dereferenced.
\<close>

theorem hooked_sleep_needs_iomanager:
  assumes "run_enter this mainf idle_fiber stack cfg idle s (t, h) = Inr (t1, h1)" "this \<noteq> nullptr"
  shows "sleep_on_thread is_iom tms seconds p cb now t1 =
    (if is_iom this then Inr (Some (tms(this := fst (addTimer (tms this) p (sleep_ms seconds) (Some (Cb cb)) False now))))
     else Inl (Undefined ''null I/O manager'')) \<and>
    IOManager_GetThis is_iom (setThis this t) = IOManager_GetThis is_iom t1"
proof -
  have "t_schedular t1 = this" "sched_tls.t_hook_enable t1"
    using assms(1) by (auto simp: run_enter_def Let_def split: if_splits)
  then show ?thesis
    using assms(2) by (simp add: sleep_on_thread_def IOManager_GetThis_def Schedular_GetThis_def setThis_def Let_def)
qed

end
