(* ===== verification/Config_Conc.thy ===== *)
theory Config_Conc
  imports Config Hook Mutex
begin

section \<open>Configuration variables shared by threads\<close>

text \<open>
  \<open>ConfigVar::setValue\<close> and \<open>Config::Lookup\<close> cut where they take their locks, so that what other threads do
  in between can be stated. \<open>setValue\<close> compares and tells the listeners under the read lock and
  stores under the write lock; \<open>Lookup\<close> searches before it takes the lock. Run alone, the sections are the
  functions of \<open>Config\<close>. For interleaved calls the theorems say what holds in every order and what
  only holds when calls do not overlap; the timeout that \<open>hook.cpp\<close> keeps from its variable is
  the example.
\<close>

subsection \<open>setValue in two sections\<close>

text \<open>The first section: \<open>None\<close> when the value is the same, otherwise whether a listener threw.\<close>

definition setValue_tell ::
  "'v \<Rightarrow> ('v, 'w) config_var \<times> 'w \<Rightarrow> ('w \<times> error option option) res" where
  "setValue_tell v = (\<lambda>(cv, w).
     if cv_eq cv (cv_val cv) v then Inr (w, None)
     else rbind (run_listeners (cv_cbs cv) (cv_val cv) v w) (\<lambda>(w, exn). Inr (w, Some exn)))"

definition setValue_store :: "'v \<Rightarrow> ('v, 'w) config_var \<Rightarrow> ('v, 'w) config_var" where
  "setValue_store v cv = cv\<lparr>cv_val := v\<rparr>"

lemma setValue_sections:
  "ConfigVar_setValue v (cv, w) =
     rbind (setValue_tell v (cv, w)) (\<lambda>(w, r).
       case r of None \<Rightarrow> Inr (cv, w, None) | Some (Some e) \<Rightarrow> Inr (cv, w, Some e) | Some None \<Rightarrow> Inr (setValue_store v cv, w, None))"
  by (cases "run_listeners (cv_cbs cv) (cv_val cv) v w")
     (auto simp: ConfigVar_setValue_def setValue_tell_def setValue_store_def split: option.splits)

text \<open>
  Threads that set one variable. \<open>ss_pending\<close>: the values told and not yet stored, by thread. \<open>ss_told\<close> and
  \<open>ss_held\<close>: what the listeners were told and the values the variable has had, the latest first. The
  flag says whether calls are kept from overlapping.
\<close>

record ('v, 'w) set_sys =
  ss_var :: "('v, 'w) config_var"
  ss_world :: 'w
  ss_pending :: "nat \<rightharpoonup> 'v"
  ss_told :: "('v \<times> 'v) list"
  ss_held :: "'v list"

definition set_init :: "('v, 'w) config_var \<Rightarrow> 'w \<Rightarrow> ('v, 'w) set_sys" where
  "set_init cv w = \<lparr> ss_var = cv, ss_world = w, ss_pending = Map.empty, ss_told = [], ss_held = [cv_val cv] \<rparr>"

definition tell_step :: "nat \<Rightarrow> 'v \<Rightarrow> ('v, 'w) set_sys \<Rightarrow> ('v, 'w) set_sys res" where
  "tell_step t v S =
     rbind (setValue_tell v (ss_var S, ss_world S)) (\<lambda>(w, r).
       Inr (if r = Some None
            then S\<lparr>ss_world := w, ss_pending := (ss_pending S)(t \<mapsto> v), ss_told := (cv_val (ss_var S), v) # ss_told S\<rparr>
            else S\<lparr>ss_world := w\<rparr>))"

definition store_step :: "nat \<Rightarrow> 'v \<Rightarrow> ('v, 'w) set_sys \<Rightarrow> ('v, 'w) set_sys" where
  "store_step t v S =
     S\<lparr>ss_var := setValue_store v (ss_var S), ss_pending := (ss_pending S)(t := None), ss_held := v # ss_held S\<rparr>"

inductive set_reach :: "bool \<Rightarrow> ('v, 'w) config_var \<Rightarrow> 'w \<Rightarrow> ('v, 'w) set_sys \<Rightarrow> bool" for serial cv w where
  set_start: "set_reach serial cv w (set_init cv w)"
| set_tell: "set_reach serial cv w S \<Longrightarrow> ss_pending S t = None \<Longrightarrow> (serial \<longrightarrow> ss_pending S = Map.empty) \<Longrightarrow>
    tell_step t v S = Inr S' \<Longrightarrow> set_reach serial cv w S'"
| set_store: "set_reach serial cv w S \<Longrightarrow> ss_pending S t = Some v \<Longrightarrow> set_reach serial cv w (store_step t v S)"

lemma tell_cases:
  assumes "tell_step t v S = Inr S'"
  obtains (same) w where "S' = S\<lparr>ss_world := w\<rparr>" "cv_eq (ss_var S) (cv_val (ss_var S)) v \<longrightarrow> w = ss_world S"
      "setValue_tell v (ss_var S, ss_world S) = Inr (w, None) \<or> (\<exists>e. setValue_tell v (ss_var S, ss_world S) = Inr (w, Some (Some e)))"
  | (told) w where "S' = S\<lparr>ss_world := w, ss_pending := (ss_pending S)(t \<mapsto> v), ss_told := (cv_val (ss_var S), v) # ss_told S\<rparr>"
      "\<not> cv_eq (ss_var S) (cv_val (ss_var S)) v" "setValue_tell v (ss_var S, ss_world S) = Inr (w, Some None)"
proof -
  obtain w r where wr: "setValue_tell v (ss_var S, ss_world S) = Inr (w, r)" using assms by (auto simp: tell_step_def)
  show thesis
  proof (cases "r = Some None")
    case True
    then show ?thesis using assms wr told by (auto simp: tell_step_def setValue_tell_def split: if_splits)
  next
    case False
    then have "S' = S\<lparr>ss_world := w\<rparr>" using assms wr by (simp add: tell_step_def)
    moreover have "cv_eq (ss_var S) (cv_val (ss_var S)) v \<longrightarrow> w = ss_world S" using wr by (auto simp: setValue_tell_def)
    ultimately show ?thesis using same wr False by (cases r) auto
  qed
qed

definition set_inv :: "bool \<Rightarrow> ('v, 'w) config_var \<Rightarrow> ('v, 'w) set_sys \<Rightarrow> bool" where
  "set_inv serial cv S \<longleftrightarrow>
     (\<exists>v. ss_var S = cv\<lparr>cv_val := v\<rparr> \<and> ss_held S \<noteq> [] \<and> v = hd (ss_held S)) \<and>
     (\<forall>x \<in> set (butlast (ss_held S)) \<union> ran (ss_pending S). \<exists>old. (old, x) \<in> set (ss_told S)) \<and>
     (\<forall>(old, new) \<in> set (ss_told S). old \<in> set (ss_held S) \<and> \<not> cv_eq cv old new) \<and>
     (serial \<longrightarrow> (ss_pending S = Map.empty \<and> ss_told S = zip (tl (ss_held S)) (ss_held S)) \<or>
        (\<exists>t v. ss_pending S = [t \<mapsto> v] \<and> ss_told S = (hd (ss_held S), v) # zip (tl (ss_held S)) (ss_held S)))"

lemma set_reach_inv: "set_reach serial cv w S \<Longrightarrow> set_inv serial cv S"
proof (induction rule: set_reach.induct)
  case set_start
  then show ?case by (simp add: set_inv_def set_init_def)
next
  case (set_tell S t v S')
  from set_tell(4) show ?case
  proof (cases rule: tell_cases)
    case same
    then show ?thesis using set_tell(5) by (simp add: set_inv_def)
  next
    case (told w)
    obtain x where x: "ss_var S = cv\<lparr>cv_val := x\<rparr>" "ss_held S \<noteq> []" "x = hd (ss_held S)" using set_tell(5) by (auto simp: set_inv_def)
    have "ran ((ss_pending S)(t \<mapsto> v)) = insert v (ran (ss_pending S))" using set_tell(2) by simp
    moreover have "x \<in> set (ss_held S)" "\<not> cv_eq cv x v" using x told(2) by auto
    moreover have "ss_told S = zip (tl (ss_held S)) (ss_held S)" "ss_pending S = Map.empty" if serial
      using that set_tell(3,5) by (auto simp: set_inv_def fun_eq_iff split: if_splits)
    ultimately show ?thesis using set_tell(5) x unfolding told(1) set_inv_def by (auto simp: fun_eq_iff)
  qed
next
  case (set_store S t v)
  have p: "ran ((ss_pending S)(t := None)) \<subseteq> ran (ss_pending S)" "v \<in> ran (ss_pending S)"
    using set_store(2) by (auto simp: ran_def)
  have "ss_pending S = [t \<mapsto> v] \<and> ss_told S = (hd (ss_held S), v) # zip (tl (ss_held S)) (ss_held S)" if serial
    using that set_store(2,3) by (auto simp: set_inv_def split: if_splits)
  moreover have "ss_held S \<noteq> []" using set_store(3) by (auto simp: set_inv_def)
  moreover have "zip (ss_held S) (v # ss_held S) = (hd (ss_held S), v) # zip (tl (ss_held S)) (ss_held S)" if "ss_held S \<noteq> []"
    using that by (cases "ss_held S") auto
  ultimately show ?case
    using set_store(3) p unfolding set_inv_def by (auto simp: store_step_def setValue_store_def)
qed

lemma set_reach_last: "set_reach serial cv w S \<Longrightarrow> ss_held S \<noteq> [] \<and> last (ss_held S) = cv_val cv"
proof (induction rule: set_reach.induct)
  case (set_tell S t v S')
  from set_tell(4) show ?case by (cases rule: tell_cases) (use set_tell(5) in auto)
qed (auto simp: set_init_def store_step_def)


definition demo_type :: "int config_type" where
  "demo_type = \<lparr> ct_type = 0, ct_eq = (=), ct_from = (\<lambda>s. Inr (int (length s))), ct_to = (\<lambda>v. Inr []) \<rparr>"

lemma demo_eq: "ct_eq demo_type = (=)"
  by (simp add: demo_type_def)

text \<open>The listener that \<open>hook.cpp\<close> registers on \<open>tcp.connect.timeout\<close>, and the variable with it.\<close>

definition timeout_listener :: "(int, hook_state) listener" where
  "timeout_listener old_value new_value h = Inr (connect_timeout_changed old_value new_value h, None)"

definition g_tcp_connect_timeout :: "int config_type \<Rightarrow> (int, hook_state) config_var" where
  "g_tcp_connect_timeout ty = fst (snd (ConfigVar_addListener timeout_listener 0
     (ConfigVar_ctor ty ''tcp.connect.timeout'' 5000 ''tcp.connect.timeout'')))"

lemma timeout_tell:
  assumes "cv = (g_tcp_connect_timeout ty)\<lparr>cv_val := x\<rparr>"
  shows "setValue_tell v (cv, h) = (if ct_eq ty x v then Inr (h, None) else Inr (connect_timeout_changed x v h, Some None))"
  by (simp add: assms setValue_tell_def g_tcp_connect_timeout_def ConfigVar_ctor_def ConfigVar_addListener_def timeout_listener_def)

lemma timeout_fields [simp]:
  "cv_val (g_tcp_connect_timeout ty) = 5000" "cv_eq (g_tcp_connect_timeout ty) = ct_eq ty"
  by (simp_all add: g_tcp_connect_timeout_def ConfigVar_ctor_def ConfigVar_addListener_def)

lemma timeout_last_told:
  assumes "set_reach serial (g_tcp_connect_timeout ty) h S" "s_connect_timeout h = 5000"
  shows "s_connect_timeout (ss_world S) = of_int (case ss_told S of [] \<Rightarrow> 5000 | (old, new) # _ \<Rightarrow> new)"
  using assms(1)
proof (induction rule: set_reach.induct)
  case set_start
  then show ?case using assms(2) by (simp add: set_init_def)
next
  case (set_tell S t v S')
  obtain x where x: "ss_var S = (g_tcp_connect_timeout ty)\<lparr>cv_val := x\<rparr>"
    using set_reach_inv [OF set_tell(1)] by (auto simp: set_inv_def)
  from set_tell(4) show ?case
    by (cases rule: tell_cases)
       (use set_tell(5) timeout_tell [OF x, of v "ss_world S"] in \<open>auto simp: connect_timeout_changed_def split: if_splits\<close>)
qed (simp add: store_step_def)

text \<open>
  C31. The connect timeout follows its variable. When the calls of setValue on tcp.connect.timeout do not
  overlap, between calls the timeout that connect uses is the value of the variable. When two calls overlap, the
  value told last need not be the one stored last, and the two stay different.
\<close>

theorem connect_timeout_follows:
  assumes "s_connect_timeout h = 5000"
  shows "(\<forall>S. set_reach True (g_tcp_connect_timeout ty) h S \<and> ss_pending S = Map.empty \<longrightarrow>
      s_connect_timeout (ss_world S) = of_int (cv_val (ss_var S))) \<and>
    (\<not> ct_eq ty 5000 a \<and> \<not> ct_eq ty 5000 b \<longrightarrow>
      (\<exists>S. set_reach False (g_tcp_connect_timeout ty) h S \<and> ss_pending S = Map.empty \<and>
         s_connect_timeout (ss_world S) = of_int b \<and> cv_val (ss_var S) = a))"
proof (intro conjI allI impI)
  fix S assume S: "set_reach True (g_tcp_connect_timeout ty) h S \<and> ss_pending S = Map.empty"
  then have i: "set_inv True (g_tcp_connect_timeout ty) S" "last (ss_held S) = 5000"
    using set_reach_inv set_reach_last [of True "g_tcp_connect_timeout ty" h S] by auto
  then have "ss_told S = zip (tl (ss_held S)) (ss_held S)" "cv_val (ss_var S) = hd (ss_held S)" "ss_held S \<noteq> []"
    using S by (auto simp: set_inv_def fun_eq_iff split: if_splits)
  with i(2) have "cv_val (ss_var S) = (case ss_told S of [] \<Rightarrow> 5000 | (old, new) # _ \<Rightarrow> new)"
    by (cases "ss_held S"; cases "tl (ss_held S)") auto
  then show "s_connect_timeout (ss_world S) = of_int (cv_val (ss_var S))"
    using timeout_last_told [OF conjunct1 [OF S] assms] by simp
next
  let ?g = "g_tcp_connect_timeout ty"
  assume ne: "\<not> ct_eq ty 5000 a \<and> \<not> ct_eq ty 5000 b"
  have g: "?g = ?g\<lparr>cv_val := 5000\<rparr>" by (simp add: g_tcp_connect_timeout_def ConfigVar_ctor_def ConfigVar_addListener_def)
  define S1 where "S1 = (set_init ?g h)\<lparr>ss_world := connect_timeout_changed 5000 a h, ss_pending := [0 \<mapsto> a], ss_told := [(5000, a)]\<rparr>"
  define S2 where "S2 = S1\<lparr>ss_world := connect_timeout_changed 5000 b (ss_world S1), ss_pending := [0 \<mapsto> a, 1 \<mapsto> b], ss_told := [(5000, b), (5000, a)]\<rparr>"
  have "tell_step 0 a (set_init ?g h) = Inr S1" "tell_step 1 b S1 = Inr S2"
    using ne by (simp_all add: tell_step_def timeout_tell [OF g] S1_def S2_def set_init_def)
  then have "set_reach False ?g h S2"
    using set_tell [OF set_tell [OF set_start [of False ?g h], of 0 a S1], of 1 b S2] by (simp add: set_init_def S1_def)
  then have "set_reach False ?g h (store_step 0 a (store_step 1 b S2))"
    by (intro set_store) (auto simp: S2_def store_step_def)
  then show "\<exists>S. set_reach False ?g h S \<and> ss_pending S = Map.empty \<and> s_connect_timeout (ss_world S) = of_int b \<and> cv_val (ss_var S) = a"
    by (intro exI [of _ "store_step 0 a (store_step 1 b S2)"] conjI) (simp_all add: store_step_def S2_def setValue_store_def connect_timeout_changed_def fun_eq_iff)
qed

theorem connect_timeout_follows_witness:
  "\<exists>S. set_reach False (g_tcp_connect_timeout demo_type) (init_hook 5000 (FdManager_ctor demo_kernel)) S \<and>
     s_connect_timeout (ss_world S) = 200 \<and> cv_val (ss_var S) = 100"
  using connect_timeout_follows [of "init_hook 5000 (FdManager_ctor demo_kernel)" demo_type 100 200]
  by (auto simp: init_hook_def demo_eq)


text \<open>
  A listener runs under the read lock of its variable: as long as it runs no thread gets the write lock,
  itself included, so a listener that sets its own variable or adds a listener to it waits forever.
\<close>

lemma listener_blocks_writers:
  "RWMutex_rdlock t m = Some m' \<Longrightarrow> t \<in> set (rw_readers m') \<and> RWMutex_wrlock u m' = None"
  "t \<in> set (rw_readers m) \<Longrightarrow> RWMutex_unlock u m = Inr m' \<Longrightarrow> rw_writer m = None \<Longrightarrow> u \<noteq> t \<Longrightarrow>
     t \<in> set (rw_readers m') \<and> RWMutex_wrlock v m' = None"
  by (auto simp: RWMutex_rdlock_def RWMutex_wrlock_def RWMutex_unlock_def split: if_splits)
     (metis in_set_remove1 list.set(1) empty_iff)

subsection \<open>Lookup in two sections\<close>

text \<open>
  The registry with the variables as objects. \<open>Lookup\<close> finds the entry first and then, under the write lock,
  returns its variable or makes one at the address \<open>p\<close>.
\<close>

record ('v, 'w) config_store =
  s_datas :: "string \<rightharpoonup> ptr"
  cs_vars :: "ptr \<rightharpoonup> ('v, 'w) config_var"

definition Lookup_find :: "string \<Rightarrow> ('v, 'w) config_store \<Rightarrow> ptr option" where
  "Lookup_find name S = s_datas S name"

definition Lookup_locked ::
  "'v config_type \<Rightarrow> string \<Rightarrow> 'v \<Rightarrow> string \<Rightarrow> ptr \<Rightarrow> ptr option \<Rightarrow> ('v, 'w) config_store \<Rightarrow> (('v, 'w) config_store \<times> ptr) res" where
  "Lookup_locked ty name default_value description p it S =
     (case it of
        Some q \<Rightarrow>
          (case cs_vars S q of
             None \<Rightarrow> Inl (Undefined ''variable'')
           | Some v \<Rightarrow> Inr (S, if cv_type v = ct_type ty then q else nullptr))
      | None \<Rightarrow>
          if \<not> valid_name name then Inl (Invalid_argument name)
          else Inr (S\<lparr>s_datas := (s_datas S)(name \<mapsto> p),
                      cs_vars := (cs_vars S)(p \<mapsto> ConfigVar_ctor ty name default_value description)\<rparr>, p))"

text \<open>What the registry is to \<open>Config\<close>: the variable of each name.\<close>

definition registry_of :: "('v, 'w) config_store \<Rightarrow> ('v, 'w) config_map" where
  "registry_of S = cs_vars S \<circ>\<^sub>m s_datas S"

definition store_ok :: "('v, 'w) config_store \<Rightarrow> bool" where
  "store_ok S \<longleftrightarrow> ran (s_datas S) \<subseteq> dom (cs_vars S) \<and> nullptr \<notin> ran (s_datas S)"

definition Lookup_update :: "'v \<Rightarrow> string \<Rightarrow> ('v, 'w) config_store \<Rightarrow> ('v, 'w) config_store" where
  "Lookup_update v name S =
     (case s_datas S name of None \<Rightarrow> S
      | Some p \<Rightarrow> S\<lparr>cs_vars := (cs_vars S)(p := map_option (setValue_store v) (cs_vars S p))\<rparr>)"

lemma store_lookup: "store_ok S \<Longrightarrow> s_datas S name = Some q \<Longrightarrow> \<exists>v. cs_vars S q = Some v"
  by (force simp: store_ok_def ran_def)

lemma registry_new:
  assumes "store_ok S" "p \<notin> dom (cs_vars S)"
  shows "registry_of (S\<lparr>s_datas := (s_datas S)(name \<mapsto> p), cs_vars := (cs_vars S)(p \<mapsto> v)\<rparr>) = (registry_of S)(name \<mapsto> v)"
proof
  fix k
  have "s_datas S k \<noteq> Some p" using assms store_lookup by fastforce
  then show "registry_of (S\<lparr>s_datas := (s_datas S)(name \<mapsto> p), cs_vars := (cs_vars S)(p \<mapsto> v)\<rparr>) k = ((registry_of S)(name \<mapsto> v)) k"
    by (auto simp: registry_of_def map_comp_def split: option.splits)
qed

text \<open>
  Lookup over objects refines Lookup over the map of variables: when nothing happens between its two
  sections, it changes the registry and returns, for every name, type and outcome, as that function
  does, and keeps the registry well-formed.
\<close>

theorem Lookup_sections_refine:
  assumes "store_ok S" "p \<notin> dom (cs_vars S)" "p \<noteq> nullptr"
  shows "case Lookup_locked ty name dv desc p (Lookup_find name S) S of
      Inl e \<Rightarrow> Config_Lookup ty name dv desc (registry_of S) = Inl e
    | Inr (S', q) \<Rightarrow> store_ok S' \<and> (q \<noteq> nullptr \<longrightarrow> s_datas S' name = Some q) \<and>
        Config_Lookup ty name dv desc (registry_of S) = Inr (registry_of S', if q = nullptr then None else Some name)"
proof (cases "s_datas S name")
  case None
  have "store_ok (S\<lparr>s_datas := (s_datas S)(name \<mapsto> p), cs_vars := (cs_vars S)(p \<mapsto> ConfigVar_ctor ty name dv desc)\<rparr>)"
    using assms None by (auto simp: store_ok_def)
  moreover have "registry_of S name = None" using None by (simp add: registry_of_def map_comp_def)
  ultimately show ?thesis
    using None assms(3) by (simp add: Lookup_locked_def Lookup_find_def Config_Lookup_def registry_new [OF assms(1,2)])
next
  case (Some q)
  then obtain v where v: "cs_vars S q = Some v" using store_lookup [OF assms(1)] by blast
  moreover have "q \<noteq> nullptr" using Some assms(1) by (metis store_ok_def ranI)
  moreover have "registry_of S name = Some v" using Some v by (simp add: registry_of_def map_comp_def)
  ultimately show ?thesis using Some assms(1) by (simp add: Lookup_locked_def Lookup_find_def Config_Lookup_def)
qed

text \<open>
  Two threads that look up a new name at once both find no entry and both make a variable; the registry
  keeps the second, and a value loaded for the name never reaches the variable the first thread was given.
\<close>

theorem Lookup_race:
  assumes "valid_name name" "Lookup_find name S = None" "p1 \<noteq> p2" "p1 \<notin> dom (cs_vars S)"
    and "Lookup_locked ty name dv desc p1 (Lookup_find name S) S = Inr (S1, q1)"
    and "Lookup_locked ty name dv desc p2 (Lookup_find name S) S1 = Inr (S2, q2)"
  shows "q1 = p1 \<and> q2 = p2 \<and> Lookup_find name S2 = Some p2 \<and>
    cs_vars (Lookup_update v name S2) p1 = Some (ConfigVar_ctor ty name dv desc) \<and>
    (\<exists>cv. cs_vars (Lookup_update v name S2) p2 = Some cv \<and> cv_val cv = v)"
  using assms by (auto simp: Lookup_locked_def Lookup_find_def Lookup_update_def setValue_store_def)

definition empty_store :: "(int, nat) config_store" where
  "empty_store = \<lparr> s_datas = Map.empty, cs_vars = Map.empty \<rparr>"

theorem Lookup_sections_refine_witness:
  "\<exists>S'. Lookup_locked demo_type ''a.b'' 7 [] 9 (Lookup_find ''a.b'' empty_store) empty_store = Inr (S', 9) \<and>
     Config_Lookup demo_type ''a.b'' 7 [] (registry_of empty_store) = Inr (registry_of S', Some ''a.b'')"
proof -
  have "valid_name ''a.b''" by (simp add: valid_name_def name_chars_def)
  then obtain S' where l: "Lookup_locked demo_type ''a.b'' 7 [] 9 (Lookup_find ''a.b'' empty_store) empty_store = Inr (S', 9)"
    by (simp add: Lookup_locked_def Lookup_find_def empty_store_def)
  have "store_ok empty_store" "9 \<notin> dom (cs_vars empty_store)" by (simp_all add: store_ok_def empty_store_def)
  from Lookup_sections_refine [OF this, of demo_type "''a.b''" 7 "[]"] l show ?thesis by auto
qed

end
