(* ===== verification/Fiber_Threads.thy ===== *)
theory Fiber_Threads
  imports Schedular
begin

section \<open>Fibers on several threads\<close>

text \<open>
  The loop of \<open>Schedular::run\<close> on any number of threads over one heap of fibers and one queue, cut where another
  thread can come in between: after the task was taken, inside the fiber, between the assignment
  of a yielding fiber's state and its switch, and after the switch. A fiber may be scheduled
  at any time when there is one thread, and with more threads when it is neither queued nor
  held by a thread. Then no two threads run one fiber and every fiber goes on where it stopped. The
  theorems at the end show what happens when a fiber is scheduled earlier.
\<close>

subsection \<open>A yield in two parts\<close>

text \<open>\<open>YieldToHold\<close> and \<open>YieldToReady\<close> up to the assignment of the state; the switch that follows saves the context.\<close>

definition Yield_mark :: "fiber_state \<Rightarrow> ptr \<Rightarrow> 'cb fiber_world \<Rightarrow> ('cb fiber_world \<times> ptr) res" where
  "Yield_mark st fresh w =
     rbind (Fiber_GetThis fresh w) (\<lambda>((t, h), cur).
     rbind (live h cur) (\<lambda>f.
       qlc_assert (fb_state f = EXEC) ''cur->m_state==EXEC'' (Inr ((t, upd_fiber cur (\<lambda>f. f\<lparr>fb_state := st\<rparr>) h), cur))))"

lemma yield_parts:
  "YieldToHold fresh w = rbind (Yield_mark HOLD fresh w) (\<lambda>((t, h), cur). swapOut Resume cur (t, h))"
  "YieldToReady fresh w = rbind (Yield_mark READY fresh w) (\<lambda>((t, h), cur). swapOut Resume cur (t, h))"
  by (cases "Fiber_GetThis fresh w";
      auto simp: YieldToHold_def YieldToReady_def Yield_mark_def qlc_assert_def live_def split: option.splits)+

subsection \<open>State and actions\<close>

text \<open>Where a thread is: in its loop, with a task, inside it, between the parts of a yield, after the switch.\<close>

datatype at = Looping | Took ptr | Inside ptr | Marked ptr | Left ptr

fun held :: "at \<Rightarrow> ptr option" where
  "held Looping = None"
| "held (Took p) = Some p"
| "held (Inside p) = Some p"
| "held (Marked p) = Some p"
| "held (Left p) = Some p"

fun runs_on :: "at \<Rightarrow> ptr option" where
  "runs_on (Inside p) = Some p"
| "runs_on (Marked p) = Some p"
| "runs_on _ = None"

record worker =
  wk_tls :: fiber_tls
  wk_id :: int
  wk_at :: at

record 'cb pool =
  pl_heap :: "'cb fiber_heap"
  pl_sched :: "'cb schedular"
  pl_count :: nat
  pl_worker :: "nat \<Rightarrow> worker"

definition set_at :: "nat \<Rightarrow> at \<Rightarrow> 'cb pool \<Rightarrow> 'cb pool" where
  "set_at i a P = P\<lparr>pl_worker := (pl_worker P)(i := (pl_worker P i)\<lparr>wk_at := a\<rparr>)\<rparr>"

definition set_world :: "nat \<Rightarrow> at \<Rightarrow> 'cb fiber_world \<Rightarrow> 'cb pool \<Rightarrow> 'cb pool" where
  "set_world i a w P = P\<lparr>pl_heap := snd w, pl_worker := (pl_worker P)(i := (pl_worker P i)\<lparr>wk_tls := fst w, wk_at := a\<rparr>)\<rparr>"

datatype 'cb pool_action =
    P_new ptr ptr u32 "'cb option"
  | P_schedule ptr
  | P_pick nat
  | P_run nat
  | P_mark nat fiber_state
  | P_switch nat
  | P_end nat outcome
  | P_after nat

text \<open>The fiber a thread holds, where an action needs one.\<close>

definition with_held :: "nat \<Rightarrow> 'cb pool \<Rightarrow> (ptr \<Rightarrow> 'cb pool res) \<Rightarrow> 'cb pool res" where
  "with_held i P k = (case held (wk_at (pl_worker P i)) of None \<Rightarrow> Inl (Undefined ''no task'') | Some p \<Rightarrow> k p)"

fun pool_exec :: "'cb pool_action \<Rightarrow> 'cb pool \<Rightarrow> 'cb pool res" where
  "pool_exec (P_new p stack cfg cb) P = Inr (P\<lparr>pl_heap := Fiber_ctor p stack cfg cb 0 False (pl_heap P)\<rparr>)"
| "pool_exec (P_schedule p) P = Inr (P\<lparr>pl_sched := fst (schedule (FT_fiber p (- 1)) (pl_sched P))\<rparr>)"
| "pool_exec (P_pick i) P =
     rbind (run_pick (pl_heap P) (wk_id (pl_worker P i)) (pl_sched P)) (\<lambda>(s, ft, is_active, tick).
       Inr (set_at i (if is_active then Took (ft_fiber ft) else Looping) (P\<lparr>pl_sched := s\<rparr>)))"
| "pool_exec (P_run i) P =
     with_held i P (\<lambda>p.
     rbind (run_decide (pl_heap P) (FT_fiber p (- 1)) True nullptr) (\<lambda>b.
       if b = Run_fiber then
         rbind (swapIn p (wk_tls (pl_worker P i), pl_heap P)) (\<lambda>w. Inr (set_world i (Inside p) w P))
       else if b = Run_skip then Inr (set_at i Looping (P\<lparr>pl_sched := run_skip (pl_sched P)\<rparr>))
       else Inl (Undefined ''not a fiber'')))"
| "pool_exec (P_mark i st) P =
     rbind (Yield_mark st nullptr (wk_tls (pl_worker P i), pl_heap P)) (\<lambda>(w, cur). Inr (set_world i (Marked cur) w P))"
| "pool_exec (P_switch i) P =
     with_held i P (\<lambda>p.
     rbind (swapOut Resume p (wk_tls (pl_worker P i), pl_heap P)) (\<lambda>w. Inr (set_world i (Left p) w P)))"
| "pool_exec (P_end i out) P =
     with_held i P (\<lambda>p.
     rbind (MainFunc p out (wk_tls (pl_worker P i), pl_heap P)) (\<lambda>w. Inr (set_world i (Left p) w P)))"
| "pool_exec (P_after i) P =
     with_held i P (\<lambda>p.
     rbind (run_after_fiber (FT_fiber p (- 1)) (pl_sched P, pl_heap P)) (\<lambda>(s, h, tick).
       Inr (set_at i Looping (P\<lparr>pl_sched := s, pl_heap := h\<rparr>))))"

text \<open>The scheduling fibers of the threads, and the fibers that are tasks.\<close>

definition sched_of :: "'cb pool \<Rightarrow> nat \<Rightarrow> ptr" where
  "sched_of P i = t_schedular_fiber (wk_tls (pl_worker P i))"

definition is_fiber_task :: "'cb pool \<Rightarrow> ptr \<Rightarrow> bool" where
  "is_fiber_task P p \<longleftrightarrow> p \<noteq> nullptr \<and> fibers (pl_heap P) p \<noteq> None \<and> (\<forall>i < pl_count P. p \<noteq> sched_of P i)"

definition at_of :: "'cb pool \<Rightarrow> nat \<Rightarrow> at" where
  "at_of P i = wk_at (pl_worker P i)"

definition queued :: "'cb pool \<Rightarrow> ptr list" where
  "queued P = map ft_fiber (m_fibers (pl_sched P))"

fun pool_guard :: "'cb pool_action \<Rightarrow> 'cb pool \<Rightarrow> bool" where
  "pool_guard (P_new p stack cfg cb) P \<longleftrightarrow> p \<noteq> nullptr \<and> fibers (pl_heap P) p = None"
| "pool_guard (P_schedule p) P \<longleftrightarrow> is_fiber_task P p \<and>
     (pl_count P = 1 \<or> p \<notin> set (queued P) \<and> (\<forall>i < pl_count P. held (at_of P i) \<noteq> Some p))"
| "pool_guard (P_pick i) P \<longleftrightarrow> i < pl_count P \<and> at_of P i = Looping"
| "pool_guard (P_run i) P \<longleftrightarrow> i < pl_count P \<and> (\<exists>p. at_of P i = Took p)"
| "pool_guard (P_mark i st) P \<longleftrightarrow> i < pl_count P \<and> (\<exists>p. at_of P i = Inside p) \<and> st \<in> {HOLD, READY}"
| "pool_guard (P_switch i) P \<longleftrightarrow> i < pl_count P \<and> (\<exists>p. at_of P i = Marked p)"
| "pool_guard (P_end i out) P \<longleftrightarrow> i < pl_count P \<and> (\<exists>p. at_of P i = Inside p \<and> ends_caught (pl_heap P) p out)"
| "pool_guard (P_after i) P \<longleftrightarrow> i < pl_count P \<and> (\<exists>p. at_of P i = Left p)"

subsection \<open>The invariant\<close>

text \<open>One thread against the heap: its scheduling fiber, the fiber it runs and the one it will return to.\<close>

definition worker_ok :: "'cb fiber_heap \<Rightarrow> worker \<Rightarrow> bool" where
  "worker_ok h w \<longleftrightarrow>
     (let t = wk_tls w; s = t_schedular_fiber t in
      s \<noteq> nullptr \<and> fibers h s \<noteq> None \<and> t_fiber t = running t \<and>
      (case runs_on (wk_at w) of
         None \<Rightarrow> running t = s
       | Some p \<Rightarrow> running t = p \<and> (\<exists>f. fibers h s = Some f \<and> fb_ctx f = Resume s)) \<and>
      (\<forall>p. wk_at w = Inside p \<longrightarrow> has_state h p {EXEC}) \<and> (\<forall>p. wk_at w = Marked p \<longrightarrow> has_state h p {HOLD, READY}))"

text \<open>A task no thread runs has its own context and is not marked as executing.\<close>

definition task_rests :: "'cb fiber_heap \<Rightarrow> ptr \<Rightarrow> bool" where
  "task_rests h p \<longleftrightarrow> (\<forall>f. fibers h p = Some f \<longrightarrow> own_ctx p f \<and> fb_state f \<noteq> EXEC)"

definition pool_inv :: "'cb pool \<Rightarrow> bool" where
  "pool_inv P \<longleftrightarrow>
     (\<forall>i < pl_count P. worker_ok (pl_heap P) (pl_worker P i)) \<and>
     (\<forall>i < pl_count P. \<forall>j < pl_count P. sched_of P i = sched_of P j \<longrightarrow> i = j) \<and>
     (\<forall>i < pl_count P. \<forall>p. held (at_of P i) = Some p \<longrightarrow> is_fiber_task P p) \<and>
     (\<forall>i < pl_count P. \<forall>j < pl_count P. \<forall>p. held (at_of P i) = Some p \<and> held (at_of P j) = Some p \<longrightarrow> i = j) \<and>
     (\<forall>ft \<in> set (m_fibers (pl_sched P)). ft = FT_fiber (ft_fiber ft) (- 1) \<and> is_fiber_task P (ft_fiber ft)) \<and>
     (\<forall>p. is_fiber_task P p \<and> (\<forall>i < pl_count P. runs_on (at_of P i) \<noteq> Some p) \<longrightarrow> task_rests (pl_heap P) p) \<and>
     (pl_count P \<noteq> 1 \<longrightarrow> distinct (queued P) \<and> (\<forall>i < pl_count P. \<forall>p. held (at_of P i) = Some p \<longrightarrow> p \<notin> set (queued P)))"

lemma runs_held: "runs_on a = Some p \<Longrightarrow> held a = Some p"
  by (cases a) auto

lemma pool_invD:
  assumes "pool_inv P" "i < pl_count P"
  shows "worker_ok (pl_heap P) (pl_worker P i)" "held (at_of P i) = Some p \<Longrightarrow> is_fiber_task P p"
    "j < pl_count P \<Longrightarrow> held (at_of P i) = Some p \<Longrightarrow> held (at_of P j) = Some p \<Longrightarrow> i = j"
    "j < pl_count P \<Longrightarrow> sched_of P i = sched_of P j \<Longrightarrow> i = j"
    "ft \<in> set (m_fibers (pl_sched P)) \<Longrightarrow> ft = FT_fiber (ft_fiber ft) (- 1) \<and> is_fiber_task P (ft_fiber ft)"
    "is_fiber_task P p \<Longrightarrow> \<forall>j < pl_count P. runs_on (at_of P j) \<noteq> Some p \<Longrightarrow> task_rests (pl_heap P) p"
    "pl_count P \<noteq> 1 \<Longrightarrow> distinct (queued P)"
    "pl_count P \<noteq> 1 \<Longrightarrow> held (at_of P i) = Some p \<Longrightarrow> p \<notin> set (queued P)"
  using assms unfolding pool_inv_def by blast+

lemma worker_ok_cong:
  assumes "fibers h' (t_schedular_fiber (wk_tls w)) = fibers h (t_schedular_fiber (wk_tls w))"
    and "\<And>r. runs_on (wk_at w) = Some r \<Longrightarrow> fibers h' r = fibers h r"
  shows "worker_ok h' w = worker_ok h w"
  using assms by (cases "wk_at w") (auto simp: worker_ok_def has_state_def Let_def)

text \<open>One thread moves: it touches its scheduling fiber and one task that no other thread holds.\<close>

lemma pool_move:
  assumes inv: "pool_inv P" and i: "i < pl_count P"
    and P': "P' = P\<lparr>pl_heap := h', pl_sched := s', pl_worker := (pl_worker P)(i := w')\<rparr>"
    and w': "t_schedular_fiber (wk_tls w') = sched_of P i" "worker_ok h' w'" "held (wk_at w') \<in> {None, Some p}"
    and p: "is_fiber_task P p" "held (at_of P i) \<in> {None, Some p}" "\<And>j. j < pl_count P \<Longrightarrow> j \<noteq> i \<Longrightarrow> held (at_of P j) \<noteq> Some p"
    and h': "\<And>q. fibers h' q = None \<longleftrightarrow> fibers (pl_heap P) q = None"
      "\<And>q. q \<noteq> p \<Longrightarrow> q \<noteq> sched_of P i \<Longrightarrow> fibers h' q = fibers (pl_heap P) q"
    and rests: "runs_on (wk_at w') \<noteq> Some p \<Longrightarrow> task_rests h' p"
    and q: "set (m_fibers s') \<subseteq> set (m_fibers (pl_sched P)) \<union> {FT_fiber p (- 1)}"
      "pl_count P \<noteq> 1 \<Longrightarrow> distinct (map ft_fiber (m_fibers s')) \<and> (held (wk_at w') = Some p \<longrightarrow> p \<notin> ft_fiber ` set (m_fibers s'))"
  shows "pool_inv P'"
proof -
  note I = pool_invD [OF inv]
  have so: "sched_of P' j = sched_of P j" for j using P' w'(1) by (simp add: sched_of_def)
  have ta: "is_fiber_task P' r \<longleftrightarrow> is_fiber_task P r" for r unfolding is_fiber_task_def so using h'(1) by (simp add: P')
  have at: "at_of P' j = (if j = i then wk_at w' else at_of P j)" "pl_count P' = pl_count P" for j using P' by (simp_all add: at_of_def)
  have same: "fibers h' r = fibers (pl_heap P) r" if "j < pl_count P" "j \<noteq> i" "r = sched_of P j \<or> held (at_of P j) = Some r" for j r
  proof -
    have "r \<noteq> p" using that p(1,3) by (auto simp: is_fiber_task_def)
    moreover have "r \<noteq> sched_of P i" using that i I(2,4) [OF that(1)] by (auto simp: is_fiber_task_def)
    ultimately show ?thesis by (rule h'(2))
  qed
  have wok: "worker_ok h' (pl_worker P' j)" if j: "j < pl_count P" for j
  proof (cases "j = i")
    case False
    have "fibers h' (sched_of P j) = fibers (pl_heap P) (sched_of P j)" using same [OF j False] by simp
    moreover have "fibers h' r = fibers (pl_heap P) r" if "runs_on (wk_at (pl_worker P j)) = Some r" for r
      using same [OF j False, of r] runs_held [OF that] by (simp add: at_of_def)
    ultimately show ?thesis
      using worker_ok_cong [of h' "pl_worker P j" "pl_heap P"] I(1) [OF j] False by (simp add: P' sched_of_def)
  qed (use w'(2) P' in simp)
  have rest: "task_rests h' r" if r: "is_fiber_task P r" "\<forall>j < pl_count P. runs_on (at_of P' j) \<noteq> Some r" for r
  proof (cases "r = p")
    case True
    then show ?thesis using r(2) i rests at by auto
  next
    case False
    then have "runs_on (at_of P j) \<noteq> Some r" if "j < pl_count P" for j
      using that r(2) p(2) at runs_held [of "at_of P i" r] by (cases "j = i") auto
    then have "task_rests (pl_heap P) r" using I(6) [OF i r(1)] by blast
    moreover have "fibers h' r = fibers (pl_heap P) r" using h'(2) [OF False] r(1) i by (auto simp: is_fiber_task_def)
    ultimately show ?thesis by (simp add: task_rests_def)
  qed
  have fts: "ft = FT_fiber (ft_fiber ft) (- 1) \<and> is_fiber_task P (ft_fiber ft)" if "ft \<in> set (m_fibers s')" for ft
    using that q(1) I(5) [OF i] p(1) by (auto simp: FT_fiber_def)
  have hp: "r = p" if "held (wk_at w') = Some r" for r using that w'(3) by auto
  have out: "r \<notin> ft_fiber ` set (m_fibers s')" if "pl_count P \<noteq> 1" "j < pl_count P" "j \<noteq> i" "held (at_of P j) = Some r" for j r
  proof -
    have "r \<noteq> p" using that p(3) by auto
    moreover have "r \<notin> ft_fiber ` set (m_fibers (pl_sched P))" using I(8) [OF that(2,1,4)] by (simp add: queued_def)
    ultimately show ?thesis using q(1) by (auto simp: FT_fiber_def)
  qed
  have held': "held (at_of P' j) = Some r \<Longrightarrow> (if j = i then r = p else held (at_of P j) = Some r)" for j r
    using hp at by (auto split: if_splits)
  show ?thesis
    unfolding pool_inv_def at(2) so ta
  proof (intro conjI allI impI ballI)
    fix j r assume j: "j < pl_count P" and r: "held (at_of P' j) = Some r"
    show "is_fiber_task P r" using held' [OF r] p(1) I(2) [OF j] by (auto split: if_splits)
  next
    fix j k r assume j: "j < pl_count P" "k < pl_count P" and r: "held (at_of P' j) = Some r \<and> held (at_of P' k) = Some r"
    show "j = k" using held' [OF conjunct1 [OF r]] held' [OF conjunct2 [OF r]] p(3) j I(3) [OF j(1,2)] by (auto split: if_splits)
  next
    fix j r assume n: "pl_count P \<noteq> 1" and j: "j < pl_count P" and r: "held (at_of P' j) = Some r"
    show "r \<notin> set (queued P')"
      using held' [OF r] out [OF n j] q(2) [OF n] r at by (auto simp: queued_def P' split: if_splits)
  qed (use wok rest fts i I(4) q(2) in \<open>auto simp: P' queued_def\<close>)
qed

text \<open>A thread that holds a task: what it knows of it and of its scheduling fiber.\<close>

lemma pool_holds:
  assumes "pool_inv P" "i < pl_count P" "held (at_of P i) = Some p"
  shows "is_fiber_task P p" "p \<noteq> sched_of P i" "p \<noteq> nullptr" "\<exists>f. fibers (pl_heap P) p = Some f" "\<exists>s. fibers (pl_heap P) (sched_of P i) = Some s"
    "\<And>j. j < pl_count P \<Longrightarrow> j \<noteq> i \<Longrightarrow> held (at_of P j) \<noteq> Some p"
    "runs_on (at_of P i) = None \<Longrightarrow> task_rests (pl_heap P) p"
proof -
  note I = pool_invD [OF assms(1,2)]
  show t: "is_fiber_task P p" using I(2) assms(3) by simp
  then show "p \<noteq> sched_of P i" "p \<noteq> nullptr" "\<exists>f. fibers (pl_heap P) p = Some f" using assms(2) by (auto simp: is_fiber_task_def)
  show "\<exists>s. fibers (pl_heap P) (sched_of P i) = Some s" using I(1) by (auto simp: worker_ok_def sched_of_def Let_def)
  show *: "held (at_of P j) \<noteq> Some p" if "j < pl_count P" "j \<noteq> i" for j using I(3) [OF that(1) assms(3)] that(2) by auto
  show "task_rests (pl_heap P) p" if "runs_on (at_of P i) = None"
  proof (rule I(6) [OF t], intro allI impI)
    fix j assume j: "j < pl_count P"
    show "runs_on (at_of P j) \<noteq> Some p" using * [OF j] runs_held [of "at_of P j" p] that by (cases "j = i") auto
  qed
qed

lemma pool_new_inv:
  assumes "pool_inv P" "pool_guard (P_new p stack cfg cb) P"
  shows "\<exists>P'. pool_exec (P_new p stack cfg cb) P = Inr P' \<and> pool_inv P'"
proof -
  let ?h = "Fiber_ctor p stack cfg cb 0 False (pl_heap P)"
  let ?P = "P\<lparr>pl_heap := ?h\<rparr>"
  have p: "p \<noteq> nullptr" "fibers (pl_heap P) p = None" using assms(2) by auto
  have h: "fibers ?h r = fibers (pl_heap P) r" if "r \<noteq> p" for r using that by (simp add: Fiber_ctor_def)
  have np: "\<not> is_fiber_task P p" using p by (simp add: is_fiber_task_def)
  have at: "at_of ?P = at_of P" "sched_of ?P = sched_of P" "queued ?P = queued P" by (auto simp: at_of_def sched_of_def queued_def)
  have s: "sched_of P i \<noteq> p" "held (at_of P i) \<noteq> Some p" if "i < pl_count P" for i
    using pool_invD(1,2) [OF assms(1) that] p np by (auto simp: worker_ok_def sched_of_def Let_def)
  have ta: "is_fiber_task ?P r \<longleftrightarrow> is_fiber_task P r \<or> r = p" for r
    using h [of r] p s unfolding is_fiber_task_def at by (cases "r = p") (auto simp: Fiber_ctor_def)
  have wok: "worker_ok ?h (pl_worker P i)" if "i < pl_count P" for i
  proof -
    have "worker_ok ?h (pl_worker P i) = worker_ok (pl_heap P) (pl_worker P i)"
      using s [OF that] by (intro worker_ok_cong h) (auto simp: sched_of_def at_of_def dest: runs_held)
    then show ?thesis using pool_invD(1) [OF assms(1) that] by simp
  qed
  have new: "task_rests ?h p" by (simp add: task_rests_def Fiber_ctor_def own_ctx_def)
  have rest: "task_rests ?h r" if "is_fiber_task P r \<or> r = p" "\<forall>i < pl_count P. runs_on (at_of P i) \<noteq> Some r" for r
  proof (cases "r = p")
    case False
    then have "task_rests (pl_heap P) r" using that assms(1) by (simp add: pool_inv_def)
    then show ?thesis using h [OF False] by (simp add: task_rests_def)
  qed (use new in simp)
  have "pool_inv ?P"
    using assms(1) wok rest unfolding pool_inv_def at ta by auto
  then show ?thesis by simp
qed

lemma pool_schedule_inv:
  assumes "pool_inv P" "pool_guard (P_schedule p) P"
  shows "\<exists>P'. pool_exec (P_schedule p) P = Inr P' \<and> pool_inv P'"
proof -
  let ?P = "P\<lparr>pl_sched := (pl_sched P)\<lparr>m_fibers := m_fibers (pl_sched P) @ [FT_fiber p (- 1)]\<rparr>\<rparr>"
  have p: "is_fiber_task P p" "pl_count P \<noteq> 1 \<Longrightarrow> p \<notin> set (queued P) \<and> (\<forall>i < pl_count P. held (at_of P i) \<noteq> Some p)" using assms(2) by auto
  have e: "pool_exec (P_schedule p) P = Inr ?P" using p(1) by (simp add: schedule_def scheduleNoLock_def FT_fiber_def is_fiber_task_def)
  have at: "at_of ?P = at_of P" "sched_of ?P = sched_of P" "queued ?P = queued P @ [p]" "is_fiber_task ?P = is_fiber_task P"
    by (auto simp: at_of_def sched_of_def queued_def FT_fiber_def is_fiber_task_def)
  have "pool_inv ?P" using assms(1) p unfolding pool_inv_def at by (auto simp: FT_fiber_def)
  then show ?thesis using e by simp
qed

lemma pool_pick_inv:
  assumes "pool_inv P" "pool_guard (P_pick i) P"
  shows "\<exists>P'. pool_exec (P_pick i) P = Inr P' \<and> pool_inv P'"
proof -
  let ?s = "pl_sched P" and ?h = "pl_heap P" and ?tid = "wk_id (pl_worker P i)"
  have i: "i < pl_count P" "at_of P i = Looping" using assms(2) by auto
  note I = pool_invD [OF assms(1) i(1)]
  have ok: "task_ok ?h ft" if "ft \<in> set (m_fibers ?s)" for ft
    using I(5) [OF that] by (auto simp: task_ok_def is_fiber_task_def)
  consider (none) "\<forall>ft \<in> set (m_fibers ?s). \<not> runnable ?h ?tid ft"
    | (take) xs ft ys where "m_fibers ?s = xs @ ft # ys" "\<forall>x \<in> set xs. \<not> runnable ?h ?tid x" "runnable ?h ?tid ft"
    using split_list_first_prop [of "m_fibers ?s" "runnable ?h ?tid"] by blast
  then show ?thesis
  proof cases
    case none
    then have "pick_loop ?h ?tid (m_fibers ?s @ []) False = Inr (None, m_fibers ?s, \<exists>ft \<in> set (m_fibers ?s). elsewhere ?tid ft)"
      using ok by (subst pick_loop_skip) auto
    then have "pool_exec (P_pick i) P = Inr (set_at i Looping P)" by (simp add: run_pick_def)
    moreover have "(pl_worker P i)\<lparr>wk_at := Looping\<rparr> = pl_worker P i" using i(2) by (cases "pl_worker P i") (simp add: at_of_def)
    then have "set_at i Looping P = P" by (simp add: set_at_def)
    ultimately show ?thesis using assms(1) by metis
  next
    case take
    let ?p = "ft_fiber ft"
    let ?s' = "?s\<lparr>m_fibers := xs @ ys, m_activeThreadCount := m_activeThreadCount ?s + 1\<rparr>"
    let ?w = "(pl_worker P i)\<lparr>wk_at := Took ?p\<rparr>"
    have ft: "ft \<in> set (m_fibers ?s)" "task_ok ?h ft" using take(1) ok by simp_all
    have "pick_loop ?h ?tid (m_fibers ?s) False = Inr (Some ft, xs @ ys, (\<exists>it \<in> set xs. elsewhere ?tid it) \<or> ys \<noteq> [])"
      unfolding take(1) using take ok pick_loop_take [OF ft(2) take(3)] by (subst pick_loop_skip) auto
    then have "pool_exec (P_pick i) P = Inr (P\<lparr>pl_sched := ?s', pl_worker := (pl_worker P)(i := ?w)\<rparr>)"
      by (simp add: run_pick_def set_at_def)
    moreover have "pool_inv (P\<lparr>pl_sched := ?s', pl_worker := (pl_worker P)(i := ?w)\<rparr>)"
    proof (rule pool_move [OF assms(1) i(1), where h' = ?h and s' = ?s' and w' = ?w and p = ?p])
      show "is_fiber_task P ?p" using I(5) [OF ft(1)] by simp
      show "worker_ok ?h ?w" using I(1) i(2) by (simp add: worker_ok_def at_of_def Let_def)
      show nh: "held (at_of P j) \<noteq> Some ?p" if "j < pl_count P" "j \<noteq> i" for j
        using pool_invD(8) [OF assms(1) that(1), of ?p] that i(1) ft(1) by (cases "pl_count P = 1") (auto simp: queued_def)
      show "task_rests ?h ?p"
        using I(6) [of ?p] I(5) [OF ft(1)] nh i(2) runs_held by (metis option.distinct(1) runs_on.simps(3))
      show "distinct (map ft_fiber (m_fibers ?s')) \<and> (held (wk_at ?w) = Some ?p \<longrightarrow> ?p \<notin> ft_fiber ` set (m_fibers ?s'))"
        if "pl_count P \<noteq> 1"
        using I(7) [OF that] by (auto simp: queued_def take(1))
    qed (use i(2) take(1) in \<open>auto simp: sched_of_def\<close>)
    ultimately show ?thesis by blast
  qed
qed

lemma swap_in:
  assumes "fibers h p = Some f" "own_ctx p f" "fb_state f \<notin> {EXEC, FTERM, EXCEPT}" "fibers h (t_schedular_fiber t) = Some g"
    and "t_schedular_fiber t \<noteq> p" "running t = t_schedular_fiber t"
  shows "swapIn p (t, h) = Inr (t\<lparr>t_fiber := p, running := p\<rparr>,
    upd_fiber (t_schedular_fiber t) (\<lambda>f. f\<lparr>fb_ctx := Resume (t_schedular_fiber t)\<rparr>) (upd_fiber p (\<lambda>f. f\<lparr>fb_state := EXEC\<rparr>) h))"
proof -
  have "resume (fb_ctx f) (SetThis p t) = Inr (t\<lparr>t_fiber := p, running := p\<rparr>)"
    using assms(2,3) by (subst resume_own) (auto simp: SetThis_def)
  then have "swapcontext Resume (t_schedular_fiber t) p (SetThis p t, upd_fiber p (\<lambda>f. f\<lparr>fb_state := EXEC\<rparr>) h) =
      Inr (t\<lparr>t_fiber := p, running := p\<rparr>,
        upd_fiber (t_schedular_fiber t) (\<lambda>f. f\<lparr>fb_ctx := Resume (running (SetThis p t))\<rparr>) (upd_fiber p (\<lambda>f. f\<lparr>fb_state := EXEC\<rparr>) h))"
    using assms by (intro swapcontext_ok [where a = g and b = "f\<lparr>fb_state := EXEC\<rparr>"]) (auto simp: fibers_upd_fiber)
  then show ?thesis using assms by (simp add: swapIn_def live_def SetThis_def)
qed

lemma swap_out:
  assumes "fibers h p = Some f" "fibers h (t_schedular_fiber t) = Some g" "fb_ctx g = Resume (t_schedular_fiber t)"
    and "p \<noteq> t_schedular_fiber t" "running t = p"
  shows "swapOut here p (t, h) = Inr (t\<lparr>t_fiber := t_schedular_fiber t, running := t_schedular_fiber t\<rparr>,
    upd_fiber p (\<lambda>f. f\<lparr>fb_ctx := here p\<rparr>) h)"
  using assms swapcontext_ok [of h p f "t_schedular_fiber t" g "SetThis (t_schedular_fiber t) t" _ here]
  by (simp add: swapOut_def SetThis_def resume_def)

lemma pool_run_inv:
  assumes "pool_inv P" "pool_guard (P_run i) P"
  shows "\<exists>P'. pool_exec (P_run i) P = Inr P' \<and> pool_inv P'"
proof -
  obtain p where i: "i < pl_count P" "at_of P i = Took p" using assms(2) by auto
  then have hd: "held (at_of P i) = Some p" by simp
  note H = pool_holds [OF assms(1) i(1) hd] and I = pool_invD [OF assms(1) i(1)]
  let ?t = "wk_tls (pl_worker P i)" and ?h = "pl_heap P"
  obtain f g where f: "fibers ?h p = Some f" "fibers ?h (sched_of P i) = Some g" using H(4,5) by blast
  have own: "own_ctx p f" "fb_state f \<noteq> EXEC" using H(7) i(2) f(1) by (auto simp: task_rests_def)
  have t: "running ?t = sched_of P i" using I(1) i(2) by (simp add: worker_ok_def at_of_def sched_of_def Let_def)
  show ?thesis
  proof (cases "fb_state f \<in> {FTERM, EXCEPT}")
    case True
    let ?w = "(pl_worker P i)\<lparr>wk_at := Looping\<rparr>" and ?s = "run_skip (pl_sched P)"
    have "pool_exec (P_run i) P = Inr (P\<lparr>pl_sched := ?s, pl_worker := (pl_worker P)(i := ?w)\<rparr>)"
      using True f(1) hd H(3) by (auto simp: with_held_def at_of_def run_decide_def live_def FT_fiber_def set_at_def)
    moreover have "pool_inv (P\<lparr>pl_sched := ?s, pl_worker := (pl_worker P)(i := ?w)\<rparr>)"
    proof (rule pool_move [OF assms(1) i(1), where h' = ?h and s' = ?s and w' = ?w and p = p])
      show "worker_ok ?h ?w" using I(1) i(2) by (simp add: worker_ok_def at_of_def Let_def)
      show "task_rests ?h p" using H(7) i(2) by simp
    qed (use H(1,6) hd I(7) in \<open>auto simp: sched_of_def run_skip_def queued_def\<close>)
    ultimately show ?thesis by blast
  next
    case False
    let ?h' = "upd_fiber (sched_of P i) (\<lambda>f. f\<lparr>fb_ctx := Resume (sched_of P i)\<rparr>) (upd_fiber p (\<lambda>f. f\<lparr>fb_state := EXEC\<rparr>) ?h)"
    let ?w = "(pl_worker P i)\<lparr>wk_tls := ?t\<lparr>t_fiber := p, running := p\<rparr>, wk_at := Inside p\<rparr>"
    have "swapIn p (?t, ?h) = Inr (?t\<lparr>t_fiber := p, running := p\<rparr>, ?h')"
      using swap_in [of ?h p f ?t g] f own False H(2) t by (simp add: sched_of_def)
    moreover have "run_decide ?h (FT_fiber p (- 1)) True nullptr = Inr Run_fiber"
      using False f(1) H(3) by (simp add: run_decide_def live_def FT_fiber_def)
    ultimately have "pool_exec (P_run i) P = Inr (P\<lparr>pl_heap := ?h', pl_worker := (pl_worker P)(i := ?w)\<rparr>)"
      using hd by (simp add: with_held_def at_of_def set_world_def)
    moreover have "pool_inv (P\<lparr>pl_heap := ?h', pl_worker := (pl_worker P)(i := ?w)\<rparr>)"
    proof (rule pool_move [OF assms(1) i(1), where h' = ?h' and s' = "pl_sched P" and w' = ?w and p = p])
      show "worker_ok ?h' ?w"
        using I(1) f H(2) by (auto simp: worker_ok_def sched_of_def has_state_def fibers_upd_fiber Let_def)
      show "distinct (map ft_fiber (m_fibers (pl_sched P))) \<and> (held (wk_at ?w) = Some p \<longrightarrow> p \<notin> ft_fiber ` set (m_fibers (pl_sched P)))"
        if "pl_count P \<noteq> 1"
        using I(7,8) [OF that] hd by (simp add: queued_def)
    qed (use H(1,6) hd in \<open>auto simp: sched_of_def fibers_upd_fiber\<close>)
    ultimately show ?thesis by blast
  qed
qed

text \<open>A thread inside a task: the task is the current fiber, and the thread can return to its scheduling fiber.\<close>

lemma pool_inside:
  assumes "pool_inv P" "i < pl_count P" "runs_on (at_of P i) = Some p"
  shows "running (wk_tls (pl_worker P i)) = p" "t_fiber (wk_tls (pl_worker P i)) = p"
    "\<exists>g. fibers (pl_heap P) (sched_of P i) = Some g \<and> fb_ctx g = Resume (sched_of P i)"
    "at_of P i = Inside p \<Longrightarrow> has_state (pl_heap P) p {EXEC}" "at_of P i = Marked p \<Longrightarrow> has_state (pl_heap P) p {HOLD, READY}"
  using pool_invD(1) [OF assms(1,2)] assms(3) by (auto simp: worker_ok_def at_of_def sched_of_def Let_def)

text \<open>It leaves the task: the state of the task is set to \<open>st\<close> by \<open>k\<close> and its context is where it stands.\<close>

lemma pool_leave_inv:
  assumes "pool_inv P" "i < pl_count P" "runs_on (at_of P i) = Some p" "here = Resume \<or> here = Never_reach"
    and k: "\<And>f. fibers (pl_heap P) p = Some f \<Longrightarrow> fb_state (k f) \<noteq> EXEC \<and> (here = Never_reach \<longrightarrow> fb_state (k f) \<in> {FTERM, EXCEPT})"
  shows "\<exists>w. swapOut here p (wk_tls (pl_worker P i), upd_fiber p k (pl_heap P)) = Inr w \<and> pool_inv (set_world i (Left p) w P)"
proof -
  have hd: "held (at_of P i) = Some p" using runs_held assms(3) by simp
  note H = pool_holds [OF assms(1,2) hd] and N = pool_inside [OF assms(1-3)] and I = pool_invD [OF assms(1,2)]
  let ?t = "wk_tls (pl_worker P i)" and ?S = "sched_of P i"
  let ?h = "upd_fiber p (\<lambda>f. f\<lparr>fb_ctx := here p\<rparr>) (upd_fiber p k (pl_heap P))"
  let ?w = "(pl_worker P i)\<lparr>wk_tls := ?t\<lparr>t_fiber := ?S, running := ?S\<rparr>, wk_at := Left p\<rparr>"
  obtain f g where f: "fibers (pl_heap P) p = Some f" "fibers (pl_heap P) ?S = Some g" "fb_ctx g = Resume ?S" using H(4) N(3) by blast
  have out: "swapOut here p (?t, upd_fiber p k (pl_heap P)) = Inr (?t\<lparr>t_fiber := ?S, running := ?S\<rparr>, ?h)"
    using swap_out [of "upd_fiber p k (pl_heap P)" p "k f" ?t g here] f H(2) N(1) by (simp add: fibers_upd_fiber sched_of_def)
  have "pool_inv (P\<lparr>pl_heap := ?h, pl_worker := (pl_worker P)(i := ?w)\<rparr>)"
  proof (rule pool_move [OF assms(1,2), where h' = ?h and s' = "pl_sched P" and w' = ?w and p = p])
    show "worker_ok ?h ?w" using I(1) f H(2) by (auto simp: worker_ok_def sched_of_def fibers_upd_fiber Let_def)
    show "task_rests ?h p" using k [OF f(1)] f(1) assms(4) by (auto simp: task_rests_def fibers_upd_fiber own_ctx_def)
    show "distinct (map ft_fiber (m_fibers (pl_sched P))) \<and> (held (wk_at ?w) = Some p \<longrightarrow> p \<notin> ft_fiber ` set (m_fibers (pl_sched P)))"
      if "pl_count P \<noteq> 1"
      using I(7,8) [OF that] hd by (simp add: queued_def)
  qed (use H(1,2,6) hd in \<open>auto simp: sched_of_def fibers_upd_fiber\<close>)
  then show ?thesis using out by (simp add: set_world_def)
qed

lemma pool_mark_inv:
  assumes "pool_inv P" "pool_guard (P_mark i st) P"
  shows "\<exists>P'. pool_exec (P_mark i st) P = Inr P' \<and> pool_inv P'"
proof -
  obtain p where i: "i < pl_count P" "at_of P i = Inside p" "st \<in> {HOLD, READY}" using assms(2) by auto
  then have hd: "held (at_of P i) = Some p" and on: "runs_on (at_of P i) = Some p" by simp_all
  note H = pool_holds [OF assms(1) i(1) hd] and N = pool_inside [OF assms(1) i(1) on] and I = pool_invD [OF assms(1) i(1)]
  let ?t = "wk_tls (pl_worker P i)" and ?h = "upd_fiber p (\<lambda>f. f\<lparr>fb_state := st\<rparr>) (pl_heap P)"
  let ?w = "(pl_worker P i)\<lparr>wk_tls := ?t, wk_at := Marked p\<rparr>"
  obtain f where f: "fibers (pl_heap P) p = Some f" "fb_state f = EXEC" using N(4) i(2) by (auto simp: has_state_def)
  have "Yield_mark st nullptr (?t, pl_heap P) = Inr ((?t, ?h), p)"
    using f N(2) H(3) by (simp add: Yield_mark_def Fiber_GetThis_def live_def)
  then have "pool_exec (P_mark i st) P = Inr (P\<lparr>pl_heap := ?h, pl_worker := (pl_worker P)(i := ?w)\<rparr>)"
    by (simp add: set_world_def)
  moreover have "pool_inv (P\<lparr>pl_heap := ?h, pl_worker := (pl_worker P)(i := ?w)\<rparr>)"
  proof (rule pool_move [OF assms(1) i(1), where h' = ?h and s' = "pl_sched P" and w' = ?w and p = p])
    show "worker_ok ?h ?w" using I(1) f H(2) N(1,2,3) i(3) by (auto simp: worker_ok_def sched_of_def fibers_upd_fiber has_state_def Let_def)
    show "distinct (map ft_fiber (m_fibers (pl_sched P))) \<and> (held (wk_at ?w) = Some p \<longrightarrow> p \<notin> ft_fiber ` set (m_fibers (pl_sched P)))"
      if "pl_count P \<noteq> 1"
      using I(7,8) [OF that] hd by (simp add: queued_def)
  qed (use H(1,6) hd in \<open>auto simp: sched_of_def fibers_upd_fiber\<close>)
  ultimately show ?thesis by blast
qed

lemma upd_fiber_id [simp]: "upd_fiber p (\<lambda>f. f) h = h"
  by (simp add: upd_fiber_def option.map_ident)

lemma pool_switch_inv:
  assumes "pool_inv P" "pool_guard (P_switch i) P"
  shows "\<exists>P'. pool_exec (P_switch i) P = Inr P' \<and> pool_inv P'"
proof -
  obtain p where i: "i < pl_count P" "at_of P i = Marked p" using assms(2) by auto
  then have hd: "held (at_of P i) = Some p" and on: "runs_on (at_of P i) = Some p" by simp_all
  have "\<exists>w. swapOut Resume p (wk_tls (pl_worker P i), upd_fiber p (\<lambda>f. f) (pl_heap P)) = Inr w \<and> pool_inv (set_world i (Left p) w P)"
    by (rule pool_leave_inv [OF assms(1) i(1) on]) (use pool_inside(5) [OF assms(1) i(1) on i(2)] in \<open>auto simp: has_state_def fun_eq_iff\<close>)
  then show ?thesis using hd by (auto simp: with_held_def at_of_def)
qed

lemma pool_end_inv:
  assumes "pool_inv P" "pool_guard (P_end i out) P"
  shows "\<exists>P'. pool_exec (P_end i out) P = Inr P' \<and> pool_inv P'"
proof -
  obtain p where i: "i < pl_count P" "at_of P i = Inside p" "ends_caught (pl_heap P) p out" using assms(2) by auto
  then have hd: "held (at_of P i) = Some p" and on: "runs_on (at_of P i) = Some p" by simp_all
  obtain f where f: "fibers (pl_heap P) p = Some f" "call_outcome f out \<noteq> Throws_other" using i(3) by (auto simp: ends_caught_def)
  obtain k where k: "run_callback p out (pl_heap P) = Inr (upd_fiber p k (pl_heap P))" 
      "\<And>f. fb_stack (k f) = fb_stack f" "\<And>f'. fb_state (k f') = end_state f out"
    using run_callback_ok [OF f] by blast
  have "\<exists>w. swapOut Never_reach p (wk_tls (pl_worker P i), upd_fiber p k (pl_heap P)) = Inr w \<and> pool_inv (set_world i (Left p) w P)"
  proof (rule pool_leave_inv [OF assms(1) i(1) on])
    show "fb_state (k f') \<noteq> EXEC \<and> (Never_reach = Never_reach \<longrightarrow> fb_state (k f') \<in> {FTERM, EXCEPT})" for f'
      using end_state_cases [of f out] unfolding k(3) by auto
  qed simp
  then show ?thesis using hd k(1) pool_holds(3) [OF assms(1) i(1) hd] by (auto simp: with_held_def at_of_def MainFunc_def)
qed

lemma pool_after_inv:
  assumes "pool_inv P" "pool_guard (P_after i) P"
  shows "\<exists>P'. pool_exec (P_after i) P = Inr P' \<and> pool_inv P'"
proof -
  obtain p where i: "i < pl_count P" "at_of P i = Left p" using assms(2) by auto
  then have hd: "held (at_of P i) = Some p" by simp
  note H = pool_holds [OF assms(1) i(1) hd] and I = pool_invD [OF assms(1) i(1)]
  obtain f where f: "fibers (pl_heap P) p = Some f" using H(4) by blast
  have own: "own_ctx p f" "fb_state f \<noteq> EXEC" using H(7) i(2) f(1) by (auto simp: task_rests_def)
  let ?n = "\<lambda>s. s\<lparr>m_activeThreadCount := m_activeThreadCount s - 1\<rparr>"
  let ?s = "if fb_state f = READY then (?n (pl_sched P))\<lparr>m_fibers := m_fibers (pl_sched P) @ [FT_fiber p (- 1)]\<rparr> else ?n (pl_sched P)"
  let ?h = "if fb_state f \<in> {READY, FTERM, EXCEPT} then pl_heap P else upd_fiber p (\<lambda>f. f\<lparr>fb_state := HOLD\<rparr>) (pl_heap P)"
  let ?w = "(pl_worker P i)\<lparr>wk_at := Looping\<rparr>"
  have "pool_exec (P_after i) P = Inr (P\<lparr>pl_heap := ?h, pl_sched := ?s, pl_worker := (pl_worker P)(i := ?w)\<rparr>)"
    using hd f(1) H(3) by (auto simp: with_held_def at_of_def run_after_fiber_def FT_fiber_def live_def schedule_def scheduleNoLock_def set_at_def Let_def)
  moreover have "pool_inv (P\<lparr>pl_heap := ?h, pl_sched := ?s, pl_worker := (pl_worker P)(i := ?w)\<rparr>)"
  proof (rule pool_move [OF assms(1) i(1), where h' = ?h and s' = ?s and w' = ?w and p = p])
    show "worker_ok ?h ?w" using I(1) i(2) H(2) by (auto simp: worker_ok_def at_of_def sched_of_def fibers_upd_fiber Let_def)
    show "task_rests ?h p" using own f(1) own_ctx_EXEC [OF own(1), of HOLD] by (auto simp: task_rests_def fibers_upd_fiber)
    show "distinct (map ft_fiber (m_fibers ?s)) \<and> (held (wk_at ?w) = Some p \<longrightarrow> p \<notin> ft_fiber ` set (m_fibers ?s))" if "pl_count P \<noteq> 1"
      using I(7,8) [OF that] hd by (auto simp: queued_def FT_fiber_def)
  qed (use H(1,6) hd in \<open>auto simp: sched_of_def fibers_upd_fiber\<close>)
  ultimately show ?thesis by blast
qed

lemma pool_step:
  assumes "pool_inv P" "pool_guard a P"
  shows "\<exists>P'. pool_exec a P = Inr P' \<and> pool_inv P'"
proof (cases a)
  case (P_new p stack cfg cb)
  show ?thesis using pool_new_inv [OF assms(1)] assms(2) unfolding P_new by blast
next
  case (P_schedule p)
  show ?thesis using pool_schedule_inv [OF assms(1)] assms(2) unfolding P_schedule by blast
next
  case (P_pick i)
  show ?thesis using pool_pick_inv [OF assms(1)] assms(2) unfolding P_pick by blast
next
  case (P_run i)
  show ?thesis using pool_run_inv [OF assms(1)] assms(2) unfolding P_run by blast
next
  case (P_mark i st)
  show ?thesis using pool_mark_inv [OF assms(1)] assms(2) unfolding P_mark by blast
next
  case (P_switch i)
  show ?thesis using pool_switch_inv [OF assms(1)] assms(2) unfolding P_switch by blast
next
  case (P_end i out)
  show ?thesis using pool_end_inv [OF assms(1)] assms(2) unfolding P_end by blast
next
  case (P_after i)
  show ?thesis using pool_after_inv [OF assms(1)] assms(2) unfolding P_after by blast
qed

interpretation pools: guarded_system pool_guard pool_exec pool_inv
  by unfold_locales (rule pool_step)

subsection \<open>The threads of a scheduler\<close>

text \<open>A thread enters \<open>run\<close>: its main fiber becomes its scheduling fiber.\<close>

definition pool_enter :: "ptr \<Rightarrow> int \<Rightarrow> 'cb pool \<Rightarrow> 'cb pool res" where
  "pool_enter p tid P =
     rbind (Fiber_GetThis p (tls0 p, pl_heap P)) (\<lambda>((t, h), q).
       Inr (P\<lparr>pl_heap := h, pl_count := Suc (pl_count P),
              pl_worker := (pl_worker P)(pl_count P := \<lparr> wk_tls = t\<lparr>t_schedular_fiber := q\<rparr>, wk_id = tid, wk_at = Looping \<rparr>)\<rparr>))"

fun pool_init :: "(ptr \<times> int) list \<Rightarrow> 'cb schedular \<Rightarrow> 'cb pool res" where
  "pool_init [] s = Inr \<lparr> pl_heap = \<lparr> fibers = Map.empty, s_fiber_id = 0, s_fiber_count = 0 \<rparr>, pl_sched = s\<lparr>m_fibers := []\<rparr>,
     pl_count = 0, pl_worker = (\<lambda>_. \<lparr> wk_tls = tls0 0, wk_id = 0, wk_at = Looping \<rparr>) \<rparr>"
| "pool_init ((p, tid) # ids) s = rbind (pool_init ids s) (pool_enter p tid)"

definition pool_fresh :: "'cb pool \<Rightarrow> ptr set \<Rightarrow> bool" where
  "pool_fresh P A \<longleftrightarrow> m_fibers (pl_sched P) = [] \<and> (\<forall>i < pl_count P. at_of P i = Looping \<and> worker_ok (pl_heap P) (pl_worker P i)) \<and>
     dom (fibers (pl_heap P)) = A \<and> sched_of P ` {..<pl_count P} = A \<and> inj_on (sched_of P) {..<pl_count P}"

lemma enter_fresh:
  assumes "pool_fresh P A" "p \<noteq> nullptr" "p \<notin> A"
  shows "\<exists>P'. pool_enter p tid P = Inr P' \<and> pool_fresh P' (insert p A) \<and> pl_count P' = Suc (pl_count P)"
proof -
  let ?n = "pl_count P"
  obtain h' where h': "Fiber_GetThis p (tls0 p, pl_heap P) = Inr ((\<lparr> t_fiber = p, t_threadFiber = p, t_schedular_fiber = nullptr, running = p \<rparr>, h'), p)"
      "\<And>q. q \<noteq> p \<Longrightarrow> fibers h' q = fibers (pl_heap P) q" "fibers h' p \<noteq> None"
    using assms(2) by (auto simp: Fiber_GetThis_def tls0_def Fiber_ctor_main_def SetThis_def)
  let ?w = "\<lparr> wk_tls = \<lparr> t_fiber = p, t_threadFiber = p, t_schedular_fiber = p, running = p \<rparr>, wk_id = tid, wk_at = Looping \<rparr>"
  let ?P = "P\<lparr>pl_heap := h', pl_count := Suc ?n, pl_worker := (pl_worker P)(?n := ?w)\<rparr>"
  have e: "pool_enter p tid P = Inr ?P" by (simp add: pool_enter_def h'(1))
  have so: "sched_of ?P i = (if i = ?n then p else sched_of P i)" for i by (simp add: sched_of_def)
  have "worker_ok h' (pl_worker P i)" if i: "i < ?n" for i
  proof -
    have "sched_of P i \<in> A" using assms(1) i by (auto simp: pool_fresh_def)
    then have "sched_of P i \<noteq> p" using assms(3) by auto
    then have "worker_ok h' (pl_worker P i) = worker_ok (pl_heap P) (pl_worker P i)"
      using assms(1) i h'(2) by (intro worker_ok_cong) (auto simp: pool_fresh_def at_of_def sched_of_def)
    then show ?thesis using assms(1) i by (simp add: pool_fresh_def)
  qed
  moreover have "worker_ok h' ?w" using assms(2) h'(3) by (auto simp: worker_ok_def)
  moreover have "dom (fibers h') = insert p A"
    using h'(2,3) assms(1) by (auto simp: pool_fresh_def dom_def) (metis h'(2) mem_Collect_eq option.distinct(1))+
  moreover have "sched_of ?P ` {..<Suc ?n} = insert p A" "inj_on (sched_of ?P) {..<Suc ?n}"
    using assms(1,3) by (auto simp: pool_fresh_def so lessThan_Suc inj_on_def image_iff)
  ultimately have "pool_fresh ?P (insert p A)"
    using assms(1) by (auto simp: pool_fresh_def at_of_def less_Suc_eq)
  then show ?thesis using e by simp
qed

lemma init_fresh:
  assumes "distinct (map fst ids)" "nullptr \<notin> fst ` set ids"
  shows "\<exists>P. pool_init ids s = Inr P \<and> pool_fresh P (fst ` set ids) \<and> pl_count P = length ids"
  using assms
proof (induction ids)
  case (Cons x ids)
  then obtain P p tid where "x = (p, tid)" "pool_init ids s = Inr P" "pool_fresh P (fst ` set ids)" "pl_count P = length ids" by (cases x) auto
  with Cons.prems show ?case using enter_fresh [of P "fst ` set ids" p tid] by force
qed (simp add: pool_fresh_def)

lemma fresh_inv: "pool_fresh P A \<Longrightarrow> pool_inv P"
proof -
  assume f: "pool_fresh P A"
  then have "\<not> is_fiber_task P p" for p
    by (auto simp: pool_fresh_def is_fiber_task_def)
  then show ?thesis using f by (auto simp: pool_fresh_def pool_inv_def inj_on_def queued_def)
qed

text \<open>
  C10. No two threads run one fiber. Any number of threads run the scheduler's loop over one queue, in any interleaving,
  with yields cut between the assignment of the state and the switch. When a fiber is scheduled only while it is neither
  queued nor held by a thread, or at any time when there is only one thread, no fiber is ever
  on two threads, the thread that runs a fiber has it as its current fiber, every other fiber has
  the context that resumes it where it stopped and is not marked as executing, and no assertion fails.
\<close>

theorem fibers_exclusive:
  assumes "distinct (map fst ids)" "nullptr \<notin> fst ` set ids" "pool_init ids s = Inr P0" "runs pool_guard pool_exec as P0 P"
  shows "(\<forall>i < pl_count P. \<forall>j < pl_count P. \<forall>p. held (at_of P i) = Some p \<and> held (at_of P j) = Some p \<longrightarrow> i = j) \<and>
    (\<forall>i < pl_count P. \<forall>p. runs_on (at_of P i) = Some p \<longrightarrow> running (wk_tls (pl_worker P i)) = p \<and> t_fiber (wk_tls (pl_worker P i)) = p) \<and>
    (\<forall>p f. is_fiber_task P p \<and> fibers (pl_heap P) p = Some f \<and> (\<forall>i < pl_count P. runs_on (at_of P i) \<noteq> Some p) \<longrightarrow> own_ctx p f \<and> fb_state f \<noteq> EXEC) \<and>
    (\<forall>a. pool_guard a P \<longrightarrow> (\<exists>P'. pool_exec a P = Inr P'))"
proof -
  have "pool_inv P0" using init_fresh [OF assms(1,2), of s] assms(3) fresh_inv by auto
  then have inv: "pool_inv P" using pools.run_inv [OF assms(4)] by simp
  show ?thesis
  proof (intro conjI allI impI)
    fix i j p assume "i < pl_count P" "j < pl_count P" "held (at_of P i) = Some p \<and> held (at_of P j) = Some p"
    then show "i = j" using pool_invD(3) [OF inv] by blast
  next
    fix p f assume "is_fiber_task P p \<and> fibers (pl_heap P) p = Some f \<and> (\<forall>i < pl_count P. runs_on (at_of P i) \<noteq> Some p)"
    then have "task_rests (pl_heap P) p" "fibers (pl_heap P) p = Some f" using inv unfolding pool_inv_def by blast+
    then show "own_ctx p f" "fb_state f \<noteq> EXEC" by (simp_all add: task_rests_def)
  next
    fix a assume "pool_guard a P"
    then show "\<exists>P'. pool_exec a P = Inr P'" using pool_step [OF inv] by blast
  qed (use pool_inside(1,2) [OF inv] in blast)+
qed

lemmas pool_eval = pool_enter_def Fiber_GetThis_def tls0_def Fiber_ctor_main_def SetThis_def Fiber_ctor_def is_fiber_task_def sched_of_def at_of_def
  queued_def schedule_def scheduleNoLock_def FT_fiber_def run_pick_def live_def set_at_def with_held_def run_decide_def swapIn_def swapcontext_def
  upd_fiber_def resume_def set_world_def Yield_mark_def swapOut_def run_after_fiber_def demo_sys_def

theorem fibers_exclusive_witness:
  "\<exists>P0 P. pool_init [(3, 5), (4, 6)] (sy_sched demo_sys) = Inr P0 \<and>
     runs pool_guard pool_exec [P_new 10 100 0 (Some 7), P_schedule 10, P_pick 0, P_run 0, P_mark 0 HOLD, P_switch 0, P_after 0,
       P_schedule 10, P_pick 1, P_run 1] P0 P \<and>
     runs_on (at_of P 1) = Some 10 \<and> running (wk_tls (pl_worker P 1)) = 10 \<and> held (at_of P 0) \<noteq> Some 10"
proof -
  let ?as = "[P_new 10 100 0 (Some 7), P_schedule 10, P_pick 0, P_run 0, P_mark 0 HOLD, P_switch 0, P_after 0, P_schedule 10, P_pick 1, P_run 1]"
  have "\<exists>P0 P. pool_init [(3, 5), (4, 6)] (sy_sched demo_sys) = Inr P0 \<and> runs pool_guard pool_exec ?as P0 P \<and>
      runs_on (at_of P 1) = Some 10 \<and> pl_count P = 2"
    by (simp add: pool_eval del: rbind_eq_Inr qlc_assert_eq_Inr)
  then obtain P0 P where P: "pool_init [(3, 5), (4, 6)] (sy_sched demo_sys) = Inr P0" "runs pool_guard pool_exec ?as P0 P"
      "runs_on (at_of P 1) = Some 10" "pl_count P = 2" by blast
  from fibers_exclusive [OF _ _ P(1,2)] have
    "\<forall>i < 2. \<forall>j < 2. \<forall>p. held (at_of P i) = Some p \<and> held (at_of P j) = Some p \<longrightarrow> i = j"
    "\<forall>i < 2. \<forall>p. runs_on (at_of P i) = Some p \<longrightarrow> running (wk_tls (pl_worker P i)) = p"
    using P(4) by auto
  then have "running (wk_tls (pl_worker P 1)) = 10" "held (at_of P 0) \<noteq> Some 10"
    using P(3) runs_held [OF P(3)] by (auto simp: numeral_2_eq_2 All_less_Suc)
  with P show ?thesis by blast
qed

subsection \<open>A fiber that is scheduled too early\<close>

text \<open>
  The condition on scheduling is needed. With two threads, a fiber that is scheduled while it runs and then yields is
  on both threads: the first has set its state and not yet switched, the second has resumed it.
\<close>

theorem early_schedule:
  "\<exists>P0 P. pool_init [(3, 5), (4, 6)] (sy_sched demo_sys) = Inr P0 \<and>
     runs (\<lambda>_ _. True) pool_exec [P_new 10 100 0 (Some 7), P_schedule 10, P_pick 0, P_run 0, P_schedule 10, P_mark 0 HOLD, P_pick 1, P_run 1] P0 P \<and>
     runs_on (at_of P 0) = Some 10 \<and> runs_on (at_of P 1) = Some 10"
  by (simp add: pool_eval del: rbind_eq_Inr qlc_assert_eq_Inr)

text \<open>
  When the event of a call arrives before the fiber has switched, the fiber is queued while it still runs. From
  the assignment of the state on, another thread takes it and resumes the context of its last
  switch: two threads run on one stack.
\<close>

theorem yield_window:
  assumes "t_fiber t = cur" "cur \<noteq> nullptr" "fibers h cur = Some f" "fb_ctx f \<in> {Resume cur, Entry MainFunc_entry cur}"
    and "Yield_mark HOLD fresh (t, h) = Inr ((t1, h1), cur')" "running t = cur"
    and "m_fibers s = FT_fiber cur (- 1) # fts" "fibers h (t_schedular_fiber t') = Some g" "t_schedular_fiber t' \<noteq> cur"
  shows "cur' = cur \<and> running t1 = cur \<and>
    (\<exists>s' tick t2 h2. run_pick h1 tid s = Inr (s', FT_fiber cur (- 1), True, tick) \<and>
       swapIn cur (t', h1) = Inr (t2, h2) \<and> running t2 = cur)"
proof -
  have h1: "cur' = cur" "t1 = t" "h1 = upd_fiber cur (\<lambda>f. f\<lparr>fb_state := HOLD\<rparr>) h"
    using assms(1,2,5) by (auto simp: Yield_mark_def Fiber_GetThis_def)
  have f: "fibers h1 cur = Some (f\<lparr>fb_state := HOLD\<rparr>)" "fibers h1 (t_schedular_fiber t') = Some g"
    using assms(3,8,9) h1(3) by (auto simp: upd_fiber_def)
  have "\<exists>s' tick. run_pick h1 tid s = Inr (s', FT_fiber cur (- 1), True, tick)"
    using assms(2,7) f by (auto simp: run_pick_def FT_fiber_def live_def Let_def)
  moreover have "\<exists>t2 h2. swapIn cur (t', h1) = Inr (t2, h2) \<and> running t2 = cur"
    using f assms(4,9) by (auto simp: swapIn_def live_def swapcontext_def upd_fiber_def resume_def SetThis_def Let_def)
  ultimately show ?thesis using h1 assms(6) by blast
qed

text \<open>
  The other side: a fiber that yielded was queued and is running on another thread when the thread it
  left comes back from its switch. That thread writes HOLD over the state of the running fiber, and a
  fiber queued once more is taken although it runs.
\<close>

theorem late_hold:
  assumes "fibers h p = Some f" "fb_state f = EXEC" "p \<noteq> nullptr" "m_fibers s = FT_fiber p (- 1) # fts"
  shows "(\<exists>s0 tick0. run_pick h tid (s\<lparr>m_fibers := [FT_fiber p (- 1)]\<rparr>) = Inr (s0, FT_reset, False, tick0)) \<and>
    (\<exists>s1 h1 s2 tick. run_after_fiber (FT_fiber p thr) (s, h) = Inr (s1, h1, False) \<and> has_state h1 p {HOLD} \<and>
      run_pick h1 tid s1 = Inr (s2, FT_fiber p (- 1), True, tick))"
  using assms by (auto simp: run_after_fiber_def run_pick_def FT_reset_def FT_fiber_def live_def upd_fiber_def has_state_def Let_def)

end
