(* ===== verification/Fiber_Stacks.thy ===== *)
theory Fiber_Stacks
  imports Fiber Config
begin

section \<open>The stacks of fibers\<close>

text \<open>
  The stack allocator of \<open>fiber.cpp\<close> and the configuration variable for the size: the operations of a thread on its
  fibers with the memory they allocate and free. Every stack belongs to one live fiber and is freed with it.
\<close>

subsection \<open>Allocation\<close>

text \<open>The blocks that are allocated; \<open>p\<close> is what \<open>malloc\<close> returns, null when it fails.\<close>

definition StackAllocator_alloc :: "ptr \<Rightarrow> ptr set \<Rightarrow> ptr \<times> ptr set" where
  "StackAllocator_alloc p A = (p, if p = nullptr then A else insert p A)"

definition StackAllocator_Dealloc :: "ptr \<Rightarrow> ptr set \<Rightarrow> ptr set res" where
  "StackAllocator_Dealloc p A =
     (if p = nullptr then Inr A else if p \<in> A then Inr (A - {p}) else Inl (Undefined ''free''))"

text \<open>The constructor and the destructor with their memory.\<close>

definition new_Fiber ::
  "ptr \<Rightarrow> ptr \<Rightarrow> u32 \<Rightarrow> 'cb option \<Rightarrow> u64 \<Rightarrow> bool \<Rightarrow> 'cb fiber_heap \<times> ptr set \<Rightarrow> 'cb fiber_heap \<times> ptr set" where
  "new_Fiber this mem cfg cb stack_size use_caller = (\<lambda>(h, A).
     let (stack, A) = StackAllocator_alloc mem A in (Fiber_ctor this stack cfg cb stack_size use_caller h, A))"

definition delete_Fiber :: "ptr \<Rightarrow> 'cb fiber_world \<times> ptr set \<Rightarrow> ('cb fiber_world \<times> ptr set) res" where
  "delete_Fiber this = (\<lambda>(w, A).
     rbind (live (snd w) this) (\<lambda>f.
     rbind (Fiber_dtor this w) (\<lambda>w'.
       if fb_stack f \<noteq> nullptr then rbind (StackAllocator_Dealloc (fb_stack f) A) (\<lambda>A. Inr (w', A)) else Inr (w', A))))"

text \<open>The operations of a thread, as in \<open>Fiber\<close>, over the heap and the allocated blocks.\<close>

fun mem_exec :: "'cb fiber_op \<Rightarrow> 'cb fiber_world \<times> ptr set \<Rightarrow> ('cb fiber_world \<times> ptr set) res" where
  "mem_exec (Op_new this mem cfg cb sz) ((t, h), A) = (let (h, A) = new_Fiber this mem cfg cb sz False (h, A) in Inr ((t, h), A))"
| "mem_exec (Op_delete p) (w, A) = delete_Fiber p (w, A)"
| "mem_exec op (w, A) = rbind (fiber_exec op w) (\<lambda>w. Inr (w, A))"

text \<open>\<open>malloc\<close> returns a block that is not in use.\<close>

fun mem_guard :: "'cb fiber_op \<Rightarrow> 'cb fiber_world \<times> ptr set \<Rightarrow> bool" where
  "mem_guard (Op_new this mem cfg cb sz) (w, A) \<longleftrightarrow> fiber_guard (Op_new this mem cfg cb sz) w \<and> mem \<notin> A"
| "mem_guard op (w, A) \<longleftrightarrow> fiber_guard op w"

definition stack_of :: "'cb fiber_heap \<Rightarrow> ptr \<Rightarrow> ptr option" where
  "stack_of h p = (case fibers h p of None \<Rightarrow> None | Some f \<Rightarrow> if fb_stack f = nullptr then None else Some (fb_stack f))"

definition mem_inv :: "'cb fiber_world \<times> ptr set \<Rightarrow> bool" where
  "mem_inv = (\<lambda>(w, A). fiber_inv w \<and> ran (stack_of (snd w)) = A \<and> inj_on (stack_of (snd w)) (dom (stack_of (snd w))))"

subsection \<open>Every operation keeps stacks and fibers together\<close>

lemma stack_of_upd: "(\<And>f. fb_stack (g f) = fb_stack f) \<Longrightarrow> stack_of (upd_fiber p g h) = stack_of h"
  by (rule ext) (simp add: stack_of_def fibers_upd_fiber option.case_eq_if map_option_case)

lemma swapcontext_stacks: "swapcontext here from to (t, h) = Inr (t', h') \<Longrightarrow> stack_of h' = stack_of h"
  by (auto simp: swapcontext_def Let_def stack_of_upd)

lemma run_callback_stacks: "run_callback p out h = Inr h' \<Longrightarrow> stack_of h' = stack_of h"
proof (cases "fibers h p")
  case (Some f)
  assume "run_callback p out h = Inr h'"
  then show ?thesis using Some by (cases "call_outcome f out") (auto simp: run_callback_def live_def stack_of_upd)
qed (simp add: run_callback_def live_def)

lemma switch_stacks:
  "swapIn p (t, h) = Inr (t', h') \<Longrightarrow> stack_of h' = stack_of h"
  "swapOut here p (t, h) = Inr (t', h') \<Longrightarrow> stack_of h' = stack_of h"
  "Fiber_back here p (t, h) = Inr (t', h') \<Longrightarrow> stack_of h' = stack_of h"
  "Fiber_call p (t, h) = Inr (t', h') \<Longrightarrow> stack_of h' = stack_of h"
  by (auto simp: swapIn_def swapOut_def Fiber_back_def Fiber_call_def Let_def stack_of_upd dest!: swapcontext_stacks)

lemma yield_stacks:
  assumes "fiber_inv (t, h)" "YieldToReady nullptr (t, h) = Inr (t', h') \<or> YieldToHold nullptr (t, h) = Inr (t', h')"
  shows "stack_of h' = stack_of h"
  using assms GetThis_running [OF assms(1)]
  by (auto simp: YieldToReady_def YieldToHold_def stack_of_upd dest!: switch_stacks(2))

lemma exec_stacks:
  assumes "fiber_inv (t, h)" "fiber_exec op (t, h) = Inr (t', h')" "\<And>p m c cb sz. op \<noteq> Op_new p m c cb sz" "\<And>p. op \<noteq> Op_delete p"
  shows "stack_of h' = stack_of h"
proof (cases op)
  case (Op_reset p cb)
  then show ?thesis using assms(2) by (auto simp: Fiber_reset_def stack_of_upd)
next
  case (Op_swapIn p)
  then show ?thesis using assms(2) switch_stacks(1) by simp
next
  case (Op_finish out)
  then show ?thesis using assms(2) by (auto simp: MainFunc_def dest!: switch_stacks(2) run_callback_stacks)
next
  case Op_call_root
  then show ?thesis using assms(2) switch_stacks(4) by simp
next
  case (Op_root_finish out)
  then show ?thesis using assms(2) by (auto simp: CallerMainFunc_def dest!: switch_stacks(3) run_callback_stacks)
qed (use assms yield_stacks [OF assms(1)] in auto)

lemma mem_step:
  assumes "mem_inv wA" "mem_guard op wA"
  shows "\<exists>wA'. mem_exec op wA = Inr wA' \<and> mem_inv wA'"
proof -
  obtain t h A where w: "wA = ((t, h), A)" by (metis prod.exhaust)
  have i: "fiber_inv (t, h)" "ran (stack_of h) = A" "inj_on (stack_of h) (dom (stack_of h))" using assms(1) by (auto simp: mem_inv_def w)
  consider (new) p m c cb sz where "op = Op_new p m c cb sz" | (delete) p where "op = Op_delete p"
    | (other) "\<And>p m c cb sz. op \<noteq> Op_new p m c cb sz" "\<And>p. op \<noteq> Op_delete p" by metis
  then show ?thesis
  proof cases
    case new
    then have g: "fiber_guard op (t, h)" "m \<notin> A" "m \<noteq> nullptr" "fibers h p = None" using assms(2) by (auto simp: w)
    let ?h = "Fiber_ctor p m c cb sz False h"
    have s: "stack_of ?h = (stack_of h)(p \<mapsto> m)" using g(3) by (auto simp: stack_of_def Fiber_ctor_def fun_eq_iff)
    have n: "stack_of h p = None" using g(4) by (simp add: stack_of_def)
    have "fiber_inv (t, ?h)" using inv_new [OF i(1)] g(1) new by simp
    moreover have "ran ((stack_of h)(p \<mapsto> m)) = insert m A" using n i(2) by simp
    moreover have "inj_on ((stack_of h)(p \<mapsto> m)) (dom ((stack_of h)(p \<mapsto> m)))"
      using i(2,3) g(2) n by (auto simp: inj_on_def ran_def dom_def)
    ultimately have "mem_inv ((t, ?h), insert m A)" by (simp add: mem_inv_def s)
    then show ?thesis using g(3) by (simp add: w new new_Fiber_def StackAllocator_alloc_def)
  next
    case delete
    then have g: "fiber_guard (Op_delete p) (t, h)" using assms(2) by (simp add: w)
    obtain f where f: "fibers h p = Some f" "fb_stack f \<noteq> nullptr"
      using g i(1) by (auto simp: fiber_inv_def has_state_def)
    let ?h = "h\<lparr>s_fiber_count := s_fiber_count h - 1, fibers := (fibers h)(p := None)\<rparr>"
    have d: "Fiber_dtor p (t, h) = Inr (t, ?h)" "fiber_inv (t, ?h)"
      using delete_ok [OF i(1) g] f by (auto simp: Fiber_dtor_def live_def Let_def)
    have m: "stack_of h p = Some (fb_stack f)" using f by (simp add: stack_of_def)
    then have mA: "fb_stack f \<in> A" using i(2) by (auto simp: ran_def)
    have s: "stack_of ?h = (stack_of h)(p := None)" by (auto simp: stack_of_def fun_eq_iff)
    have "ran ((stack_of h)(p := None)) = A - {fb_stack f}"
      using i(2,3) m by (auto simp: ran_def inj_on_def dom_def; metis option.inject)
    moreover have "inj_on ((stack_of h)(p := None)) (dom ((stack_of h)(p := None)))" using i(3) by (auto simp: inj_on_def dom_def)
    ultimately have "mem_inv ((t, ?h), A - {fb_stack f})" using d(2) by (simp add: mem_inv_def s)
    then show ?thesis using f d(1) mA by (simp add: w delete delete_Fiber_def live_def StackAllocator_Dealloc_def)
  next
    case other
    then have e: "mem_exec op wA = rbind (fiber_exec op (t, h)) (\<lambda>w. Inr (w, A))" "fiber_guard op (t, h)"
      using assms(2) by (cases op; simp add: w)+
    obtain t' h' where x: "fiber_exec op (t, h) = Inr (t', h')" "fiber_inv (t', h')" using fiber_exec_ok [OF i(1) e(2)] by auto
    have "stack_of h' = stack_of h" by (rule exec_stacks [OF i(1) x(1) other])
    then have "mem_inv ((t', h'), A)" using x(2) i by (simp add: mem_inv_def)
    then show ?thesis using e(1) x(1) by simp
  qed
qed

interpretation mem: guarded_system mem_guard mem_exec mem_inv
  by unfold_locales (rule mem_step)

text \<open>A thread and its memory from the start: no block on a worker thread, the root fiber's on the caller's.\<close>

inductive mem_reach :: "'cb fiber_world \<times> ptr set \<Rightarrow> bool" where
  worker: "\<lbrakk> p \<noteq> nullptr; fibers h = Map.empty; Fiber_GetThis p (tls0 p, h) = Inr ((t, h'), q) \<rbrakk> \<Longrightarrow>
    mem_reach ((t\<lparr>t_schedular_fiber := q\<rparr>, h'), {})"
| caller: "\<lbrakk> p \<noteq> nullptr; fibers h = Map.empty; Fiber_GetThis p (tls0 p, h) = Inr ((t, h'), q);
      root \<noteq> nullptr; root \<noteq> p; m \<noteq> nullptr; new_Fiber root m cfg cb 0 True (h', {}) = (h2, A) \<rbrakk> \<Longrightarrow>
    mem_reach ((t\<lparr>t_schedular_fiber := root\<rparr>, h2), A)"
| step: "\<lbrakk> mem_reach wA; mem_guard op wA; mem_exec op wA = Inr wA' \<rbrakk> \<Longrightarrow> mem_reach wA'"

lemma main_stack:
  assumes "p \<noteq> nullptr" "fibers h = Map.empty" "Fiber_GetThis p (tls0 p, h) = Inr ((t, h'), q)"
  shows "stack_of h' = Map.empty"
  using assms by (auto simp: Fiber_GetThis_def tls0_def Fiber_ctor_main_def SetThis_def stack_of_def fun_eq_iff split: if_splits)

lemma mem_reach_inv: "mem_reach wA \<Longrightarrow> mem_inv wA"
proof (induction rule: mem_reach.induct)
  case (worker p h t h' q)
  then have "fiber_inv (t\<lparr>t_schedular_fiber := q\<rparr>, h')" by (intro fiber_reach_inv fiber_reach.worker)
  then show ?case using main_stack [OF worker] by (simp add: mem_inv_def)
next
  case (caller p h t h' q root m cfg cb h2 A)
  have e: "h2 = Fiber_ctor root m cfg cb 0 True h'" "A = {m}" using caller(6,7) by (auto simp: new_Fiber_def StackAllocator_alloc_def)
  have "fiber_inv (t\<lparr>t_schedular_fiber := root\<rparr>, h2)" unfolding e using caller by (intro fiber_reach_inv fiber_reach.caller)
  moreover have "stack_of h2 = [root \<mapsto> m]"
    using main_stack [OF caller(1-3)] caller(6) by (auto simp: e stack_of_def Fiber_ctor_def fun_eq_iff)
  ultimately show ?case by (simp add: mem_inv_def e(2))
next
  case (step wA op wA')
  then show ?case using mem_step by fastforce
qed

lemma ran_stack_of: "ran (stack_of h) = {fb_stack f | p f. fibers h p = Some f \<and> fb_stack f \<noteq> nullptr}"
proof -
  have "stack_of h p = Some m \<longleftrightarrow> (\<exists>f. fibers h p = Some f \<and> fb_stack f \<noteq> nullptr \<and> m = fb_stack f)" for p m
    by (cases "fibers h p") (auto simp: stack_of_def)
  then show ?thesis unfolding ran_def by blast
qed

text \<open>
  C12. At every moment the allocated stacks are exactly the stacks of the fibers that exist: none leaks
  when a fiber is destroyed, and no fiber has a stack that was freed. No two fibers share a stack.
  And every next operation of the thread succeeds: destroying a fiber never frees a block that is not allocated.
\<close>

theorem stacks_match_fibers:
  assumes "mem_reach ((t, h), A)"
  shows "A = {fb_stack f | p f. fibers h p = Some f \<and> fb_stack f \<noteq> nullptr} \<and>
    (\<forall>p f q g. fibers h p = Some f \<and> fibers h q = Some g \<and> p \<noteq> q \<and> fb_stack f \<noteq> nullptr \<longrightarrow> fb_stack f \<noteq> fb_stack g) \<and>
    (\<forall>op. mem_guard op ((t, h), A) \<longrightarrow> (\<exists>wA. mem_exec op ((t, h), A) = Inr wA \<and> mem_reach wA))"
proof (intro conjI allI impI)
  have i: "mem_inv ((t, h), A)" by (rule mem_reach_inv [OF assms])
  then show "A = {fb_stack f | p f. fibers h p = Some f \<and> fb_stack f \<noteq> nullptr}" by (simp add: mem_inv_def ran_stack_of)
  show "fb_stack f \<noteq> fb_stack g"
    if a: "fibers h p = Some f \<and> fibers h q = Some g \<and> p \<noteq> q \<and> fb_stack f \<noteq> nullptr" for p f q g
  proof
    assume "fb_stack f = fb_stack g"
    then have "stack_of h p = Some (fb_stack f)" "stack_of h q = stack_of h p" using a by (simp_all add: stack_of_def)
    then show False using i a by (auto simp: mem_inv_def inj_on_def dom_def)
  qed
  show "\<exists>wA. mem_exec op ((t, h), A) = Inr wA \<and> mem_reach wA" if "mem_guard op ((t, h), A)" for op
    using mem_step [OF i that] mem_reach.step [OF assms that] by blast
qed

theorem stacks_match_fibers_witness:
  "\<exists>w. mem_exec (Op_new 2 100 131072 (Some 7) 0) (demo_world, {}) = Inr (w, {100}) \<and> mem_reach (w, {100}) \<and>
     mem_exec (Op_delete 2) (w, {100}) = Inr ((fst w, (snd demo_world)\<lparr>s_fiber_id := 1\<rparr>), {})"
proof -
  let ?t = "fst demo_world" and ?h = "Fiber_ctor 2 100 131072 (Some 7) 0 False (snd demo_world)"
  have r: "mem_reach ((fst demo_world, snd demo_world), {})"
    using mem_reach.worker [of 1 "\<lparr> fibers = Map.empty, s_fiber_id = 0, s_fiber_count = 0 \<rparr>"]
    by (simp add: Fiber_GetThis_def tls0_def Fiber_ctor_main_def SetThis_def demo_world_def)
  have n: "mem_exec (Op_new 2 100 131072 (Some 7) 0) (demo_world, {}) = Inr ((?t, ?h), {100})"
    by (simp add: demo_world_def new_Fiber_def StackAllocator_alloc_def)
  have g: "mem_guard (Op_new 2 100 131072 (Some 7) 0) ((?t, snd demo_world), {})" by (simp add: demo_world_def)
  have m: "mem_reach ((?t, ?h), {100})"
    using stacks_match_fibers [OF r, THEN conjunct2, THEN conjunct2, rule_format, OF g] n by simp
  have "mem_exec (Op_delete 2) ((?t, ?h), {100}) = Inr ((?t, (snd demo_world)\<lparr>s_fiber_id := 1\<rparr>), {})"
    by (simp add: delete_Fiber_def Fiber_dtor_def Fiber_ctor_def live_def StackAllocator_Dealloc_def demo_world_def fun_upd_idem)
  then show ?thesis using n m by auto
qed

subsection \<open>What the constructor does not test\<close>

text \<open>
  The result of the allocation is used as it is. A fiber whose allocation failed has no stack; it
  is then destroyed as if it were a thread's main fiber, which aborts.
\<close>

theorem alloc_failure_aborts:
  assumes "new_Fiber p nullptr cfg (Some cb) sz use_caller (h, A) = (h', A')"
  shows "A' = A" "delete_Fiber p ((t, h'), A') = Inl (Assertion ''!m_cb'')"
  using assms by (auto simp: new_Fiber_def StackAllocator_alloc_def delete_Fiber_def Fiber_dtor_def Fiber_ctor_def live_def)

subsection \<open>The configured size\<close>

text \<open>The variable of \<open>fiber.cpp\<close>, made before \<open>main\<close>, with a default of 128 KiB.\<close>

definition g_fiber_stack_size :: "u32 config_type \<Rightarrow> (u32, 'w) config_map \<Rightarrow> ((u32, 'w) config_map \<times> string option) res" where
  "g_fiber_stack_size ty D = Config_Lookup ty ''fiber.stack_size'' (128 * 1024) ''fiber stack size'' D"

lemma size_kept: "ucast (ucast (c :: u32) :: u64) = c"
  by (rule bit_word_eqI) (auto simp: bit_unsigned_iff bit_imp_le_length)

text \<open>
  A fiber made with no size has the variable's value: the default until the variable is set, then
  the new value. A fiber keeps the size it was made with. A size that is given is cut to 32 bits.
\<close>

theorem configured_stack_size:
  assumes "g_fiber_stack_size ty Map.empty = Inr (D, key)"
  obtains cv where "key = Some ''fiber.stack_size''" "D ''fiber.stack_size'' = Some cv" "cv_val cv = 131072"
    "\<And>h A. map_option fb_stacksize (fibers (fst (new_Fiber p m (cv_val cv) cb 0 b (h, A))) p) = Some 131072"
    "\<And>v w cv' w' exn h A. ct_eq ty = (=) \<Longrightarrow> ConfigVar_setValue v (cv, w) = Inr (cv', w', exn) \<Longrightarrow>
       exn = None \<and> map_option fb_stacksize (fibers (fst (new_Fiber p m (cv_val cv') cb 0 b (h, A))) p) = Some v"
    "\<And>sz cfg h A. sz \<noteq> 0 \<Longrightarrow>
       map_option (unat \<circ> fb_stacksize) (fibers (fst (new_Fiber p m cfg cb sz b (h, A))) p) = Some (unat sz mod 2 ^ 32)"
proof
  let ?cv = "ConfigVar_ctor ty ''fiber.stack_size'' 131072 ''fiber stack size''"
  have "D = [''fiber.stack_size'' \<mapsto> ?cv] \<and> key = Some ''fiber.stack_size''"
    using assms by (auto simp: g_fiber_stack_size_def Config_Lookup_def split: if_splits)
  then show "key = Some ''fiber.stack_size''" "D ''fiber.stack_size'' = Some ?cv" "cv_val ?cv = 131072"
    by (auto simp: ConfigVar_ctor_def)
  show "map_option fb_stacksize (fibers (fst (new_Fiber p m (cv_val ?cv) cb 0 b (h, A))) p) = Some 131072" for h A
    by (simp add: new_Fiber_def StackAllocator_alloc_def Fiber_ctor_def ConfigVar_ctor_def)
  show "exn = None \<and> map_option fb_stacksize (fibers (fst (new_Fiber p m (cv_val cv') cb 0 b (h, A))) p) = Some v"
    if "ct_eq ty = (=)" "ConfigVar_setValue v (?cv, w) = Inr (cv', w', exn)" for v w cv' w' exn h A
    using that by (auto simp: new_Fiber_def StackAllocator_alloc_def Fiber_ctor_def ConfigVar_ctor_def ConfigVar_setValue_def
        size_kept split: if_splits)
  show "map_option (unat \<circ> fb_stacksize) (fibers (fst (new_Fiber p m cfg cb sz b (h, A))) p) = Some (unat sz mod 2 ^ 32)"
    if "sz \<noteq> 0" for sz cfg h A
    using that by (simp add: new_Fiber_def StackAllocator_alloc_def Fiber_ctor_def unsigned_ucast_eq take_bit_eq_mod)
qed

end
