(* ===== verification/Spec2Isabelle.thy ===== *)
theory Spec2Isabelle
  imports Socket Log_Config Thread Util Runtime_Live Lifecycle Config_Conc Fiber_Threads Fiber_Stacks
begin

text \<open>
  QWebServer is a C++ library for network servers: user-level fibers that a scheduler runs on a pool
  of threads, an I/O manager that parks fibers on epoll and on timers, hooks that turn blocking
  system calls into such waits, sockets and addresses on top, and a logging and a configuration
  system beside them. The sources are under src/src and src/include.

  \<^bold>\<open>Parts and theories.\<close> Each theory models one part; its definitions have the names of the C++
  functions, prefixed by the class where several classes have the same one.

  \<^item> \<open>Prelude\<close>: machine integers as words, pointers as numbers with 0 for a null pointer, the ways an
    operation fails (an assertion, undefined behaviour, an exception) as the left side of a sum, and
    \<open>std::set\<close> as a sorted list with its laws in the locales \<open>comparator\<close> and \<open>total_comparator\<close>. The locale
    \<open>guarded_system\<close> is a system of guarded actions whose every allowed action succeeds and keeps an
    invariant; it is interpreted on the fibers of a thread, on fibers with their stacks, on the threads of a
    scheduler and on the runtime.
    \<open>Text\<close>: numbers and texts printed and read, used by the addresses, the logs and the utilities.
  \<^item> \<open>Timer\<close> (timer.cpp): timers as objects in a heap, the manager with its ordered set; the clock is an
    argument. The set stays ordered, expired callbacks are exactly those due, the operations refine a
    map of live timers, and no wake-up is missed.
  \<^item> \<open>Fiber\<close> (fiber.cpp): fibers with their saved contexts, per-thread pointers; a step relation for the
    scheduler's discipline, under which no assertion fails and contexts return to where they left.
  \<^item> \<open>Schedular\<close> (schedular.cpp): the queue and the counters; the loop of \<open>run\<close> cut at its critical
    sections, threads interleaved by a step relation.
  \<^item> \<open>Fiber_Threads\<close> (schedular.cpp, fiber.cpp): fibers on several worker threads over one heap and one queue, with a
    yield cut between the assignment of the state and the switch. No two threads run one fiber when fibers are
    scheduled only while no thread holds them; what goes wrong otherwise.
  \<^item> \<open>Fiber_Stacks\<close> (fiber.cpp): the stacks the fibers allocate and free, and their configured size.
  \<^item> \<open>IOManager\<close> (iomanager.cpp): the table of descriptor contexts, the event operations, one round of
    \<open>idle\<close>, the stopping test and the timeout of \<open>epoll_wait\<close>; what \<open>epoll_ctl\<close> and \<open>epoll_wait\<close> return
    are arguments.
  \<^item> \<open>Fd_Manager\<close> (fd_manager.cpp): descriptor contexts over the kernel's modes and flags. The locale
    \<open>fd_contexts\<close> is what the hooks and the sockets rely on; it is interpreted on \<open>FdManager_get\<close>.
  \<^item> \<open>Hook\<close> (hook.cpp): the hooked calls. A blocking call is a function of a script, the list of the
    environment's answers (results of the system call, of \<open>addEvent\<close>, what a resumed fiber finds), to
    its result and the list of its actions, or \<open>None\<close> when the script ends before it returns. The
    retry loop is equivalent to a grammar of rounds and ends; the sleeping calls are composed with the
    timers, the timeouts with the I/O manager.
  \<^item> \<open>Runtime\<close>, \<open>Runtime_Inv\<close>, \<open>Runtime_Live\<close> (hook.cpp, iomanager.cpp, schedular.cpp, timer.cpp together): the
    queue, the event table, the timers and the calls in progress as one transition system. An action is a
    section of the code under one lock or local to the running fiber, and actions happen in any order. No
    suspended fiber is lost or queued twice, no action goes wrong, a wait with a timeout ends, and a
    round of \<open>idle\<close> is a run of actions.
  \<^item> \<open>Epoll\<close> (iomanager.cpp): the calls of \<open>epoll_ctl\<close> against the event table, under any sequence of operations.
  \<^item> \<open>Lifecycle\<close> (iomanager.cpp, schedular.cpp): constructor, \<open>stop\<close> and destructor of the I/O manager over the
    kernel's descriptors; the constructor leaves the initial states of \<open>Runtime\<close> and \<open>Epoll\<close>. Which
    I/O manager a thread finds.
  \<^item> \<open>Socket\<close> (socket.cpp): the class over the hooked calls; the system calls that are not hooked are the
    functions of the record \<open>sock_os\<close>. A step relation over all its operations gives the invariant.
  \<^item> \<open>Endian\<close>, \<open>Address\<close>, \<open>Address_Lookup\<close> (Endian.h, address.cpp): byte order, the address classes over
    their \<open>sockaddr\<close> structures byte by byte, the lookup functions over \<open>getaddrinfo\<close>, \<open>getifaddrs\<close> and
    \<open>inet_pton\<close> as parameters.
  \<^item> \<open>Log_Format\<close>, \<open>Log\<close> (qlc_log.cpp): the pattern parser on indices as it is written, with an
    equivalent reference reading and a printer; appenders over a file system and standard output,
    loggers as shared objects, the manager; a step relation over their operations.
  \<^item> \<open>Yaml\<close>, \<open>Config\<close>, \<open>Log_Config\<close> (config.h, config.cpp, the second half of qlc_log.cpp): yaml-cpp as a
    parameter with its documented laws, the container conversions, variables and listeners, the
    registry, loading a document, and the configuration of the loggers. \<open>Config_Conc\<close>: \<open>setValue\<close> and
    \<open>Lookup\<close> cut at their locks, shared by threads.
  \<^item> \<open>Mutex\<close>, \<open>Thread\<close> (mutex.h, mutex.cpp, thread.cpp): the lock classes with the locale \<open>lockable\<close> for
    what scoped locks rely on, interpreted on Mutex, Spinlock and CASLock; readers and writers; the
    start of a thread as the interleaving of its constructor and \<open>run\<close>.
  \<^item> \<open>Util\<close> (util.cpp, singleton.h): identifiers, stack traces, the clock, the static instances.

  \<^bold>\<open>How state and effects are modelled.\<close> Objects that several owners share (timers, fibers, loggers,
  appenders, descriptor contexts) live in a heap, a map from pointers; the address a new object gets is
  an argument or a counter. Everything else is passed and returned. A function that takes a lock in two
  steps is cut there, so that what another thread does in between can be stated. Inputs of the
  system (clock, results of system calls, random answers) are arguments.

  \<^bold>\<open>Bounds and fuel.\<close> The loops end by structure or by a measure. Only the forwarding of an event to the
  root logger has fuel: \<open>log_fuel\<close> is 2, and the invariant of the reachable states shows that no chain
  of loggers is longer, so that the fuel is never used up. Integers have their width in the source;
  where a conversion wraps, a theorem says for which values it does.

  \<^bold>\<open>What is shown.\<close> For every component with state an invariant of all reachable states (timer manager,
  fibers and their stacks, fibers on threads, scheduler counters, event table, descriptor table, sockets, loggers, configuration registry,
  locks, thread start), the behaviour of its operations on every branch, and the compositions: the
  runtime as a whole loses no fiber, a sleeping fiber's callback is handed out at its deadline, a
  timed-out call is put back on its scheduler's queue, an accepted connection is registered and rescheduled, a first configuration
  builds the loggers it defines. Where the code does not do what it means to, the theorem states what it does.

  \<^bold>\<open>Assumptions on the environment.\<close> The guards of the runtime's actions (\<open>rt_guard\<close>) say what is taken for
  granted: allocations return unused addresses, callers pass descriptors that are not negative and one
  of the two events, no two wait for one event of one descriptor, epoll reports events that are
  registered, and queued fibers are not destroyed. The theorems on misuse (\<open>iom_misuse\<close>,
  \<open>double_schedule_aborts\<close>, \<open>idle_event_fires\<close>) say what happens without them. In the runtime a fiber
  has left its thread when its event is handled. \<open>Fiber_Threads\<close> is about the moment before: there the
  assumption is the guard of scheduling (\<open>pool_guard\<close>), which holds for every use of one thread, and
  \<open>early_schedule\<close>, \<open>yield_window\<close> and \<open>late_hold\<close> show that with more threads it is needed.

  \<^bold>\<open>Not modelled.\<close> The bytes that I/O calls transfer (only their numbers matter here), the diagnostics
  printed by the error branches, the memory orders of atomics (steps are atomic), the machine code of
  \<open>swapcontext\<close>, the symbol tables \<open>dlsym\<close> searches (a parameter), the fairness of the operating system's
  scheduler, several I/O managers in one process that register events for each other. \<open>noncopyable.h\<close> and \<open>qlc.h\<close>
  hold declarations only; the programs under test and the files CMake generates hold no logic of the
  library.
\<close>

section \<open>A blocked call from its registration to its resumption\<close>

text \<open>What a waiting fiber leaves in the event table, and what a report of its event does.\<close>

lemma single_event_fires:
  assumes "iom_inv m" "valid_fd fd m" "event \<in> {EV_READ, EV_WRITE}"
    and "fc_events (m_fdContexts m ! nat fd) = event" "events \<in> {event, EPOLLERR, EPOLLHUP}"
  shows "idle_event 0 (events, Fd_ptr (nat fd)) m = Inr (fire fd event m)"
proof -
  let ?c = "m_fdContexts m ! nat fd"
  have fd: "int (nat fd) = fd" "nat fd < length (m_fdContexts m)" using assms(2) by (auto simp: valid_fd_def)
  have "valid_events event" using assms(3) by (auto simp: valid_events_def)
  then have real: "event = real_events events ?c"
    using real_events_error [of ?c events] assms(3,4,5) by (auto simp: real_events_def)
  have at: "armed_at fd event m" using assms(3,4) by (auto simp: armed_at_def armed_def)
  show ?thesis
    unfolding idle_event_eq [OF assms(1) fd(2) real] fd(1) assms(4)
    using assms(3) at trigger_if_fire [OF assms(1,2,3), of True] trigger_if_fire [OF assms(1,2), of EV_WRITE False]
      trigger_if_fire [OF assms(1,2), of EV_READ False]
    by (auto simp: trigger_if_def)
qed

lemma task_at_end:
  assumes "\<forall>it \<in> set (m_fibers s). task_ok h it \<and> \<not> runnable h tid it" "task_ok h ft" "runnable h tid ft"
  shows "\<exists>tick. run_pick h tid (s\<lparr>m_fibers := m_fibers s @ [ft]\<rparr>) =
    Inr (s\<lparr>m_activeThreadCount := m_activeThreadCount s + 1\<rparr>, ft, True, tick)"
  using assms by (simp add: run_pick_def pick_loop_skip pick_loop_take del: pick_loop.simps)

lemma waiting_task_runs:
  assumes "p \<noteq> nullptr" "has_state h p {HOLD, READY}"
  shows "task_ok h (FT_fiber p (- 1))" "runnable h tid (FT_fiber p (- 1))"
    "run_decide h (FT_fiber p (- 1)) True idle = Inr Run_fiber"
proof -
  obtain f where f: "fibers h p = Some f" "fb_state f \<in> {HOLD, READY}" using assms(2) by (auto simp: has_state_def)
  show "task_ok h (FT_fiber p (- 1))" "runnable h tid (FT_fiber p (- 1))"
    using f assms(1) by (auto simp: task_ok_def runnable_def elsewhere_def executing_def has_state_def FT_fiber_def)
  show "run_decide h (FT_fiber p (- 1)) True idle = Inr Run_fiber"
    using f assms(1) by (auto simp: FT_fiber_def run_decide_def live_def)
qed

text \<open>
  A blocked call ends its wait. The fiber of a hooked call registers for an event on a descriptor
  that has none and is suspended. When epoll reports the event, or an error or hang-up, and likewise
  when the call's timer fires, the fiber is appended to the queue of the scheduler it came from, the
  event is gone from the table, and a thread of that scheduler that finds nothing else to run takes the
  fiber and switches to it. The timeout additionally leaves its error for the fiber to find.
\<close>

theorem blocked_call_resumes:
  fixes m :: "'cb iomanager" and h :: "'cb fiber_heap"
  assumes "iom_inv m" "0 \<le> fd" "event \<in> {EV_READ, EV_WRITE}" "valid_fd fd m" "fc_events (m_fdContexts m ! nat fd) = 0"
    and "io_scheds m sched = Some s" "fiber \<noteq> nullptr" "events \<in> {event, EPOLLERR, EPOLLHUP}"
    and "has_state h fiber {HOLD, READY}" "\<forall>it \<in> set (m_fibers s). task_ok h it \<and> \<not> runnable h tid it"
  shows "\<exists>m1 m2 s2 tick. io_block_event 0 sched fiber fd event m = Inr (m1, 0) \<and>
    idle_event 0 (events, Fd_ptr (nat fd)) m1 = Inr m2 \<and> io_timeout_cb 0 fd event (Some 0) m1 = Inr (Some ETIMEDOUT, m2) \<and>
    iom_inv m2 \<and> \<not> armed_at fd event m2 \<and> io_scheds m2 sched = Some s2 \<and>
    run_pick h tid s2 =
      Inr (s\<lparr>m_activeThreadCount := m_activeThreadCount s + 1\<rparr>, FT_fiber fiber (- 1), True, tick) \<and>
    run_decide h (FT_fiber fiber (- 1)) True idle = Inr Run_fiber"
proof -
  have na: "\<not> armed_at fd event m" using assms(5) by (simp add: armed_at_def armed_def)
  have d: "sched \<in> dom (io_scheds m)" using assms(6) by auto
  obtain m1 where m1: "io_block_event 0 sched fiber fd event m = Inr (m1, 0)" "iom_inv m1" "valid_fd fd m1"
      "armed_at fd event m1" "fc_events (m_fdContexts m1 ! nat fd) = fc_events (m_fdContexts m ! nat fd) OR event"
      "io_timeout_cb 0 fd event (Some 0) m1 = Inr (Some ETIMEDOUT, fire fd event m1)"
      "io_scheds (fire fd event m1) = push_task sched (FT_fiber fiber (- 1)) (io_scheds m)"
    using io_block_fires [OF assms(1-4) na d assms(7)] by blast
  have ev: "fc_events (m_fdContexts m1 ! nat fd) = event" using m1(5) assms(5) by simp
  let ?m2 = "fire fd event m1"
  have m2: "iom_inv ?m2" "\<not> armed_at fd event ?m2"
    using fire_inv [OF m1(2,3) assms(3) m1(4)] armed_fire [OF m1(2,3)] assms(3) by auto
  let ?ft = "FT_fiber fiber (- 1) :: 'cb task"
  have q: "io_scheds ?m2 sched = Some (s\<lparr>m_fibers := m_fibers s @ [?ft]\<rparr>)"
    using m1(7) assms(6) by (simp add: push_task_def)
  note ft = waiting_task_runs [OF assms(7,9)]
  obtain tick where "run_pick h tid (s\<lparr>m_fibers := m_fibers s @ [?ft]\<rparr>) =
      Inr (s\<lparr>m_activeThreadCount := m_activeThreadCount s + 1\<rparr>, ?ft, True, tick)"
    using task_at_end [OF assms(10) ft(1,2)] by blast
  then show ?thesis
    using m1(1,6) m2 q ft(3) single_event_fires [OF m1(2,3) assms(3) ev assms(8)] by blast
qed

definition demo_fibers :: "nat fiber_heap" where
  "demo_fibers = \<lparr> fibers = [77 \<mapsto> \<lparr> fb_id = 1, fb_stacksize = 131072, fb_state = HOLD, fb_ctx = Resume 77,
     fb_stack = 1, fb_cb = None \<rparr>], s_fiber_id = 2, s_fiber_count = 1 \<rparr>"

theorem blocked_call_resumes_witness:
  "\<exists>m1 m2 s2 s3 tick. io_block_event 0 1 77 7 EV_READ demo_iom = Inr (m1, 0) \<and>
     idle_event 0 (EV_READ, Fd_ptr 7) m1 = Inr m2 \<and> io_scheds m2 1 = Some s2 \<and>
     run_pick demo_fibers 5 s2 = Inr (s3, FT_fiber 77 (- 1), True, tick)"
proof -
  have "valid_fd 7 demo_iom" "fc_events (m_fdContexts demo_iom ! nat 7) = 0" "io_scheds demo_iom 1 = Some demo_sched"
    "\<forall>it \<in> set (m_fibers demo_sched). task_ok demo_fibers it \<and> \<not> runnable demo_fibers 5 it"
    "has_state demo_fibers 77 {HOLD, READY}"
    by (simp_all add: demo_iom_def contextResize_def new_FdContext_def valid_fd_def demo_sched_def has_state_def
        demo_fibers_def)
  then show ?thesis
    using blocked_call_resumes [OF demo_iom_inv, of 7 EV_READ 1 demo_sched 77 EV_READ demo_fibers 5] by fastforce
qed

end
